(* ===== verification/Prelude.thy ===== *)
theory Prelude
  imports Main "HOL-Library.Word" "HOL-Library.Monad_Syntax"
begin

text \<open>
  Shared vocabulary of the development: the machine integers of the C code, the
  little-endian view that \<open>memcpy\<close> between \<open>uint8_t\<close> and \<open>uint32_t\<close> buffers gives on the
  supported (little-endian ARM) targets, the \<open>memcpy\<close>, \<open>memmove\<close> and \<open>memchr\<close> idioms on
  buffers held as lists, reads of the memory-mapped flash, and the lemmas on them that
  the components share.

  Conventions used in every theory: \<open>uint8_t\<close>, \<open>uint16_t\<close>, \<open>uint32_t\<close>, \<open>uint64_t\<close> are words of
  that width; \<open>uint_fast8_t\<close> and \<open>int_fast8_t\<close> are 32 bits wide on the ARM ABI, their
  values here are lengths and positions below 2^31 and are kept as \<open>nat\<close> or \<open>int\<close>;
  \<open>int\<close> return codes are \<open>int\<close>.
\<close>

unbundle bit_operations_syntax

type_synonym u8 = "8 word"
type_synonym u16 = "16 word"
type_synonym u32 = "32 word"
type_synonym u64 = "64 word"

text \<open>Collections: layout facts of the code's byte buffers, and unfoldings of the small
  definitions that component proofs open together.\<close>

named_theorems layout
named_theorems code_unfolds

lemma bit_u8_beyond [simp]: "8 \<le> n \<Longrightarrow> \<not> bit (b :: u8) n"
  by (auto dest: bit_imp_le_length)

lemma bit_u16_beyond [simp]: "16 \<le> n \<Longrightarrow> \<not> bit (b :: u16) n"
  by (auto dest: bit_imp_le_length)

lemma less_8_cases:
  "n < (8::nat) \<Longrightarrow> n = 7 \<or> n = 6 \<or> n = 5 \<or> n = 4 \<or> n = 3 \<or> n = 2 \<or> n = 1 \<or> n = 0"
  by arith

lemma byte_eqI: "(\<And>i. i < 8 \<Longrightarrow> bit x i = bit y i) \<Longrightarrow> x = (y :: u8)"
  by (rule bit_word_eqI) simp

section \<open>Little-endian views of words\<close>

definition bytes_of_u16 :: "u16 \<Rightarrow> u8 list" where
  "bytes_of_u16 w = [ucast w, ucast (drop_bit 8 w)]"

definition bytes_of_u32 :: "u32 \<Rightarrow> u8 list" where
  "bytes_of_u32 w =
     [ucast w, ucast (drop_bit 8 w), ucast (drop_bit 16 w), ucast (drop_bit 24 w)]"

definition bytes_of_u64 :: "u64 \<Rightarrow> u8 list" where
  "bytes_of_u64 w =
     [ucast w, ucast (drop_bit 8 w), ucast (drop_bit 16 w), ucast (drop_bit 24 w),
      ucast (drop_bit 32 w), ucast (drop_bit 40 w), ucast (drop_bit 48 w), ucast (drop_bit 56 w)]"

definition u16_of_bytes :: "u8 \<Rightarrow> u8 \<Rightarrow> u16" where
  "u16_of_bytes a b = ucast a OR push_bit 8 (ucast b)"

definition u32_of_bytes :: "u8 \<Rightarrow> u8 \<Rightarrow> u8 \<Rightarrow> u8 \<Rightarrow> u32" where
  "u32_of_bytes a b c d =
     ucast a OR push_bit 8 (ucast b) OR push_bit 16 (ucast c) OR push_bit 24 (ucast d)"

definition u64_of_bytes :: "u8 \<Rightarrow> u8 \<Rightarrow> u8 \<Rightarrow> u8 \<Rightarrow> u8 \<Rightarrow> u8 \<Rightarrow> u8 \<Rightarrow> u8 \<Rightarrow> u64" where
  "u64_of_bytes a b c d e f g h =
     ucast a OR push_bit 8 (ucast b) OR push_bit 16 (ucast c) OR push_bit 24 (ucast d) OR
     push_bit 32 (ucast e) OR push_bit 40 (ucast f) OR push_bit 48 (ucast g) OR
     push_bit 56 (ucast h)"

lemma length_bytes_of_u16 [simp, layout]: "length (bytes_of_u16 w) = 2"
  by (simp add: bytes_of_u16_def)

lemma length_bytes_of_u32 [simp, layout]: "length (bytes_of_u32 w) = 4"
  by (simp add: bytes_of_u32_def)

lemma length_bytes_of_u64 [simp, layout]: "length (bytes_of_u64 w) = 8"
  by (simp add: bytes_of_u64_def)

lemma bytes_of_u32_of_bytes [simp]: "bytes_of_u32 (u32_of_bytes a b c d) = [a, b, c, d]"
  by (auto simp: bytes_of_u32_def u32_of_bytes_def intro!: bit_word_eqI)
     (auto simp: bit_simps dest: bit_imp_le_length)

lemma bytes_of_u16_of_bytes [simp]: "bytes_of_u16 (u16_of_bytes a b) = [a, b]"
  by (auto simp: bytes_of_u16_def u16_of_bytes_def intro!: bit_word_eqI)
     (auto simp: bit_simps dest: bit_imp_le_length)

text \<open>The lists of words that a byte buffer holds, four bytes to the word. A trailing
  fragment of fewer than four bytes is not a word of the buffer.\<close>

fun words_of_bytes :: "u8 list \<Rightarrow> u32 list" where
  "words_of_bytes (a # b # c # d # bs) = u32_of_bytes a b c d # words_of_bytes bs"
| "words_of_bytes _ = []"

definition bytes_of_words :: "u32 list \<Rightarrow> u8 list" where
  "bytes_of_words ws = concat (map bytes_of_u32 ws)"

lemma u32_of_bytes_inverse:
  "u32_of_bytes (ucast w) (ucast (drop_bit 8 w)) (ucast (drop_bit 16 w)) (ucast (drop_bit 24 w)) = w"
proof (rule bit_word_eqI)
  fix n assume "n < LENGTH(32)"
  then have "n < 32" by simp
  then show "bit (u32_of_bytes (ucast w) (ucast (drop_bit 8 w)) (ucast (drop_bit 16 w))
      (ucast (drop_bit 24 w))) n = bit w n"
    by (cases "n < 8"; cases "n < 16"; cases "n < 24")
       (auto simp: u32_of_bytes_def bit_simps)
qed

lemma bytes_of_words_Nil [simp]: "bytes_of_words [] = []"
  by (simp add: bytes_of_words_def)

lemma bytes_of_words_Cons [simp]: "bytes_of_words (w # ws) = bytes_of_u32 w @ bytes_of_words ws"
  by (simp add: bytes_of_words_def)

lemma bytes_of_words_append [simp]:
  "bytes_of_words (ws @ vs) = bytes_of_words ws @ bytes_of_words vs"
  by (simp add: bytes_of_words_def)

lemma length_bytes_of_words [simp, layout]: "length (bytes_of_words ws) = 4 * length ws"
  by (induction ws) simp_all

lemma words_of_bytes_of_words [simp]: "words_of_bytes (bytes_of_words ws) = ws"
  by (induction ws) (simp_all add: bytes_of_u32_def u32_of_bytes_inverse)

lemma bytes_of_words_of_bytes:
  "length bs mod 4 = 0 \<Longrightarrow> bytes_of_words (words_of_bytes bs) = bs"
  by (induction bs rule: words_of_bytes.induct) auto

lemma length_words_of_bytes [simp]: "length (words_of_bytes bs) = length bs div 4"
  by (induction bs rule: words_of_bytes.induct) auto

lemma words_of_bytes_append:
  "length xs mod 4 = 0 \<Longrightarrow> words_of_bytes (xs @ ys) = words_of_bytes xs @ words_of_bytes ys"
  by (induction xs rule: words_of_bytes.induct) auto

lemma bytes_of_words_inject [simp]: "bytes_of_words xs = bytes_of_words ys \<longleftrightarrow> xs = ys"
  by (metis words_of_bytes_of_words)

section \<open>Buffers as lists\<close>

text \<open>\<open>memcpy(&dst[off], src, n)\<close> on a buffer held as a list, \<open>n\<close> the length of \<open>src\<close>;
  \<open>memmove\<close> inside one buffer is the same with \<open>src\<close> read before it is written.\<close>

definition blit :: "'a list \<Rightarrow> nat \<Rightarrow> 'a list \<Rightarrow> 'a list" where
  "blit dst off src = take off dst @ src @ drop (off + length src) dst"

lemma length_blit [simp]:
  "off + length src \<le> length dst \<Longrightarrow> length (blit dst off src) = length dst"
  by (simp add: blit_def)

lemma take_blit_before [simp]:
  "n \<le> off \<Longrightarrow> off \<le> length dst \<Longrightarrow> take n (blit dst off src) = take n dst"
  by (simp add: blit_def min_def)

lemma take_drop_blit [simp]:
  "off \<le> length dst \<Longrightarrow> take (length src) (drop off (blit dst off src)) = src"
  by (simp add: blit_def)

lemma drop_blit_after:
  "off + length src \<le> n \<Longrightarrow> off \<le> length dst \<Longrightarrow> drop n (blit dst off src) = drop n dst"
  by (simp add: blit_def min_def)

lemma nth_blit:
  "off + length src \<le> length dst \<Longrightarrow> i < length dst \<Longrightarrow>
   blit dst off src ! i =
     (if i < off then dst ! i else if i < off + length src then src ! (i - off) else dst ! i)"
  by (auto simp: blit_def nth_append min_def)

text \<open>\<open>memchr\<close>: the position of the first occurrence of a byte.\<close>

fun memchr :: "'a \<Rightarrow> 'a list \<Rightarrow> nat option" where
  "memchr c [] = None"
| "memchr c (x # xs) = (if x = c then Some 0 else map_option Suc (memchr c xs))"

lemma memchr_None_iff: "memchr c xs = None \<longleftrightarrow> c \<notin> set xs"
  by (induction xs) auto

lemma memchr_Some_iff:
  "memchr c xs = Some i \<longleftrightarrow> i < length xs \<and> xs ! i = c \<and> (\<forall>j < i. xs ! j \<noteq> c)"
proof (induction xs arbitrary: i)
  case Nil
  then show ?case by simp
next
  case (Cons x xs)
  then show ?case
    by (cases i) (auto simp: less_Suc_eq_0_disj all_conj_distrib)
qed

lemma memchr_append_notin:
  "c \<notin> set xs \<Longrightarrow> memchr c (xs @ c # ys) = Some (length xs)"
  by (induction xs) auto

text \<open>\<open>strnlen\<close>: the length of a string, at most \<open>n\<close>.\<close>

definition strnlen :: "u8 list \<Rightarrow> nat \<Rightarrow> nat" where
  "strnlen s n = length (takeWhile (\<lambda>c. c \<noteq> 0) (take n s))"

lemma strnlen_Nil [simp]: "strnlen [] n = 0"
  by (simp add: strnlen_def)

lemma strnlen_le: "strnlen s n \<le> n"
  unfolding strnlen_def
  by (rule order_trans [OF length_takeWhile_le]) simp

section \<open>Memory-mapped reads\<close>

type_synonym memory = "u32 \<Rightarrow> u8"

definition mem_read :: "memory \<Rightarrow> u32 \<Rightarrow> nat \<Rightarrow> u8 list" where
  "mem_read m a n = map (\<lambda>i. m (a + of_nat i)) [0..<n]"

definition mem_u32 :: "memory \<Rightarrow> u32 \<Rightarrow> u32" where
  "mem_u32 m a = u32_of_bytes (m a) (m (a + 1)) (m (a + 2)) (m (a + 3))"

lemma length_mem_read [simp, layout]: "length (mem_read m a n) = n"
  by (simp add: mem_read_def)

lemma nth_mem_read [simp]: "i < n \<Longrightarrow> mem_read m a n ! i = m (a + of_nat i)"
  by (simp add: mem_read_def)

lemma mem_read_0 [simp]: "mem_read m a 0 = []"
  by (simp add: mem_read_def)

lemma mem_read_append:
  "mem_read m a (k + n) = mem_read m a k @ mem_read m (a + of_nat k) n"
  by (rule nth_equalityI) (auto simp: nth_append algebra_simps)

lemma mem_read_eqI:
  "(\<And>i. i < n \<Longrightarrow> m (a + of_nat i) = m' (a + of_nat i)) \<Longrightarrow> mem_read m a n = mem_read m' a n"
  by (simp add: mem_read_def)

lemma mem_read_eqD:
  "mem_read m a n = mem_read m' a n \<Longrightarrow> i < n \<Longrightarrow> m (a + of_nat i) = m' (a + of_nat i)"
  by (metis nth_mem_read)

lemma mem_read_eq_iff:
  "mem_read m a n = xs \<longleftrightarrow> length xs = n \<and> (\<forall>i < n. m (a + of_nat i) = xs ! i)"
  by (auto simp: list_eq_iff_nth_eq)

text \<open>Memory with a block of bytes laid over it.\<close>

definition mem_write :: "memory \<Rightarrow> u32 \<Rightarrow> u8 list \<Rightarrow> memory" where
  "mem_write m a bs = (\<lambda>x. if unat (x - a) < length bs then bs ! unat (x - a) else m x)"

lemma mem_write_outside: "length bs \<le> unat (x - a) \<Longrightarrow> mem_write m a bs x = m x"
  by (simp add: mem_write_def)

lemma mem_write_inside:
  "i < length bs \<Longrightarrow> i < 2 ^ 32 \<Longrightarrow> mem_write m a bs (a + of_nat i) = bs ! i"
  by (simp add: mem_write_def unat_of_nat take_bit_nat_eq_self)

lemma mem_read_write_same [simp]:
  "length bs \<le> 2 ^ 32 \<Longrightarrow> mem_read (mem_write m a bs) a (length bs) = bs"
  by (auto simp: mem_read_eq_iff mem_write_inside)

lemma unat_of_nat_u32: "n < 2 ^ 32 \<Longrightarrow> unat (of_nat n :: u32) = n"
  by (simp add: unat_of_nat take_bit_nat_eq_self)

lemma mem_write_append:
  assumes "length xs + length ys \<le> 2 ^ 32"
  shows "mem_write (mem_write m a xs) (a + of_nat (length xs)) ys = mem_write m a (xs @ ys)"
proof
  fix x
  let ?o = "unat (x - a)"
  have le: "length xs < 2 ^ 32 \<or> ys = []" using assms by (cases ys) auto
  have o: "unat (x - (a + of_nat (length xs))) =
      (if length xs \<le> ?o then ?o - length xs else ?o + 2 ^ 32 - length xs)" if "length xs < 2 ^ 32"
    using unat_of_nat_u32 [OF that] by (simp add: diff_diff_eq [symmetric] unat_sub_if')
  show "mem_write (mem_write m a xs) (a + of_nat (length xs)) ys x = mem_write m a (xs @ ys) x"
    using le o assms by (auto simp: mem_write_def nth_append)
qed

section \<open>Small arithmetic\<close>

definition div_round_up :: "nat \<Rightarrow> nat \<Rightarrow> nat" where
  "div_round_up n d = (n + d - 1) div d"

lemma div_round_up_4_bounds: "n \<le> 4 * div_round_up n 4 \<and> 4 * div_round_up n 4 < n + 4"
  unfolding div_round_up_def by linarith

lemma unat_u8_less [simp]: "unat (b :: u8) < 256"
  using unsigned_less [of b, where 'a = nat] by simp

lemma unat_u32_less [simp]: "unat (b :: u32) < 4294967296"
  using unsigned_less [of b, where 'a = nat] by simp

lemma unat_add_nat:
  "unat (a :: u32) + k < 2 ^ 32 \<Longrightarrow> unat (a + of_nat k) = unat a + k"
  by (simp add: unat_word_ariths unat_of_nat_u32)

lemma and_63_iff: "(a :: u32) AND 63 = 0 \<longleftrightarrow> unat a mod 64 = 0"
proof -
  have "(63 :: u32) = mask 6" by (simp add: mask_eq_exp_minus_1)
  then have "a AND 63 = take_bit 6 a" by (simp add: take_bit_eq_mask)
  moreover have "unat (take_bit 6 a) = unat a mod 64"
    by (simp only: unsigned_take_bit_eq) (simp add: take_bit_eq_mod)
  ultimately show ?thesis by (simp add: word_unat_eq_iff)
qed

end
