(* ===== verification/Config.thy ===== *)
theory Config
  imports Prelude
begin

text \<open>
  The build configuration. \<open>autoconf.h\<close> is generated from Kconfig, so its constants are a
  parameter of the model: a record with one field per constant the modelled code reads.
  \<open>steinzeit\<close> is the one configuration the repository ships (\<open>configs/steinzeit.config\<close>).
  \<open>config_ok\<close> collects what the Kconfig files fix for every board: the block size is 64
  (\<open>BLOCK_SIZE\<close> has no prompt in any of the three \<open>Kconfig\<close> files), the flash does not wrap
  around the address space, and the application starts block-aligned inside it.
\<close>

record config =
  CONFIG_MCU :: "u8 list"
  CONFIG_KATAPULT_VERSION :: "u8 list"
  CONFIG_CLOCK_FREQ :: u32
  CONFIG_FLASH_START :: u32
  CONFIG_FLASH_SIZE :: u32
  CONFIG_FLASH_BOOT_ADDRESS :: u32
  CONFIG_LAUNCH_APP_ADDRESS :: u32
  CONFIG_METADATA_PAGE_SIZE :: u32
  CONFIG_BLOCK_SIZE :: u32
  CONFIG_CANSERIAL :: bool
  CONFIG_CANBUS_FREQUENCY :: u32
  CONFIG_CANBUS_FILTER :: bool
  CONFIG_ENABLE_LED :: bool
  CONFIG_ENABLE_BUTTON :: bool
  CONFIG_ENABLE_DOUBLE_RESET :: bool
  CONFIG_HAVE_BOARD_CHECK_DOUBLE_RESET :: bool

definition cstr :: "string \<Rightarrow> u8 list" where
  "cstr s = map of_char s"

lemma length_cstr [simp]: "length (cstr s) = length s"
  by (simp add: cstr_def)

definition steinzeit :: config where
  "steinzeit = \<lparr>
     CONFIG_MCU = cstr ''stm32f103xe'',
     CONFIG_KATAPULT_VERSION = cstr ''v1.1.0-0-gd685cf5-dirty'',
     CONFIG_CLOCK_FREQ = 72000000,
     CONFIG_FLASH_START = 0x8000000,
     CONFIG_FLASH_SIZE = 0x10000,
     CONFIG_FLASH_BOOT_ADDRESS = 0x8000000,
     CONFIG_LAUNCH_APP_ADDRESS = 0x8002000,
     CONFIG_METADATA_PAGE_SIZE = 0x400,
     CONFIG_BLOCK_SIZE = 64,
     CONFIG_CANSERIAL = True,
     CONFIG_CANBUS_FREQUENCY = 125000,
     CONFIG_CANBUS_FILTER = True,
     CONFIG_ENABLE_LED = True,
     CONFIG_ENABLE_BUTTON = False,
     CONFIG_ENABLE_DOUBLE_RESET = False,
     CONFIG_HAVE_BOARD_CHECK_DOUBLE_RESET = False \<rparr>"

definition config_ok :: "config \<Rightarrow> bool" where
  "config_ok c \<longleftrightarrow>
     CONFIG_BLOCK_SIZE c = 64 \<and>
     unat (CONFIG_FLASH_START c) + unat (CONFIG_FLASH_SIZE c) < 2 ^ 32 \<and>
     CONFIG_FLASH_START c \<le> CONFIG_LAUNCH_APP_ADDRESS c \<and>
     unat (CONFIG_LAUNCH_APP_ADDRESS c) + 64 \<le> unat (CONFIG_FLASH_START c) + unat (CONFIG_FLASH_SIZE c) \<and>
     unat (CONFIG_LAUNCH_APP_ADDRESS c) mod 64 = 0 \<and>
     unat (CONFIG_FLASH_START c + CONFIG_FLASH_SIZE c) mod 64 = 0"

lemma config_ok_block_size [simp]: "config_ok c \<Longrightarrow> CONFIG_BLOCK_SIZE c = 64"
  by (simp add: config_ok_def)

lemma config_ok_flash_end:
  "config_ok c \<Longrightarrow> unat (CONFIG_FLASH_START c + CONFIG_FLASH_SIZE c) =
     unat (CONFIG_FLASH_START c) + unat (CONFIG_FLASH_SIZE c)"
  by (simp add: config_ok_def unat_word_ariths)

lemma config_ok_steinzeit [simp]: "config_ok steinzeit"
  by (simp add: config_ok_def steinzeit_def word_le_nat_alt)

end
