(* ===== verification/FastHash.thy ===== *)
theory FastHash
  imports Prelude
begin

text \<open>
  The hash of \<open>lib/fast-hash/fasthash.c\<close>, which the metadata check of the application and
  the CAN UUID use. \<open>fasthash64\<close> walks the buffer in 64-bit little-endian blocks and folds
  in a tail of up to seven bytes; \<open>fasthash32\<close> reduces its result to 32 bits. The lemmas
  show that every step of it is a bijection of the running hash, and so which changes of
  a buffer always change its hash.
\<close>

definition fasthash_mix :: "u64 \<Rightarrow> u64" where
  "fasthash_mix h =
     (let h = h XOR drop_bit 23 h;
          h = h * 0x2127599bf4325c37
      in h XOR drop_bit 47 h)"

definition fasthash_m :: u64 where
  "fasthash_m = 0x880355f21e6d1965"

definition fasthash_absorb :: "u64 \<Rightarrow> u64 \<Rightarrow> u64" where
  "fasthash_absorb h v = (h XOR fasthash_mix v) * fasthash_m"

text \<open>The loop over whole blocks: the hash after it and the bytes it leaves.\<close>

fun fasthash_blocks :: "u64 \<Rightarrow> u8 list \<Rightarrow> u64 \<times> u8 list" where
  "fasthash_blocks h (a # b # c # d # e # f # g # i # pos) =
     fasthash_blocks (fasthash_absorb h (u64_of_bytes a b c d e f g i)) pos"
| "fasthash_blocks h pos = (h, pos)"

text \<open>The fall-through \<open>switch (len & 7)\<close>: byte \<open>k\<close> of the tail is xored in at bit \<open>8 * k\<close>.\<close>

fun tail_word :: "nat \<Rightarrow> u8 list \<Rightarrow> u64" where
  "tail_word k [] = 0"
| "tail_word k (b # pos2) = tail_word (Suc k) pos2 XOR push_bit (8 * k) (ucast b)"

definition fasthash64 :: "u8 list \<Rightarrow> u64 \<Rightarrow> u64" where
  "fasthash64 buf seed =
     (let h = seed XOR (of_nat (length buf) * fasthash_m);
          (h, pos2) = fasthash_blocks h buf;
          h = (if pos2 = [] then h else fasthash_absorb h (tail_word 0 pos2))
      in fasthash_mix h)"

definition fasthash32 :: "u8 list \<Rightarrow> u32 \<Rightarrow> u32" where
  "fasthash32 buf seed =
     (let h = fasthash64 buf (ucast seed) in ucast (h - drop_bit 32 h))"

section \<open>Every step is a bijection\<close>

lemma bit_xorshift: "bit (x XOR drop_bit k x) n \<longleftrightarrow> bit (x :: u64) n \<noteq> bit x (n + k)"
  by (simp add: bit_simps add.commute)

lemma xorshift_inj:
  assumes k: "0 < k" and eq: "x XOR drop_bit k x = y XOR drop_bit k (y :: u64)"
  shows "x = y"
proof (rule bit_word_eqI)
  fix n
  have "bit x n = bit y n"
  proof (induction "64 - n" arbitrary: n rule: less_induct)
    case less
    show ?case
    proof (cases "n < 64")
      case True
      with k have "bit x (n + k) = bit y (n + k)" by (intro less) arith
      moreover have "(bit x n \<noteq> bit x (n + k)) = (bit y n \<noteq> bit y (n + k))"
        using eq by (metis bit_xorshift)
      ultimately show ?thesis by blast
    next
      case False
      then show ?thesis by (auto dest: bit_imp_le_length)
    qed
  qed
  then show "bit x n = bit y n" .
qed

lemma mult_inj_u64:
  assumes inv: "m * i = 1" and eq: "x * m = y * (m :: u64)"
  shows "x = y"
proof -
  have "x = x * m * i" using inv by (simp add: mult.assoc)
  also have "\<dots> = y * m * i" by (simp add: eq)
  also have "\<dots> = y" using inv by (simp add: mult.assoc)
  finally show ?thesis .
qed

lemma fasthash_mix_inj: "fasthash_mix x = fasthash_mix y \<Longrightarrow> x = y"
proof -
  assume eq: "fasthash_mix x = fasthash_mix y"
  let ?c = "0x2127599bf4325c37 :: u64"
  have "(x XOR drop_bit 23 x) * ?c = (y XOR drop_bit 23 y) * ?c"
    by (rule xorshift_inj [of 47]) (use eq in \<open>simp_all add: fasthash_mix_def Let_def\<close>)
  then have "x XOR drop_bit 23 x = y XOR drop_bit 23 y"
    by (rule mult_inj_u64 [of _ "0xa1bcefb14d101987", rotated]) simp
  then show "x = y" by (rule xorshift_inj [of 23, rotated]) simp
qed

lemma fasthash_absorb_inj_h: "fasthash_absorb h v = fasthash_absorb h' v \<Longrightarrow> h = h'"
proof -
  assume "fasthash_absorb h v = fasthash_absorb h' v"
  then have "h XOR fasthash_mix v = h' XOR fasthash_mix v"
    unfolding fasthash_absorb_def fasthash_m_def
    by (rule mult_inj_u64 [of _ "0x28fc23783fb0706d", rotated]) simp
  then have "(h XOR fasthash_mix v) XOR fasthash_mix v = (h' XOR fasthash_mix v) XOR fasthash_mix v"
    by simp
  then show ?thesis by (simp add: xor.assoc)
qed

lemma fasthash_absorb_inj_v: "fasthash_absorb h v = fasthash_absorb h v' \<Longrightarrow> v = v'"
proof -
  assume "fasthash_absorb h v = fasthash_absorb h v'"
  then have "h XOR fasthash_mix v = h XOR fasthash_mix v'"
    unfolding fasthash_absorb_def fasthash_m_def
    by (rule mult_inj_u64 [of _ "0x28fc23783fb0706d", rotated]) simp
  then have "h XOR (h XOR fasthash_mix v) = h XOR (h XOR fasthash_mix v')"
    by simp
  then have "fasthash_mix v = fasthash_mix v'" by (simp flip: xor.assoc)
  then show ?thesis by (rule fasthash_mix_inj)
qed

lemma fasthash_blocks_append:
  "length xs mod 8 = 0 \<Longrightarrow>
   fasthash_blocks h (xs @ ys) = fasthash_blocks (fst (fasthash_blocks h xs)) ys"
  by (induction h xs rule: fasthash_blocks.induct) auto

lemma fasthash_blocks_whole: "length xs mod 8 = 0 \<Longrightarrow> snd (fasthash_blocks h xs) = []"
  by (induction h xs rule: fasthash_blocks.induct) auto

lemma fasthash_blocks_short: "length xs < 8 \<Longrightarrow> fasthash_blocks h xs = (h, xs)"
  by (induction h xs rule: fasthash_blocks.induct) auto

lemma fasthash_blocks_rest_eq: "snd (fasthash_blocks h xs) = snd (fasthash_blocks h' xs)"
  by (induction h xs arbitrary: h' rule: fasthash_blocks.induct) auto

lemma fasthash_blocks_inj_h:
  "fst (fasthash_blocks h xs) = fst (fasthash_blocks h' xs) \<Longrightarrow> h = h'"
proof (induction h xs arbitrary: h' rule: fasthash_blocks.induct)
  case (1 h a b c d e f g i pos)
  then show ?case by (auto dest: fasthash_absorb_inj_h)
qed auto

section \<open>Blocks and tails are read without loss\<close>

lemma bit_tail_word:
  "bit (tail_word k bs) n \<longleftrightarrow>
     n < 64 \<and> 8 * k \<le> n \<and> n < 8 * (k + length bs) \<and> bit (bs ! (n div 8 - k)) (n mod 8)"
proof (induction k bs rule: tail_word.induct)
  case (1 k)
  then show ?case by simp
next
  case (2 k b pos2)
  consider "n < 8 * k" | "8 * k \<le> n" "n < 8 * k + 8" | "8 * k + 8 \<le> n" by linarith
  then show ?case
  proof cases
    case 1
    then show ?thesis by (auto simp: 2 bit_simps)
  next
    case 2
    then obtain r where "n = 8 * k + r" "r < 8"
      by (metis add_less_cancel_left le_Suc_ex)
    then have "n div 8 = k" and "n mod 8 = n - 8 * k" by simp_all
    with 2 show ?thesis by (auto simp: "2.IH" bit_simps)
  next
    case 3
    then have "n div 8 - k = Suc (n div 8 - Suc k)" by linarith
    with 3 show ?thesis by (auto simp: 2 bit_simps)
  qed
qed

lemma tail_word_inj:
  assumes len: "length xs = length ys" "length xs \<le> 8" and eq: "tail_word 0 xs = tail_word 0 ys"
  shows "xs = ys"
proof (rule nth_equalityI [OF len(1)], rule bit_word_eqI)
  fix i n assume i: "i < length xs" and "n < LENGTH(8)"
  then have n: "n < 8" by simp
  have "(8 * i + n) div 8 = i" "(8 * i + n) mod 8 = n" using n by auto
  then show "bit (xs ! i) n = bit (ys ! i) n"
    using arg_cong [OF eq, of "\<lambda>w. bit w (8 * i + n)"] len i n by (simp add: bit_tail_word)
qed

lemma tail_word_Cons_OR:
  "k + length bs < 8 \<Longrightarrow> tail_word k (b # bs) = tail_word (Suc k) bs OR push_bit (8 * k) (ucast b)"
  by (rule bit_word_eqI) (auto simp: bit_tail_word bit_simps)

lemma u64_of_bytes_tail_word: "u64_of_bytes a b c d e f g h = tail_word 0 [a, b, c, d, e, f, g, h]"
  by (simp add: u64_of_bytes_def tail_word_Cons_OR or.assoc or.commute or.left_commute
      del: tail_word.simps(2))

lemma length_8_cases:
  assumes "length (xs :: u8 list) = 8"
  obtains a b c d e f g h where "xs = [a, b, c, d, e, f, g, h]"
  using assms by (auto simp: length_Suc_conv eval_nat_numeral)

lemma fasthash_blocks_one:
  "length xs = 8 \<Longrightarrow> fasthash_blocks h xs = (fasthash_absorb h (tail_word 0 xs), [])"
  by (erule length_8_cases) (simp add: u64_of_bytes_tail_word del: tail_word.simps)

section \<open>Changes the hash always sees\<close>

text \<open>Two buffers of one length that differ in one aligned 64-bit block, or in the tail
  bytes after the last block, have different hashes.\<close>

lemma fasthash64_block_change:
  assumes pre: "length xs mod 8 = 0" and len: "length b = length b'"
    and blk: "length b = 8 \<or> length b < 8 \<and> ys = []" and diff: "b \<noteq> b'"
  shows "fasthash64 (xs @ b @ ys) seed \<noteq> fasthash64 (xs @ b' @ ys) seed"
proof
  assume eq: "fasthash64 (xs @ b @ ys) seed = fasthash64 (xs @ b' @ ys) seed"
  define h0 where "h0 = fst (fasthash_blocks
    (seed XOR (of_nat (length (xs @ b @ ys)) * fasthash_m)) xs)"
  have tails: "tail_word 0 b \<noteq> tail_word 0 b'"
    using tail_word_inj [of b b'] len blk diff by auto
  let ?fin = "\<lambda>(h, p). fasthash_mix (if p = [] then h else fasthash_absorb h (tail_word 0 p))"
  have run: "?fin (fasthash_blocks h0 (b @ ys)) = ?fin (fasthash_blocks h0 (b' @ ys))"
    using eq len by (simp add: fasthash64_def h0_def fasthash_blocks_append [OF pre] Let_def
        split_beta)
  show False
  proof (cases "length b = 8")
    case True
    then have b: "fasthash_blocks h0 (c @ ys) = fasthash_blocks (fasthash_absorb h0 (tail_word 0 c)) ys"
      if "length c = length b" for c
      using that fasthash_blocks_append [of c h0 ys] by (simp add: fasthash_blocks_one)
    from run have "fst (fasthash_blocks (fasthash_absorb h0 (tail_word 0 b)) ys) =
        fst (fasthash_blocks (fasthash_absorb h0 (tail_word 0 b')) ys)"
      using fasthash_blocks_rest_eq [of "fasthash_absorb h0 (tail_word 0 b)" ys
          "fasthash_absorb h0 (tail_word 0 b')"]
      by (auto simp: b len split_beta split: if_splits
          dest!: fasthash_mix_inj dest: fasthash_absorb_inj_h)
    with tails show False by (auto dest!: fasthash_blocks_inj_h fasthash_absorb_inj_v)
  next
    case False
    with blk have "ys = []" "length b < 8" by auto
    with run len diff tails show False
      by (auto simp: fasthash_blocks_short split: if_splits
          dest!: fasthash_mix_inj fasthash_absorb_inj_v)
  qed
qed

end
