(* ===== verification/AppValidate.thy ===== *)
theory AppValidate
  imports Config FastHash
begin

text \<open>
  The application metadata of \<open>src/appvalidate.h\<close> and its check in \<open>src/appvalidate.c\<close>. The
  packed struct \<open>app_metadata_t\<close> is a record, read from (and, for the image builder's side,
  written to) the 84 bytes at \<open>CONFIG_LAUNCH_APP_ADDRESS\<close>; \<open>appvalidate_verify\<close> reads the
  memory-mapped flash, a function from addresses to bytes.
\<close>

record app_metadata =
  magic :: "u8 list"
  app_size :: u32
  app_hash :: u64
  app_version :: u32
  app_variant_name :: "u8 list"
  reserved :: "u8 list"
  meta_crc :: u32

datatype app_verify_result =
  APP_VALID | APP_NO_METADATA | APP_SIZE_INVALID | APP_HASH_MISMATCH | APP_META_CORRUPT

definition APP_METADATA_MAGIC :: "u8 list" where
  "APP_METADATA_MAGIC = cstr ''TERRABOOT_RaiseTheWorld'' @ [0]"

definition u32_at :: "u8 list \<Rightarrow> nat \<Rightarrow> u32" where
  "u32_at bs i = u32_of_bytes (bs ! i) (bs ! (i + 1)) (bs ! (i + 2)) (bs ! (i + 3))"

definition u64_at :: "u8 list \<Rightarrow> nat \<Rightarrow> u64" where
  "u64_at bs i = u64_of_bytes (bs ! i) (bs ! (i + 1)) (bs ! (i + 2)) (bs ! (i + 3))
     (bs ! (i + 4)) (bs ! (i + 5)) (bs ! (i + 6)) (bs ! (i + 7))"

definition app_metadata_size :: nat where
  "app_metadata_size = 84"

definition meta_crc_offset :: nat where
  "meta_crc_offset = 80"

definition metadata_of_bytes :: "u8 list \<Rightarrow> app_metadata" where
  "metadata_of_bytes bs = \<lparr>
     magic = take 24 bs,
     app_size = u32_at bs 24,
     app_hash = u64_at bs 28,
     app_version = u32_at bs 36,
     app_variant_name = take 32 (drop 40 bs),
     reserved = take 8 (drop 72 bs),
     meta_crc = u32_at bs 80 \<rparr>"

definition bytes_of_metadata :: "app_metadata \<Rightarrow> u8 list" where
  "bytes_of_metadata m =
     magic m @ bytes_of_u32 (app_size m) @ bytes_of_u64 (app_hash m) @
     bytes_of_u32 (app_version m) @ app_variant_name m @ reserved m @ bytes_of_u32 (meta_crc m)"

section \<open>The operations\<close>

definition MAX_APP_SIZE :: "config \<Rightarrow> u32" where
  "MAX_APP_SIZE c = CONFIG_FLASH_SIZE c - (CONFIG_LAUNCH_APP_ADDRESS c - CONFIG_FLASH_START c)
     - CONFIG_METADATA_PAGE_SIZE c"

definition get_metadata_addr :: "config \<Rightarrow> u32" where
  "get_metadata_addr c = CONFIG_LAUNCH_APP_ADDRESS c"

definition get_app_code_addr :: "config \<Rightarrow> u32" where
  "get_app_code_addr c = CONFIG_LAUNCH_APP_ADDRESS c + CONFIG_METADATA_PAGE_SIZE c"

definition appvalidate_get_metadata :: "config \<Rightarrow> memory \<Rightarrow> app_metadata" where
  "appvalidate_get_metadata c mem =
     metadata_of_bytes (mem_read mem (get_metadata_addr c) app_metadata_size)"

definition appvalidate_verify :: "config \<Rightarrow> memory \<Rightarrow> app_verify_result" where
  "appvalidate_verify c mem =
     (let meta = appvalidate_get_metadata c mem in
      if magic meta \<noteq> APP_METADATA_MAGIC then APP_NO_METADATA
      else
        (let expected_crc = fasthash32 (mem_read mem (get_metadata_addr c) meta_crc_offset) 0 in
         if meta_crc meta \<noteq> expected_crc then APP_META_CORRUPT
         else if app_size meta = 0 \<or> app_size meta > MAX_APP_SIZE c then APP_SIZE_INVALID
         else
           (let computed = fasthash64 (mem_read mem (get_app_code_addr c) (unat (app_size meta))) 0 in
            if computed \<noteq> app_hash meta then APP_HASH_MISMATCH else APP_VALID)))"

section \<open>Round trip of the packed struct\<close>

lemma length_APP_METADATA_MAGIC [simp]: "length APP_METADATA_MAGIC = 24"
  by (simp add: APP_METADATA_MAGIC_def)

definition metadata_wf :: "app_metadata \<Rightarrow> bool" where
  "metadata_wf m \<longleftrightarrow> length (magic m) = 24 \<and> length (app_variant_name m) = 32 \<and> length (reserved m) = 8"

lemma u64_of_bytes_inverse:
  "u64_of_bytes (ucast w) (ucast (drop_bit 8 w)) (ucast (drop_bit 16 w)) (ucast (drop_bit 24 w))
     (ucast (drop_bit 32 w)) (ucast (drop_bit 40 w)) (ucast (drop_bit 48 w)) (ucast (drop_bit 56 w)) = w"
proof -
  have "u64_of_bytes (ucast w) (ucast (drop_bit 8 w)) (ucast (drop_bit 16 w)) (ucast (drop_bit 24 w))
     (ucast (drop_bit 32 w)) (ucast (drop_bit 40 w)) (ucast (drop_bit 48 w)) (ucast (drop_bit 56 w)) =
     tail_word 0 (map (\<lambda>i. ucast (drop_bit (8 * i) w)) [0..<8])"
    by (simp add: u64_of_bytes_tail_word upt_rec del: tail_word.simps)
  also have "\<dots> = w"
  proof (rule bit_word_eqI)
    fix n assume "n < LENGTH(64)"
    then have n: "n < 64" by simp
    have "8 * (n div 8) + n mod 8 = n" by simp
    then show "bit (tail_word 0 (map (\<lambda>i. ucast (drop_bit (8 * i) w)) [0..<8])) n = bit w n"
      using n by (simp add: bit_tail_word bit_simps less_mult_imp_div_less)
  qed
  finally show ?thesis .
qed

lemma u32_at_append:
  "u32_at (xs @ bytes_of_u32 w @ ys) (length xs) = w"
  by (simp add: u32_at_def bytes_of_u32_def nth_append u32_of_bytes_inverse)

lemma u64_at_append:
  "u64_at (xs @ bytes_of_u64 w @ ys) (length xs) = w"
  by (simp add: u64_at_def bytes_of_u64_def nth_append u64_of_bytes_inverse)

lemma length_bytes_of_metadata [layout]:
  "metadata_wf m \<Longrightarrow> length (bytes_of_metadata m) = app_metadata_size"
  by (simp add: bytes_of_metadata_def metadata_wf_def app_metadata_size_def)

lemma metadata_of_bytes_of_metadata:
  assumes "metadata_wf m"
  shows "metadata_of_bytes (bytes_of_metadata m) = m"
proof -
  let ?B = "bytes_of_metadata m"
  have len: "length (magic m) = 24" "length (app_variant_name m) = 32" "length (reserved m) = 8"
    using assms by (simp_all add: metadata_wf_def)
  have "u32_at ?B 24 = app_size m"
    using u32_at_append [of "magic m" "app_size m"] len by (simp add: bytes_of_metadata_def)
  moreover have "u64_at ?B 28 = app_hash m"
    using u64_at_append [of "magic m @ bytes_of_u32 (app_size m)" "app_hash m"] len
    by (simp add: bytes_of_metadata_def)
  moreover have "u32_at ?B 36 = app_version m"
    using u32_at_append [of "magic m @ bytes_of_u32 (app_size m) @ bytes_of_u64 (app_hash m)"
        "app_version m"] len by (simp add: bytes_of_metadata_def)
  moreover have "u32_at ?B 80 = meta_crc m"
    using u32_at_append [of "magic m @ bytes_of_u32 (app_size m) @ bytes_of_u64 (app_hash m) @
        bytes_of_u32 (app_version m) @ app_variant_name m @ reserved m" "meta_crc m" "[]"] len
    by (simp add: bytes_of_metadata_def)
  ultimately show ?thesis
    using len by (simp add: metadata_of_bytes_def bytes_of_metadata_def)
qed

section \<open>What the check accepts and what it rejects\<close>

text \<open>The image the build system prepends to an application: the metadata of the code,
  closed by the checksum of the fields before it.\<close>

definition seal_metadata :: "app_metadata \<Rightarrow> app_metadata" where
  "seal_metadata m = m\<lparr>meta_crc := fasthash32 (take meta_crc_offset (bytes_of_metadata m)) 0\<rparr>"

definition image_metadata :: "u8 list \<Rightarrow> u32 \<Rightarrow> u8 list \<Rightarrow> app_metadata" where
  "image_metadata code version variant = seal_metadata \<lparr>
     magic = APP_METADATA_MAGIC, app_size = of_nat (length code), app_hash = fasthash64 code 0,
     app_version = version, app_variant_name = variant, reserved = replicate 8 0xff, meta_crc = 0 \<rparr>"

definition holds_at :: "memory \<Rightarrow> u32 \<Rightarrow> u8 list \<Rightarrow> bool" where
  "holds_at mem a bs \<longleftrightarrow> mem_read mem a (length bs) = bs"

lemma seal_metadata_fields [simp]:
  "magic (seal_metadata m) = magic m" "app_size (seal_metadata m) = app_size m"
  "app_hash (seal_metadata m) = app_hash m" "app_version (seal_metadata m) = app_version m"
  "app_variant_name (seal_metadata m) = app_variant_name m" "reserved (seal_metadata m) = reserved m"
  by (simp_all add: seal_metadata_def)

lemma metadata_wf_seal [simp]: "metadata_wf (seal_metadata m) = metadata_wf m"
  by (simp add: metadata_wf_def)

lemma take_meta_crc_offset_seal:
  "metadata_wf m \<Longrightarrow>
   take meta_crc_offset (bytes_of_metadata (seal_metadata m)) = take meta_crc_offset (bytes_of_metadata m)"
  by (simp add: seal_metadata_def bytes_of_metadata_def metadata_wf_def meta_crc_offset_def)

lemma mem_read_take: "k \<le> n \<Longrightarrow> mem_read mem a k = take k (mem_read mem a n)"
  by (rule nth_equalityI) auto

lemma meta_crc_offset_le: "meta_crc_offset \<le> app_metadata_size"
  by (simp add: meta_crc_offset_def app_metadata_size_def)

lemma verify_sealed:
  assumes wf: "metadata_wf m" and mg: "magic m = APP_METADATA_MAGIC"
    and meta: "holds_at mem (get_metadata_addr c) (bytes_of_metadata (seal_metadata m))"
    and code: "holds_at mem (get_app_code_addr c) code"
    and size: "length code = unat (app_size m)" "0 < length code" "app_size m \<le> MAX_APP_SIZE c"
    and hash: "app_hash m = fasthash64 code 0"
  shows "appvalidate_verify c mem = APP_VALID"
proof -
  have rd: "mem_read mem (get_metadata_addr c) app_metadata_size = bytes_of_metadata (seal_metadata m)"
    using meta wf by (simp add: holds_at_def length_bytes_of_metadata)
  then have get: "appvalidate_get_metadata c mem = seal_metadata m"
    using wf by (simp add: appvalidate_get_metadata_def metadata_of_bytes_of_metadata)
  have "mem_read mem (get_metadata_addr c) meta_crc_offset = take meta_crc_offset (bytes_of_metadata m)"
    unfolding mem_read_take [OF meta_crc_offset_le] rd take_meta_crc_offset_seal [OF wf] ..
  moreover have "mem_read mem (get_app_code_addr c) (unat (app_size m)) = code"
    using code size by (simp add: holds_at_def)
  moreover have "app_size m \<noteq> 0" using size by auto
  ultimately show ?thesis
    using mg size hash
    by (simp add: appvalidate_verify_def get Let_def seal_metadata_def not_less)
qed

text \<open>What a positive answer says about the flash.\<close>

lemma verify_validD:
  assumes "appvalidate_verify c mem = APP_VALID"
  shows "magic (appvalidate_get_metadata c mem) = APP_METADATA_MAGIC"
    and "meta_crc (appvalidate_get_metadata c mem) =
      fasthash32 (mem_read mem (get_metadata_addr c) meta_crc_offset) 0"
    and "app_size (appvalidate_get_metadata c mem) \<noteq> 0"
    and "app_size (appvalidate_get_metadata c mem) \<le> MAX_APP_SIZE c"
    and "app_hash (appvalidate_get_metadata c mem) =
      fasthash64 (mem_read mem (get_app_code_addr c) (unat (app_size (appvalidate_get_metadata c mem)))) 0"
  using assms by (auto simp: appvalidate_verify_def Let_def not_less split: if_splits)

text \<open>Tampering with one aligned 64-bit block of a valid application. \<open>k\<close> is the block,
  the last one possibly short.\<close>

lemma mem_read_split3:
  "k + j \<le> n \<Longrightarrow> mem_read m a n = mem_read m a k @ mem_read m (a + of_nat k) j @
     mem_read m (a + of_nat (k + j)) (n - (k + j))"
  using mem_read_append [of m a "k + j" "n - (k + j)"] by (simp add: mem_read_append)

lemma verify_block_changed:
  assumes valid: "appvalidate_verify c mem = APP_VALID"
    and meta: "mem_read mem' (get_metadata_addr c) app_metadata_size =
      mem_read mem (get_metadata_addr c) app_metadata_size"
    and size: "n = unat (app_size (appvalidate_get_metadata c mem))"
    and same: "\<And>i. i < n \<Longrightarrow> i div 8 \<noteq> k \<Longrightarrow>
      mem' (get_app_code_addr c + of_nat i) = mem (get_app_code_addr c + of_nat i)"
    and diff: "d < n" "d div 8 = k"
      "mem' (get_app_code_addr c + of_nat d) \<noteq> mem (get_app_code_addr c + of_nat d)"
  shows "appvalidate_verify c mem' = APP_HASH_MISMATCH"
proof -
  let ?a = "get_app_code_addr c" and ?j = "min 8 (n - 8 * k)"
  let ?blk = "\<lambda>m. mem_read m (?a + of_nat (8 * k)) ?j"
  have get: "appvalidate_get_metadata c mem' = appvalidate_get_metadata c mem"
    using meta by (simp add: appvalidate_get_metadata_def)
  have crc: "mem_read mem' (get_metadata_addr c) meta_crc_offset = mem_read mem (get_metadata_addr c) meta_crc_offset"
    unfolding mem_read_take [OF meta_crc_offset_le] meta ..
  have k: "8 * k \<le> d" "d < 8 * k + 8" using diff(2) by auto
  then have len: "8 * k + ?j \<le> n" using diff(1) by auto
  have pre: "mem_read mem' ?a (8 * k) = mem_read mem ?a (8 * k)"
    using k diff(1) by (intro mem_read_eqI same) auto
  have post: "mem_read mem' (?a + of_nat (8 * k + ?j)) (n - (8 * k + ?j)) =
      mem_read mem (?a + of_nat (8 * k + ?j)) (n - (8 * k + ?j))"
    using same [of "8 * k + ?j + _"] by (intro mem_read_eqI) (auto simp: add.assoc min_def split: if_splits)
  have "?blk mem' \<noteq> ?blk mem"
  proof
    assume eq: "?blk mem' = ?blk mem"
    have "?a + of_nat (8 * k) + of_nat (d - 8 * k) = ?a + of_nat d"
      using k by (simp add: add.assoc flip: of_nat_add)
    moreover have "d - 8 * k < ?j" using diff(1) k by linarith
    ultimately show False using mem_read_eqD [OF eq, of "d - 8 * k"] diff(3) by metis
  qed
  then have "fasthash64 (mem_read mem' ?a n) 0 \<noteq> fasthash64 (mem_read mem ?a n) 0"
    unfolding mem_read_split3 [OF len] pre post
    by (intro fasthash64_block_change) auto
  then show ?thesis
    using verify_validD [OF valid] size
    by (simp add: appvalidate_verify_def get crc Let_def not_less)
qed

lemma verify_erased:
  assumes "mem (CONFIG_LAUNCH_APP_ADDRESS c) = 0xff"
  shows "appvalidate_verify c mem = APP_NO_METADATA"
proof -
  have "hd (magic (appvalidate_get_metadata c mem)) = 0xff"
    using assms by (simp add: appvalidate_get_metadata_def metadata_of_bytes_def get_metadata_addr_def
        app_metadata_size_def mem_read_def upt_rec)
  moreover have "hd APP_METADATA_MAGIC \<noteq> 0xff"
    by (simp add: APP_METADATA_MAGIC_def cstr_def)
  ultimately have "magic (appvalidate_get_metadata c mem) \<noteq> APP_METADATA_MAGIC" by auto
  then show ?thesis by (simp add: appvalidate_verify_def Let_def)
qed

section \<open>The built image\<close>

text \<open>The image as it is laid out in flash from \<open>CONFIG_LAUNCH_APP_ADDRESS\<close> on: the metadata
  page, filled up with erased bytes, and the code.\<close>

definition flash_image :: "config \<Rightarrow> u8 list \<Rightarrow> u32 \<Rightarrow> u8 list \<Rightarrow> u8 list" where
  "flash_image c code version variant =
     bytes_of_metadata (image_metadata code version variant) @
     replicate (unat (CONFIG_METADATA_PAGE_SIZE c) - app_metadata_size) 0xff @ code"

definition image_ok :: "config \<Rightarrow> u8 list \<Rightarrow> u8 list \<Rightarrow> bool" where
  "image_ok c code variant \<longleftrightarrow> length variant = 32 \<and> 0 < length code \<and>
     length code \<le> unat (MAX_APP_SIZE c) \<and> app_metadata_size \<le> unat (CONFIG_METADATA_PAGE_SIZE c)"

lemma metadata_wf_image [simp]:
  "metadata_wf (image_metadata code version variant) \<longleftrightarrow> length variant = 32"
  by (simp add: image_metadata_def) (simp add: metadata_wf_def)

lemma length_flash_image [layout]:
  "image_ok c code variant \<Longrightarrow>
   length (flash_image c code version variant) = unat (CONFIG_METADATA_PAGE_SIZE c) + length code"
  by (simp add: flash_image_def image_ok_def length_bytes_of_metadata)

lemma holds_at_append:
  "holds_at mem a (xs @ ys) \<longleftrightarrow> holds_at mem a xs \<and> holds_at mem (a + of_nat (length xs)) ys"
  by (simp add: holds_at_def mem_read_append)

lemma holds_at_mem_write: "length bs \<le> 2 ^ 32 \<Longrightarrow> holds_at (mem_write m a bs) a bs"
  by (simp add: holds_at_def)

lemma flash_image_parts:
  assumes ok: "image_ok c code variant"
    and mem: "holds_at mem (CONFIG_LAUNCH_APP_ADDRESS c) (flash_image c code version variant)"
  shows flash_image_code: "holds_at mem (get_app_code_addr c) code"
    and flash_image_metadata: "appvalidate_get_metadata c mem = image_metadata code version variant"
    and flash_image_meta_bytes: "holds_at mem (get_metadata_addr c)
      (bytes_of_metadata (image_metadata code version variant))"
proof -
  have wf: "metadata_wf (image_metadata code version variant)" using ok by (simp add: image_ok_def)
  have "of_nat app_metadata_size + of_nat (unat (CONFIG_METADATA_PAGE_SIZE c) - app_metadata_size) =
      CONFIG_METADATA_PAGE_SIZE c"
    using ok by (simp add: image_ok_def flip: of_nat_add)
  then show "holds_at mem (get_app_code_addr c) code"
    using mem wf by (simp add: flash_image_def holds_at_append length_bytes_of_metadata
        get_app_code_addr_def add.assoc)
  show meta: "holds_at mem (get_metadata_addr c) (bytes_of_metadata (image_metadata code version variant))"
    using mem by (simp add: flash_image_def holds_at_append get_metadata_addr_def)
  then show "appvalidate_get_metadata c mem = image_metadata code version variant"
    using wf by (simp add: appvalidate_get_metadata_def holds_at_def length_bytes_of_metadata
        metadata_of_bytes_of_metadata)
qed

lemma image_ok_length: "image_ok c code variant \<Longrightarrow> length code < 2 ^ 32"
  unfolding image_ok_def by (elim conjE) (rule le_less_trans, assumption, simp)

lemma verify_flash_image:
  assumes ok: "image_ok c code variant"
    and mem: "holds_at mem (CONFIG_LAUNCH_APP_ADDRESS c) (flash_image c code version variant)"
  shows "appvalidate_verify c mem = APP_VALID"
proof -
  let ?m = "\<lparr> magic = APP_METADATA_MAGIC, app_size = of_nat (length code), app_hash = fasthash64 code 0,
     app_version = version, app_variant_name = variant, reserved = replicate 8 0xff, meta_crc = 0 \<rparr>"
  have wf: "metadata_wf ?m" using ok by (simp add: metadata_wf_def image_ok_def)
  have meta: "holds_at mem (get_metadata_addr c) (bytes_of_metadata (seal_metadata ?m))"
    using flash_image_meta_bytes [OF ok mem] by (simp add: image_metadata_def)
  show ?thesis
    by (rule verify_sealed [OF wf _ meta flash_image_code [OF ok mem]])
       (use ok image_ok_length [OF ok] in \<open>simp_all add: image_ok_def word_le_nat_alt unat_of_nat_u32\<close>)
qed

section \<open>Properties\<close>

text \<open>C1: The boot-time check accepts every correctly built image: if flash holds, from
  \<open>CONFIG_LAUNCH_APP_ADDRESS\<close> on, the metadata page and the code of an application that fits,
  \<open>appvalidate_verify\<close> answers \<open>APP_VALID\<close>.\<close>

theorem verify_accepts_image:
  assumes "image_ok c code variant"
    and "holds_at mem (CONFIG_LAUNCH_APP_ADDRESS c) (flash_image c code version variant)"
  shows "appvalidate_verify c mem = APP_VALID"
  using assms by (rule verify_flash_image)

definition demo_code :: "u8 list" where
  "demo_code = [0x12, 0x34, 0x56, 0x78, 0x9a, 0xbc, 0xde, 0xf0, 0x11, 0x22]"

definition demo_variant :: "u8 list" where
  "demo_variant = cstr ''demo'' @ replicate 28 0"

definition demo_flash :: memory where
  "demo_flash = mem_write (\<lambda>_. 0xff) 0x8002000 (flash_image steinzeit demo_code 7 demo_variant)"

lemma image_ok_demo: "image_ok steinzeit demo_code demo_variant"
  by (simp add: image_ok_def demo_code_def demo_variant_def steinzeit_def MAX_APP_SIZE_def
      app_metadata_size_def)

lemma demo_flash_holds:
  "holds_at demo_flash (CONFIG_LAUNCH_APP_ADDRESS steinzeit) (flash_image steinzeit demo_code 7 demo_variant)"
  unfolding demo_flash_def
  using holds_at_mem_write [of "flash_image steinzeit demo_code 7 demo_variant" "\<lambda>_. 0xff" "0x8002000"]
    length_flash_image [OF image_ok_demo]
  by (simp add: steinzeit_def demo_code_def)

theorem verify_accepts_image_witness: "appvalidate_verify steinzeit demo_flash = APP_VALID"
  by (rule verify_accepts_image [OF image_ok_demo demo_flash_holds])

text \<open>C2: The check detects tampering. Start from flash whose application is valid, keep the
  metadata and change the code inside one aligned 64-bit block (any number of its bits, the
  block at the end possibly short): \<open>appvalidate_verify\<close> answers \<open>APP_HASH_MISMATCH\<close>,
  whatever the content.\<close>

theorem verify_detects_block_change:
  assumes "appvalidate_verify c mem = APP_VALID"
    and "mem_read mem' (get_metadata_addr c) app_metadata_size =
      mem_read mem (get_metadata_addr c) app_metadata_size"
    and "\<And>i. i < unat (app_size (appvalidate_get_metadata c mem)) \<Longrightarrow> i div 8 \<noteq> d div 8 \<Longrightarrow>
      mem' (get_app_code_addr c + of_nat i) = mem (get_app_code_addr c + of_nat i)"
    and "d < unat (app_size (appvalidate_get_metadata c mem))"
    and "mem' (get_app_code_addr c + of_nat d) \<noteq> mem (get_app_code_addr c + of_nat d)"
  shows "appvalidate_verify c mem' = APP_HASH_MISMATCH"
  by (rule verify_block_changed [OF assms(1,2) refl, of "d div 8" d]) (use assms(3-5) in auto)

definition tampered_flash :: memory where
  "tampered_flash = demo_flash(0x8002409 := 0x23)"

lemma demo_metadata_size: "unat (app_size (appvalidate_get_metadata steinzeit demo_flash)) = 10"
  by (simp add: flash_image_metadata [OF image_ok_demo demo_flash_holds] image_metadata_def demo_code_def)

lemma demo_flash_code:
  "i < 10 \<Longrightarrow> demo_flash (get_app_code_addr steinzeit + of_nat i) = demo_code ! i"
  using flash_image_code [OF image_ok_demo demo_flash_holds]
  by (simp add: holds_at_def mem_read_eq_iff demo_code_def)

theorem verify_detects_block_change_witness:
  "appvalidate_verify steinzeit tampered_flash = APP_HASH_MISMATCH"
proof (rule verify_detects_block_change [of _ demo_flash _ 9])
  show "appvalidate_verify steinzeit demo_flash = APP_VALID"
    by (rule verify_flash_image [OF image_ok_demo demo_flash_holds])
  show "mem_read tampered_flash (get_metadata_addr steinzeit) app_metadata_size =
      mem_read demo_flash (get_metadata_addr steinzeit) app_metadata_size"
    by (rule mem_read_eqI)
       (simp add: tampered_flash_def app_metadata_size_def get_metadata_addr_def steinzeit_def
          word_unat_eq_iff unat_word_ariths unat_of_nat_u32)
  show "tampered_flash (get_app_code_addr steinzeit + of_nat i) = demo_flash (get_app_code_addr steinzeit + of_nat i)"
    if "i < unat (app_size (appvalidate_get_metadata steinzeit demo_flash))" "i div 8 \<noteq> 9 div 8" for i
  proof -
    have "i < 8" using that by (auto simp: demo_metadata_size)
    then show ?thesis
      by (simp add: tampered_flash_def get_app_code_addr_def steinzeit_def
          word_unat_eq_iff unat_word_ariths unat_of_nat_u32)
  qed
  show "tampered_flash (get_app_code_addr steinzeit + of_nat 9) \<noteq> demo_flash (get_app_code_addr steinzeit + of_nat 9)"
    using demo_flash_code [of 9]
    by (simp add: tampered_flash_def demo_code_def get_app_code_addr_def steinzeit_def)
qed (simp_all add: demo_metadata_size)

end
