(* ===== verification/FlashApi.thy ===== *)
theory FlashApi
  imports AppValidate
begin

text \<open>
  The interface \<open>board/flash.h\<close> between the command handlers of \<open>flashcmd.c\<close> and the flash
  code of the three boards. A \<open>flash_api\<close> holds the two functions the header declares and the
  memory-mapped view of the flash; \<open>None\<close> says that a wait for the hardware inside a call never
  ends. Two contracts are stated as locales and interpreted in the board theories: a
  \<open>flash_device\<close> never changes anything below the application, and a \<open>flash_progress\<close> also
  stores what it acknowledged when the host sends the blocks in order, repeating a block when
  it missed the acknowledgement.
\<close>

record 'f flash_api =
  flash_write_block :: "u32 \<Rightarrow> u32 list \<Rightarrow> 'f \<Rightarrow> (int \<times> 'f) option"
  flash_complete :: "'f \<Rightarrow> (int \<times> 'f) option"
  flash_memory :: "'f \<Rightarrow> memory"

abbreviation (input) flash_end :: "config \<Rightarrow> u32" where
  "flash_end c \<equiv> CONFIG_FLASH_START c + CONFIG_FLASH_SIZE c"

text \<open>\<open>ALIGN_DOWN\<close> of \<open>compiler.h\<close>, for the powers of two it is used with.\<close>

definition ALIGN_DOWN :: "u32 \<Rightarrow> u32 \<Rightarrow> u32" where
  "ALIGN_DOWN x a = x AND NOT (a - 1)"

text \<open>A block lies inside the application area.\<close>

definition in_app_area :: "config \<Rightarrow> u32 \<Rightarrow> bool" where
  "in_app_area c a \<longleftrightarrow> unat (CONFIG_LAUNCH_APP_ADDRESS c) \<le> unat a \<and>
     unat a + 64 \<le> unat (flash_end c)"

definition same_below :: "u32 \<Rightarrow> memory \<Rightarrow> memory \<Rightarrow> bool" where
  "same_below a m m' \<longleftrightarrow> (\<forall>x < a. m' x = m x)"

lemma same_below_refl [simp, intro]: "same_below a m m"
  by (simp add: same_below_def)

lemma same_below_trans [trans]: "same_below a m m' \<Longrightarrow> same_below a m' m'' \<Longrightarrow> same_below a m m''"
  by (simp add: same_below_def)

lemma same_below_mono: "same_below a m m' \<Longrightarrow> b \<le> a \<Longrightarrow> same_below b m m'"
  by (auto simp: same_below_def)

section \<open>Ranges and flash cells\<close>

definition span :: "u32 \<Rightarrow> nat \<Rightarrow> u32 set" where
  "span a n = {x. unat a \<le> unat x \<and> unat x < unat a + n}"

lemma span_mono: "unat a' + n' \<le> unat a + n \<Longrightarrow> unat a \<le> unat a' \<Longrightarrow> span a' n' \<subseteq> span a n"
  by (auto simp: span_def)

definition program_bytes :: "memory \<Rightarrow> u32 \<Rightarrow> u8 list \<Rightarrow> memory" where
  "program_bytes m a bs = (\<lambda>x. if unat (x - a) < length bs then m x AND bs ! unat (x - a) else m x)"

lemma program_bytes_outside:
  "x \<notin> span a (length bs) \<Longrightarrow> unat a + length bs < 2 ^ 32 \<Longrightarrow> program_bytes m a bs x = m x"
  by (auto simp: program_bytes_def span_def unat_sub_if' split: if_splits)

definition erased_from :: "memory \<Rightarrow> u32 \<Rightarrow> nat \<Rightarrow> bool" where
  "erased_from mem a n \<longleftrightarrow> (\<forall>x \<in> span a n. mem x = 0xff)"

lemma erased_from_sub:
  "erased_from mem a n \<Longrightarrow> unat a \<le> unat b \<Longrightarrow> unat b + k \<le> unat a + n \<Longrightarrow> erased_from mem b k"
  by (auto simp: erased_from_def span_def)

lemma ff_and [simp]: "(0xff :: u8) AND b = b"
  by (rule byte_eqI) (drule less_8_cases, elim disjE; simp add: bit_simps)

lemma holds_at_same:
  assumes "holds_at mem a bs" and "\<And>i. i < length bs \<Longrightarrow> mem' (a + of_nat i) = mem (a + of_nat i)"
  shows "holds_at mem' a bs"
  using assms by (simp add: holds_at_def mem_read_eq_iff)

lemma holds_at_same_below:
  assumes "holds_at mem a bs" and "same_below b mem mem'" and "unat a + length bs \<le> unat b"
  shows "holds_at mem' a bs"
  using assms(1)
proof (rule holds_at_same)
  fix i assume i: "i < length bs"
  have "unat a + i < 2 ^ 32" using i assms(3) unat_u32_less [of b] by (simp del: unat_u32_less)
  then have "a + of_nat i < b" using i assms(3) by (simp add: word_less_nat_alt unat_add_nat)
  then show "mem' (a + of_nat i) = mem (a + of_nat i)" using assms(2) by (simp add: same_below_def)
qed

text \<open>A word-wise check for erased cells.\<close>

lemma u32_of_bytes_ff: "u32_of_bytes a b c d = 0xffffffff \<longleftrightarrow> a = 0xff \<and> b = 0xff \<and> c = 0xff \<and> d = 0xff"
proof
  assume eq: "u32_of_bytes a b c d = 0xffffffff"
  have "[a, b, c, d] = bytes_of_u32 (u32_of_bytes a b c d)" by simp
  also have "\<dots> = [0xff, 0xff, 0xff, 0xff]" unfolding eq by (simp add: bytes_of_u32_def)
  finally show "a = 0xff \<and> b = 0xff \<and> c = 0xff \<and> d = 0xff" by simp
qed (simp add: u32_of_bytes_def)

lemma erased_words_iff:
  "list_all (\<lambda>i. mem_u32 mem (addr + of_nat (4 * i)) = 0xffffffff) [0..<k] \<longleftrightarrow>
   (\<forall>i < 4 * k. mem (addr + of_nat i) = 0xff)"
proof -
  have word: "mem_u32 mem (addr + of_nat (4 * i)) = 0xffffffff \<longleftrightarrow>
      (\<forall>j < 4. mem (addr + of_nat (4 * i + j)) = 0xff)" for i
  proof -
    have j4: "(\<forall>j < (4 :: nat). P j) \<longleftrightarrow> P 0 \<and> P 1 \<and> P 2 \<and> P 3" for P
      by (auto simp: numeral_eq_Suc less_Suc_eq)
    show ?thesis by (simp add: mem_u32_def u32_of_bytes_ff j4 algebra_simps)
  qed
  have "(\<forall>i < 4 * n. P i) \<longleftrightarrow> (\<forall>i < n. \<forall>j < 4. P (4 * i + j))" for P and n :: nat
  proof safe
    fix i
    assume P: "\<forall>i < n. \<forall>j < 4. P (4 * i + j)" and "i < 4 * n"
    then have "i div 4 < n" "i mod 4 < 4" by auto
    with P have "P (4 * (i div 4) + i mod 4)" by blast
    then show "P i" by simp
  qed auto
  note split = this
  show ?thesis unfolding list_all_iff word split by auto
qed

section \<open>Pages, sectors and their alignment\<close>

lemma ALIGN_DOWN_shift: "ALIGN_DOWN x (2 ^ k) = push_bit k (drop_bit k x)"
proof -
  have "ALIGN_DOWN x (2 ^ k) = x AND NOT (mask k)"
    by (simp add: ALIGN_DOWN_def mask_eq_exp_minus_1)
  also have "\<dots> = push_bit k (drop_bit k x)"
    by (rule bit_word_eqI) (auto simp: bit_simps)
  finally show ?thesis .
qed

lemma unat_power_u32: "k < 32 \<Longrightarrow> unat (2 ^ k :: u32) = 2 ^ k"
proof -
  assume "k < 32"
  then have "(2::nat) ^ k < 2 ^ 32" by (intro power_strict_increasing) simp_all
  from unat_of_nat_u32 [OF this] show ?thesis by simp
qed

lemma unat_ALIGN_DOWN: "k < 32 \<Longrightarrow> unat (ALIGN_DOWN x (2 ^ k)) = unat x div 2 ^ k * 2 ^ k"
proof -
  assume "k < 32"
  note p = unat_power_u32 [OF this]
  have "unat x div 2 ^ k * 2 ^ k \<le> unat x" by (rule div_times_less_eq_dividend)
  then have "unat x div 2 ^ k * 2 ^ k < 2 ^ 32"
    by (rule le_less_trans) simp
  then show ?thesis
    using le_less_trans [OF div_le_dividend unat_u32_less, of x "2 ^ k"]
    by (simp add: ALIGN_DOWN_shift push_bit_eq_mult drop_bit_eq_div unat_word_ariths unat_div p)
qed

lemma aligned_mod:
  assumes "ALIGN_DOWN p (2 ^ k) = p" and "k < 32"
  shows "unat p mod 2 ^ k = 0"
proof -
  have "unat p div 2 ^ k * 2 ^ k = unat p" using unat_ALIGN_DOWN [OF assms(2), of p] assms(1) by simp
  then show ?thesis by (metis mod_mult_self2_is_0)
qed

lemma unat_and_power: "k < 32 \<Longrightarrow> unat (x AND (2 ^ k - 1) :: u32) = unat x mod 2 ^ k"
  by (simp add: mask_eq_exp_minus_1 [symmetric] take_bit_eq_mask [symmetric] unsigned_take_bit_eq)
     (simp add: take_bit_eq_mod)

lemma aligned_index: "b \<le> q \<Longrightarrow> q mod n = 0 \<Longrightarrow> b mod n = 0 \<Longrightarrow> b + n * ((q - b) div n) = (q :: nat)"
  by (simp add: mod_eq_0_iff_dvd dvd_diff_nat)

section \<open>Sequences of calls\<close>

datatype flash_call = Write_Block u32 "u32 list" | Complete

definition flash_call :: "'f flash_api \<Rightarrow> flash_call \<Rightarrow> 'f \<Rightarrow> (int \<times> 'f) option" where
  "flash_call api call f =
     (case call of Write_Block a d \<Rightarrow> flash_write_block api a d f | Complete \<Rightarrow> flash_complete api f)"

fun flash_calls :: "'f flash_api \<Rightarrow> flash_call list \<Rightarrow> 'f \<Rightarrow> 'f option" where
  "flash_calls api [] f = Some f"
| "flash_calls api (call # calls) f =
     (case flash_call api call f of None \<Rightarrow> None | Some (r, f') \<Rightarrow> flash_calls api calls f')"

definition call_ok :: "config \<Rightarrow> flash_call \<Rightarrow> bool" where
  "call_ok c call \<longleftrightarrow> (case call of Write_Block a d \<Rightarrow> in_app_area c a \<and> length d = 16 | Complete \<Rightarrow> True)"

section \<open>An acknowledged upload\<close>

text \<open>The host cuts the image into blocks and fills the last one with erased bytes.\<close>

definition image_block :: "u8 list \<Rightarrow> nat \<Rightarrow> u8 list" where
  "image_block img k = take 64 (drop (64 * k) img @ replicate 64 0xff)"

definition upload_address :: "config \<Rightarrow> nat \<Rightarrow> u32" where
  "upload_address c k = CONFIG_LAUNCH_APP_ADDRESS c + of_nat (64 * k)"

text \<open>\<open>acked_upload api c img f k f'\<close>: from state \<open>f\<close> the first \<open>k\<close> blocks were sent in order,
  each call returned a success and \<open>f'\<close> is the state reached. A block may be sent again before
  the next one is.\<close>

inductive acked_upload :: "'f flash_api \<Rightarrow> config \<Rightarrow> u8 list \<Rightarrow> 'f \<Rightarrow> nat \<Rightarrow> 'f \<Rightarrow> bool"
  for api :: "'f flash_api" and c :: config and img :: "u8 list" and f :: 'f where
  start: "acked_upload api c img f 0 f"
| forward: "acked_upload api c img f k f1 \<Longrightarrow>
    flash_write_block api (upload_address c k) (words_of_bytes (image_block img k)) f1 = Some (r, f2) \<Longrightarrow>
    0 \<le> r \<Longrightarrow> acked_upload api c img f (Suc k) f2"
| again: "acked_upload api c img f (Suc k) f1 \<Longrightarrow>
    flash_write_block api (upload_address c k) (words_of_bytes (image_block img k)) f1 = Some (r, f2) \<Longrightarrow>
    0 \<le> r \<Longrightarrow> acked_upload api c img f (Suc k) f2"

inductive_cases acked_upload_0E: "acked_upload api c img f 0 f'"

definition image_upto :: "u8 list \<Rightarrow> nat \<Rightarrow> u8 list" where
  "image_upto img k = concat (map (image_block img) [0..<k])"

lemma length_image_block [simp, layout]: "length (image_block img k) = 64"
  by (simp add: image_block_def min_def)

lemma length_image_upto [simp, layout]: "length (image_upto img k) = 64 * k"
  by (induction k) (simp_all add: image_upto_def)

lemma image_upto_Suc: "image_upto img (Suc k) = image_upto img k @ image_block img k"
  by (simp add: image_upto_def)

lemma image_upto_0 [simp]: "image_upto img 0 = []"
  by (simp add: image_upto_def)

lemma bytes_of_image_block [simp]:
  "bytes_of_words (words_of_bytes (image_block img k)) = image_block img k"
  by (simp add: bytes_of_words_of_bytes)

lemma take_image_upto: "take (min (64 * k) (length img)) (image_upto img k) = take (64 * k) img"
proof (induction k)
  case (Suc k)
  show ?case
  proof (cases "64 * k \<le> length img")
    case True
    have "take (min (64 * Suc k) (length img)) (image_upto img (Suc k)) =
        image_upto img k @ take (min 64 (length img - 64 * k)) (image_block img k)"
      using True by (cases "64 + 64 * k \<le> length img") (auto simp: image_upto_Suc min_def)
    also have "image_upto img k = take (64 * k) img"
      using Suc True by (simp add: min_def)
    also have "take (min 64 (length img - 64 * k)) (image_block img k) = take 64 (drop (64 * k) img)"
      by (simp add: image_block_def min_def)
    also have "take (64 * k) img @ take 64 (drop (64 * k) img) = take (64 * Suc k) img"
      by (metis take_add mult_Suc_right add.commute)
    finally show ?thesis .
  next
    case False
    then show ?thesis using Suc by (simp add: image_upto_Suc min_def)
  qed
qed simp

lemma take_image_upto_whole: "length img \<le> 64 * k \<Longrightarrow> take (length img) (image_upto img k) = img"
  using take_image_upto [of k img] by (simp add: min_absorb2)

section \<open>The two contracts\<close>

locale flash_device =
  fixes api :: "'f flash_api" and c :: config and inv :: "'f \<Rightarrow> bool"
  assumes write_inv: "inv f \<Longrightarrow> in_app_area c a \<Longrightarrow> length d = 16 \<Longrightarrow>
      flash_write_block api a d f = Some (r, f') \<Longrightarrow> inv f'"
    and write_same: "inv f \<Longrightarrow> in_app_area c a \<Longrightarrow> length d = 16 \<Longrightarrow>
      flash_write_block api a d f = Some (r, f') \<Longrightarrow>
      same_below (CONFIG_LAUNCH_APP_ADDRESS c) (flash_memory api f) (flash_memory api f')"
    and complete_inv: "inv f \<Longrightarrow> flash_complete api f = Some (r, f') \<Longrightarrow> inv f'"
    and complete_same: "inv f \<Longrightarrow> flash_complete api f = Some (r, f') \<Longrightarrow>
      same_below (CONFIG_LAUNCH_APP_ADDRESS c) (flash_memory api f) (flash_memory api f')"
begin

lemma call_inv: "inv f \<Longrightarrow> call_ok c call \<Longrightarrow> flash_call api call f = Some (r, f') \<Longrightarrow> inv f'"
  by (auto simp: flash_call_def call_ok_def split: flash_call.splits intro: write_inv complete_inv)

lemma call_same: "inv f \<Longrightarrow> call_ok c call \<Longrightarrow> flash_call api call f = Some (r, f') \<Longrightarrow>
    same_below (CONFIG_LAUNCH_APP_ADDRESS c) (flash_memory api f) (flash_memory api f')"
  by (auto simp: flash_call_def call_ok_def split: flash_call.splits intro: write_same complete_same)

lemma calls_protect:
  "inv f \<Longrightarrow> list_all (call_ok c) calls \<Longrightarrow> flash_calls api calls f = Some f' \<Longrightarrow>
   inv f' \<and> same_below (CONFIG_LAUNCH_APP_ADDRESS c) (flash_memory api f) (flash_memory api f')"
proof (induction calls arbitrary: f)
  case (Cons call calls)
  then obtain r f1 where f1: "flash_call api call f = Some (r, f1)"
      "flash_calls api calls f1 = Some f'"
    by (auto split: option.splits)
  have call: "call_ok c call" "list_all (call_ok c) calls" using Cons.prems by simp_all
  have "inv f1" by (rule call_inv [OF Cons.prems(1) call(1) f1(1)])
  with call f1 Cons.IH have "inv f' \<and> same_below (CONFIG_LAUNCH_APP_ADDRESS c) (flash_memory api f1) (flash_memory api f')"
    by blast
  with call_same [OF Cons.prems(1) call(1) f1(1)] show ?case by (blast intro: same_below_trans)
qed simp

end

locale flash_progress = flash_device +
  fixes prog :: "'f \<Rightarrow> u8 list \<Rightarrow> bool"
  assumes prog_start: "inv f \<Longrightarrow> prog f []"
    and prog_forward: "inv f \<Longrightarrow> prog f stored \<Longrightarrow> length stored mod 64 = 0 \<Longrightarrow> length d = 16 \<Longrightarrow>
      a = CONFIG_LAUNCH_APP_ADDRESS c + of_nat (length stored) \<Longrightarrow>
      unat (CONFIG_LAUNCH_APP_ADDRESS c) + length stored + 64 \<le> unat (flash_end c) \<Longrightarrow>
      flash_write_block api a d f = Some (r, f') \<Longrightarrow> 0 \<le> r \<Longrightarrow> prog f' (stored @ bytes_of_words d)"
    and prog_again: "inv f \<Longrightarrow> prog f (stored @ bytes_of_words d) \<Longrightarrow> length stored mod 64 = 0 \<Longrightarrow>
      length d = 16 \<Longrightarrow> a = CONFIG_LAUNCH_APP_ADDRESS c + of_nat (length stored) \<Longrightarrow>
      unat (CONFIG_LAUNCH_APP_ADDRESS c) + length stored + 64 \<le> unat (flash_end c) \<Longrightarrow>
      flash_write_block api a d f = Some (r, f') \<Longrightarrow> 0 \<le> r \<Longrightarrow> prog f' (stored @ bytes_of_words d)"
    and prog_complete: "inv f \<Longrightarrow> prog f stored \<Longrightarrow> length stored mod 64 = 0 \<Longrightarrow>
      unat (CONFIG_LAUNCH_APP_ADDRESS c) + length stored \<le> unat (flash_end c) \<Longrightarrow>
      flash_complete api f = Some (r, f') \<Longrightarrow>
      holds_at (flash_memory api f') (CONFIG_LAUNCH_APP_ADDRESS c) stored"
begin

lemma block_in_area:
  assumes "unat (CONFIG_LAUNCH_APP_ADDRESS c) + 64 * k + 64 \<le> unat (flash_end c)"
  shows "in_app_area c (upload_address c k)"
proof -
  have "unat (upload_address c k) = unat (CONFIG_LAUNCH_APP_ADDRESS c) + 64 * k"
    using assms unat_u32_less [of "flash_end c"]
    by (simp add: upload_address_def unat_word_ariths unat_of_nat_u32 del: unat_u32_less)
  with assms show ?thesis by (simp add: in_app_area_def)
qed

lemma upload_prog:
  assumes "acked_upload api c img f k f'" and "inv f"
    and "unat (CONFIG_LAUNCH_APP_ADDRESS c) + 64 * k \<le> unat (flash_end c)"
  shows "inv f' \<and> prog f' (image_upto img k)"
  using assms
proof (induction rule: acked_upload.induct)
  case start
  then show ?case by (simp add: prog_start)
next
  case (forward k f1 r f2)
  then have pre: "inv f1" "prog f1 (image_upto img k)" by simp_all
  have room: "unat (CONFIG_LAUNCH_APP_ADDRESS c) + 64 * k + 64 \<le> unat (flash_end c)"
    using forward.prems by simp
  have "inv f2"
    using write_inv [OF pre(1) block_in_area [OF room] _ forward.hyps(2)] by simp
  moreover have "prog f2 (image_upto img k @ bytes_of_words (words_of_bytes (image_block img k)))"
    by (rule prog_forward [OF pre _ _ _ _ forward.hyps(2,3)]) (use room in \<open>simp_all add: upload_address_def\<close>)
  ultimately show ?case by (simp add: image_upto_Suc)
next
  case (again k f1 r f2)
  then have pre: "inv f1" "prog f1 (image_upto img k @ bytes_of_words (words_of_bytes (image_block img k)))"
    by (simp_all add: image_upto_Suc)
  have room: "unat (CONFIG_LAUNCH_APP_ADDRESS c) + 64 * k + 64 \<le> unat (flash_end c)"
    using again.prems by simp
  have "inv f2"
    using write_inv [OF pre(1) block_in_area [OF room] _ again.hyps(2)] by simp
  moreover have "prog f2 (image_upto img k @ bytes_of_words (words_of_bytes (image_block img k)))"
    by (rule prog_again [OF pre _ _ _ _ again.hyps(2,3)]) (use room in \<open>simp_all add: upload_address_def\<close>)
  ultimately show ?case by (simp add: image_upto_Suc)
qed

lemma upload_stored:
  assumes up: "acked_upload api c img f k f1" and inv: "inv f"
    and room: "unat (CONFIG_LAUNCH_APP_ADDRESS c) + 64 * k \<le> unat (flash_end c)"
    and whole: "length img \<le> 64 * k" and fin: "flash_complete api f1 = Some (r, f')"
  shows "holds_at (flash_memory api f') (CONFIG_LAUNCH_APP_ADDRESS c) img"
proof -
  have "holds_at (flash_memory api f') (CONFIG_LAUNCH_APP_ADDRESS c) (image_upto img k)"
    using upload_prog [OF up inv room] fin room
    by (intro prog_complete [OF _ _ _ _ fin]) simp_all
  then have "holds_at (flash_memory api f') (CONFIG_LAUNCH_APP_ADDRESS c)
      (take (length img) (image_upto img k) @ drop (length img) (image_upto img k))"
    by simp
  then show ?thesis
    unfolding holds_at_append take_image_upto_whole [OF whole] by simp
qed

end

end
