(* ===== verification/Crc16.thy ===== *)
theory Crc16
  imports Prelude
begin

text \<open>
  The frame checksum of \<open>src/generic/crc16_ccitt.c\<close>. \<open>crc16_step\<close> is the body of its
  loop, with the truncations C makes at each assignment. The reference is the bit-serial
  shift register of the reflected polynomial 0x8408; the lemmas show that the byte-wise
  routine computes it, and what corruption of a frame it always detects.
\<close>

definition crc16_step :: "u16 \<Rightarrow> u8 \<Rightarrow> u16" where
  "crc16_step crc b =
     (let data = b XOR ucast (crc AND 0xff);
          data = data XOR push_bit 4 data
      in (push_bit 8 (ucast data) OR drop_bit 8 crc) XOR ucast (drop_bit 4 data)
         XOR push_bit 3 (ucast data))"

fun crc16_loop :: "u16 \<Rightarrow> u8 list \<Rightarrow> u16" where
  "crc16_loop crc [] = crc"
| "crc16_loop crc (b # buf) = crc16_loop (crc16_step crc b) buf"

definition crc16_ccitt :: "u8 list \<Rightarrow> u16" where
  "crc16_ccitt buf = crc16_loop 0xffff buf"

section \<open>The bit-serial reference\<close>

definition lfsr_shift :: "u16 \<Rightarrow> u16" where
  "lfsr_shift c = (if bit c 0 then drop_bit 1 c XOR 0x8408 else drop_bit 1 c)"

definition lfsr_byte :: "u16 \<Rightarrow> u8 \<Rightarrow> u16" where
  "lfsr_byte c b = (lfsr_shift ^^ 8) (c XOR ucast b)"

definition lfsr_crc :: "u8 list \<Rightarrow> u16" where
  "lfsr_crc buf = foldl lfsr_byte 0xffff buf"

lemma less_16_cases:
  "n < (16::nat) \<Longrightarrow> n = 15 \<or> n = 14 \<or> n = 13 \<or> n = 12 \<or> n = 11 \<or> n = 10 \<or> n = 9 \<or> n = 8 \<or>
   n = 7 \<or> n = 6 \<or> n = 5 \<or> n = 4 \<or> n = 3 \<or> n = 2 \<or> n = 1 \<or> n = 0"
  by arith

lemma bit_lfsr_shift:
  "n < 16 \<Longrightarrow> bit (lfsr_shift c) n \<longleftrightarrow> (bit c (n + 1) \<noteq> (bit c 0 \<and> (n = 3 \<or> n = 10 \<or> n = 15)))"
  by (drule less_16_cases, elim disjE; simp add: lfsr_shift_def bit_simps; simp add: eval_nat_numeral)

text \<open>The bits of the byte the step folds in: the low byte of the register, with its low
  nibble added into its high one.\<close>

definition folded_bit :: "u16 \<Rightarrow> nat \<Rightarrow> bool" where
  "folded_bit c n \<longleftrightarrow> bit c n \<noteq> (4 \<le> n \<and> bit c (n - 4))"

lemma bit_crc16_step:
  assumes "n < 16"
  shows "bit (crc16_step c b) n \<longleftrightarrow>
    (((8 \<le> n \<and> folded_bit (c XOR ucast b) (n - 8)) \<or> (n < 8 \<and> bit c (n + 8)))
      \<noteq> (n < 4 \<and> folded_bit (c XOR ucast b) (n + 4)))
    \<noteq> (3 \<le> n \<and> n < 11 \<and> folded_bit (c XOR ucast b) (n - 3))"
  using less_16_cases [OF assms]
  by (elim disjE; simp add: crc16_step_def Let_def bit_simps folded_bit_def impossible_bit; argo?)

lemma crc16_step_xor: "crc16_step c b = crc16_step (c XOR ucast b) 0"
  by (rule bit_word_eqI) (simp add: bit_crc16_step bit_simps impossible_bit)

lemma lfsr_shift_8: "(lfsr_shift ^^ 8) c = crc16_step c 0"
proof (rule bit_word_eqI)
  fix n assume "n < LENGTH(16)"
  then have "n < 16" by simp
  from less_16_cases [OF this]
  show "bit ((lfsr_shift ^^ 8) c) n = bit (crc16_step c 0) n"
    by (elim disjE; simp add: bit_crc16_step folded_bit_def; simp add: eval_nat_numeral;
        simp add: bit_lfsr_shift impossible_bit; argo?)
qed

lemma crc16_step_eq_lfsr_byte: "crc16_step c b = lfsr_byte c b"
  by (subst crc16_step_xor) (simp add: lfsr_byte_def lfsr_shift_8)

lemma crc16_loop_foldl: "crc16_loop c buf = foldl lfsr_byte c buf"
  by (induction buf arbitrary: c) (simp_all add: crc16_step_eq_lfsr_byte)

section \<open>What a corrupted frame does to the checksum\<close>

text \<open>The shift register loses nothing: each of its steps, and so each byte step, is
  injective in the register.\<close>

lemma lfsr_shift_inj: "lfsr_shift c = lfsr_shift d \<Longrightarrow> c = d"
proof (rule bit_word_eqI)
  fix n
  assume eq: "lfsr_shift c = lfsr_shift d" and "n < LENGTH(16)"
  then have n: "n < 16" by simp
  have bits: "bit (lfsr_shift c) m = bit (lfsr_shift d) m" for m
    using eq by simp
  have b0: "bit c 0 = bit d 0"
    using bits [of 15] by (simp add: bit_lfsr_shift impossible_bit)
  show "bit c n = bit d n"
  proof (cases n)
    case 0
    with b0 show ?thesis by simp
  next
    case (Suc m)
    with n have "m < 16" by simp
    from bits [of m] have "bit c (m + 1) = bit d (m + 1)"
      unfolding bit_lfsr_shift [OF \<open>m < 16\<close>] b0 by blast
    with Suc show ?thesis by simp
  qed
qed

lemma lfsr_shift_funpow_inj: "(lfsr_shift ^^ k) c = (lfsr_shift ^^ k) d \<Longrightarrow> c = d"
  by (induction k arbitrary: c d) (auto dest: lfsr_shift_inj)

lemma xor_right_cancel: "(c :: u16) XOR x = d XOR x \<Longrightarrow> c = d"
  by (drule arg_cong [of _ _ "\<lambda>y. y XOR x"]) (simp add: xor.assoc)

lemma crc16_step_inj: "crc16_step c b = crc16_step d b \<Longrightarrow> c = d"
  unfolding crc16_step_eq_lfsr_byte lfsr_byte_def
  by (drule lfsr_shift_funpow_inj) (rule xor_right_cancel)

lemma crc16_loop_inj: "crc16_loop c buf = crc16_loop d buf \<Longrightarrow> c = d"
  by (induction buf arbitrary: c d) (auto dest: crc16_step_inj)

lemma crc16_loop_append: "crc16_loop c (xs @ ys) = crc16_loop (crc16_loop c xs) ys"
  by (induction xs arbitrary: c) simp_all

text \<open>Two bytes in a row act on the register as one sixteen bit value does, so two
  different pairs of bytes never leave the same register behind: the shift of the
  register by eight bits brings the second byte into place.\<close>

lemma crc16_step_push: "crc16_step (c XOR push_bit 8 (ucast (b :: u8))) 0 = crc16_step c 0 XOR ucast b"
proof (rule bit_word_eqI)
  fix n assume "n < LENGTH(16)"
  then have "n < 16" by simp
  from less_16_cases [OF this]
  show "bit (crc16_step (c XOR push_bit 8 (ucast b)) 0) n = bit (crc16_step c 0 XOR ucast b) n"
    by (elim disjE; simp add: bit_crc16_step folded_bit_def bit_simps; argo?)
qed

lemma crc16_two_bytes:
  "crc16_loop c [a, b] = (lfsr_shift ^^ 16) (c XOR u16_of_bytes a b)"
proof -
  have "u16_of_bytes a b = ucast a XOR push_bit 8 (ucast b)"
    by (rule bit_word_eqI) (auto simp: u16_of_bytes_def bit_simps impossible_bit)
  then have "c XOR u16_of_bytes a b = (c XOR ucast a) XOR push_bit 8 (ucast b)"
    by (simp add: xor.assoc)
  moreover have "(lfsr_shift ^^ 16) x = crc16_step (crc16_step x 0) 0" for x
    using funpow_add [of 8 8 lfsr_shift] by (simp add: lfsr_shift_8 del: funpow.simps)
  moreover have "crc16_loop c [a, b] = crc16_step (crc16_step (c XOR ucast a) 0 XOR ucast b) 0"
    using crc16_step_xor [of c a] crc16_step_xor [of "crc16_step (c XOR ucast a) 0" b] by simp
  ultimately show ?thesis by (simp add: crc16_step_push)
qed

lemma u16_of_bytes_inject [simp]: "u16_of_bytes a b = u16_of_bytes c d \<longleftrightarrow> a = c \<and> b = d"
  by (metis bytes_of_u16_of_bytes list.inject)

lemma crc16_two_bytes_inj:
  assumes "crc16_loop c [a, b] = crc16_loop c [a', b']"
  shows "a = a' \<and> b = b'"
proof -
  from assms have "c XOR u16_of_bytes a b = c XOR u16_of_bytes a' b'"
    unfolding crc16_two_bytes by (rule lfsr_shift_funpow_inj)
  then have "u16_of_bytes a b = u16_of_bytes a' b'"
    unfolding xor.commute [of c] by (rule xor_right_cancel)
  then show ?thesis by simp
qed

section \<open>Properties\<close>

text \<open>The byte-wise \<open>crc16_ccitt\<close>, with its two nibble folds and the truncations C makes,
  computes for every buffer the checksum of the bit-serial shift register with the reflected
  polynomial 0x8408 and initial value 0xffff.\<close>

lemma crc16_ccitt_is_lfsr: "crc16_ccitt buf = lfsr_crc buf"
  by (simp add: crc16_ccitt_def lfsr_crc_def crc16_loop_foldl)

text \<open>Burst detection: two buffers that differ in two neighbouring bytes only (in any of
  their sixteen bits) never have the same checksum.\<close>

lemma crc16_detects_burst:
  assumes "(a, b) \<noteq> (a', b')"
  shows "crc16_ccitt (pre @ [a, b] @ post) \<noteq> crc16_ccitt (pre @ [a', b'] @ post)"
proof
  assume "crc16_ccitt (pre @ [a, b] @ post) = crc16_ccitt (pre @ [a', b'] @ post)"
  then have "crc16_loop (crc16_loop 0xffff pre) [a, b] = crc16_loop (crc16_loop 0xffff pre) [a', b']"
    unfolding crc16_ccitt_def crc16_loop_append by (rule crc16_loop_inj)
  from crc16_two_bytes_inj [OF this] assms show False by simp
qed

end
