(* ===== verification/Command.thy ===== *)
theory Command
  imports Crc16
begin

text \<open>
  The message format and the receiver of \<open>src/command.c\<close> and \<open>src/command.h\<close>: how a reply is
  framed (\<open>command_respond\<close> and its callers) and how \<open>command_find_block\<close> finds the next
  frame in a receive buffer, with the static \<open>sync_state\<close> passed explicitly. A message handed
  to \<open>console_sendf\<close> is a \<open>command_encoder\<close>; the functions that send return the messages
  they send, in order, and the transports queue them. The dispatch of a frame to its handler
  is in theory \<open>Dispatch\<close>.

  \<open>frame\<close> is the format of \<open>protocol.md\<close>, stated apart from the code. The lemmas show that
  replies are frames, that the receiver accepts exactly the frames, and that it always makes
  progress on anything else.
\<close>

abbreviation (input) PROTO_VERSION :: u32 where "PROTO_VERSION \<equiv> 0x00010100"
abbreviation (input) CMD_CONNECT :: u32 where "CMD_CONNECT \<equiv> 0x11"
abbreviation (input) CMD_RX_BLOCK :: u32 where "CMD_RX_BLOCK \<equiv> 0x12"
abbreviation (input) CMD_RX_EOF :: u32 where "CMD_RX_EOF \<equiv> 0x13"
abbreviation (input) CMD_REQ_BLOCK :: u32 where "CMD_REQ_BLOCK \<equiv> 0x14"
abbreviation (input) CMD_COMPLETE :: u32 where "CMD_COMPLETE \<equiv> 0x15"
abbreviation (input) CMD_GET_CANBUS_ID :: u32 where "CMD_GET_CANBUS_ID \<equiv> 0x16"
abbreviation (input) CMD_IDENTIFY :: u32 where "CMD_IDENTIFY \<equiv> 0x17"
abbreviation (input) RESPONSE_ACK :: u32 where "RESPONSE_ACK \<equiv> 0xa0"
abbreviation (input) RESPONSE_NACK :: u32 where "RESPONSE_NACK \<equiv> 0xf1"
abbreviation (input) RESPONSE_COMMAND_ERROR :: u32 where "RESPONSE_COMMAND_ERROR \<equiv> 0xf2"

abbreviation (input) MESSAGE_MIN :: nat where "MESSAGE_MIN \<equiv> 8"
abbreviation (input) MESSAGE_MAX :: nat where "MESSAGE_MAX \<equiv> 128"
abbreviation (input) MESSAGE_TRAILER_SIZE :: nat where "MESSAGE_TRAILER_SIZE \<equiv> 4"
abbreviation (input) MESSAGE_POS_STX1 :: nat where "MESSAGE_POS_STX1 \<equiv> 0"
abbreviation (input) MESSAGE_POS_STX2 :: nat where "MESSAGE_POS_STX2 \<equiv> 1"
abbreviation (input) MESSAGE_POS_LEN :: nat where "MESSAGE_POS_LEN \<equiv> 3"
abbreviation (input) MESSAGE_TRAILER_CRC :: nat where "MESSAGE_TRAILER_CRC \<equiv> 4"
abbreviation (input) MESSAGE_TRAILER_SYNC2 :: nat where "MESSAGE_TRAILER_SYNC2 \<equiv> 2"
abbreviation (input) MESSAGE_TRAILER_SYNC :: nat where "MESSAGE_TRAILER_SYNC \<equiv> 1"
abbreviation (input) MESSAGE_STX1 :: u8 where "MESSAGE_STX1 \<equiv> 0x01"
abbreviation (input) MESSAGE_STX2 :: u8 where "MESSAGE_STX2 \<equiv> 0x88"
abbreviation (input) MESSAGE_SYNC2 :: u8 where "MESSAGE_SYNC2 \<equiv> 0x99"
abbreviation (input) MESSAGE_SYNC :: u8 where "MESSAGE_SYNC \<equiv> 0x03"

section \<open>Sending\<close>

record command_encoder =
  ce_data :: "u32 list"
  ce_max_size :: nat

definition command_encode_and_frame :: "command_encoder \<Rightarrow> u8 list" where
  "command_encode_and_frame ce = take (ce_max_size ce) (bytes_of_words (ce_data ce))"

definition command_respond :: "u32 list \<Rightarrow> u32 \<Rightarrow> nat \<Rightarrow> command_encoder" where
  "command_respond data cmdid data_len =
     (let data = data[0 := push_bit 24 (of_nat data_len - 2) OR push_bit 16 cmdid OR 0x8801];
          crc = crc16_ccitt (take ((data_len - 2) * 4 + 2) (drop 2 (bytes_of_words data)));
          data = data[data_len - 1 := push_bit 16 0x0399 OR ucast crc]
      in \<lparr> ce_data = data, ce_max_size = data_len * 4 \<rparr>)"

definition command_respond_ack :: "u32 \<Rightarrow> u32 list \<Rightarrow> nat \<Rightarrow> command_encoder" where
  "command_respond_ack acked_cmd out out_len =
     command_respond (out[1 := acked_cmd]) RESPONSE_ACK out_len"

text \<open>The two-word local \<open>out\<close> of these two is not initialised: \<open>command_respond\<close> writes
  both words. The zeros stand for its unknown content.\<close>

definition command_respond_command_error :: command_encoder where
  "command_respond_command_error = command_respond [0, 0] RESPONSE_COMMAND_ERROR 2"

definition command_respond_nack :: command_encoder where
  "command_respond_nack = command_respond [0, 0] RESPONSE_NACK 2"

definition command_get_arg_count :: "u32 list \<Rightarrow> nat" where
  "command_get_arg_count data = unat (drop_bit 24 (data ! 0))"

section \<open>Receiving\<close>

abbreviation (input) CF_NEED_SYNC :: u8 where "CF_NEED_SYNC \<equiv> 1"
abbreviation (input) CF_NEED_VALID :: u8 where "CF_NEED_VALID \<equiv> 2"

text \<open>What a call returns: the return value, \<open>*pop_count\<close>, the new \<open>sync_state\<close> and the
  messages sent.\<close>

type_synonym find_result = "int \<times> nat \<times> u8 \<times> command_encoder list"

text \<open>The code from the label \<open>need_sync\<close> on.\<close>

definition find_need_sync :: "u8 list \<Rightarrow> u8 \<Rightarrow> nat \<Rightarrow> find_result" where
  "find_need_sync buf sync_state search_skip =
     (let next_sync = (if length buf > search_skip
                       then map_option (\<lambda>i. search_skip + i) (memchr MESSAGE_STX1 (drop search_skip buf))
                       else None);
          (sync_state, pop_count) =
            (case next_sync of
               Some i \<Rightarrow> (sync_state AND NOT CF_NEED_SYNC, i)
             | None \<Rightarrow> (sync_state, length buf))
      in if sync_state AND CF_NEED_VALID \<noteq> 0 then (-1, pop_count, sync_state, [])
         else (-1, pop_count, sync_state OR CF_NEED_VALID, [command_respond_nack]))"

text \<open>The code from the label \<open>error\<close> on.\<close>

definition find_error :: "u8 list \<Rightarrow> u8 \<Rightarrow> find_result" where
  "find_error buf sync_state =
     find_need_sync buf (sync_state OR CF_NEED_SYNC)
       (if length buf > 0 \<and> buf ! 0 = MESSAGE_STX1 then 1 else 0)"

definition command_find_block :: "u8 list \<Rightarrow> u8 \<Rightarrow> find_result" where
  "command_find_block buf sync_state =
     (if length buf \<noteq> 0 \<and> sync_state AND CF_NEED_SYNC \<noteq> 0 then find_need_sync buf sync_state 0
      else if length buf < MESSAGE_MIN then (0, 0, sync_state, [])
      else if buf ! MESSAGE_POS_STX1 \<noteq> MESSAGE_STX1 \<or> buf ! MESSAGE_POS_STX2 \<noteq> MESSAGE_STX2
      then find_error buf sync_state
      else
        (let msglen = unat (buf ! MESSAGE_POS_LEN) * 4 + 8 in
         if msglen < MESSAGE_MIN \<or> msglen > MESSAGE_MAX then find_error buf sync_state
         else if length buf < msglen then (0, 0, sync_state, [])
         else if buf ! (msglen - MESSAGE_TRAILER_SYNC2) \<noteq> MESSAGE_SYNC2
              \<or> buf ! (msglen - MESSAGE_TRAILER_SYNC) \<noteq> MESSAGE_SYNC
         then find_error buf sync_state
         else
           (let msgcrc = u16_of_bytes (buf ! (msglen - MESSAGE_TRAILER_CRC))
                                      (buf ! (msglen - MESSAGE_TRAILER_CRC + 1));
                crc = crc16_ccitt (take (msglen - MESSAGE_TRAILER_SIZE - 2) (drop 2 buf))
            in if crc \<noteq> msgcrc then find_error buf sync_state
               else (1, msglen, sync_state AND NOT CF_NEED_VALID, []))))"

section \<open>The frame format\<close>

definition frame :: "u8 \<Rightarrow> u32 list \<Rightarrow> u8 list" where
  "frame cmd payload =
     (let body = [cmd, of_nat (length payload)] @ bytes_of_words payload
      in [MESSAGE_STX1, MESSAGE_STX2] @ body @ bytes_of_u16 (crc16_ccitt body) @
         [MESSAGE_SYNC2, MESSAGE_SYNC])"

lemma length_frame [simp, layout]: "length (frame cmd ws) = 4 * length ws + 8"
  by (simp add: frame_def Let_def)

text \<open>Replies are frames: whatever the first and the last word of the buffer held, they
  become header and trailer, and the words between them are the payload.\<close>

lemma bytes_of_frame_header:
  assumes "n < 256"
  shows "bytes_of_u32 (push_bit 24 (of_nat n) OR push_bit 16 (ucast (c :: u8)) OR 0x8801) =
     [MESSAGE_STX1, MESSAGE_STX2, c, of_nat n]"
proof -
  have "bit (0x8801 :: u32) i \<longleftrightarrow> i = 0" if "i < 8" for i
    using less_8_cases [OF that] by (elim disjE; simp)
  then show ?thesis
    using assms
    by (simp add: bytes_of_u32_def unsigned_or_eq) (intro conjI; rule byte_eqI; simp add: bit_simps)
qed

text \<open>The word the code writes last is \<open>0x0399 << 16 | crc\<close>.\<close>

lemma bytes_of_frame_trailer:
  "bytes_of_u32 (0x03990000 OR ucast (crc :: u16)) =
     bytes_of_u16 crc @ [MESSAGE_SYNC2, MESSAGE_SYNC]"
  by (simp add: bytes_of_u32_def bytes_of_u16_def unsigned_or_eq)
     (intro conjI; rule byte_eqI; drule less_8_cases; elim disjE; simp add: bit_simps)

lemma command_respond_frame:
  assumes len: "2 \<le> n" "n \<le> length data" "n < 258"
  shows "command_encode_and_frame (command_respond data (ucast (c :: u8)) n) =
    frame c (take (n - 2) (drop 1 data))"
proof -
  obtain d0 xs where xs: "data = d0 # xs" using len by (cases data) auto
  define p where "p = take (n - 2) xs"
  have p: "length p = n - 2" using len xs by (simp add: p_def)
  obtain d1 rest where data: "data = d0 # p @ d1 # rest"
    using id_take_nth_drop [of "n - 2" xs] len xs unfolding p_def by fastforce
  have n: "n = length p + 2" using p len by simp
  then have "of_nat n - 2 = (of_nat (length p) :: u32)" by simp
  then show ?thesis
    using len(3) n
    by (simp add: command_respond_def command_encode_and_frame_def frame_def data Let_def
        bytes_of_frame_header bytes_of_frame_trailer nth_append take_Cons')
qed

text \<open>A buffer cut at the places where a frame with \<open>k\<close> payload words has its fields.\<close>

lemma drop_four:
  "j + 4 \<le> length buf \<Longrightarrow>
   drop j buf = [buf ! j, buf ! (j + 1), buf ! (j + 2), buf ! (j + 3)] @ drop (j + 4) buf"
  by (simp add: Cons_nth_drop_Suc [symmetric] numeral_eq_Suc)

lemma frame_parts:
  assumes "4 * k + 8 \<le> length buf"
  shows "buf = [buf ! 0, buf ! 1, buf ! 2, buf ! 3] @ take (4 * k) (drop 4 buf) @
    [buf ! (4 * k + 4), buf ! (4 * k + 5), buf ! (4 * k + 6), buf ! (4 * k + 7)] @ drop (4 * k + 8) buf"
proof -
  have "buf = [buf ! 0, buf ! 1, buf ! 2, buf ! 3] @ drop 4 buf"
    using drop_four [of 0 buf] assms by (simp add: numeral_2_eq_2)
  also have "drop 4 buf = take (4 * k) (drop 4 buf) @ drop (4 * k + 4) buf"
    using append_take_drop_id [of "4 * k" "drop 4 buf"] by (simp add: add.commute)
  also have "drop (4 * k + 4) buf = [buf ! (4 * k + 4), buf ! (4 * k + 5), buf ! (4 * k + 6),
      buf ! (4 * k + 7)] @ drop (4 * k + 8) buf"
    using drop_four [of "4 * k + 4" buf] assms by (simp add: ac_simps)
  finally show ?thesis .
qed

lemma command_find_block_parts:
  assumes "length p = 4 * unat b3" and "sync AND CF_NEED_SYNC = 0"
  shows "command_find_block ([b0, b1, b2, b3] @ p @ [t0, t1, t2, t3] @ rest) sync =
    (if b0 = MESSAGE_STX1 \<and> b1 = MESSAGE_STX2 \<and> unat b3 \<le> 30 \<and> t2 = MESSAGE_SYNC2 \<and> t3 = MESSAGE_SYNC
       \<and> crc16_ccitt ([b2, b3] @ p) = u16_of_bytes t0 t1
     then (1, 4 * unat b3 + 8, sync AND NOT CF_NEED_VALID, [])
     else find_error ([b0, b1, b2, b3] @ p @ [t0, t1, t2, t3] @ rest) sync)"
  using assms by (auto simp: command_find_block_def Let_def nth_append)

section \<open>The receiver accepts exactly the frames\<close>

lemma and_one_flag: "(s :: u8) AND 1 = 0 \<longleftrightarrow> \<not> bit s 0"
  by (simp add: and_one_eq even_iff_mod_2_eq_zero bit_0)

lemma and_two_flag: "(s :: u8) AND 2 = 0 \<longleftrightarrow> \<not> bit s 1"
proof -
  have "s AND 2 = 0 \<longleftrightarrow> (\<forall>i. \<not> (bit s i \<and> bit (2 :: u8) i))"
    by (auto simp: bit_eq_iff bit_simps)
  also have "\<dots> \<longleftrightarrow> \<not> bit s 1"
    by (auto simp: bit_2_iff dest: spec [of _ 1])
  finally show ?thesis .
qed

lemmas sync_flags = and_one_flag and_two_flag bit_simps bit_2_iff bit_1_iff

lemma frame_unfold:
  "frame cmd ws = [MESSAGE_STX1, MESSAGE_STX2, cmd, of_nat (length ws)] @ bytes_of_words ws @
     [ucast (crc16_ccitt ([cmd, of_nat (length ws)] @ bytes_of_words ws)),
      ucast (drop_bit 8 (crc16_ccitt ([cmd, of_nat (length ws)] @ bytes_of_words ws))),
      MESSAGE_SYNC2, MESSAGE_SYNC]"
  by (simp add: frame_def Let_def bytes_of_u16_def)

lemma u16_of_bytes_inverse [simp]: "u16_of_bytes (ucast w) (ucast (drop_bit 8 w)) = w"
  by (rule bit_word_eqI) (auto simp: u16_of_bytes_def bit_simps)

lemma command_find_block_frame:
  assumes "length ws \<le> 30" and "sync AND CF_NEED_SYNC = 0"
  shows "command_find_block (frame cmd ws @ rest) sync =
    (1, length (frame cmd ws), sync AND NOT CF_NEED_VALID, [])"
proof -
  have n: "unat (of_nat (length ws) :: u8) = length ws"
    using assms(1) by (simp add: unat_of_nat take_bit_nat_eq_self)
  show ?thesis
    unfolding frame_unfold append_assoc
    by (subst command_find_block_parts) (use assms n in simp_all)
qed

lemma find_need_sync_ret: "fst (find_need_sync buf sync k) = -1"
  by (simp add: find_need_sync_def Let_def split_beta)

lemma find_error_ret: "fst (find_error buf sync) = -1"
  by (simp add: find_error_def find_need_sync_ret)

lemma command_find_block_accepts:
  assumes acc: "command_find_block buf sync = (1, n, sync', ms)"
  shows "\<exists>cmd ws rest. buf = frame cmd ws @ rest \<and> length ws \<le> 30 \<and> n = length (frame cmd ws) \<and>
    sync AND CF_NEED_SYNC = 0 \<and> sync' = sync AND NOT CF_NEED_VALID \<and> ms = []"
proof -
  let ?k = "unat (buf ! 3)"
  have noerr: "find_error buf sync \<noteq> (1, n, sync', ms)"
    using find_error_ret [of buf sync] by auto
  have sync: "sync AND CF_NEED_SYNC = 0"
    using acc find_need_sync_ret [of buf sync 0] noerr
    by (auto simp: command_find_block_def split: if_splits)
  have "4 * ?k + 8 \<le> length buf"
    using acc noerr sync
    by (auto simp: command_find_block_def Let_def not_less split: if_splits)
  note parts = frame_parts [OF this]
  define p where "p = take (4 * ?k) (drop 4 buf)"
  have p: "length p = 4 * ?k" using \<open>4 * ?k + 8 \<le> length buf\<close> by (simp add: p_def)
  let ?t = "\<lambda>i. buf ! (4 * ?k + i)" and ?rest = "drop (4 * ?k + 8) buf"
  have buf: "buf = [buf ! 0, buf ! 1, buf ! 2, buf ! 3] @ p @ [?t 4, ?t 5, ?t 6, ?t 7] @ ?rest"
    using parts by (simp add: p_def)
  have "command_find_block ([buf ! 0, buf ! 1, buf ! 2, buf ! 3] @ p @ [?t 4, ?t 5, ?t 6, ?t 7] @ ?rest) sync
      = (1, n, sync', ms)"
    using acc buf by simp
  then have res: "buf ! 0 = MESSAGE_STX1" "buf ! 1 = MESSAGE_STX2" "?k \<le> 30"
      "?t 6 = MESSAGE_SYNC2" "?t 7 = MESSAGE_SYNC"
      "crc16_ccitt ([buf ! 2, buf ! 3] @ p) = u16_of_bytes (?t 4) (?t 5)"
      "n = 4 * ?k + 8" "sync' = sync AND NOT CF_NEED_VALID" "ms = []"
    unfolding command_find_block_parts [OF p sync] using noerr buf by (auto split: if_splits)
  define ws where "ws = words_of_bytes p"
  have ws: "bytes_of_words ws = p" "length ws = ?k"
    using p by (simp_all add: ws_def bytes_of_words_of_bytes)
  have "buf = frame (buf ! 2) ws @ ?rest"
  proof -
    have "bytes_of_u16 (crc16_ccitt ([buf ! 2, buf ! 3] @ p)) = [?t 4, ?t 5]"
      by (simp only: res bytes_of_u16_of_bytes)
    then show ?thesis
      using buf res ws by (simp add: frame_def Let_def)
  qed
  then show ?thesis
    by (intro exI [of _ "buf ! 2"] exI [of _ ws] exI [of _ ?rest]) (use res ws sync in simp)
qed

section \<open>Progress and resynchronisation\<close>

lemma find_need_sync_pop:
  assumes "find_need_sync buf sync k = (r, pop, sync', ms)"
  shows "pop \<le> length buf" and "min k (length buf) \<le> pop"
    and "pop = length buf \<or> \<not> bit sync' 0"
    and "bit sync' 1" and "length ms = (if bit sync 1 then 0 else 1)"
  using assms
  by (auto simp: find_need_sync_def Let_def sync_flags memchr_Some_iff split: option.splits if_splits)

lemma find_need_sync_hits:
  assumes "find_need_sync buf sync k = (r, pop, sync', ms)" and "pop < length buf"
  shows "buf ! pop = MESSAGE_STX1"
  using assms by (auto simp: find_need_sync_def Let_def memchr_Some_iff split: option.splits if_splits)

lemma find_error_pop:
  assumes err: "find_error buf sync = (r, pop, sync', ms)" and buf: "buf \<noteq> []"
  shows "pop \<le> length buf" and "0 < pop"
proof -
  let ?k = "if length buf > 0 \<and> buf ! 0 = MESSAGE_STX1 then 1 else (0 :: nat)"
  have ns: "find_need_sync buf (sync OR CF_NEED_SYNC) ?k = (r, pop, sync', ms)"
    using err by (simp add: find_error_def)
  show "pop \<le> length buf" by (rule find_need_sync_pop(1) [OF ns])
  show "0 < pop"
  proof (cases "buf ! 0 = MESSAGE_STX1")
    case True
    then show ?thesis using find_need_sync_pop(2) [OF ns] buf by (cases buf) auto
  next
    case False
    then show ?thesis using find_need_sync_hits [OF ns] buf by (cases "pop = 0") auto
  qed
qed

text \<open>Every call that does not wait for more data consumes bytes, except the one that finds a
  start byte already at the head of the buffer: it leaves the searching state. A call that
  waits keeps state and buffer, and it only waits while fewer bytes than the longest frame
  are there.\<close>

lemma command_find_block_progress:
  assumes "command_find_block buf sync = (r, pop, sync', ms)"
  shows "r = 0 \<and> pop = 0 \<and> sync' = sync \<and> ms = [] \<and> length buf < MESSAGE_MAX \<or>
    (r = 1 \<or> r = -1) \<and> pop \<le> length buf \<and> (0 < pop \<or> bit sync 0 \<and> \<not> bit sync' 0)"
proof -
  have err: ?thesis if "find_error buf sync = (r, pop, sync', ms)" "length buf \<ge> 8"
  proof -
    have "buf \<noteq> []" using that by auto
    then show ?thesis
      using find_error_pop [OF that(1)] find_error_ret [of buf sync] that by auto
  qed
  have sy: ?thesis if "find_need_sync buf sync 0 = (r, pop, sync', ms)" "buf \<noteq> []" "bit sync 0"
    using find_need_sync_pop [OF that(1)] find_need_sync_ret [of buf sync 0] that by auto
  show ?thesis
    using assms err sy
    by (auto simp: command_find_block_def Let_def sync_flags split: if_splits)
qed

text \<open>The receiver called until it waits: the frames it finds, its state and the bytes it
  keeps, and the messages it sends.\<close>

function deframe :: "u8 \<Rightarrow> u8 list \<Rightarrow> u8 list list \<times> u8 \<times> u8 list \<times> command_encoder list" where
  "deframe sync buf =
     (let (r, pop, sync', ms) = command_find_block buf sync
      in if r = 0 then ([], sync', buf, ms)
         else (let (fs, s, rest, ms') = deframe sync' (drop pop buf)
               in (if r > 0 then take pop buf # fs else fs, s, rest, ms @ ms')))"
  by pat_completeness auto
termination
proof (relation "measures [\<lambda>(sync, buf). length buf, \<lambda>(sync, buf). of_bool (bit sync 0)]")
  fix sync buf x r y pop z sync' ms
  assume "x = command_find_block buf sync" "(r, y) = x" "(pop, z) = y" "(sync', ms) = z" "r \<noteq> (0::int)"
  then have "command_find_block buf sync = (r, pop, sync', ms)" by simp
  with \<open>r \<noteq> 0\<close> show "((sync', drop pop buf), sync, buf) \<in>
      measures [\<lambda>(sync, buf). length buf, \<lambda>(sync, buf). of_bool (bit sync 0)]"
    by (auto dest!: command_find_block_progress)
qed simp

declare deframe.simps [simp del]

text \<open>A stream of frames, each a command byte and its payload, within the length limit.\<close>

abbreviation (input) frame_of :: "u8 \<times> u32 list \<Rightarrow> u8 list" where
  "frame_of f \<equiv> frame (fst f) (snd f)"

definition stream_of :: "(u8 \<times> u32 list) list \<Rightarrow> u8 list" where
  "stream_of fs = concat (map frame_of fs)"

definition fits :: "(u8 \<times> u32 list) list \<Rightarrow> bool" where
  "fits fs \<longleftrightarrow> (\<forall>f \<in> set fs. length (snd f) \<le> 30)"

lemma command_find_block_Nil [simp]: "command_find_block [] sync = (0, 0, sync, [])"
  by (simp add: command_find_block_def)

lemma deframe_stream:
  "fits fs \<Longrightarrow> \<not> bit sync 0 \<Longrightarrow>
   deframe sync (stream_of fs) =
     (map frame_of fs, if fs = [] then sync else sync AND NOT CF_NEED_VALID, [], [])"
proof (induction fs arbitrary: sync)
  case Nil
  then show ?case by (simp add: stream_of_def deframe.simps [of sync "[]"])
next
  case (Cons f fs)
  have "command_find_block (stream_of (f # fs)) sync =
      (1, length (frame_of f), sync AND NOT CF_NEED_VALID, [])"
    using Cons.prems command_find_block_frame [of "snd f" sync "fst f" "stream_of fs"]
    by (simp add: stream_of_def fits_def and_one_flag)
  moreover have "deframe (sync AND NOT CF_NEED_VALID) (stream_of fs) =
      (map frame_of fs, sync AND NOT CF_NEED_VALID, [], [])"
  proof -
    have "\<not> bit (sync AND NOT CF_NEED_VALID) 0" using Cons.prems by (simp add: bit_simps)
    then show ?thesis using Cons.IH [of "sync AND NOT CF_NEED_VALID"] Cons.prems
      by (simp add: fits_def and.assoc)
  qed
  ultimately show ?case
    by (subst deframe.simps) (simp add: stream_of_def)
qed

lemma find_need_sync_garbage:
  assumes "MESSAGE_STX1 \<notin> set g"
  shows "find_need_sync (g @ MESSAGE_STX1 # rest) sync 0 =
    (-1, length g, (sync AND NOT CF_NEED_SYNC) OR CF_NEED_VALID,
     if bit sync 1 then [] else [command_respond_nack])"
proof -
  have "sync AND NOT CF_NEED_SYNC OR CF_NEED_VALID = sync AND NOT CF_NEED_SYNC" if "bit sync 1"
    using that by (intro bit_word_eqI) (auto simp: bit_simps bit_2_iff)
  then show ?thesis
    using assms by (auto simp: find_need_sync_def memchr_append_notin Let_def sync_flags)
qed

lemma deframe_after_garbage:
  assumes fs: "fits fs" "fs \<noteq> []" and g: "MESSAGE_STX1 \<notin> set g"
  obtains sync' ms where "deframe sync (g @ stream_of fs) = (map frame_of fs, sync', [], ms)"
    and "length ms \<le> 1" and "\<not> bit sync' 0"
proof (cases "g = [] \<and> \<not> bit sync 0")
  case True
  then show ?thesis
    using deframe_stream [OF fs(1), of sync] fs(2) that by (auto simp: bit_simps)
next
  case False
  obtain rest where st: "stream_of fs = MESSAGE_STX1 # rest"
    using fs(2) by (cases fs) (auto simp: stream_of_def frame_unfold)
  have "length (stream_of fs) \<ge> 8"
    using fs(2) by (cases fs) (auto simp: stream_of_def)
  then have big: "length (g @ stream_of fs) \<ge> 8" by simp
  define s1 where "s1 = (if bit sync 0 then sync else sync OR CF_NEED_SYNC)"
  have "command_find_block (g @ stream_of fs) sync = find_need_sync (g @ stream_of fs) s1 0"
  proof (cases "bit sync 0")
    case True
    with big show ?thesis by (auto simp: command_find_block_def sync_flags s1_def)
  next
    case f: False
    with False obtain x xs where gx: "g = x # xs" by (cases g) auto
    with g have "x \<noteq> MESSAGE_STX1" by auto
    with f big gx show ?thesis
      by (simp add: command_find_block_def sync_flags s1_def find_error_def)
  qed
  then have step: "command_find_block (g @ stream_of fs) sync =
      (-1, length g, (s1 AND NOT CF_NEED_SYNC) OR CF_NEED_VALID,
       if bit s1 1 then [] else [command_respond_nack])"
    using find_need_sync_garbage [OF g] st by simp
  have "\<not> bit ((s1 AND NOT CF_NEED_SYNC) OR CF_NEED_VALID) 0"
    by (simp add: bit_simps)
  note rec = deframe_stream [OF fs(1) this]
  show ?thesis
  proof (rule that)
    show "deframe sync (g @ stream_of fs) = (map frame_of fs,
        ((s1 AND NOT CF_NEED_SYNC) OR CF_NEED_VALID) AND NOT CF_NEED_VALID, [],
        if bit s1 1 then [] else [command_respond_nack])"
      by (subst deframe.simps) (use step rec fs(2) in simp)
  qed (simp_all add: bit_simps)
qed

section \<open>Properties\<close>

text \<open>C3: \<open>command_find_block\<close> accepts a buffer exactly when it is synchronised and the buffer
  starts with a frame of the documented format, of at most 30 payload words; what it pops is
  that frame. The static state only loses its \<open>CF_NEED_VALID\<close> flag and nothing is sent.\<close>

theorem find_block_accepts_exactly_frames:
  "command_find_block buf sync = (1, n, sync', ms) \<longleftrightarrow>
   (\<exists>cmd ws rest. buf = frame cmd ws @ rest \<and> length ws \<le> 30 \<and> n = length (frame cmd ws)) \<and>
   sync AND CF_NEED_SYNC = 0 \<and> sync' = sync AND NOT CF_NEED_VALID \<and> ms = []"
proof
  assume "command_find_block buf sync = (1, n, sync', ms)"
  from command_find_block_accepts [OF this]
  show "(\<exists>cmd ws rest. buf = frame cmd ws @ rest \<and> length ws \<le> 30 \<and> n = length (frame cmd ws)) \<and>
    sync AND CF_NEED_SYNC = 0 \<and> sync' = sync AND NOT CF_NEED_VALID \<and> ms = []" by blast
next
  assume "(\<exists>cmd ws rest. buf = frame cmd ws @ rest \<and> length ws \<le> 30 \<and> n = length (frame cmd ws)) \<and>
    sync AND CF_NEED_SYNC = 0 \<and> sync' = sync AND NOT CF_NEED_VALID \<and> ms = []"
  then show "command_find_block buf sync = (1, n, sync', ms)"
    by (elim conjE exE) (simp only: command_find_block_frame)
qed

text \<open>C4: The receiver resynchronises. Whatever state it is in, and whatever bytes without a
  start byte precede them, a stream of frames is found complete and in order, nothing is left
  over, and at most one NACK is sent.\<close>

theorem receiver_resynchronises:
  assumes "fits fs" and "fs \<noteq> []" and "MESSAGE_STX1 \<notin> set garbage"
  shows "\<exists>sync' ms. deframe sync (garbage @ stream_of fs) = (map frame_of fs, sync', [], ms) \<and>
    length ms \<le> 1"
proof (rule deframe_after_garbage [OF assms, of sync])
  fix sync' ms
  assume "deframe sync (garbage @ stream_of fs) = (map frame_of fs, sync', [], ms)" "length ms \<le> 1"
  then show ?thesis by (intro exI conjI)
qed

theorem receiver_resynchronises_witness:
  "\<exists>sync' ms. deframe 3 ([0x03, 0x55, 0x88] @ stream_of [(0x11, []), (0x12, [0x8002000, 7])]) =
     (map frame_of [(0x11, []), (0x12, [0x8002000, 7])], sync', [], ms) \<and> length ms \<le> 1"
  by (rule receiver_resynchronises [of "[(0x11, []), (0x12, [0x8002000, 7])]" "[0x03, 0x55, 0x88]" 3])
     (simp_all add: fits_def)

text \<open>C5: The receiver never wedges: a call either waits, leaving state and buffer alone, and
  then the buffer is shorter than the longest frame, or it consumes at least one byte or
  leaves the searching state.\<close>

theorem find_block_progress:
  "case command_find_block buf sync of (r, pop, sync', ms) \<Rightarrow>
     (r = 0 \<and> pop = 0 \<and> sync' = sync \<and> ms = [] \<and> length buf < MESSAGE_MAX) \<or>
     ((r = 1 \<or> r = -1) \<and> pop \<le> length buf \<and>
      (0 < pop \<or> sync AND CF_NEED_SYNC \<noteq> 0 \<and> sync' AND CF_NEED_SYNC = 0))"
proof -
  obtain r pop sync' ms where e: "command_find_block buf sync = (r, pop, sync', ms)"
    by (cases "command_find_block buf sync")
  show ?thesis using command_find_block_progress [OF e] by (simp add: e and_one_flag)
qed

text \<open>C6: Every reply is a frame its receiver accepts: whatever the buffer's header and trailer
  words held, \<open>command_respond\<close> puts a frame with the reply's command and the words between
  them as its payload on the wire.\<close>

theorem respond_sends_frame:
  assumes "2 \<le> n" and "n \<le> length data" and "n \<le> 32" and "sync AND CF_NEED_SYNC = 0"
  shows "command_encode_and_frame (command_respond data (ucast (cmd :: u8)) n) =
      frame cmd (take (n - 2) (drop 1 data)) \<and>
    command_find_block (command_encode_and_frame (command_respond data (ucast cmd) n) @ rest) sync =
      (1, 4 * n, sync AND NOT CF_NEED_VALID, [])"
proof -
  have fr: "command_encode_and_frame (command_respond data (ucast cmd) n) =
      frame cmd (take (n - 2) (drop 1 data))"
    using assms by (intro command_respond_frame) simp_all
  have "4 * (n - 2) + 8 = 4 * n" using assms(1) by simp
  with assms fr show ?thesis by (simp add: command_find_block_frame)
qed

theorem respond_sends_frame_witness:
  "command_encode_and_frame (command_respond [0, 0x12, 0x8002000, 0] (ucast (0xa0 :: u8)) 4) =
      frame 0xa0 (take (4 - 2) (drop 1 [0, 0x12, 0x8002000, 0])) \<and>
    command_find_block (command_encode_and_frame
      (command_respond [0, 0x12, 0x8002000, 0] (ucast (0xa0 :: u8)) 4) @ [1, 2]) 2 =
      (1, 4 * 4, 2 AND NOT CF_NEED_VALID, [])"
  by (rule respond_sends_frame) simp_all

end
