(* ===== verification/Timer.thy ===== *)
theory Timer
  imports Config
begin

text \<open>
  The cycle-counter timer of \<open>src/generic/armcm_timer.c\<close> and \<open>src/rp2040/timer.c\<close>, and the
  busy-wait \<open>udelay\<close> of \<open>src/sched.c\<close>. The counter is a free-running 32-bit register that the
  code only reads, so a reading is an argument of the functions that take one, and \<open>udelay\<close>
  takes the sequence of readings it will see. The lemmas say when the signed comparison of
  two readings answers the question it is asked: spans of at most 2^31 ticks.
\<close>

definition timer_from_us :: "config \<Rightarrow> u32 \<Rightarrow> u32" where
  "timer_from_us c us = us * (CONFIG_CLOCK_FREQ c div 1000000)"

definition timer_is_before :: "u32 \<Rightarrow> u32 \<Rightarrow> bool" where
  "timer_is_before time1 time2 \<longleftrightarrow> sint (time1 - time2) < 0"

text \<open>\<open>while (timer_is_before(timer_read_time(), end)) ;\<close> The \<open>k\<close>-th call of
  \<open>timer_read_time\<close> returns \<open>rd k\<close>; the result is the number of the reading that ended
  the wait.\<close>

partial_function (option) udelay_wait :: "(nat \<Rightarrow> u32) \<Rightarrow> u32 \<Rightarrow> nat \<Rightarrow> nat option" where
  "udelay_wait rd endt k = (if timer_is_before (rd k) endt then udelay_wait rd endt (Suc k) else Some k)"

definition udelay :: "config \<Rightarrow> (nat \<Rightarrow> u32) \<Rightarrow> u32 \<Rightarrow> nat option" where
  "udelay c rd usecs = udelay_wait rd (rd 0 + timer_from_us c usecs) 1"

section \<open>What the signed comparison means\<close>

lemma sint_less_0_iff: "sint (w :: u32) < 0 \<longleftrightarrow> 2 ^ 31 \<le> unat w"
proof -
  have "sint w < 0 \<longleftrightarrow> bit (uint w) 31"
    unfolding sint_uint signed_take_bit_negative_iff by simp
  also have "\<dots> \<longleftrightarrow> bit (unat w) 31"
    by (simp add: bit_simps)
  also have "\<dots> \<longleftrightarrow> odd (unat w div 2 ^ 31)"
    by (rule bit_iff_odd)
  finally have "sint w < 0 \<longleftrightarrow> odd (unat w div 2 ^ 31)" .
  moreover have "unat w div 2 ^ 31 = (if 2 ^ 31 \<le> unat w then 1 else 0)"
    using unat_u32_less [of w] by (auto simp: div_eq_dividend_iff intro: div_nat_eqI)
  ultimately show ?thesis by simp
qed

lemma timer_is_before_iff: "timer_is_before a b \<longleftrightarrow> 2 ^ 31 \<le> unat (a - b)"
  by (simp add: timer_is_before_def sint_less_0_iff)

lemma timer_not_before_self [simp]: "\<not> timer_is_before t t"
  by (simp add: timer_is_before_iff)

text \<open>The comparison the code makes everywhere: has a span, counted from a reading
  \<open>start\<close>, passed \<open>e\<close> ticks after it?\<close>

lemma timer_before_deadline:
  "timer_is_before (start + e) (start + span) \<longleftrightarrow>
     (if e < span then unat span - unat e \<le> 2 ^ 31 else 2 ^ 31 \<le> unat e - unat span)"
  using unat_u32_less [of e] unat_u32_less [of span]
  by (auto simp: timer_is_before_iff unat_sub_if' word_less_nat_alt word_le_nat_alt)

lemma timer_before_deadline_short:
  assumes "unat span \<le> 2 ^ 31" and "unat e < 2 ^ 31 + unat span"
  shows "timer_is_before (start + e) (start + span) \<longleftrightarrow> unat e < unat span"
  using assms by (auto simp: timer_before_deadline word_less_nat_alt)

text \<open>The same for the opposite comparison, used where a deadline is compared with now.\<close>

lemma timer_deadline_before:
  assumes "unat span < 2 ^ 31" and "unat e \<le> 2 ^ 31"
  shows "timer_is_before (start + span) (start + e) \<longleftrightarrow> unat span < unat e"
  using assms by (auto simp: timer_before_deadline word_less_nat_alt)

section \<open>The busy wait\<close>

lemma udelay_wait_result:
  assumes "udelay_wait rd endt k = Some n"
  shows "k \<le> n \<and> \<not> timer_is_before (rd n) endt \<and> (\<forall>j. k \<le> j \<and> j < n \<longrightarrow> timer_is_before (rd j) endt)"
proof (rule udelay_wait.raw_induct [where
      P = "\<lambda>rd endt k n. k \<le> n \<and> \<not> timer_is_before (rd n) endt \<and>
        (\<forall>j. k \<le> j \<and> j < n \<longrightarrow> timer_is_before (rd j) endt)", OF _ assms])
  fix f rd endt k n
  assume IH: "\<And>rd endt k n. f rd endt k = Some n \<Longrightarrow> k \<le> n \<and> \<not> timer_is_before (rd n) endt \<and>
      (\<forall>j. k \<le> j \<and> j < n \<longrightarrow> timer_is_before (rd j) endt)"
    and eq: "(if timer_is_before (rd k) endt then f rd endt (Suc k) else Some k) = Some n"
  show "k \<le> n \<and> \<not> timer_is_before (rd n) endt \<and>
      (\<forall>j. k \<le> j \<and> j < n \<longrightarrow> timer_is_before (rd j) endt)"
  proof (cases "timer_is_before (rd k) endt")
    case True
    with eq IH [of rd endt "Suc k" n] show ?thesis
      by (metis Suc_leD Suc_leI le_eq_less_or_eq)
  next
    case False
    with eq show ?thesis by auto
  qed
qed

lemma udelay_wait_returns:
  assumes "k \<le> n" and "\<not> timer_is_before (rd n) endt"
  shows "\<exists>m \<le> n. udelay_wait rd endt k = Some m"
  using assms
proof (induction "n - k" arbitrary: k)
  case 0
  then show ?case by (auto simp: udelay_wait.simps)
next
  case (Suc d)
  show ?case
  proof (cases "timer_is_before (rd k) endt")
    case True
    with Suc.prems have "Suc k \<le> n" by (metis le_eq_less_or_eq Suc_leI)
    with Suc have "\<exists>m \<le> n. udelay_wait rd endt (Suc k) = Some m" by auto
    with True show ?thesis by (simp add: udelay_wait.simps [of rd endt k])
  next
    case False
    with Suc.prems show ?thesis by (auto simp: udelay_wait.simps)
  qed
qed

text \<open>On a clock that is read often enough (no two readings \<open>2^31 - 1\<close> ticks apart) and does
  reach the deadline, the wait ends with the first reading at which the span has passed.\<close>

lemma udelay_first_reading:
  assumes span: "unat (timer_from_us c us) \<le> 2 ^ 31"
    and clk: "\<And>k. rd k = rd 0 + of_nat (clk k)" "clk 0 = 0"
    and gap: "\<And>k. clk (Suc k) \<le> clk k + (2 ^ 31 - 1)"
    and reach: "1 \<le> r" "unat (timer_from_us c us) \<le> clk r"
  shows "\<exists>n. udelay c rd us = Some n \<and> n \<le> r \<and> unat (timer_from_us c us) \<le> clk n \<and>
    (\<forall>j. 1 \<le> j \<and> j < n \<longrightarrow> clk j < unat (timer_from_us c us))"
proof -
  let ?s = "timer_from_us c us"
  define n where "n = (LEAST n. 1 \<le> n \<and> unat ?s \<le> clk n)"
  have n: "1 \<le> n" "unat ?s \<le> clk n" and nr: "n \<le> r"
    unfolding n_def using LeastI [of "\<lambda>n. 1 \<le> n \<and> unat ?s \<le> clk n" r] reach
    by (auto intro: Least_le)
  have below: "clk j < unat ?s" if "1 \<le> j" "j < n" for j
    using that not_less_Least [of j "\<lambda>n. 1 \<le> n \<and> unat ?s \<le> clk n"] by (auto simp: n_def)
  obtain p where p: "n = Suc p" using n(1) by (cases n) auto
  have "clk p \<le> unat ?s" using below [of p] clk(2) p by (cases p) auto
  then have "clk n < 2 ^ 31 + unat ?s" using gap [of p] p by simp
  moreover have small: "unat (of_nat k :: u32) = k" if "k < 2 ^ 31 + unat ?s" for k
    using that span by (intro unat_of_nat_u32) simp
  ultimately have stop: "\<not> timer_is_before (rd n) (rd 0 + ?s)"
    using n(2) span clk(1) [of n]
    by (subst clk(1) [of n], subst timer_before_deadline_short) auto
  have go: "timer_is_before (rd j) (rd 0 + ?s)" if "1 \<le> j" "j < n" for j
    using below [OF that] span small [of "clk j"]
    by (subst clk(1) [of j], subst timer_before_deadline_short) auto
  obtain m where m: "udelay c rd us = Some m" "m \<le> n"
    using udelay_wait_returns [of 1 n rd "rd 0 + ?s"] n(1) stop by (auto simp: udelay_def)
  have "m = n"
    using udelay_wait_result [of rd "rd 0 + ?s" 1 m] m go [of m] by (auto simp: udelay_def le_less)
  with m n nr below show ?thesis by auto
qed

section \<open>Properties\<close>

text \<open>\<open>udelay\<close> is correct across the wrap of the counter: for spans of at most \<open>2^31\<close> ticks,
  on readings at most \<open>2^31 - 1\<close> ticks apart that reach the deadline, it returns at the first
  reading by which the requested time has passed.\<close>

lemma udelay_waits_exactly:
  assumes "unat (timer_from_us c us) \<le> 2 ^ 31"
    and "\<And>k. rd k = rd 0 + of_nat (clk k)" and "clk 0 = 0"
    and "\<And>k. clk (Suc k) \<le> clk k + (2 ^ 31 - 1)"
    and "1 \<le> r" and "unat (timer_from_us c us) \<le> clk r"
  shows "\<exists>n. udelay c rd us = Some n \<and> n \<le> r \<and> unat (timer_from_us c us) \<le> clk n \<and>
    (\<forall>j. 1 \<le> j \<and> j < n \<longrightarrow> clk j < unat (timer_from_us c us))"
  by (rule udelay_first_reading [OF assms])

end
