(* ===== verification/FlashCmd.thy ===== *)
theory FlashCmd
  imports FlashApi Command Timer
begin

text \<open>
  The flash commands of \<open>src/flashcmd.c\<close>: the handlers of CONNECT, READ, WRITE, EOF and COMPLETE
  and the task that resets after COMPLETE. The static variables are a record, together with the
  state of the board's flash code; a handler returns the new state and the replies it hands to
  \<open>console_sendf\<close>, and is \<open>None\<close> where the flash code waits for its hardware forever. Timer
  readings are arguments. The uninitialised locals \<open>out\<close> are zero words: every word of them
  that is sent is written first.
\<close>

record 'f flashcmd =
  is_in_transfer :: bool
  total_bytes_written :: u32
  complete_flag :: bool
  complete_endtime :: u32
  flash :: 'f

definition put_bytes :: "u32 list \<Rightarrow> nat \<Rightarrow> u8 list \<Rightarrow> u32 list" where
  "put_bytes out i bs = words_of_bytes (blit (bytes_of_words out) (4 * i) bs)"

section \<open>The handlers\<close>

definition command_connect :: "config \<Rightarrow> 'f flash_api \<Rightarrow> 'f flashcmd \<Rightarrow> 'f flashcmd \<times> command_encoder list"
where
  "command_connect c api st =
     (let st = st\<lparr>is_in_transfer := False, total_bytes_written := 0\<rparr>;
          meta = appvalidate_get_metadata c (flash_memory api (flash st));
          valid = (magic meta = APP_METADATA_MAGIC);
          app_ver = (if valid then app_version meta else 0);
          variant_name = (if valid then app_variant_name meta else []);
          variant_len = (if valid then strnlen variant_name 32 else 0);
          app_flash_size = CONFIG_FLASH_SIZE c - (CONFIG_LAUNCH_APP_ADDRESS c - CONFIG_FLASH_START c);
          mcuwords = div_round_up (length (CONFIG_MCU c)) 4;
          version_words = div_round_up (length (CONFIG_KATAPULT_VERSION c)) 4;
          variant_words = div_round_up variant_len 4;
          n = 10 + mcuwords + version_words + variant_words;
          out = replicate n 0;
          out = out[2 := PROTO_VERSION, 3 := CONFIG_LAUNCH_APP_ADDRESS c, 4 := CONFIG_BLOCK_SIZE c,
                    5 := app_flash_size, 6 := app_ver];
          out = put_bytes out 7 (CONFIG_MCU c);
          out = put_bytes out (8 + mcuwords) (CONFIG_KATAPULT_VERSION c);
          out = (if variant_len > 0
                 then put_bytes out (9 + mcuwords + version_words) (take variant_len variant_name)
                 else out)
      in (st, [command_respond_ack CMD_CONNECT out n]))"

definition command_complete :: "config \<Rightarrow> u32 \<Rightarrow> 'f flashcmd \<Rightarrow> 'f flashcmd \<times> command_encoder list" where
  "command_complete c now st =
     (st\<lparr>complete_flag := True, complete_endtime := now + timer_from_us c 100000\<rparr>,
      [command_respond_ack CMD_COMPLETE [0, 0, 0] 3])"

text \<open>Whether the task resets the system.\<close>

definition complete_task :: "u32 \<Rightarrow> 'f flashcmd \<Rightarrow> bool" where
  "complete_task now st \<longleftrightarrow> complete_flag st \<and> timer_is_before (complete_endtime st) now"

definition flashcmd_is_in_transfer :: "'f flashcmd \<Rightarrow> bool" where
  "flashcmd_is_in_transfer st = is_in_transfer st"

definition flashcmd_block_in_range :: "config \<Rightarrow> u32 \<Rightarrow> bool" where
  "flashcmd_block_in_range c block_address =
     (let flash_end = CONFIG_FLASH_START c + CONFIG_FLASH_SIZE c in
      if block_address < CONFIG_LAUNCH_APP_ADDRESS c then False
      else if block_address > flash_end - CONFIG_BLOCK_SIZE c then False
      else True)"

text \<open>\<open>application_read_flash\<close> of \<open>armcm_canboot.c\<close>.\<close>

definition application_read_flash :: "config \<Rightarrow> memory \<Rightarrow> u32 \<Rightarrow> u8 list" where
  "application_read_flash c mem address = mem_read mem address (unat (CONFIG_BLOCK_SIZE c))"

definition command_read_block :: "config \<Rightarrow> 'f flash_api \<Rightarrow> u32 list \<Rightarrow> 'f flashcmd
    \<Rightarrow> 'f flashcmd \<times> command_encoder list" where
  "command_read_block c api data st =
     (let st = st\<lparr>is_in_transfer := True\<rparr>;
          block_address = data ! 1
      in if \<not> flashcmd_block_in_range c block_address then (st, [command_respond_command_error])
         else
           (let n = unat (CONFIG_BLOCK_SIZE c) div 4 + 2 + 2;
                out = replicate n 0;
                out = out[2 := block_address];
                out = put_bytes out 3 (application_read_flash c (flash_memory api (flash st)) block_address)
            in (st, [command_respond_ack CMD_REQ_BLOCK out n])))"

definition command_write_block :: "config \<Rightarrow> 'f flash_api \<Rightarrow> u32 list \<Rightarrow> 'f flashcmd
    \<Rightarrow> ('f flashcmd \<times> command_encoder list) option" where
  "command_write_block c api data st =
     (let st = st\<lparr>is_in_transfer := True\<rparr>;
          fail = (\<lambda>st. Some (st, [command_respond_command_error]))
      in if command_get_arg_count data \<noteq> unat (CONFIG_BLOCK_SIZE c) div 4 + 1 then fail st
         else
           let block_address = data ! 1 in
           if \<not> flashcmd_block_in_range c block_address then fail st
           else
             let st = (if block_address = CONFIG_LAUNCH_APP_ADDRESS c
                       then st\<lparr>total_bytes_written := 0\<rparr> else st)
             in do {
               (ret, f) \<leftarrow> flash_write_block api block_address
                             (take (unat (CONFIG_BLOCK_SIZE c) div 4) (drop 2 data)) (flash st);
               let st = st\<lparr>flash := f\<rparr>;
               (if ret < 0 then fail st
                else Some (st\<lparr>total_bytes_written := total_bytes_written st + CONFIG_BLOCK_SIZE c\<rparr>,
                           [command_respond_ack CMD_RX_BLOCK [0, 0, block_address, 0] 4]))
             })"

definition command_eof :: "'f flash_api \<Rightarrow> 'f flashcmd \<Rightarrow> ('f flashcmd \<times> command_encoder list) option"
where
  "command_eof api st = do {
     let st = st\<lparr>is_in_transfer := False\<rparr>;
     (ret, f) \<leftarrow> flash_complete api (flash st);
     let st = st\<lparr>flash := f\<rparr>;
     (if ret < 0 then Some (st, [command_respond_command_error])
      else Some (st, [command_respond_ack CMD_RX_EOF [0, 0, word_of_int ret, 0] 4]))
   }"

section \<open>Range check\<close>

lemma block_in_range_iff:
  assumes "config_ok c"
  shows "flashcmd_block_in_range c a \<longleftrightarrow> in_app_area c a"
proof -
  have "unat (CONFIG_FLASH_START c + CONFIG_FLASH_SIZE c - 64) = unat (flash_end c) - 64"
    using assms config_ok_flash_end [OF assms]
    by (subst unat_sub_if') (simp add: config_ok_def)
  moreover have "64 \<le> unat (flash_end c)"
    using assms config_ok_flash_end [OF assms] by (simp add: config_ok_def)
  ultimately show ?thesis
    using assms by (auto simp: flashcmd_block_in_range_def Let_def in_app_area_def word_less_nat_alt word_le_nat_alt)
qed

section \<open>Replies on the wire\<close>

lemma respond_ack_frame:
  assumes "3 \<le> n" and "n \<le> length out" and "n < 258"
  shows "command_encode_and_frame (command_respond_ack cmd out n) =
    frame 0xa0 (cmd # take (n - 3) (drop 2 out))"
proof -
  have "take (n - 2) (drop 1 (out[1 := cmd])) = cmd # take (n - 3) (drop 2 out)"
    using assms by (cases out; cases "tl out") (auto simp: take_Cons')
  moreover have "(0xa0 :: u32) = ucast (0xa0 :: u8)" by simp
  ultimately show ?thesis
    using assms unfolding command_respond_ack_def by (simp only: command_respond_frame length_list_update)
qed

lemma respond_error_frame:
  "command_encode_and_frame command_respond_command_error = frame 0xf2 []"
  using command_respond_frame [of 2 "[0, 0]" "0xf2"] by (simp add: command_respond_command_error_def)

lemma respond_ack_3: "command_encode_and_frame (command_respond_ack cmd [x, y, z] 3) = frame 0xa0 [cmd]"
  by (subst respond_ack_frame) simp_all

lemma respond_ack_4: "command_encode_and_frame (command_respond_ack cmd [x, y, w, z] 4) = frame 0xa0 [cmd, w]"
  by (subst respond_ack_frame) simp_all

text \<open>Bytes laid into a word buffer.\<close>

lemma bytes_put_bytes:
  "4 * i + length bs \<le> 4 * length out \<Longrightarrow>
   bytes_of_words (put_bytes out i bs) = blit (bytes_of_words out) (4 * i) bs"
  unfolding put_bytes_def by (rule bytes_of_words_of_bytes) simp

lemma length_put_bytes [simp]:
  "4 * i + length bs \<le> 4 * length out \<Longrightarrow> length (put_bytes out i bs) = length out"
  by (simp add: put_bytes_def)

lemma blit_zeros:
  assumes "length xs \<le> off" and "off + length bs \<le> length xs + k"
  shows "blit (xs @ replicate k 0) off bs =
    (xs @ replicate (off - length xs) 0 @ bs) @ replicate (k - (off - length xs) - length bs) 0"
  using assms by (auto simp: blit_def min_def)

lemma bytes_of_words_drop: "bytes_of_words (drop n ws) = drop (4 * n) (bytes_of_words ws)"
proof (induction n arbitrary: ws)
  case (Suc n)
  then show ?case by (cases ws) simp_all
qed simp

lemma bytes_of_words_take: "bytes_of_words (take n ws) = take (4 * n) (bytes_of_words ws)"
proof (induction n arbitrary: ws)
  case (Suc n)
  then show ?case by (cases ws) simp_all
qed simp

lemma bytes_of_words_zeros [simp]: "bytes_of_words (replicate n 0) = replicate (4 * n) 0"
  by (induction n) (simp_all add: bytes_of_u32_def numeral_eq_Suc)

text \<open>A string filled up with zero bytes to whole words.\<close>

definition word_pad :: "u8 list \<Rightarrow> u8 list" where
  "word_pad s = s @ replicate (4 * div_round_up (length s) 4 - length s) 0"

lemma length_word_pad [simp]: "length (word_pad s) = 4 * div_round_up (length s) 4"
  using div_round_up_4_bounds [of "length s"] by (simp add: word_pad_def)

definition connect_variant :: "app_metadata \<Rightarrow> u8 list" where
  "connect_variant meta =
     (if magic meta = APP_METADATA_MAGIC
      then take (strnlen (app_variant_name meta) 32) (app_variant_name meta) else [])"

definition connect_payload :: "config \<Rightarrow> app_metadata \<Rightarrow> u8 list" where
  "connect_payload c meta =
     bytes_of_words [CMD_CONNECT, PROTO_VERSION, CONFIG_LAUNCH_APP_ADDRESS c, CONFIG_BLOCK_SIZE c,
       CONFIG_FLASH_SIZE c - (CONFIG_LAUNCH_APP_ADDRESS c - CONFIG_FLASH_START c),
       if magic meta = APP_METADATA_MAGIC then app_version meta else 0] @
     word_pad (CONFIG_MCU c) @ [0, 0, 0, 0] @ word_pad (CONFIG_KATAPULT_VERSION c) @ [0, 0, 0, 0] @
     word_pad (connect_variant meta)"

lemma length_connect_variant:
  "length (app_variant_name meta) = 32 \<Longrightarrow>
   length (connect_variant meta) = (if magic meta = APP_METADATA_MAGIC then strnlen (app_variant_name meta) 32 else 0)"
  using strnlen_le [of "app_variant_name meta" 32] by (simp add: connect_variant_def)

text \<open>The reply as a buffer of bytes: the two words of header and command, the payload from its
  second word on, and the word the trailer will take.\<close>

lemma connect_out_bytes:
  fixes hd ver var :: "u8 list" and ints :: "u32 list"
  defines "m \<equiv> div_round_up (length hd) 4" and "v \<equiv> div_round_up (length ver) 4"
    and "w \<equiv> div_round_up (length var) 4"
  assumes "length ints = 7"
  shows "bytes_of_words (put_bytes (put_bytes (put_bytes (ints @ replicate (3 + m + v + w) 0) 7 hd)
      (8 + m) ver) (9 + m + v) var) =
    bytes_of_words ints @ word_pad hd @ [0, 0, 0, 0] @ word_pad ver @ [0, 0, 0, 0] @ word_pad var @ [0, 0, 0, 0]"
proof -
  have b: "length hd \<le> 4 * m" "length ver \<le> 4 * v" "length var \<le> 4 * w"
    using div_round_up_4_bounds by (simp_all add: m_def v_def w_def)
  let ?o = "ints @ replicate (3 + m + v + w) 0"
  have len: "length ?o = 10 + m + v + w" using assms by simp
  have o: "bytes_of_words ?o = bytes_of_words ints @ replicate (4 * (3 + m + v + w)) 0" by simp
  have z4: "[0, 0, 0, 0] = replicate 4 (0 :: u8)" by (simp add: numeral_eq_Suc)
  have "bytes_of_words (put_bytes (put_bytes (put_bytes ?o 7 hd) (8 + m) ver) (9 + m + v) var) =
      blit (blit (blit (bytes_of_words ?o) (4 * 7) hd) (4 * (8 + m)) ver) (4 * (9 + m + v)) var"
    using b len by (simp add: bytes_put_bytes)
  also have "blit (bytes_of_words ?o) (4 * 7) hd =
      (bytes_of_words ints @ hd) @ replicate (4 * (3 + m + v + w) - length hd) 0"
    unfolding o using assms b by (subst blit_zeros) simp_all
  also have "blit \<dots> (4 * (8 + m)) ver =
      ((bytes_of_words ints @ hd) @ replicate (4 * m - length hd + 4) 0 @ ver) @
      replicate (4 * (2 + v + w) - length ver) 0"
    using assms b by (subst blit_zeros) (simp_all add: algebra_simps)
  also have "blit \<dots> (4 * (9 + m + v)) var =
      (((bytes_of_words ints @ hd) @ replicate (4 * m - length hd + 4) 0 @ ver) @
       replicate (4 * v - length ver + 4) 0 @ var) @ replicate (4 * w - length var + 4) 0"
    using assms b by (subst blit_zeros) (simp_all add: algebra_simps)
  also have "\<dots> = bytes_of_words ints @ (hd @ replicate (4 * m - length hd) 0) @ replicate 4 0 @
      (ver @ replicate (4 * v - length ver) 0) @ replicate 4 0 @
      (var @ replicate (4 * w - length var) 0) @ replicate 4 0"
    by (simp add: replicate_add)
  finally show ?thesis by (simp add: word_pad_def z4 m_def v_def w_def)
qed

lemma take_drop_middle: "bs = x @ p @ t \<Longrightarrow> length p = k \<Longrightarrow> length x = j \<Longrightarrow> take k (drop j bs) = p"
  by simp

lemma put_bytes_Nil [simp]: "i \<le> length out \<Longrightarrow> put_bytes out i [] = out"
  by (simp add: put_bytes_def blit_def)

lemma length_variant_metadata [simp]: "length (app_variant_name (appvalidate_get_metadata c mem)) = 32"
  by (simp add: appvalidate_get_metadata_def metadata_of_bytes_def app_metadata_size_def)

definition connect_words :: "config \<Rightarrow> app_metadata \<Rightarrow> nat" where
  "connect_words c meta = 10 + div_round_up (length (CONFIG_MCU c)) 4 +
     div_round_up (length (CONFIG_KATAPULT_VERSION c)) 4 + div_round_up (length (connect_variant meta)) 4"

lemma connect_reply:
  assumes small: "connect_words c meta < 258"
    and meta: "meta = appvalidate_get_metadata c (flash_memory api (flash st))"
  obtains ce ws where "snd (command_connect c api st) = [ce]" "ce_max_size ce = 4 * connect_words c meta"
    "command_encode_and_frame ce = frame 0xa0 ws" "bytes_of_words ws = connect_payload c meta"
proof -
  define m where "m = div_round_up (length (CONFIG_MCU c)) 4"
  define v where "v = div_round_up (length (CONFIG_KATAPULT_VERSION c)) 4"
  define w where "w = div_round_up (length (connect_variant meta)) 4"
  let ?size = "CONFIG_FLASH_SIZE c - (CONFIG_LAUNCH_APP_ADDRESS c - CONFIG_FLASH_START c)"
  let ?ver = "if magic meta = APP_METADATA_MAGIC then app_version meta else 0"
  let ?ints = "[0, 0, PROTO_VERSION, CONFIG_LAUNCH_APP_ADDRESS c, CONFIG_BLOCK_SIZE c, ?size, ?ver]"
  define out where "out = put_bytes (put_bytes (put_bytes (?ints @ replicate (3 + m + v + w) 0) 7 (CONFIG_MCU c))
      (8 + m) (CONFIG_KATAPULT_VERSION c)) (9 + m + v) (connect_variant meta)"
  let ?n = "10 + m + v + w"
  have b: "length (CONFIG_MCU c) \<le> 4 * m" "length (CONFIG_KATAPULT_VERSION c) \<le> 4 * v"
      "length (connect_variant meta) \<le> 4 * w"
    using div_round_up_4_bounds by (simp_all add: m_def v_def w_def)
  have len: "length out = ?n" using b by (simp add: out_def)
  have zeros: "(replicate (10 + m + v + k) 0)[2 := x2, 3 := x3, 4 := x4, 5 := x5, 6 := x6] =
      [0, 0, x2, x3, x4, x5, x6] @ replicate (3 + m + v + k) (0 :: u32)" for k and x2 x3 x4 x5 x6
    by (simp add: replicate_add numeral_eq_Suc)
  have vlen: "length (connect_variant meta) =
      (if magic meta = APP_METADATA_MAGIC then strnlen (app_variant_name meta) 32 else 0)"
    by (rule length_connect_variant) (simp add: meta)
  let ?ce = "command_respond_ack CMD_CONNECT out ?n"
  have "snd (command_connect c api st) = [?ce]"
  proof -
    have "out = (if length (connect_variant meta) > 0
        then put_bytes (put_bytes (put_bytes (?ints @ replicate (3 + m + v + w) 0) 7 (CONFIG_MCU c))
          (8 + m) (CONFIG_KATAPULT_VERSION c)) (9 + m + v) (connect_variant meta)
        else put_bytes (put_bytes (?ints @ replicate (3 + m + v + w) 0) 7 (CONFIG_MCU c))
          (8 + m) (CONFIG_KATAPULT_VERSION c))"
      using b by (auto simp: out_def)
    then show ?thesis
      using vlen unfolding command_connect_def Let_def meta [symmetric] m_def [symmetric] v_def [symmetric]
      by (cases "magic meta = APP_METADATA_MAGIC")
         (simp_all add: zeros w_def connect_variant_def strnlen_def [of "[]"] flip: meta)
  qed
  moreover have "ce_max_size ?ce = 4 * connect_words c meta"
    by (simp add: command_respond_ack_def command_respond_def Let_def connect_words_def m_def v_def w_def)
  moreover have "command_encode_and_frame ?ce = frame 0xa0 (CMD_CONNECT # take (?n - 3) (drop 2 out))"
    using small len by (intro respond_ack_frame) (simp_all add: connect_words_def m_def v_def w_def)
  moreover have "bytes_of_words (CMD_CONNECT # take (?n - 3) (drop 2 out)) = connect_payload c meta"
  proof -
    have "bytes_of_words out = bytes_of_words ?ints @ word_pad (CONFIG_MCU c) @ [0, 0, 0, 0] @
        word_pad (CONFIG_KATAPULT_VERSION c) @ [0, 0, 0, 0] @ word_pad (connect_variant meta) @ [0, 0, 0, 0]"
      unfolding out_def m_def v_def w_def by (rule connect_out_bytes) simp
    then have "bytes_of_words out = bytes_of_words [0, 0] @ (bytes_of_words (drop 2 ?ints) @
        word_pad (CONFIG_MCU c) @ [0, 0, 0, 0] @ word_pad (CONFIG_KATAPULT_VERSION c) @ [0, 0, 0, 0] @
        word_pad (connect_variant meta)) @ [0, 0, 0, 0]"
      (is "_ = _ @ ?P @ _") by (simp add: numeral_2_eq_2)
    moreover have "length ?P = 4 * (?n - 3)" by (simp add: m_def v_def w_def)
    ultimately have "take (4 * (?n - 3)) (drop (4 * 2) (bytes_of_words out)) = ?P"
      by (intro take_drop_middle [where x = "bytes_of_words [0, 0]"]) simp_all
    then show ?thesis
      unfolding bytes_of_words_Cons bytes_of_words_take bytes_of_words_drop
      by (simp only: connect_payload_def) (simp add: numeral_2_eq_2)
  qed
  ultimately show ?thesis by (rule that)
qed

text \<open>What the host reads from a CONNECT reply. Provided the reply is short enough for its frame,
  \<open>command_connect\<close> sends one acknowledgement whose payload is the command, the protocol
  version, the application's address, the block size, the flash the application may use, the
  version of the application, and then MCU name, software version and variant name, each
  filled up to whole words and the first two followed by a zero word; the size it asks the
  console for is \<open>4 * connect_words\<close>. The transfer state is reset whatever went before.\<close>

lemma connect_reply_layout:
  assumes "connect_words c meta < 258" and "meta = appvalidate_get_metadata c (flash_memory api (flash st))"
  shows "\<exists>ce ws. command_connect c api st = (st\<lparr>is_in_transfer := False, total_bytes_written := 0\<rparr>, [ce]) \<and>
    ce_max_size ce = 4 * connect_words c meta \<and> command_encode_and_frame ce = frame 0xa0 ws \<and>
    bytes_of_words ws = connect_payload c meta"
proof (rule connect_reply [OF assms])
  fix ce ws
  assume ce: "snd (command_connect c api st) = [ce]" "ce_max_size ce = 4 * connect_words c meta"
    "command_encode_and_frame ce = frame 0xa0 ws" "bytes_of_words ws = connect_payload c meta"
  have "fst (command_connect c api st) = st\<lparr>is_in_transfer := False, total_bytes_written := 0\<rparr>"
    by (simp add: command_connect_def Let_def)
  with ce show ?thesis by (intro exI [of _ ce] exI [of _ ws]) (simp add: prod_eq_iff)
qed

text \<open>With an application whose variant name has 21 characters or more the reply does not fit the
  96 bytes of the CAN transmit buffer.\<close>

lemma connect_reply_size:
  assumes "magic meta = APP_METADATA_MAGIC" and "length (app_variant_name meta) = 32"
    and "20 < strnlen (app_variant_name meta) 32"
  shows "96 < 4 * connect_words steinzeit meta"
proof -
  have "21 \<le> length (connect_variant meta)" using assms by (simp add: length_connect_variant)
  then have "6 \<le> div_round_up (length (connect_variant meta)) 4" by (simp add: div_round_up_def)
  then show ?thesis by (simp add: connect_words_def steinzeit_def div_round_up_def)
qed

definition demo_api :: "memory flash_api" where
  "demo_api = \<lparr> flash_write_block = (\<lambda>_ _ f. Some (0, f)), flash_complete = (\<lambda>f. Some (0, f)), flash_memory = id \<rparr>"

end
