(* ===== verification/Led.thy ===== *)
theory Led
  imports Timer
begin

text \<open>
  The status LED of \<open>src/led.c\<close>. The GPIO is reduced to what the task does with it: toggle it,
  or write it. \<open>bright\<close> runs through a ramp of 32 steps and \<open>pwm_cnt\<close> through sixteen calls;
  an identify request switches to blinking until \<open>mode_end\<close>, zero standing for no request.
\<close>

record led =
  last_time :: u32
  mode_end :: u32
  pwm_cnt :: u8
  bright :: u8

datatype led_output = Toggle | Set bool | Keep

definition led_init :: "u32 \<Rightarrow> led \<Rightarrow> led" where
  "led_init now l = l\<lparr>last_time := now\<rparr>"

definition led_blink_task :: "config \<Rightarrow> u32 \<Rightarrow> bool \<Rightarrow> led \<Rightarrow> led \<times> led_output" where
  "led_blink_task c now led_gpio_high l =
     (let l = (if mode_end l \<noteq> 0 \<and> timer_is_before (mode_end l) now then l\<lparr>mode_end := 0\<rparr> else l) in
      if mode_end l \<noteq> 0 then
        (if timer_is_before (last_time l + timer_from_us c 166667) now
         then (l\<lparr>last_time := now\<rparr>, Toggle) else (l, Keep))
      else
        (let l = (if timer_is_before (last_time l + timer_from_us c 80000) now
                  then l\<lparr>last_time := now, bright := (bright l + 1) AND 31\<rparr> else l);
             b = (if bright l AND 16 \<noteq> 0 then 31 - bright l else bright l);
             l = l\<lparr>pwm_cnt := pwm_cnt l + 1\<rparr>
         in (l, Set (if pwm_cnt l AND 15 < b then led_gpio_high else \<not> led_gpio_high))))"

definition led_identify :: "config \<Rightarrow> u32 \<Rightarrow> led \<Rightarrow> led" where
  "led_identify c now l = l\<lparr>mode_end := now + timer_from_us c 10000000\<rparr>"

end
