(* ===== verification/Dispatch.thy ===== *)
theory Dispatch
  imports FlashCmd Led
begin

text \<open>
  The dispatch of \<open>src/command.c\<close>: \<open>command_dispatch\<close> with its \<open>switch\<close> and the two places where
  it falls through, \<open>command_find_and_dispatch\<close>, and \<open>command_get_canbus_id\<close> of
  \<open>generic/canserial.c\<close>, which only needs the UUID. \<open>serve\<close> handles the frames of a stream one
  after the other, as every transport does. The client lemmas are proved once in the contexts of
  the flash contracts: whatever bytes arrive, the memory below the application never changes,
  and an upload whose requests were all acknowledged is in flash.
\<close>

record 'f app =
  app_flashcmd :: "'f flashcmd"
  app_led :: led

definition command_get_canbus_id :: "u8 list \<Rightarrow> command_encoder list" where
  "command_get_canbus_id uuid =
     [command_respond_ack CMD_GET_CANBUS_ID (put_bytes (replicate 5 0) 2 (take 6 uuid)) 5]"

definition command_dispatch :: "config \<Rightarrow> 'f flash_api \<Rightarrow> u8 list \<Rightarrow> u32 \<Rightarrow> u8 list \<Rightarrow> nat \<Rightarrow> 'f app
    \<Rightarrow> ('f app \<times> command_encoder list) option" where
  "command_dispatch c api uuid now buf msglen st =
     (let data = words_of_bytes (take msglen buf);
          cmd = drop_bit 16 (data ! 0) AND 0xff;
          put = (\<lambda>(fc, ms). Some (st\<lparr>app_flashcmd := fc\<rparr>, ms))
      in if cmd = CMD_CONNECT then put (command_connect c api (app_flashcmd st))
         else if cmd = CMD_RX_BLOCK then command_write_block c api data (app_flashcmd st) \<bind> put
         else if cmd = CMD_RX_EOF then command_eof api (app_flashcmd st) \<bind> put
         else if cmd = CMD_REQ_BLOCK then put (command_read_block c api data (app_flashcmd st))
         else if cmd = CMD_COMPLETE then put (command_complete c now (app_flashcmd st))
         else if cmd = CMD_GET_CANBUS_ID \<and> CONFIG_CANSERIAL c then Some (st, command_get_canbus_id uuid)
         else if (cmd = CMD_GET_CANBUS_ID \<or> cmd = CMD_IDENTIFY) \<and> CONFIG_ENABLE_LED c then
           Some (st\<lparr>app_led := led_identify c now (app_led st)\<rparr>, [command_respond_ack CMD_IDENTIFY data 2])
         else Some (st, [command_respond_command_error]))"

text \<open>The return value, the bytes to pop, the new \<open>sync_state\<close>, the application and the messages.\<close>

definition command_find_and_dispatch :: "config \<Rightarrow> 'f flash_api \<Rightarrow> u8 list \<Rightarrow> u32 \<Rightarrow> u8 list \<Rightarrow> u8 \<Rightarrow> 'f app
    \<Rightarrow> (int \<times> nat \<times> u8 \<times> 'f app \<times> command_encoder list) option" where
  "command_find_and_dispatch c api uuid now buf sync st =
     (case command_find_block buf sync of (ret, pop_count, sync, ms) \<Rightarrow>
        if ret > 0 then do {
          (st, ms') \<leftarrow> command_dispatch c api uuid now buf pop_count st;
          Some (ret, pop_count, sync, st, ms @ ms')
        } else Some (ret, pop_count, sync, st, ms))"

text \<open>Frames served in order; \<open>nows\<close> are the timer readings, one to the frame.\<close>

fun serve :: "config \<Rightarrow> 'f flash_api \<Rightarrow> u8 list \<Rightarrow> (u32 \<times> u8 list) list \<Rightarrow> 'f app
    \<Rightarrow> ('f app \<times> command_encoder list) option" where
  "serve c api uuid [] st = Some (st, [])"
| "serve c api uuid ((now, fr) # frs) st = do {
     (st, ms) \<leftarrow> command_dispatch c api uuid now fr (length fr) st;
     (st, ms') \<leftarrow> serve c api uuid frs st;
     Some (st, ms @ ms')
   }"

abbreviation (input) app_memory :: "'f flash_api \<Rightarrow> 'f app \<Rightarrow> memory" where
  "app_memory api st \<equiv> flash_memory api (flash (app_flashcmd st))"

section \<open>What a handler sees of a frame\<close>

lemma words_of_frame:
  assumes "length ws \<le> 30"
  shows "words_of_bytes (frame cmd ws) =
    u32_of_bytes MESSAGE_STX1 MESSAGE_STX2 cmd (of_nat (length ws)) # ws @
    words_of_bytes (bytes_of_u16 (crc16_ccitt ([cmd, of_nat (length ws)] @ bytes_of_words ws)) @ [MESSAGE_SYNC2, MESSAGE_SYNC])"
  by (simp add: frame_def Let_def words_of_bytes_append)

lemma header_cmd: "drop_bit 16 (u32_of_bytes a b cmd n) AND 0xff = ucast cmd"
proof (rule bit_word_eqI)
  fix i assume "i < LENGTH(32)"
  then have "i < 32" by simp
  have m: "(0xff :: u32) = mask 8" by (simp add: mask_eq_exp_minus_1)
  show "bit (drop_bit 16 (u32_of_bytes a b cmd n) AND 0xff) i = bit (ucast cmd :: u32) i"
    unfolding m by (auto simp: u32_of_bytes_def bit_simps dest: bit_imp_le_length)
qed

lemma unat_ucast_u8 [simp]: "unat (ucast (b :: u8) :: u32) = unat b"
proof -
  have "unat b < 2 ^ 32" using unat_u8_less [of b] by (simp del: unat_u8_less)
  then show ?thesis by (simp add: unsigned_ucast_eq take_bit_nat_eq_self)
qed

lemma header_count: "unat (drop_bit 24 (u32_of_bytes a b cmd n)) = unat n"
proof -
  have "drop_bit 24 (u32_of_bytes a b cmd n) = ucast n"
    by (rule bit_word_eqI) (auto simp: u32_of_bytes_def bit_simps dest: bit_imp_le_length)
  then show ?thesis by simp
qed

lemma frame_arg_count:
  "length ws \<le> 30 \<Longrightarrow> command_get_arg_count (words_of_bytes (frame cmd ws)) = length ws"
  by (simp add: words_of_frame command_get_arg_count_def header_count unat_of_nat take_bit_nat_eq_self)

lemma frame_word: "length ws \<le> 30 \<Longrightarrow> i < length ws \<Longrightarrow> words_of_bytes (frame cmd ws) ! Suc i = ws ! i"
  by (simp add: words_of_frame nth_append)

lemma frame_block: "length ws = 17 \<Longrightarrow> take 16 (drop 2 (words_of_bytes (frame cmd ws))) = tl ws"
  by (cases ws) (simp_all add: words_of_frame)

lemma dispatch_frame:
  assumes "length ws \<le> 30"
  shows "command_dispatch c api uuid now (frame cmd ws) (length (frame cmd ws)) st =
    (let data = words_of_bytes (frame cmd ws);
         put = (\<lambda>(fc, ms). Some (st\<lparr>app_flashcmd := fc\<rparr>, ms))
     in if cmd = 0x11 then put (command_connect c api (app_flashcmd st))
        else if cmd = 0x12 then command_write_block c api data (app_flashcmd st) \<bind> put
        else if cmd = 0x13 then command_eof api (app_flashcmd st) \<bind> put
        else if cmd = 0x14 then put (command_read_block c api data (app_flashcmd st))
        else if cmd = 0x15 then put (command_complete c now (app_flashcmd st))
        else if cmd = 0x16 \<and> CONFIG_CANSERIAL c then Some (st, command_get_canbus_id uuid)
        else if (cmd = 0x16 \<or> cmd = 0x17) \<and> CONFIG_ENABLE_LED c then
          Some (st\<lparr>app_led := led_identify c now (app_led st)\<rparr>, [command_respond_ack CMD_IDENTIFY data 2])
        else Some (st, [command_respond_command_error]))"
proof -
  have "drop_bit 16 (words_of_bytes (frame cmd ws) ! 0) AND 0xff = ucast cmd"
    using assms by (simp add: words_of_frame header_cmd)
  moreover have "(ucast cmd = (ucast k :: u32)) \<longleftrightarrow> cmd = k" for k :: u8
    by (simp add: word_unat_eq_iff)
  from this [of "0x11"] this [of "0x12"] this [of "0x13"] this [of "0x14"] this [of "0x15"] this [of "0x16"] this [of "0x17"]
  have "(ucast cmd = (0x11 :: u32)) = (cmd = 0x11)" "(ucast cmd = (0x12 :: u32)) = (cmd = 0x12)"
    "(ucast cmd = (0x13 :: u32)) = (cmd = 0x13)" "(ucast cmd = (0x14 :: u32)) = (cmd = 0x14)"
    "(ucast cmd = (0x15 :: u32)) = (cmd = 0x15)" "(ucast cmd = (0x16 :: u32)) = (cmd = 0x16)"
    "(ucast cmd = (0x17 :: u32)) = (cmd = 0x17)"
    by simp_all
  ultimately show ?thesis
    unfolding command_dispatch_def by (simp add: Let_def)
qed

section \<open>Nothing below the application changes\<close>

definition is_frame :: "u8 list \<Rightarrow> bool" where
  "is_frame fr \<longleftrightarrow> (\<exists>cmd ws. fr = frame cmd ws \<and> length ws \<le> 30)"

lemma deframe_frames: "list_all is_frame (fst (deframe sync buf))"
proof (induction sync buf rule: deframe.induct)
  case (1 sync buf)
  obtain r pop sync' ms where fb: "command_find_block buf sync = (r, pop, sync', ms)"
    by (cases "command_find_block buf sync")
  show ?case
  proof (cases "r = 0")
    case True
    then show ?thesis by (simp add: deframe.simps [of sync buf] fb)
  next
    case False
    then have IH: "list_all is_frame (fst (deframe sync' (drop pop buf)))" using 1 fb by simp
    have "is_frame (take pop buf)" if "r > 0"
    proof -
      have "r = 1" using command_find_block_progress [OF fb] that by auto
      then have "command_find_block buf sync = (1, pop, sync', ms)" using fb by simp
      from command_find_block_accepts [OF this] obtain cmd ws rest
        where "buf = frame cmd ws @ rest" "length ws \<le> 30" "pop = length (frame cmd ws)" by auto
      then show ?thesis by (auto simp: is_frame_def)
    qed
    with IH False show ?thesis by (simp add: deframe.simps [of sync buf] fb split_beta)
  qed
qed

context flash_device
begin

lemma write_block_protects:
  assumes c: "config_ok c" and inv: "inv (flash st)" and ws: "length ws \<le> 30"
    and run: "command_write_block c api (words_of_bytes (frame cmd ws)) st = Some (st', ms)"
  shows "inv (flash st') \<and>
    same_below (CONFIG_LAUNCH_APP_ADDRESS c) (flash_memory api (flash st)) (flash_memory api (flash st'))"
proof -
  let ?data = "words_of_bytes (frame cmd ws)"
  have cnt: "command_get_arg_count ?data = length ws" by (rule frame_arg_count [OF ws])
  have arg: "?data ! 1 = hd ws" if "length ws = 17"
    using frame_word [OF ws, of 0 cmd] that by (cases ws) simp_all
  show ?thesis
  proof (cases "length ws = 17 \<and> flashcmd_block_in_range c (hd ws)")
    case False
    then have "flash st' = flash st"
      using run c arg by (auto simp: command_write_block_def Let_def cnt split: if_splits)
    with inv show ?thesis by simp
  next
    case True
    then have area: "in_app_area c (hd ws)" and len: "length (tl ws) = 16"
      using block_in_range_iff [OF c] by simp_all
    have blk: "take 16 (drop 2 ?data) = tl ws" using True by (simp add: frame_block)
    obtain r f where w: "flash_write_block api (hd ws) (tl ws) (flash st) = Some (r, f)" "flash st' = f"
      using run True c arg blk
      by (auto simp: command_write_block_def Let_def cnt bind_eq_Some_conv split: if_splits)
    show ?thesis
      using write_inv [OF inv area len w(1)] write_same [OF inv area len w(1)] w(2) by simp
  qed
qed

lemma eof_protects:
  assumes "inv (flash st)" and "command_eof api st = Some (st', ms)"
  shows "inv (flash st') \<and>
    same_below (CONFIG_LAUNCH_APP_ADDRESS c) (flash_memory api (flash st)) (flash_memory api (flash st'))"
  using assms by (auto simp: command_eof_def bind_eq_Some_conv Let_def split: if_splits
      intro: complete_inv complete_same)

lemma dispatch_protects:
  assumes c: "config_ok c" and inv: "inv (flash (app_flashcmd st))" and fr: "is_frame fr"
    and run: "command_dispatch c api uuid now fr (length fr) st = Some (st', ms)"
  shows "inv (flash (app_flashcmd st')) \<and>
    same_below (CONFIG_LAUNCH_APP_ADDRESS c) (app_memory api st) (app_memory api st')"
proof -
  obtain cmd ws where f: "fr = frame cmd ws" and ws: "length ws \<le> 30" using fr by (auto simp: is_frame_def)
  note d = run [unfolded f dispatch_frame [OF ws] Let_def]
  show ?thesis
  proof (cases "cmd = 0x12 \<or> cmd = 0x13")
    case True
    then show ?thesis
      using d write_block_protects [OF c inv ws] eof_protects [OF inv]
      by (auto simp: bind_eq_Some_conv)
  next
    case False
    have "flash (fst (command_connect c api fc)) = flash fc"
      "flash (fst (command_read_block c api data fc)) = flash fc"
      "flash (fst (command_complete c now fc)) = flash fc" for fc :: "'f flashcmd" and data
      by (simp_all add: command_connect_def command_read_block_def command_complete_def Let_def)
    with False d have "flash (app_flashcmd st') = flash (app_flashcmd st)"
      by (auto simp: split_beta split: if_splits)
    with inv show ?thesis by simp
  qed
qed

lemma serve_protects:
  "config_ok c \<Longrightarrow> inv (flash (app_flashcmd st)) \<Longrightarrow> list_all (\<lambda>x. is_frame (snd x)) frs \<Longrightarrow>
   serve c api uuid frs st = Some (st', ms) \<Longrightarrow>
   inv (flash (app_flashcmd st')) \<and>
   same_below (CONFIG_LAUNCH_APP_ADDRESS c) (app_memory api st) (app_memory api st')"
proof (induction frs arbitrary: st ms)
  case (Cons x frs)
  obtain now fr where x: "x = (now, fr)" by (cases x)
  obtain st1 ms1 ms2 where s1: "command_dispatch c api uuid now fr (length fr) st = Some (st1, ms1)"
      "serve c api uuid frs st1 = Some (st', ms2)"
    using Cons.prems(4) x by (auto simp: bind_eq_Some_conv)
  have "is_frame fr" "list_all (\<lambda>x. is_frame (snd x)) frs" using Cons.prems(3) x by simp_all
  note one = dispatch_protects [OF Cons.prems(1,2) this(1) s1(1)]
    and rest = Cons.IH [OF Cons.prems(1) _ this(2) s1(2)]
  from one rest show ?case by (blast intro: same_below_trans)
qed simp

end

section \<open>An acknowledged upload over the protocol\<close>

definition write_request :: "config \<Rightarrow> u8 list \<Rightarrow> nat \<Rightarrow> u8 list" where
  "write_request c img k = frame 0x12 (upload_address c k # words_of_bytes (image_block img k))"

definition write_ack :: "config \<Rightarrow> nat \<Rightarrow> u8 list" where
  "write_ack c k = frame 0xa0 [0x12, upload_address c k]"

text \<open>The blocks in the order the host sends them: the next one or the last one again. The result
  is the number of blocks sent.\<close>

fun in_order :: "nat \<Rightarrow> nat list \<Rightarrow> nat option" where
  "in_order n [] = Some n"
| "in_order n (k # ks) =
     (if k = n then in_order (Suc n) ks else if n = Suc k then in_order n ks else None)"

lemma frame_ack_not_error [simp]: "frame 0xa0 ws \<noteq> frame 0xf2 ws'"
  by (simp add: frame_unfold)

lemma write_request_dispatch:
  assumes c: "config_ok c"
    and run: "command_dispatch c api uuid now (write_request c img k) (length (write_request c img k)) st = Some (st', ms)"
  shows "(\<exists>r. flash_write_block api (upload_address c k) (words_of_bytes (image_block img k)) (flash (app_flashcmd st)) =
        Some (r, flash (app_flashcmd st')) \<and> 0 \<le> r \<and> in_app_area c (upload_address c k) \<and>
        map command_encode_and_frame ms = [write_ack c k]) \<or>
    map command_encode_and_frame ms = [frame 0xf2 []]"
proof -
  let ?ws = "upload_address c k # words_of_bytes (image_block img k)"
  have l: "length ?ws \<le> 30" "length ?ws = 17" by simp_all
  have ge: "0 \<le> r" if "\<not> r < 0" for r :: int using that by simp
  show ?thesis
    using run [unfolded write_request_def dispatch_frame [OF l(1)] Let_def]
      frame_arg_count [OF l(1), of "0x12"] frame_word [OF l(1), of 0 "0x12"] frame_block [OF l(2), of "0x12"] c
    by (auto simp: command_write_block_def Let_def bind_eq_Some_conv block_in_range_iff respond_error_frame
        respond_ack_4 write_ack_def not_less split: if_splits)
qed

lemma write_request_acked:
  assumes c: "config_ok c" and area: "in_app_area c (upload_address c k)"
    and w: "flash_write_block api (upload_address c k) (words_of_bytes (image_block img k)) (flash (app_flashcmd st)) =
      Some (r, f)" "0 \<le> r"
  obtains st' ms where
    "command_dispatch c api uuid now (write_request c img k) (length (write_request c img k)) st = Some (st', ms)"
    "map command_encode_and_frame ms = [write_ack c k]" "flash (app_flashcmd st') = f"
proof -
  let ?ws = "upload_address c k # words_of_bytes (image_block img k)"
  have l: "length ?ws \<le> 30" "length ?ws = 17" by simp_all
  have "\<exists>fc. command_write_block c api (words_of_bytes (frame 0x12 ?ws)) (app_flashcmd st) =
      Some (fc, [command_respond_ack CMD_RX_BLOCK [0, 0, upload_address c k, 0] 4]) \<and> flash fc = f"
    using c area w frame_arg_count [OF l(1), of "0x12"] frame_word [OF l(1), of 0 "0x12"] frame_block [OF l(2), of "0x12"]
    by (cases "upload_address c k = CONFIG_LAUNCH_APP_ADDRESS c")
       (simp_all add: command_write_block_def Let_def block_in_range_iff)
  then obtain fc where fc: "command_write_block c api (words_of_bytes (frame 0x12 ?ws)) (app_flashcmd st) =
      Some (fc, [command_respond_ack CMD_RX_BLOCK [0, 0, upload_address c k, 0] 4])" "flash fc = f"
    by blast
  from fc(1) have "command_dispatch c api uuid now (write_request c img k) (length (write_request c img k)) st =
      Some (st\<lparr>app_flashcmd := fc\<rparr>, [command_respond_ack CMD_RX_BLOCK [0, 0, upload_address c k, 0] 4])"
    unfolding write_request_def dispatch_frame [OF l(1)] by (simp add: Let_def)
  then show ?thesis by (rule that) (simp_all add: write_ack_def respond_ack_4 fc(2))
qed

lemma serve_write_requests:
  assumes c: "config_ok c"
  shows "serve c api uuid (zip nows (map (write_request c img) ks)) st = Some (st', ms) \<Longrightarrow>
    length nows = length ks \<Longrightarrow> map command_encode_and_frame ms = map (write_ack c) ks \<Longrightarrow>
    in_order k ks = Some n \<Longrightarrow> acked_upload api c img f k (flash (app_flashcmd st)) \<Longrightarrow>
    unat (CONFIG_LAUNCH_APP_ADDRESS c) + 64 * k \<le> unat (flash_end c) \<Longrightarrow>
    acked_upload api c img f n (flash (app_flashcmd st')) \<and>
    unat (CONFIG_LAUNCH_APP_ADDRESS c) + 64 * n \<le> unat (flash_end c)"
proof (induction ks arbitrary: nows st ms k)
  case (Cons j ks)
  obtain now nows' where nows: "nows = now # nows'" using Cons.prems(2) by (cases nows) auto
  obtain st1 ms1 ms2 where s1: "command_dispatch c api uuid now (write_request c img j)
        (length (write_request c img j)) st = Some (st1, ms1)"
      "serve c api uuid (zip nows' (map (write_request c img) ks)) st1 = Some (st', ms2)" and ms: "ms = ms1 @ ms2"
    using Cons.prems(1) nows by (auto simp: bind_eq_Some_conv)
  from write_request_dispatch [OF c s1(1)] obtain r where r:
      "flash_write_block api (upload_address c j) (words_of_bytes (image_block img j)) (flash (app_flashcmd st)) =
        Some (r, flash (app_flashcmd st1))" "0 \<le> r" "map command_encode_and_frame ms2 = map (write_ack c) ks"
      "in_app_area c (upload_address c j)"
    using Cons.prems(3) ms by (auto simp: write_ack_def append_eq_Cons_conv)
  let ?room = "\<lambda>k. unat (CONFIG_LAUNCH_APP_ADDRESS c) + 64 * k \<le> unat (flash_end c)"
  have rest: "acked_upload api c img f n (flash (app_flashcmd st')) \<and> ?room n"
    if "in_order k' ks = Some n" "acked_upload api c img f k' (flash (app_flashcmd st1))" "?room k'" for k'
    using Cons.IH [OF s1(2) _ r(3) that] Cons.prems(2) nows by simp
  show ?case
  proof (cases "j = k")
    case True
    have "unat (upload_address c k) = unat (CONFIG_LAUNCH_APP_ADDRESS c) + 64 * k"
      using Cons.prems(6) unat_u32_less [of "flash_end c"] unfolding upload_address_def
      by (intro unat_add_nat) (simp del: unat_u32_less)
    then have "?room (Suc k)" using r(4) True by (simp add: in_app_area_def)
    with True Cons.prems(4,5) r(1,2) show ?thesis
      by (intro rest [of "Suc k"] acked_upload.forward) simp_all
  next
    case False
    with Cons.prems(4) have k: "k = Suc j" and ks: "in_order k ks = Some n" by (auto split: if_splits)
    have "acked_upload api c img f k (flash (app_flashcmd st1))"
      using Cons.prems(5) unfolding k by (rule acked_upload.again [OF _ r(1,2)])
    from rest [OF ks this Cons.prems(6)] show ?thesis .
  qed
qed simp

lemma eof_dispatch:
  assumes run: "command_dispatch c api uuid now (frame 0x13 []) (length (frame 0x13 [])) st = Some (st', ms)"
    and ack: "map command_encode_and_frame ms = [frame 0xa0 [0x13, pages]]"
  shows "\<exists>r. flash_complete api (flash (app_flashcmd st)) = Some (r, flash (app_flashcmd st')) \<and> 0 \<le> r"
proof -
  have l: "length ([] :: u32 list) \<le> 30" by simp
  show ?thesis
    using run [unfolded dispatch_frame [OF l] Let_def] ack
    by (auto simp: command_eof_def Let_def bind_eq_Some_conv respond_error_frame not_less
        frame_ack_not_error [symmetric] split: if_splits)
qed

context flash_progress
begin

lemma served_upload:
  assumes c: "config_ok c" and inv: "inv (flash (app_flashcmd st))"
    and up: "serve c api uuid (zip nows (map (write_request c img) ks)) st = Some (st1, ms)"
      "length nows = length ks" "map command_encode_and_frame ms = map (write_ack c) ks"
    and order: "in_order 0 ks = Some n" "length img \<le> 64 * n"
    and eof: "command_dispatch c api uuid now (frame 0x13 []) (length (frame 0x13 [])) st1 = Some (st2, ms2)"
      "map command_encode_and_frame ms2 = [frame 0xa0 [0x13, pages]]"
  shows "holds_at (app_memory api st2) (CONFIG_LAUNCH_APP_ADDRESS c) img"
proof -
  have "unat (CONFIG_LAUNCH_APP_ADDRESS c) + 64 * 0 \<le> unat (flash_end c)"
    using c config_ok_flash_end [OF c] by (simp add: config_ok_def)
  from serve_write_requests [OF c up order(1) acked_upload.start this]
  have acked: "acked_upload api c img (flash (app_flashcmd st)) n (flash (app_flashcmd st1))"
    and room: "unat (CONFIG_LAUNCH_APP_ADDRESS c) + 64 * n \<le> unat (flash_end c)" by blast+
  obtain r where "flash_complete api (flash (app_flashcmd st1)) = Some (r, flash (app_flashcmd st2))"
    using eof_dispatch [OF eof] by blast
  then show ?thesis by (rule upload_stored [OF acked inv room order(2)])
qed

end

definition demo_app :: "memory app" where
  "demo_app = \<lparr> app_flashcmd = \<lparr> is_in_transfer = False, total_bytes_written = 0, complete_flag = False,
       complete_endtime = 0, flash = demo_flash \<rparr>,
     app_led = \<lparr> last_time = 0, mode_end = 0, pwm_cnt = 0, bright = 0 \<rparr> \<rparr>"

end
