(* ===== verification/FlashStm32.thy ===== *)
theory FlashStm32
  imports FlashApi
begin

text \<open>
  The STM32 flash driver, \<open>src/stm32/flash.c\<close>, for the nine register layouts the C
  preprocessor selects. The flash peripheral is a record of functions on an unspecified device
  state \<open>'d\<close>: its memory-mapped view, reads and writes of its registers, stores into the
  flash, and the size register. Reading \<open>SR\<close> advances the device, so a busy-wait is a partial
  function and a call is \<open>None\<close> when the hardware never reports ready.

  What the driver relies on in the reference manuals is collected in \<open>stm32_hw_ok\<close>: an
  operation changes the memory only where it was told to. The main lemmas are that the driver
  erases exactly the page of the block it was asked to write, that nothing else of the
  application area and nothing below it changes, that success means the block is in flash,
  and what \<open>check_erased\<close> really checks.
\<close>

section \<open>The parameters\<close>

datatype stm32_mach = STM32F042 | STM32F072 | STM32F0_other | STM32F103 | STM32F2 | STM32F4
  | STM32G0 | STM32G4 | STM32H7

record 'd stm32_flash_hw =
  hw_memory :: "'d \<Rightarrow> memory"
  hw_CR :: "'d \<Rightarrow> u32"
  hw_SR :: "'d \<Rightarrow> u32 \<times> 'd"
  hw_set_CR :: "u32 \<Rightarrow> 'd \<Rightarrow> 'd"
  hw_set_KEYR :: "u32 \<Rightarrow> 'd \<Rightarrow> 'd"
  hw_set_AR :: "u32 \<Rightarrow> 'd \<Rightarrow> 'd"
  hw_writew :: "u32 \<Rightarrow> u16 \<Rightarrow> 'd \<Rightarrow> 'd"
  hw_writel :: "u32 \<Rightarrow> u32 \<Rightarrow> 'd \<Rightarrow> 'd"
  hw_invalidate_dcache :: "u32 \<Rightarrow> nat \<Rightarrow> 'd \<Rightarrow> 'd"
  hw_flash_size :: u16

record 'd stm32_flash =
  fl_dev :: 'd
  fl_page_write_count :: u32

definition FLASH_SR_BSY :: "stm32_mach \<Rightarrow> u32" where
  "FLASH_SR_BSY m = (case m of
     STM32F2 \<Rightarrow> 0x10000 | STM32F4 \<Rightarrow> 0x10000 | STM32G4 \<Rightarrow> 0x10000
   | STM32G0 \<Rightarrow> 0x10000 OR 0x20000 | _ \<Rightarrow> 1)"

abbreviation (input) FLASH_SR_QW :: u32 where "FLASH_SR_QW \<equiv> 4"
abbreviation (input) FLASH_KEY1 :: u32 where "FLASH_KEY1 \<equiv> 0x45670123"
abbreviation (input) FLASH_KEY2 :: u32 where "FLASH_KEY2 \<equiv> 0xCDEF89AB"
abbreviation (input) FLASH_CR_PG :: "stm32_mach \<Rightarrow> u32" where
  "FLASH_CR_PG m \<equiv> (if m = STM32H7 then 2 else 1)"
abbreviation (input) FLASH_CR_PER :: u32 where "FLASH_CR_PER \<equiv> 2"
abbreviation (input) FLASH_CR_SER :: "stm32_mach \<Rightarrow> u32" where
  "FLASH_CR_SER m \<equiv> (if m = STM32H7 then 4 else 2)"
abbreviation (input) FLASH_CR_PSIZE_1 :: u32 where "FLASH_CR_PSIZE_1 \<equiv> 0x200"

definition FLASH_CR_STRT :: "stm32_mach \<Rightarrow> u32" where
  "FLASH_CR_STRT m = (case m of
     STM32F2 \<Rightarrow> 0x10000 | STM32F4 \<Rightarrow> 0x10000 | STM32G0 \<Rightarrow> 0x10000 | STM32G4 \<Rightarrow> 0x10000
   | STM32H7 \<Rightarrow> 0x80 | _ \<Rightarrow> 0x40)"

definition FLASH_CR_LOCK :: "stm32_mach \<Rightarrow> u32" where
  "FLASH_CR_LOCK m = (case m of
     STM32F2 \<Rightarrow> 0x80000000 | STM32F4 \<Rightarrow> 0x80000000 | STM32G0 \<Rightarrow> 0x80000000
   | STM32G4 \<Rightarrow> 0x80000000 | STM32H7 \<Rightarrow> 1 | _ \<Rightarrow> 0x80)"

section \<open>The driver\<close>

definition flash_get_page_size :: "stm32_mach \<Rightarrow> 'd stm32_flash_hw \<Rightarrow> u32 \<Rightarrow> u32" where
  "flash_get_page_size m hw addr =
     (if m = STM32F2 \<or> m = STM32F4 then
        (if addr < 0x08010000 then 16 * 1024
         else if addr < 0x08020000 then 64 * 1024
         else 128 * 1024)
      else if m = STM32F103 then (if hw_flash_size hw < 256 then 1024 else 2 * 1024)
      else if m = STM32F042 then 1024
      else if m = STM32F072 then 2 * 1024
      else if m = STM32F0_other then (if hw_flash_size hw \<le> 64 then 1024 else 2 * 1024)
      else if m = STM32G0 \<or> m = STM32G4 then 2 * 1024
      else 128 * 1024)"

text \<open>The end pointer is \<open>(void*)addr + count / 4\<close>, an offset of \<open>count / 4\<close> bytes, and the
  loop advances by words.\<close>

definition check_erased :: "memory \<Rightarrow> u32 \<Rightarrow> u32 \<Rightarrow> bool" where
  "check_erased mem addr count =
     list_all (\<lambda>i. mem_u32 mem (addr + of_nat (4 * i)) = 0xffffffff)
       [0..<div_round_up (unat count div 4) 4]"

partial_function (option) wait_sr :: "'d stm32_flash_hw \<Rightarrow> u32 \<Rightarrow> 'd \<Rightarrow> 'd option" where
  "wait_sr hw bits d =
     (let (sr, d) = hw_SR hw d in if sr AND bits \<noteq> 0 then wait_sr hw bits d else Some d)"

definition wait_flash :: "stm32_mach \<Rightarrow> 'd stm32_flash_hw \<Rightarrow> 'd \<Rightarrow> 'd option" where
  "wait_flash m hw d = wait_sr hw (FLASH_SR_BSY m) d"

definition unlock_flash :: "stm32_mach \<Rightarrow> 'd stm32_flash_hw \<Rightarrow> 'd \<Rightarrow> 'd option" where
  "unlock_flash m hw d =
     wait_flash m hw
       (if hw_CR hw d AND FLASH_CR_LOCK m \<noteq> 0
        then hw_set_KEYR hw FLASH_KEY2 (hw_set_KEYR hw FLASH_KEY1 d) else d)"

definition lock_flash :: "stm32_mach \<Rightarrow> 'd stm32_flash_hw \<Rightarrow> 'd \<Rightarrow> 'd" where
  "lock_flash m hw d = hw_set_CR hw (FLASH_CR_LOCK m) d"

text \<open>The command word of \<open>erase_page\<close>, as written to \<open>CR\<close>.\<close>

definition erase_command :: "stm32_mach \<Rightarrow> 'd stm32_flash_hw \<Rightarrow> u32 \<Rightarrow> u32" where
  "erase_command m hw page_address =
     (if m = STM32F2 \<or> m = STM32F4 then
        (let sidx = (if page_address < 0x08010000 then (page_address - 0x08000000) div (16 * 1024)
                     else if page_address < 0x08020000 then 4
                     else 5 + (page_address - 0x08020000) div (128 * 1024));
             sidx = (if sidx > 0x0f then 0x0f else sidx)
         in FLASH_CR_PSIZE_1 OR FLASH_CR_STRT m OR FLASH_CR_SER m OR push_bit 3 sidx)
      else if m = STM32G0 \<or> m = STM32G4 then
        (let pidx = (page_address - 0x08000000) div (2 * 1024);
             pidx = (if pidx \<ge> 64 then
                       (if hw_flash_size hw \<le> 256 then pidx + 256 - 64
                        else if pidx < 128 then pidx else pidx + 256 - 128)
                     else pidx);
             pidx = (if pidx > 0x3ff then 0x3ff else pidx)
         in FLASH_CR_PER OR FLASH_CR_STRT m OR push_bit 3 pidx)
      else if m = STM32H7 then
        (let snb = (page_address - 0x08000000) div (128 * 1024);
             snb = (if snb > 7 then 7 else snb)
         in FLASH_CR_SER m OR FLASH_CR_STRT m OR push_bit 8 snb)
      else FLASH_CR_PER OR FLASH_CR_STRT m)"

definition erase_page :: "stm32_mach \<Rightarrow> 'd stm32_flash_hw \<Rightarrow> u32 \<Rightarrow> 'd \<Rightarrow> 'd option" where
  "erase_page m hw page_address d =
     (let cmd = erase_command m hw page_address in
      if m = STM32F2 \<or> m = STM32F4 \<or> m = STM32G0 \<or> m = STM32G4 then
        wait_flash m hw (hw_set_CR hw cmd d)
      else if m = STM32H7 then do {
        d \<leftarrow> wait_sr hw FLASH_SR_QW (hw_set_CR hw cmd d);
        wait_flash m hw (hw_invalidate_dcache hw page_address (128 * 1024) d)
      } else
        wait_flash m hw (hw_set_CR hw cmd (hw_set_AR hw page_address (hw_set_CR hw FLASH_CR_PER d))))"

text \<open>The loops of \<open>write_block\<close>: \<open>writel_all\<close> is the run of stores in the body of a loop, the
  other two are the loops, their first argument the iterations left.\<close>

fun writel_all :: "'d stm32_flash_hw \<Rightarrow> u32 \<Rightarrow> u32 list \<Rightarrow> 'd \<Rightarrow> 'd" where
  "writel_all hw a [] d = d"
| "writel_all hw a (w # ws) d = writel_all hw (a + 4) ws (hw_writel hw a w d)"

fun program_words :: "nat \<Rightarrow> ('d \<Rightarrow> 'd option) \<Rightarrow> 'd stm32_flash_hw \<Rightarrow> nat \<Rightarrow> u32 \<Rightarrow> u32 list \<Rightarrow> 'd \<Rightarrow> 'd option"
where
  "program_words 0 wait hw n a data d = Some d"
| "program_words (Suc k) wait hw n a data d = do {
     d \<leftarrow> wait (writel_all hw a (take n data) d);
     program_words k wait hw n (a + 4 * of_nat n) (drop n data) d
   }"

fun program_halfwords :: "stm32_mach \<Rightarrow> 'd stm32_flash_hw \<Rightarrow> u32 \<Rightarrow> u16 list \<Rightarrow> 'd \<Rightarrow> 'd option" where
  "program_halfwords m hw a [] d = Some d"
| "program_halfwords m hw a (h # hs) d = do {
     d \<leftarrow> wait_flash m hw (hw_writew hw a h d);
     program_halfwords m hw (a + 2) hs d
   }"

definition halfwords :: "u32 list \<Rightarrow> u16 list" where
  "halfwords ws = concat (map (\<lambda>w. [ucast w, ucast (drop_bit 16 w)]) ws)"

definition write_block :: "stm32_mach \<Rightarrow> config \<Rightarrow> 'd stm32_flash_hw \<Rightarrow> u32 \<Rightarrow> u32 list \<Rightarrow> 'd \<Rightarrow> 'd option"
where
  "write_block m c hw block_address data d =
     (let size = unat (CONFIG_BLOCK_SIZE c) in
      if m = STM32F2 \<or> m = STM32F4 then
        program_words (size div 4) (wait_flash m hw) hw 1 block_address data
          (hw_set_CR hw (FLASH_CR_PSIZE_1 OR FLASH_CR_PG m) d)
      else if m = STM32G0 \<or> m = STM32G4 then
        program_words (size div 8) (wait_flash m hw) hw 2 block_address data
          (hw_set_CR hw (FLASH_CR_PG m) d)
      else if m = STM32H7 then do {
        d \<leftarrow> program_words (size div 32)
               (\<lambda>d. do { d \<leftarrow> wait_sr hw FLASH_SR_QW d; wait_flash m hw d }) hw 8 block_address data
               (hw_set_CR hw (FLASH_CR_PG m) d);
        Some (hw_invalidate_dcache hw block_address size d)
      } else
        program_halfwords m hw block_address (take (size div 2) (halfwords data))
          (hw_set_CR hw (FLASH_CR_PG m) d))"

text \<open>\<open>flash_write_block\<close> from \<open>unlock_flash\<close> on.\<close>

definition stm32_program :: "stm32_mach \<Rightarrow> config \<Rightarrow> 'd stm32_flash_hw \<Rightarrow> u32 \<Rightarrow> u32 \<Rightarrow> u32 list \<Rightarrow> bool
    \<Rightarrow> 'd \<Rightarrow> (int \<times> 'd) option" where
  "stm32_program m c hw block_address page_address data need_erase d = do {
     d \<leftarrow> unlock_flash m hw d;
     d \<leftarrow> (if need_erase then do {
            d \<leftarrow> erase_page m hw page_address d;
            (if m = STM32H7 then unlock_flash m hw (lock_flash m hw d) else Some d)
          } else Some d);
     d \<leftarrow> write_block m c hw block_address data d;
     let d = lock_flash m hw d;
     Some (if bytes_of_words data \<noteq> mem_read (hw_memory hw d) block_address (unat (CONFIG_BLOCK_SIZE c))
           then -3 else 0, d)
   }"

definition stm32_flash_write_block :: "stm32_mach \<Rightarrow> config \<Rightarrow> 'd stm32_flash_hw \<Rightarrow> u32 \<Rightarrow> u32 list
    \<Rightarrow> 'd stm32_flash \<Rightarrow> (int \<times> 'd stm32_flash) option" where
  "stm32_flash_write_block m c hw block_address data f =
     (if block_address AND (CONFIG_BLOCK_SIZE c - 1) \<noteq> 0 then Some (-1, f)
      else
        let flash_page_size = flash_get_page_size m hw block_address;
            page_address = ALIGN_DOWN block_address flash_page_size;
            mem = hw_memory hw (fl_dev f);
            same = (bytes_of_words data = mem_read mem block_address (unat (CONFIG_BLOCK_SIZE c)));
            go = (\<lambda>need_erase f. do {
                   (ret, d) \<leftarrow> stm32_program m c hw block_address page_address data need_erase (fl_dev f);
                   Some (ret, f\<lparr>fl_dev := d\<rparr>)
                 })
        in if page_address = block_address then
             (if check_erased mem block_address flash_page_size then
                go False (f\<lparr>fl_page_write_count := fl_page_write_count f + 1\<rparr>)
              else if same \<and> check_erased mem (block_address + CONFIG_BLOCK_SIZE c)
                                (flash_page_size - CONFIG_BLOCK_SIZE c) then Some (0, f)
              else go True (f\<lparr>fl_page_write_count := fl_page_write_count f + 1\<rparr>))
           else if \<not> check_erased mem block_address (CONFIG_BLOCK_SIZE c) then
             (if same then Some (0, f) else Some (-2, f))
           else go False f)"

definition stm32_flash_complete :: "'d stm32_flash \<Rightarrow> (int \<times> 'd stm32_flash) option" where
  "stm32_flash_complete f = Some (sint (fl_page_write_count f), f)"

definition stm32_flash_api :: "stm32_mach \<Rightarrow> config \<Rightarrow> 'd stm32_flash_hw \<Rightarrow> 'd stm32_flash flash_api" where
  "stm32_flash_api m c hw =
     \<lparr> flash_write_block = stm32_flash_write_block m c hw,
       flash_complete = stm32_flash_complete,
       flash_memory = \<lambda>f. hw_memory hw (fl_dev f) \<rparr>"

section \<open>What the driver relies on\<close>

text \<open>The addresses an erase command selects, from the reference manuals: a sector number for F2
  and F4, the address register for F0 and F1, a page number for G0 and G4 (numbers from 256 on
  count the pages of the second bank), a sector number for H7. A mass erase selects all.\<close>

definition sector_span :: "nat \<Rightarrow> u32 set" where
  "sector_span s =
     (if s < 4 then span (0x08000000 + of_nat s * 0x4000) 0x4000
      else if s = 4 then span 0x08010000 0x10000
      else if s < 12 then span (0x08020000 + of_nat (s - 5) * 0x20000) 0x20000
      else UNIV)"

definition page_number_span :: "u16 \<Rightarrow> nat \<Rightarrow> u32 set" where
  "page_number_span kib n =
     (if n < 256 then span (0x08000000 + of_nat n * 0x800) 0x800
      else span (0x08000000 + (if kib \<le> 256 then 0x20000 else 0x40000) + of_nat (n - 256) * 0x800) 0x800)"

definition cr_erases :: "stm32_mach \<Rightarrow> 'd stm32_flash_hw \<Rightarrow> u32 \<Rightarrow> u32 \<Rightarrow> u32 set" where
  "cr_erases m hw cr ar =
     (if cr AND FLASH_CR_STRT m = 0 then {}
      else if cr AND (if m = STM32H7 then 8 else 4) \<noteq> 0 then UNIV
      else if m = STM32F2 \<or> m = STM32F4 then
        (if cr AND FLASH_CR_SER m \<noteq> 0 then sector_span (unat (take_bit 5 (drop_bit 3 cr))) else {})
      else if m = STM32G0 \<or> m = STM32G4 then
        (if cr AND FLASH_CR_PER \<noteq> 0
         then page_number_span (hw_flash_size hw) (unat (take_bit 10 (drop_bit 3 cr))) else {})
      else if m = STM32H7 then
        (if cr AND FLASH_CR_SER m \<noteq> 0
         then span (0x08000000 + take_bit 3 (drop_bit 8 cr) * 0x20000) 0x20000 else {})
      else if cr AND FLASH_CR_PER \<noteq> 0 then
        (let size = flash_get_page_size m hw ar in span (ALIGN_DOWN ar size) (unat size))
      else {})"

text \<open>\<open>pend d\<close> are the addresses an operation still in progress may change. A step keeps a set of
  addresses when, with no operation in progress there before, there is none after it and the
  memory there is the same.\<close>

definition keeps :: "('d \<Rightarrow> memory) \<Rightarrow> ('d \<Rightarrow> u32 set) \<Rightarrow> u32 set \<Rightarrow> 'd \<Rightarrow> 'd \<Rightarrow> bool" where
  "keeps mem pend B d d' \<longleftrightarrow>
     (pend d \<inter> B = {} \<longrightarrow> pend d' \<inter> B = {} \<and> (\<forall>x \<in> B. mem d' x = mem d x))"

definition stm32_hw_ok :: "stm32_mach \<Rightarrow> 'd stm32_flash_hw \<Rightarrow> ('d \<Rightarrow> u32) \<Rightarrow> ('d \<Rightarrow> u32 set) \<Rightarrow> bool" where
  "stm32_hw_ok m hw ar pend \<longleftrightarrow>
     (\<forall>B d. keeps (hw_memory hw) pend B d (snd (hw_SR hw d)) \<and> ar (snd (hw_SR hw d)) = ar d \<and>
        (fst (hw_SR hw d) AND FLASH_SR_BSY m = 0 \<longrightarrow> pend (snd (hw_SR hw d)) = {})) \<and>
     (\<forall>B d v. keeps (hw_memory hw) pend B d (hw_set_KEYR hw v d)) \<and>
     (\<forall>B d v. keeps (hw_memory hw) pend B d (hw_set_AR hw v d) \<and> ar (hw_set_AR hw v d) = v) \<and>
     (\<forall>B d v. ar (hw_set_CR hw v d) = ar d \<and>
        (cr_erases m hw v (ar d) \<inter> B = {} \<longrightarrow> keeps (hw_memory hw) pend B d (hw_set_CR hw v d))) \<and>
     (\<forall>B d a w. span a 2 \<inter> B = {} \<longrightarrow> keeps (hw_memory hw) pend B d (hw_writew hw a w d)) \<and>
     (\<forall>B d a w. span a 4 \<inter> B = {} \<longrightarrow> keeps (hw_memory hw) pend B d (hw_writel hw a w d)) \<and>
     (\<forall>B d a n. keeps (hw_memory hw) pend B d (hw_invalidate_dcache hw a n d))"

lemma keeps_refl [simp, intro]: "keeps mem pend B d d"
  by (simp add: keeps_def)

lemma keeps_trans: "keeps mem pend B d d' \<Longrightarrow> keeps mem pend B d' d'' \<Longrightarrow> keeps mem pend B d d''"
  by (simp add: keeps_def)

lemma keeps_idle: "keeps mem pend UNIV d d' \<Longrightarrow> pend d = {} \<Longrightarrow> pend d' = {}"
  by (simp add: keeps_def)

lemma stm32_hw_okD:
  assumes "stm32_hw_ok m hw ar pend"
  shows sr_keeps: "keeps (hw_memory hw) pend B d (snd (hw_SR hw d))"
    and sr_idle: "fst (hw_SR hw d) AND FLASH_SR_BSY m = 0 \<Longrightarrow> pend (snd (hw_SR hw d)) = {}"
    and keyr_keeps: "keeps (hw_memory hw) pend B d (hw_set_KEYR hw v d)"
    and ar_keeps: "keeps (hw_memory hw) pend B d (hw_set_AR hw v d)"
    and ar_set: "ar (hw_set_AR hw v d) = v"
    and ar_cr: "ar (hw_set_CR hw v d) = ar d"
    and cr_keeps: "cr_erases m hw v (ar d) \<inter> B = {} \<Longrightarrow> keeps (hw_memory hw) pend B d (hw_set_CR hw v d)"
    and writew_keeps: "span a 2 \<inter> B = {} \<Longrightarrow> keeps (hw_memory hw) pend B d (hw_writew hw a h d)"
    and writel_keeps: "span a 4 \<inter> B = {} \<Longrightarrow> keeps (hw_memory hw) pend B d (hw_writel hw a w d)"
    and dcache_keeps: "keeps (hw_memory hw) pend B d (hw_invalidate_dcache hw a n d)"
  using assms by (simp_all add: stm32_hw_ok_def)

lemma wait_sr_stop:
  assumes "wait_sr hw bits d = Some d'"
  shows "\<exists>e. d' = snd (hw_SR hw e) \<and> fst (hw_SR hw e) AND bits = 0"
proof (rule wait_sr.raw_induct [where P = "\<lambda>hw bits d d'. \<exists>e. d' = snd (hw_SR hw e) \<and>
    fst (hw_SR hw e) AND bits = 0", OF _ assms])
  fix f and hw :: "'a stm32_flash_hw" and bits d d'
  assume IH: "\<And>hw bits d d'. f hw bits d = Some d' \<Longrightarrow>
      \<exists>e. d' = snd (hw_SR hw e) \<and> fst (hw_SR hw e) AND bits = 0"
    and eq: "(let (sr, d) = hw_SR hw d in if sr AND bits \<noteq> 0 then f hw bits d else Some d) = Some d'"
  show "\<exists>e. d' = snd (hw_SR hw e) \<and> fst (hw_SR hw e) AND bits = 0"
    using eq IH [of hw bits "snd (hw_SR hw d)" d']
    by (auto simp: split_beta Let_def split: if_splits)
qed

lemma wait_sr_keeps:
  assumes ok: "stm32_hw_ok m hw ar pend" and w: "wait_sr hw bits d = Some d'"
  shows "keeps (hw_memory hw) pend B d d'"
proof -
  have "stm32_hw_ok m hw ar pend \<longrightarrow> keeps (hw_memory hw) pend B d d'"
  proof (rule wait_sr.raw_induct [where P = "\<lambda>hw bits d d'. stm32_hw_ok m hw ar pend \<longrightarrow>
      keeps (hw_memory hw) pend B d d'", OF _ w])
    fix f and hw :: "'a stm32_flash_hw" and bits d d'
    assume IH: "\<And>hw bits d d'. f hw bits d = Some d' \<Longrightarrow>
        stm32_hw_ok m hw ar pend \<longrightarrow> keeps (hw_memory hw) pend B d d'"
      and eq: "(let (sr, d) = hw_SR hw d in if sr AND bits \<noteq> 0 then f hw bits d else Some d) = Some d'"
    show "stm32_hw_ok m hw ar pend \<longrightarrow> keeps (hw_memory hw) pend B d d'"
    proof
      assume ok: "stm32_hw_ok m hw ar pend"
      show "keeps (hw_memory hw) pend B d d'"
        using eq IH [of hw bits "snd (hw_SR hw d)" d'] ok sr_keeps [OF ok, of B d]
        by (auto simp: split_beta Let_def intro: keeps_trans split: if_splits)
    qed
  qed
  with ok show ?thesis by blast
qed

lemma wait_flash_keeps:
  "stm32_hw_ok m hw ar pend \<Longrightarrow> wait_flash m hw d = Some d' \<Longrightarrow> keeps (hw_memory hw) pend B d d'"
  unfolding wait_flash_def by (rule wait_sr_keeps)

lemma wait_flash_idle:
  "stm32_hw_ok m hw ar pend \<Longrightarrow> wait_flash m hw d = Some d' \<Longrightarrow> pend d' = {}"
  unfolding wait_flash_def by (drule wait_sr_stop) (elim exE conjE, simp add: sr_idle)

lemma unlock_flash_keeps:
  assumes ok: "stm32_hw_ok m hw ar pend" and "unlock_flash m hw d = Some d'"
  shows "keeps (hw_memory hw) pend B d d'"
proof -
  let ?e = "if hw_CR hw d AND FLASH_CR_LOCK m \<noteq> 0
        then hw_set_KEYR hw FLASH_KEY2 (hw_set_KEYR hw FLASH_KEY1 d) else d"
  have "keeps (hw_memory hw) pend B d ?e"
    by (auto intro: keeps_trans keyr_keeps [OF ok])
  moreover have "keeps (hw_memory hw) pend B ?e d'"
    using assms(2) unfolding unlock_flash_def by (rule wait_flash_keeps [OF ok])
  ultimately show ?thesis by (rule keeps_trans)
qed

lemma unlock_flash_idle:
  "stm32_hw_ok m hw ar pend \<Longrightarrow> unlock_flash m hw d = Some d' \<Longrightarrow> pend d' = {}"
  unfolding unlock_flash_def by (erule wait_flash_idle)

lemma cr_erases_plain [simp]:
  "cr_erases m hw (FLASH_CR_LOCK m) a = {}"
  "cr_erases m hw (FLASH_CR_PG m) a = {}"
  "cr_erases m hw (FLASH_CR_PSIZE_1 OR FLASH_CR_PG m) a = {}"
  "cr_erases m hw FLASH_CR_PER a = {}"
  by (cases m; simp add: cr_erases_def FLASH_CR_LOCK_def FLASH_CR_STRT_def)+

lemma lock_flash_keeps:
  "stm32_hw_ok m hw ar pend \<Longrightarrow> keeps (hw_memory hw) pend B d (lock_flash m hw d)"
  unfolding lock_flash_def by (erule cr_keeps) simp

lemma erase_page_keeps:
  assumes ok: "stm32_hw_ok m hw ar pend" and er: "erase_page m hw p d = Some d'"
    and B: "\<And>a. m \<in> {STM32F2, STM32F4, STM32G0, STM32G4, STM32H7} \<or> a = p \<Longrightarrow>
      cr_erases m hw (erase_command m hw p) a \<inter> B = {}"
  shows "keeps (hw_memory hw) pend B d d'"
proof -
  let ?K = "keeps (hw_memory hw) pend B" and ?cmd = "erase_command m hw p"
  note tr = keeps_trans [of "hw_memory hw" pend B]
  show ?thesis
  proof (cases "m \<in> {STM32F2, STM32F4, STM32G0, STM32G4, STM32H7}")
    case True
    have set: "?K d (hw_set_CR hw ?cmd d)"
      using True by (intro cr_keeps [OF ok] B) simp
    show ?thesis
    proof (cases "m = STM32H7")
      case True
      then obtain e where e: "wait_sr hw FLASH_SR_QW (hw_set_CR hw ?cmd d) = Some e"
          "wait_flash m hw (hw_invalidate_dcache hw p 131072 e) = Some d'"
        using er by (auto simp: erase_page_def Let_def bind_eq_Some_conv)
      show ?thesis
        by (rule tr [OF set tr [OF wait_sr_keeps [OF ok e(1)]
              tr [OF dcache_keeps [OF ok] wait_flash_keeps [OF ok e(2)]]]])
    next
      case False
      with True er have "wait_flash m hw (hw_set_CR hw ?cmd d) = Some d'"
        by (auto simp: erase_page_def Let_def)
      from tr [OF set wait_flash_keeps [OF ok this]] show ?thesis .
    qed
  next
    case False
    let ?d1 = "hw_set_CR hw FLASH_CR_PER d"
    let ?d2 = "hw_set_AR hw p ?d1"
    have "wait_flash m hw (hw_set_CR hw ?cmd ?d2) = Some d'"
      using er False by (auto simp: erase_page_def Let_def)
    note last = wait_flash_keeps [OF ok this, of B]
    have one: "?K d ?d1" by (rule cr_keeps [OF ok]) simp
    have two: "?K ?d2 (hw_set_CR hw ?cmd ?d2)"
      by (rule cr_keeps [OF ok]) (simp add: ar_set [OF ok] B)
    show ?thesis by (rule tr [OF one tr [OF ar_keeps [OF ok] tr [OF two last]]])
  qed
qed

text \<open>The block loops store inside the block only.\<close>

lemma writel_all_keeps:
  assumes ok: "stm32_hw_ok m hw ar pend"
  shows "unat a + 4 * length ws < 2 ^ 32 \<Longrightarrow> span a (4 * length ws) \<inter> B = {} \<Longrightarrow>
    keeps (hw_memory hw) pend B d (writel_all hw a ws d)"
proof (induction ws arbitrary: a d)
  case (Cons w ws)
  have a4: "unat (a + 4) = unat a + 4" using unat_add_nat [of a 4] Cons.prems(1) by simp
  have "span a 4 \<subseteq> span a (4 * length (w # ws))" "span (a + 4) (4 * length ws) \<subseteq> span a (4 * length (w # ws))"
    by (rule span_mono; use a4 in simp)+
  with Cons.prems(2) have "span a 4 \<inter> B = {}" "span (a + 4) (4 * length ws) \<inter> B = {}" by blast+
  note first = writel_keeps [OF ok this(1)] and rest = Cons.IH [OF _ this(2)]
  show ?case
    using Cons.prems(1) a4 by (simp add: keeps_trans [OF first rest])
qed simp

lemma program_words_keeps:
  assumes ok: "stm32_hw_ok m hw ar pend"
    and wait: "\<And>d d' B. wait d = Some d' \<Longrightarrow> keeps (hw_memory hw) pend B d d'"
  shows "program_words k wait hw n a data d = Some d' \<Longrightarrow> unat a + 4 * n * k < 2 ^ 32 \<Longrightarrow>
    span a (4 * n * k) \<inter> B = {} \<Longrightarrow> keeps (hw_memory hw) pend B d d'"
proof (induction k arbitrary: a data d)
  case (Suc k)
  let ?e = "writel_all hw a (take n data) d"
  obtain e where e: "wait ?e = Some e" "program_words k wait hw n (a + 4 * of_nat n) (drop n data) e = Some d'"
    using Suc.prems(1) by (auto simp: bind_eq_Some_conv)
  have a4: "unat (a + 4 * of_nat n) = unat a + 4 * n"
    using unat_add_nat [of a "4 * n"] Suc.prems(2) by simp
  have "span a (4 * length (take n data)) \<subseteq> span a (4 * n * Suc k)"
      "span (a + 4 * of_nat n) (4 * n * k) \<subseteq> span a (4 * n * Suc k)"
    by (rule span_mono; use a4 in \<open>simp add: min_def\<close>)+
  with Suc.prems(3) have B: "span a (4 * length (take n data)) \<inter> B = {}"
      "span (a + 4 * of_nat n) (4 * n * k) \<inter> B = {}" by blast+
  have "keeps (hw_memory hw) pend B d ?e"
    using Suc.prems(2) by (intro writel_all_keeps [OF ok _ B(1)]) (auto simp: min_def)
  moreover have "keeps (hw_memory hw) pend B e d'"
    using Suc.prems(2) a4 by (intro Suc.IH [OF e(2) _ B(2)]) (simp add: algebra_simps)
  ultimately show ?case by (blast intro: keeps_trans wait [OF e(1)])
qed simp

lemma program_halfwords_keeps:
  assumes ok: "stm32_hw_ok m hw ar pend"
  shows "program_halfwords m hw a hs d = Some d' \<Longrightarrow> unat a + 2 * length hs < 2 ^ 32 \<Longrightarrow>
    span a (2 * length hs) \<inter> B = {} \<Longrightarrow> keeps (hw_memory hw) pend B d d'"
proof (induction hs arbitrary: a d)
  case (Cons h hs)
  obtain e where e: "wait_flash m hw (hw_writew hw a h d) = Some e" "program_halfwords m hw (a + 2) hs e = Some d'"
    using Cons.prems(1) by (auto simp: bind_eq_Some_conv)
  have a2: "unat (a + 2) = unat a + 2" using unat_add_nat [of a 2] Cons.prems(2) by simp
  have "span a 2 \<subseteq> span a (2 * length (h # hs))" "span (a + 2) (2 * length hs) \<subseteq> span a (2 * length (h # hs))"
    by (rule span_mono; use a2 in simp)+
  with Cons.prems(3) have B: "span a 2 \<inter> B = {}" "span (a + 2) (2 * length hs) \<inter> B = {}" by blast+
  have "keeps (hw_memory hw) pend B e d'"
    using Cons.prems(2) a2 by (intro Cons.IH [OF e(2) _ B(2)]) simp
  with writew_keeps [OF ok B(1)] wait_flash_keeps [OF ok e(1)] show ?case
    by (blast intro: keeps_trans)
qed simp

lemma length_halfwords [simp]: "length (halfwords ws) = 2 * length ws"
  by (induction ws) (simp_all add: halfwords_def)

lemma write_block_keeps:
  assumes ok: "stm32_hw_ok m hw ar pend" and w: "write_block m c hw a data d = Some d'"
    and size: "CONFIG_BLOCK_SIZE c = 64" "length data = 16" and a: "unat a + 64 < 2 ^ 32"
    and B: "span a 64 \<inter> B = {}"
  shows "keeps (hw_memory hw) pend B d d'"
proof -
  let ?qw = "\<lambda>d. do { d \<leftarrow> wait_sr hw FLASH_SR_QW d; wait_flash m hw d }"
  have qw: "keeps (hw_memory hw) pend B e e'" if "?qw e = Some e'" for e e' B
    using that by (auto simp: bind_eq_Some_conv intro: keeps_trans wait_sr_keeps [OF ok] wait_flash_keeps [OF ok])
  have set: "keeps (hw_memory hw) pend B d (hw_set_CR hw v d)"
    if "v \<in> {FLASH_CR_PG m, FLASH_CR_PSIZE_1 OR FLASH_CR_PG m}" for v
    using that by (intro cr_keeps [OF ok]) auto
  consider "m = STM32F2 \<or> m = STM32F4" | "m = STM32G0 \<or> m = STM32G4" | "m = STM32H7"
    | "m \<notin> {STM32F2, STM32F4, STM32G0, STM32G4, STM32H7}" by auto
  then show ?thesis
  proof cases
    case 1
    then have "program_words 16 (wait_flash m hw) hw 1 a data
        (hw_set_CR hw (FLASH_CR_PSIZE_1 OR FLASH_CR_PG m) d) = Some d'"
      using w size by (auto simp: write_block_def Let_def)
    from program_words_keeps [OF ok wait_flash_keeps [OF ok] this, of B] a B
    show ?thesis by (intro keeps_trans [OF set]) simp_all
  next
    case 2
    then have "program_words 8 (wait_flash m hw) hw 2 a data (hw_set_CR hw (FLASH_CR_PG m) d) = Some d'"
      using w size by (auto simp: write_block_def Let_def)
    from program_words_keeps [OF ok wait_flash_keeps [OF ok] this, of B] a B
    show ?thesis by (intro keeps_trans [OF set]) simp_all
  next
    case 3
    then obtain e where e: "program_words 2 ?qw hw 8 a data (hw_set_CR hw (FLASH_CR_PG m) d) = Some e"
        "d' = hw_invalidate_dcache hw a 64 e"
      using w size by (auto simp: write_block_def Let_def bind_eq_Some_conv)
    from program_words_keeps [OF ok qw e(1), of B] a B
    have "keeps (hw_memory hw) pend B (hw_set_CR hw (FLASH_CR_PG m) d) e" by simp
    from keeps_trans [OF set keeps_trans [OF this dcache_keeps [OF ok]]] e(2)
    show ?thesis by simp
  next
    case 4
    then have "program_halfwords m hw a (take 32 (halfwords data)) (hw_set_CR hw (FLASH_CR_PG m) d) = Some d'"
      using w size by (auto simp: write_block_def Let_def)
    from program_halfwords_keeps [OF ok this, of B] a B size
    show ?thesis by (intro keeps_trans [OF set]) simp_all
  qed
qed

section \<open>The page the driver erases\<close>

definition stm32_limit :: "stm32_mach \<Rightarrow> 'd stm32_flash_hw \<Rightarrow> nat" where
  "stm32_limit m hw =
     (if m \<in> {STM32F2, STM32F4, STM32H7} then 0x08100000
      else if m \<in> {STM32G0, STM32G4} then 0x08000000 + 1024 * min 512 (unat (hw_flash_size hw))
      else 0xffffffff)"

text \<open>The parts the driver is for: flash at its usual address, and no larger than the sector or
  page numbers of one bank (two on G0 and G4) reach.\<close>

definition stm32_supported :: "stm32_mach \<Rightarrow> config \<Rightarrow> 'd stm32_flash_hw \<Rightarrow> bool" where
  "stm32_supported m c hw \<longleftrightarrow> CONFIG_FLASH_START c = 0x08000000 \<and>
     unat (flash_end c) \<le> stm32_limit m hw"

lemma and_flag: "i < 32 \<Longrightarrow> (w :: u32) AND 2 ^ i = 0 \<longleftrightarrow> \<not> bit w i"
  by (rule and_exp_eq_0_iff_not_bit)

lemmas and_flags =
  and_flag [of 1, simplified] and_flag [of 2, simplified] and_flag [of 3, simplified]
  and_flag [of 6, simplified] and_flag [of 7, simplified] and_flag [of 16, simplified]

lemma page_size_power:
  obtains k where "flash_get_page_size m hw a = 2 ^ k" "10 \<le> k" "k \<le> 17"
proof -
  have "flash_get_page_size m hw a \<in> {2 ^ 10, 2 ^ 11, 2 ^ 14, 2 ^ 16, 2 ^ 17}"
    by (simp add: flash_get_page_size_def)
  then consider "flash_get_page_size m hw a = 2 ^ 10" | "flash_get_page_size m hw a = 2 ^ 11"
    | "flash_get_page_size m hw a = 2 ^ 14" | "flash_get_page_size m hw a = 2 ^ 16"
    | "flash_get_page_size m hw a = 2 ^ 17" by blast
  then show ?thesis by cases (erule that; simp)+
qed

lemma take_bit_field:
  assumes "j + k \<le> 32" and "unat x < 2 ^ k" and "take_bit k (drop_bit j lo) = 0"
  shows "take_bit k (drop_bit j (lo OR push_bit j x)) = (x :: u32)"
proof -
  have "take_bit k (drop_bit j (lo OR push_bit j x)) =
      take_bit k (drop_bit j lo) OR take_bit k (drop_bit j (push_bit j x))"
    by (rule bit_word_eqI) (auto simp: bit_simps)
  also have "take_bit k (drop_bit j (push_bit j x)) = take_bit k x"
    using assms(1) by (intro bit_word_eqI) (auto simp: bit_simps)
  also have "take_bit k x = x"
    using assms(2) by (simp add: word_unat_eq_iff unsigned_take_bit_eq take_bit_nat_eq_self)
  finally show ?thesis using assms(3) by simp
qed

lemma aligned_page_mod:
  "ALIGN_DOWN p (flash_get_page_size m hw p) = p \<Longrightarrow> unat p mod unat (flash_get_page_size m hw p) = 0"
proof -
  assume al: "ALIGN_DOWN p (flash_get_page_size m hw p) = p"
  obtain k where k: "flash_get_page_size m hw p = 2 ^ k" "10 \<le> k" "k \<le> 17"
    by (rule page_size_power)
  have "unat (2 ^ k :: u32) = 2 ^ k"
    using k by (intro unat_power_u32) simp
  then show ?thesis using aligned_mod [of p k] al k by simp
qed

text \<open>Sector or page \<open>i\<close> of size \<open>n\<close> counted from \<open>base\<close>.\<close>

lemma word_index:
  assumes "unat (base :: u32) + n * unat i = unat p"
  shows "base + i * of_nat n = p"
  using assms unat_add_nat [of base "n * unat i"] unat_u32_less [of p]
  by (simp add: word_unat_eq_iff mult.commute del: unat_u32_less)

lemma erase_command_span_sector:
  assumes m: "m = STM32F2 \<or> m = STM32F4"
    and p: "0x08000000 \<le> unat p" "unat p < 0x08100000"
    and al: "unat p mod unat (flash_get_page_size m hw p) = 0"
  shows "cr_erases m hw (erase_command m hw p) a = span p (unat (flash_get_page_size m hw p))"
proof -
  define s :: u32 where "s = (if p < 0x08010000 then (p - 0x08000000) div (16 * 1024)
                     else if p < 0x08020000 then 4 else 5 + (p - 0x08020000) div (128 * 1024))"
  have d: "unat (p - 0x08000000) = unat p - 0x08000000"
    using p by (simp add: unat_sub word_le_nat_alt)
  have d2: "unat (p - 0x08020000) = unat p - 0x08020000" if "\<not> p < 0x08020000"
    using that by (simp add: unat_sub word_le_nat_alt word_less_nat_alt)
  have us: "unat s = (if unat p < 0x08010000 then (unat p - 0x08000000) div 0x4000
      else if unat p < 0x08020000 then 4 else 5 + (unat p - 0x08020000) div 0x20000)"
    using p d d2 by (auto simp: s_def word_less_nat_alt unat_div unat_word_ariths not_less)
  then have s12: "unat s < 12" using p by auto
  then have "\<not> s > 0x0f" by (simp add: word_less_nat_alt)
  then have cmd: "erase_command m hw p = 0x10202 OR push_bit 3 s"
    using m by (auto simp: erase_command_def s_def [symmetric] FLASH_CR_STRT_def Let_def
        simp flip: or.assoc)
  have "take_bit 5 (drop_bit 3 (erase_command m hw p)) = s"
    unfolding cmd using s12 by (intro take_bit_field) auto
  moreover have "bit (erase_command m hw p) 16" "bit (erase_command m hw p) 1" "\<not> bit (erase_command m hw p) 2"
    unfolding cmd by (simp_all add: bit_simps)
  ultimately have "cr_erases m hw (erase_command m hw p) a = sector_span (unat s)"
    using m by (auto simp: cr_erases_def FLASH_CR_STRT_def and_flags)
  also have "\<dots> = span p (unat (flash_get_page_size m hw p))"
  proof -
    consider "unat p < 0x08010000" | "0x08010000 \<le> unat p" "unat p < 0x08020000" | "0x08020000 \<le> unat p"
      by linarith
    then show ?thesis
    proof cases
      case 1
      then have ps: "flash_get_page_size m hw p = 0x4000"
        using m by (auto simp: flash_get_page_size_def word_less_nat_alt)
      have "unat s < 4" using 1 us by auto
      moreover have "unat (0x08000000 :: u32) + 0x4000 * unat s = unat p"
        using 1 us p al ps aligned_index [of "0x08000000" "unat p" "0x4000"] by simp
      then have "0x08000000 + s * of_nat 0x4000 = p" by (rule word_index)
      ultimately show ?thesis by (simp add: sector_span_def ps)
    next
      case 2
      then have ps: "flash_get_page_size m hw p = 0x10000"
        using m by (auto simp: flash_get_page_size_def word_less_nat_alt)
      have "unat s = 4" using 2 us by simp
      moreover have "p = 0x08010000"
        using 2 al ps aligned_index [of "0x08010000" "unat p" "0x10000"] by (simp add: word_unat_eq_iff)
      ultimately show ?thesis unfolding ps by (simp add: sector_span_def)
    next
      case 3
      then have ps: "flash_get_page_size m hw p = 0x20000"
        using m by (auto simp: flash_get_page_size_def word_less_nat_alt)
      have s: "unat s = 5 + (unat p - 0x08020000) div 0x20000" using 3 us by simp
      have s5: "unat (s - 5) = unat s - 5" using s by (simp add: unat_sub word_le_nat_alt)
      have "unat (0x08020000 :: u32) + 0x20000 * unat (s - 5) = unat p"
        using 3 al ps aligned_index [of "0x08020000" "unat p" "0x20000"] by (simp add: s s5)
      then have "0x08020000 + (s - 5) * of_nat 0x20000 = p" by (rule word_index)
      moreover have "of_nat (unat s - 5) = s - 5" by (simp flip: s5)
      ultimately show ?thesis using s s12 by (simp add: sector_span_def ps)
    qed
  qed
  finally show ?thesis .
qed

lemma erase_command_span_page_number:
  assumes m: "m = STM32G0 \<or> m = STM32G4"
    and p: "0x08000000 \<le> unat p" "unat p < 0x08000000 + 1024 * min 512 (unat (hw_flash_size hw))"
    and al: "unat p mod 2048 = 0"
  shows "cr_erases m hw (erase_command m hw p) a = span p 0x800"
proof -
  define i :: u32 where "i = (p - 0x08000000) div 0x800"
  define n :: u32 where "n = (if i \<ge> 64 then
      (if hw_flash_size hw \<le> 256 then i + 256 - 64 else if i < 128 then i else i + 256 - 128) else i)"
  have "unat (p - 0x08000000) = unat p - 0x08000000"
    using p by (simp add: unat_sub word_le_nat_alt)
  then have ui: "unat i = (unat p - 0x08000000) div 0x800" by (simp add: i_def unat_div)
  then have i256: "unat i < 256" and i128: "hw_flash_size hw \<le> 256 \<Longrightarrow> unat i < 128"
    using p by (auto simp: word_le_nat_alt)
  have idx: "unat (0x08000000 :: u32) + 0x800 * unat i = unat p"
    using p al aligned_index [of "0x08000000" "unat p" "0x800"] by (simp add: ui)
  then have ip: "0x08000000 + i * of_nat 0x800 = p" by (rule word_index)
  have un: "unat n = (if unat i \<ge> 64 then
      (if hw_flash_size hw \<le> 256 then unat i + 192 else if unat i < 128 then unat i else unat i + 128) else unat i)"
  proof -
    have "i + 256 - 64 = i + of_nat 192" "i + 256 - 128 = i + of_nat 128" by simp_all
    moreover have "unat (i + of_nat 192) = unat i + 192" "unat (i + of_nat 128) = unat i + 128"
      using i256 by (intro unat_add_nat; simp)+
    ultimately show ?thesis by (simp add: n_def word_le_nat_alt word_less_nat_alt add.commute [of i])
  qed
  then have n1024: "unat n < 1024" using i256 by auto
  then have "\<not> n > 0x3ff" by (simp add: word_less_nat_alt)
  then have cmd: "erase_command m hw p = 0x10002 OR push_bit 3 n"
    using m by (auto simp: erase_command_def i_def [symmetric] n_def [symmetric] FLASH_CR_STRT_def Let_def
        simp flip: or.assoc)
  have "take_bit 10 (drop_bit 3 (erase_command m hw p)) = n"
    unfolding cmd using n1024 by (intro take_bit_field) auto
  moreover have "bit (erase_command m hw p) 16" "bit (erase_command m hw p) 1" "\<not> bit (erase_command m hw p) 2"
    unfolding cmd by (simp_all add: bit_simps)
  ultimately have "cr_erases m hw (erase_command m hw p) a = page_number_span (hw_flash_size hw) (unat n)"
    using m by (auto simp: cr_erases_def FLASH_CR_STRT_def and_flags)
  also have "\<dots> = span p 0x800"
  proof (cases "unat n < 256")
    case True
    then have "unat n = unat i" using un i256 by (auto split: if_splits)
    then have "n = i" by (simp add: word_unat_eq_iff)
    with True ip show ?thesis by (simp add: page_number_span_def)
  next
    case False
    let ?b = "if hw_flash_size hw \<le> 256 then 64 else 128 :: nat"
    have "unat n - 256 = unat i - ?b" and ib: "?b \<le> unat i"
      using False un i128 i256 by (auto split: if_splits)
    then have nb: "of_nat (unat n - 256) = i - of_nat ?b" by simp
    have "0x08000000 + (if hw_flash_size hw \<le> 256 then 0x20000 else 0x40000) + (i - of_nat ?b) * 0x800 = p"
      using ip by (auto simp: algebra_simps)
    with False nb show ?thesis by (simp add: page_number_span_def)
  qed
  finally show ?thesis .
qed

lemma erase_command_span_h7:
  assumes m: "m = STM32H7" and p: "0x08000000 \<le> unat p" "unat p < 0x08100000"
    and al: "unat p mod 0x20000 = 0"
  shows "cr_erases m hw (erase_command m hw p) a = span p 0x20000"
proof -
  define s :: u32 where "s = (p - 0x08000000) div 0x20000"
  have "unat (p - 0x08000000) = unat p - 0x08000000"
    using p by (simp add: unat_sub word_le_nat_alt)
  then have us: "unat s = (unat p - 0x08000000) div 0x20000" by (simp add: s_def unat_div)
  then have s8: "unat s < 8" using p by auto
  then have "\<not> s > 7" by (simp add: word_less_nat_alt)
  then have cmd: "erase_command m hw p = 0x84 OR push_bit 8 s"
    using m by (simp add: erase_command_def s_def [symmetric] FLASH_CR_STRT_def Let_def
        flip: or.assoc)
  have "unat (0x08000000 :: u32) + 0x20000 * unat s = unat p"
    using p al aligned_index [of "0x08000000" "unat p" "0x20000"] by (simp add: us)
  then have sp: "0x08000000 + s * of_nat 0x20000 = p" by (rule word_index)
  have "take_bit 3 (drop_bit 8 (erase_command m hw p)) = s"
    unfolding cmd using s8 by (intro take_bit_field) auto
  moreover have "bit (erase_command m hw p) 7" "bit (erase_command m hw p) 2" "\<not> bit (erase_command m hw p) 3"
    unfolding cmd by (simp_all add: bit_simps)
  ultimately show ?thesis
    using m sp by (auto simp: cr_erases_def FLASH_CR_STRT_def and_flags)
qed

lemma erase_command_span:
  assumes sup: "stm32_supported m c hw"
    and p: "0x08000000 \<le> unat p" "unat p < unat (flash_end c)"
    and al: "ALIGN_DOWN p (flash_get_page_size m hw p) = p"
    and a: "m \<in> {STM32F2, STM32F4, STM32G0, STM32G4, STM32H7} \<or> a = p"
  shows "cr_erases m hw (erase_command m hw p) a = span p (unat (flash_get_page_size m hw p))"
proof -
  have lim: "unat p < stm32_limit m hw" using sup p(2) unfolding stm32_supported_def by linarith
  note mod = aligned_page_mod [OF al]
  consider "m = STM32F2 \<or> m = STM32F4" | "m = STM32G0 \<or> m = STM32G4" | "m = STM32H7"
    | "m \<notin> {STM32F2, STM32F4, STM32G0, STM32G4, STM32H7}" by auto
  then show ?thesis
  proof cases
    case 1
    with lim p mod show ?thesis
      by (intro erase_command_span_sector) (auto simp: stm32_limit_def)
  next
    case 2
    then have "flash_get_page_size m hw p = 0x800" by (auto simp: flash_get_page_size_def)
    with 2 lim p mod show ?thesis
      by (auto simp: erase_command_span_page_number stm32_limit_def)
  next
    case 3
    then have "flash_get_page_size m hw p = 0x20000" by (auto simp: flash_get_page_size_def)
    with 3 lim p mod show ?thesis
      by (simp add: erase_command_span_h7 stm32_limit_def)
  next
    case 4
    then have "erase_command m hw p = 0x42"
      by (cases m) (auto simp: erase_command_def FLASH_CR_STRT_def)
    with 4 a al show ?thesis
      by (cases m) (auto simp: cr_erases_def FLASH_CR_STRT_def Let_def)
  qed
qed

section \<open>The whole call\<close>

lemma stm32_program_keeps:
  assumes ok: "stm32_hw_ok m hw ar pend"
    and run: "stm32_program m c hw a p data ne d = Some (r, d')"
    and size: "CONFIG_BLOCK_SIZE c = 64" "length data = 16" and a: "unat a + 64 < 2 ^ 32"
    and B: "span a 64 \<inter> B = {}"
    and er: "\<And>x. ne \<Longrightarrow> m \<in> {STM32F2, STM32F4, STM32G0, STM32G4, STM32H7} \<or> x = p \<Longrightarrow>
      cr_erases m hw (erase_command m hw p) x \<inter> B = {}"
  shows "keeps (hw_memory hw) pend B d d'"
    and "r = 0 \<or> r = -3" and "r = 0 \<Longrightarrow> mem_read (hw_memory hw d') a 64 = bytes_of_words data"
proof -
  obtain d1 d2 d3 where d1: "unlock_flash m hw d = Some d1"
    and d2: "(if ne then do { d \<leftarrow> erase_page m hw p d1;
            (if m = STM32H7 then unlock_flash m hw (lock_flash m hw d) else Some d) } else Some d1) = Some d2"
    and d3: "write_block m c hw a data d2 = Some d3"
    and fin: "d' = lock_flash m hw d3"
      "r = (if bytes_of_words data \<noteq> mem_read (hw_memory hw d') a (unat (CONFIG_BLOCK_SIZE c)) then -3 else 0)"
    using run unfolding stm32_program_def Let_def bind_eq_Some_conv
    by (elim exE conjE) (rule that, assumption+, auto)
  have "keeps (hw_memory hw) pend B d1 d2"
  proof (cases ne)
    case True
    then obtain e where e: "erase_page m hw p d1 = Some e"
        "(if m = STM32H7 then unlock_flash m hw (lock_flash m hw e) else Some e) = Some d2"
      using d2 by (auto simp: bind_eq_Some_conv)
    have "keeps (hw_memory hw) pend B e d2"
      using e(2) unlock_flash_keeps [OF ok, of _ d2 B] lock_flash_keeps [OF ok, of B e]
      by (auto intro: keeps_trans split: if_splits)
    with erase_page_keeps [OF ok e(1), of B] er [OF True] show ?thesis
      by (blast intro: keeps_trans)
  next
    case False
    with d2 show ?thesis by simp
  qed
  from keeps_trans [OF unlock_flash_keeps [OF ok d1] keeps_trans [OF this
      keeps_trans [OF write_block_keeps [OF ok d3 size a B] lock_flash_keeps [OF ok]]]]
  show "keeps (hw_memory hw) pend B d d'" by (simp add: fin)
  show "r = 0 \<or> r = -3" and "r = 0 \<Longrightarrow> mem_read (hw_memory hw d') a 64 = bytes_of_words data"
    using fin size by (auto split: if_splits)
qed

text \<open>Every call ends with the hardware idle.\<close>

lemma program_words_idle:
  "(\<And>d d'. wait d = Some d' \<Longrightarrow> pend d' = {}) \<Longrightarrow> program_words k wait hw n a data d = Some d' \<Longrightarrow>
   pend d = {} \<Longrightarrow> pend d' = {}"
  by (induction k arbitrary: a data d) (auto simp: bind_eq_Some_conv)

lemma program_halfwords_idle:
  "stm32_hw_ok m hw ar pend \<Longrightarrow> program_halfwords m hw a hs d = Some d' \<Longrightarrow>
   pend d = {} \<Longrightarrow> pend d' = {}"
proof (induction hs arbitrary: a d)
  case (Cons h hs)
  then obtain e where e: "wait_flash m hw (hw_writew hw a h d) = Some e" "program_halfwords m hw (a + 2) hs e = Some d'"
    by (auto simp: bind_eq_Some_conv)
  from Cons.IH [OF Cons.prems(1) e(2) wait_flash_idle [OF Cons.prems(1) e(1)]] show ?case .
qed simp

lemma write_block_idle:
  assumes ok: "stm32_hw_ok m hw ar pend" and w: "write_block m c hw a data d = Some d'" and d: "pend d = {}"
  shows "pend d' = {}"
proof -
  let ?qw = "\<lambda>d. do { d \<leftarrow> wait_sr hw FLASH_SR_QW d; wait_flash m hw d }"
  let ?size = "unat (CONFIG_BLOCK_SIZE c)"
  have set: "pend (hw_set_CR hw v d) = {}" if "v \<in> {FLASH_CR_PG m, FLASH_CR_PSIZE_1 OR FLASH_CR_PG m}" for v
    using that d by (intro keeps_idle [OF cr_keeps [OF ok]]) auto
  have qw: "pend e' = {}" if "?qw e = Some e'" for e e'
    using that by (auto simp only: bind_eq_Some_conv dest: wait_flash_idle [OF ok])
  consider (words) k n v where "program_words k (wait_flash m hw) hw n a data (hw_set_CR hw v d) = Some d'"
      "v \<in> {FLASH_CR_PG m, FLASH_CR_PSIZE_1 OR FLASH_CR_PG m}"
    | (h7) e where "program_words (?size div 32) ?qw hw 8 a data (hw_set_CR hw (FLASH_CR_PG m) d) = Some e"
      "d' = hw_invalidate_dcache hw a ?size e"
    | (halves) hs where "program_halfwords m hw a hs (hw_set_CR hw (FLASH_CR_PG m) d) = Some d'"
    using w by (cases m) (auto simp: write_block_def Let_def bind_eq_Some_conv)
  then show ?thesis
  proof cases
    case words
    show ?thesis
      by (rule program_words_idle [where pend = pend, OF wait_flash_idle [OF ok] words(1) set [OF words(2)]])
  next
    case h7
    have "pend e = {}" by (rule program_words_idle [where pend = pend, OF qw h7(1) set]) simp_all
    then show ?thesis unfolding h7(2) by (rule keeps_idle [OF dcache_keeps [OF ok]])
  next
    case halves
    show ?thesis by (rule program_halfwords_idle [OF ok halves set]) simp
  qed
qed

lemma stm32_program_idle:
  assumes ok: "stm32_hw_ok m hw ar pend" and run: "stm32_program m c hw a p data ne d = Some (r, d')"
  shows "pend d' = {}"
proof -
  obtain d1 d2 d3 where d1: "unlock_flash m hw d = Some d1"
    and d2: "(if ne then do { d \<leftarrow> erase_page m hw p d1;
            (if m = STM32H7 then unlock_flash m hw (lock_flash m hw d) else Some d) } else Some d1) = Some d2"
    and d3: "write_block m c hw a data d2 = Some d3" and fin: "d' = lock_flash m hw d3"
    using run unfolding stm32_program_def Let_def bind_eq_Some_conv
    by (elim exE conjE) (rule that, assumption+, auto)
  have er: "pend e = {}" if "erase_page m hw p d1 = Some e" for e
  proof -
    have "\<exists>x. wait_flash m hw x = Some e"
      using that by (auto simp: erase_page_def Let_def bind_eq_Some_conv split: if_splits)
    then show ?thesis using wait_flash_idle [OF ok] by blast
  qed
  have un: "pend e = {}" if "unlock_flash m hw x = Some e" for x e
    using that by (rule unlock_flash_idle [OF ok])
  have "pend d2 = {}"
    using d2 er unlock_flash_idle [OF ok d1] un by (cases ne) (auto simp only: bind_eq_Some_conv if_True if_False option.inject split: if_splits)
  from write_block_idle [OF ok d3 this] show ?thesis
    unfolding fin by (rule keeps_idle [OF lock_flash_keeps [OF ok]])
qed

section \<open>\<open>flash_write_block\<close>\<close>

lemma stm32_write_cases:
  assumes "stm32_flash_write_block m c hw a data f = Some (r, f')"
  obtains (refused) "f' = f" "r = -1 \<or> r = -2"
    | (present) "f' = f" "r = 0" "mem_read (hw_memory hw (fl_dev f)) a (unat (CONFIG_BLOCK_SIZE c)) = bytes_of_words data"
    | (programmed) ne where "stm32_program m c hw a (ALIGN_DOWN a (flash_get_page_size m hw a)) data ne (fl_dev f)
        = Some (r, fl_dev f')" "ne \<Longrightarrow> ALIGN_DOWN a (flash_get_page_size m hw a) = a"
  using assms unfolding stm32_flash_write_block_def Let_def
  by (auto simp: bind_eq_Some_conv split: if_splits prod.splits)

definition stm32_inv :: "stm32_mach \<Rightarrow> config \<Rightarrow> 'd stm32_flash_hw \<Rightarrow> ('d \<Rightarrow> u32) \<Rightarrow> ('d \<Rightarrow> u32 set) \<Rightarrow>
    'd stm32_flash \<Rightarrow> bool" where
  "stm32_inv m c hw ar pend f \<longleftrightarrow> stm32_hw_ok m hw ar pend \<and> config_ok c \<and>
     stm32_supported m c hw \<and> pend (fl_dev f) = {}"

text \<open>The addresses a call may touch: the block, or the whole page when the block starts one.\<close>

definition stm32_touched :: "stm32_mach \<Rightarrow> 'd stm32_flash_hw \<Rightarrow> u32 \<Rightarrow> u32 set" where
  "stm32_touched m hw a =
     (let size = flash_get_page_size m hw a
      in span a (if ALIGN_DOWN a size = a then unat size else 64))"

lemma span_64_touched: "span a 64 \<subseteq> stm32_touched m hw a"
proof -
  obtain k where k: "flash_get_page_size m hw a = 2 ^ k" "10 \<le> k" "k \<le> 17" by (rule page_size_power)
  have "64 \<le> (2 :: nat) ^ k" using power_increasing [OF k(2), of "2 :: nat"] by simp
  then have "64 \<le> unat (flash_get_page_size m hw a)" using k by (simp add: unat_power_u32)
  then show ?thesis by (auto simp: stm32_touched_def Let_def span_def)
qed

lemma touched_above: "x < a \<Longrightarrow> x \<notin> stm32_touched m hw a"
  by (simp add: stm32_touched_def Let_def span_def word_less_nat_alt)

lemma stm32_write_keeps:
  assumes inv: "stm32_inv m c hw ar pend f" and a: "in_app_area c a" and len: "length data = 16"
    and w: "stm32_flash_write_block m c hw a data f = Some (r, f')"
    and B: "stm32_touched m hw a \<inter> B = {}"
  shows "stm32_inv m c hw ar pend f'"
    and "keeps (hw_memory hw) pend B (fl_dev f) (fl_dev f')"
    and "0 \<le> r \<Longrightarrow> holds_at (hw_memory hw (fl_dev f')) a (bytes_of_words data)"
proof -
  have ok: "stm32_hw_ok m hw ar pend" and cok: "config_ok c" and sup: "stm32_supported m c hw"
    and idle: "pend (fl_dev f) = {}"
    using inv by (simp_all add: stm32_inv_def)
  have a64: "unat a + 64 < 2 ^ 32" and aflash: "0x08000000 \<le> unat a" "unat a < unat (flash_end c)"
    using a cok sup config_ok_flash_end [OF cok]
    by (auto simp: in_app_area_def config_ok_def stm32_supported_def word_le_nat_alt)
  have disj: "span a 64 \<inter> B = {}" using B span_64_touched [of a m hw] by blast
  let ?p = "ALIGN_DOWN a (flash_get_page_size m hw a)"
  have er: "cr_erases m hw (erase_command m hw ?p) x \<inter> B = {}"
    if "?p = a" "m \<in> {STM32F2, STM32F4, STM32G0, STM32G4, STM32H7} \<or> x = ?p" for x
    using erase_command_span [OF sup aflash that(1)] that B by (auto simp: stm32_touched_def)
  from w show "stm32_inv m c hw ar pend f'" "keeps (hw_memory hw) pend B (fl_dev f) (fl_dev f')"
    "0 \<le> r \<Longrightarrow> holds_at (hw_memory hw (fl_dev f')) a (bytes_of_words data)"
  proof (atomize (full), cases rule: stm32_write_cases)
    case refused
    then show "stm32_inv m c hw ar pend f' \<and> keeps (hw_memory hw) pend B (fl_dev f) (fl_dev f') \<and>
        (0 \<le> r \<longrightarrow> holds_at (hw_memory hw (fl_dev f')) a (bytes_of_words data))"
      using inv by auto
  next
    case present
    then show "stm32_inv m c hw ar pend f' \<and> keeps (hw_memory hw) pend B (fl_dev f) (fl_dev f') \<and>
        (0 \<le> r \<longrightarrow> holds_at (hw_memory hw (fl_dev f')) a (bytes_of_words data))"
      using inv cok len by (simp add: holds_at_def)
  next
    case (programmed ne)
    note prog = stm32_program_keeps [OF ok programmed(1) config_ok_block_size [OF cok] len a64 disj]
    have er': "cr_erases m hw (erase_command m hw ?p) x \<inter> B = {}"
      if "ne" "m \<in> {STM32F2, STM32F4, STM32G0, STM32G4, STM32H7} \<or> x = ?p" for x
      using er [OF programmed(2) [OF that(1)] that(2)] .
    have "keeps (hw_memory hw) pend B (fl_dev f) (fl_dev f')" by (rule prog(1) [OF er'])
    moreover have "0 \<le> r \<longrightarrow> holds_at (hw_memory hw (fl_dev f')) a (bytes_of_words data)"
      using prog(2) [OF er'] prog(3) [OF er'] len by (auto simp: holds_at_def)
    moreover have "stm32_inv m c hw ar pend f'"
      using inv stm32_program_idle [OF ok programmed(1)] by (simp add: stm32_inv_def)
    ultimately show "stm32_inv m c hw ar pend f' \<and> keeps (hw_memory hw) pend B (fl_dev f) (fl_dev f') \<and>
        (0 \<le> r \<longrightarrow> holds_at (hw_memory hw (fl_dev f')) a (bytes_of_words data))"
      by blast
  qed
qed

text \<open>What follows on an idle device: everything the call may not touch is unchanged.\<close>

lemma stm32_write_same:
  assumes inv: "stm32_inv m c hw ar pend f" and a: "in_app_area c a" and len: "length data = 16"
    and w: "stm32_flash_write_block m c hw a data f = Some (r, f')" and x: "x \<notin> stm32_touched m hw a"
  shows "hw_memory hw (fl_dev f') x = hw_memory hw (fl_dev f) x"
proof -
  have "keeps (hw_memory hw) pend {x} (fl_dev f) (fl_dev f')"
    by (rule stm32_write_keeps(2) [OF inv a len w]) (use x in simp)
  then show ?thesis using inv by (simp add: keeps_def stm32_inv_def)
qed

lemma stm32_api_simps [simp]:
  "flash_write_block (stm32_flash_api m c hw) = stm32_flash_write_block m c hw"
  "flash_complete (stm32_flash_api m c hw) f = Some (sint (fl_page_write_count f), f)"
  "flash_memory (stm32_flash_api m c hw) f = hw_memory hw (fl_dev f)"
  by (simp_all add: stm32_flash_api_def stm32_flash_complete_def)

lemma stm32_write_below:
  assumes "stm32_inv m c hw ar pend f" and "in_app_area c a" and "length data = 16"
    and "stm32_flash_write_block m c hw a data f = Some (r, f')"
  shows "same_below a (hw_memory hw (fl_dev f)) (hw_memory hw (fl_dev f'))"
  using stm32_write_same [OF assms] by (simp add: same_below_def touched_above)

interpretation stm32: flash_progress "stm32_flash_api m c hw" c "stm32_inv m c hw ar pend"
    "\<lambda>f stored. holds_at (hw_memory hw (fl_dev f)) (CONFIG_LAUNCH_APP_ADDRESS c) stored"
  for m c and hw :: "'d stm32_flash_hw" and ar pend
proof
  fix f f' :: "'d stm32_flash" and a data r
  assume inv: "stm32_inv m c hw ar pend f" and area: "in_app_area c a" and len: "length data = 16"
    and w: "flash_write_block (stm32_flash_api m c hw) a data f = Some (r, f')"
  show "stm32_inv m c hw ar pend f'"
    using stm32_write_keeps(1) [OF inv area len, of r f' "{}"] w by simp
  have "same_below a (hw_memory hw (fl_dev f)) (hw_memory hw (fl_dev f'))"
    using stm32_write_below [OF inv area len] w by simp
  moreover have "CONFIG_LAUNCH_APP_ADDRESS c \<le> a" using area by (simp add: in_app_area_def word_le_nat_alt)
  ultimately show "same_below (CONFIG_LAUNCH_APP_ADDRESS c) (flash_memory (stm32_flash_api m c hw) f)
      (flash_memory (stm32_flash_api m c hw) f')"
    by (simp add: same_below_mono)
next
  fix f f' :: "'d stm32_flash" and r
  assume "stm32_inv m c hw ar pend f" "flash_complete (stm32_flash_api m c hw) f = Some (r, f')"
  then show "stm32_inv m c hw ar pend f'"
    "same_below (CONFIG_LAUNCH_APP_ADDRESS c) (flash_memory (stm32_flash_api m c hw) f)
      (flash_memory (stm32_flash_api m c hw) f')" by simp_all
next
  fix f :: "'d stm32_flash"
  show "holds_at (hw_memory hw (fl_dev f)) (CONFIG_LAUNCH_APP_ADDRESS c) []" by (simp add: holds_at_def)
next
  fix f f' :: "'d stm32_flash" and stored :: "u8 list" and data a r
  let ?l = "CONFIG_LAUNCH_APP_ADDRESS c"
  assume inv: "stm32_inv m c hw ar pend f" and al: "length stored mod 64 = 0" and len: "length data = 16"
    and a: "a = ?l + of_nat (length stored)"
    and room: "unat ?l + length stored + 64 \<le> unat (flash_end c)"
    and w: "flash_write_block (stm32_flash_api m c hw) a data f = Some (r, f')" and r: "0 \<le> r"
  have ua: "unat a = unat ?l + length stored"
    using room unat_u32_less [of "flash_end c"] unfolding a
    by (intro unat_add_nat) (simp del: unat_u32_less)
  then have area: "in_app_area c a" using room by (simp add: in_app_area_def)
  have new: "holds_at (hw_memory hw (fl_dev f')) a (bytes_of_words data)"
    using stm32_write_keeps(3) [OF inv area len, of r f' "{}"] w r by simp
  have "same_below a (hw_memory hw (fl_dev f)) (hw_memory hw (fl_dev f'))"
    using stm32_write_below [OF inv area len] w by simp
  note old = holds_at_same_below [OF _ this, of ?l stored]
  show "holds_at (hw_memory hw (fl_dev f')) ?l (stored @ bytes_of_words data)"
    if "holds_at (hw_memory hw (fl_dev f)) ?l stored"
    using old that ua new a by (simp add: holds_at_append)
  show "holds_at (hw_memory hw (fl_dev f')) ?l (stored @ bytes_of_words data)"
    if "holds_at (hw_memory hw (fl_dev f)) ?l (stored @ bytes_of_words data)"
    using old that ua new a by (simp add: holds_at_append)
qed (simp_all add: holds_at_def)

end
