(* ===== verification/FlashStm32Part.thy ===== *)
theory FlashStm32Part
  imports FlashStm32
begin

text \<open>
  A working part: an STM32F103 of 64 KiB (the board of \<open>configs/steinzeit.config\<close>) whose
  operations end at once. Programming can only clear bits, as in real flash. It meets
  \<open>stm32_hw_ok\<close>, so the hypotheses of the driver's properties can hold, and on it an upload onto
  erased pages is acknowledged to the end.
\<close>

record f103 =
  part_memory :: memory
  part_CR :: u32
  part_AR :: u32

definition f103_hw :: "f103 stm32_flash_hw" where
  "f103_hw = \<lparr>
     hw_memory = part_memory,
     hw_CR = part_CR,
     hw_SR = (\<lambda>d. (0, d)),
     hw_set_CR = (\<lambda>v d. d\<lparr>part_CR := v, part_memory := (\<lambda>x.
        if v AND 0x40 \<noteq> 0 \<and> (v AND 4 \<noteq> 0 \<or> v AND 2 \<noteq> 0 \<and>
             unat (ALIGN_DOWN (part_AR d) 1024) \<le> unat x \<and> unat x < unat (ALIGN_DOWN (part_AR d) 1024) + 1024)
        then 0xff else part_memory d x)\<rparr>),
     hw_set_KEYR = (\<lambda>v d. d\<lparr>part_CR := 0\<rparr>),
     hw_set_AR = (\<lambda>v d. d\<lparr>part_AR := v\<rparr>),
     hw_writew = (\<lambda>a h d. if unat a + 2 < 2 ^ 32 then
        d\<lparr>part_memory := program_bytes (part_memory d) a (bytes_of_u16 h)\<rparr> else d),
     hw_writel = (\<lambda>a w d. if unat a + 4 < 2 ^ 32 then
        d\<lparr>part_memory := program_bytes (part_memory d) a (bytes_of_u32 w)\<rparr> else d),
     hw_invalidate_dcache = (\<lambda>a n d. d),
     hw_flash_size = 64 \<rparr>"

lemma keeps_no_pending: "keeps mem (\<lambda>_. {}) B d d' \<longleftrightarrow> (\<forall>x \<in> B. mem d' x = mem d x)"
  by (simp add: keeps_def)

lemma f103_hw_ok: "stm32_hw_ok STM32F103 f103_hw part_AR (\<lambda>_. {})"
  unfolding stm32_hw_ok_def keeps_no_pending
proof (intro conjI allI impI)
  fix B :: "u32 set" and d :: f103 and v
  assume "cr_erases STM32F103 f103_hw v (part_AR d) \<inter> B = {}"
  then show "\<forall>x\<in>B. hw_memory f103_hw (hw_set_CR f103_hw v d) x = hw_memory f103_hw d x"
    by (auto simp: f103_hw_def cr_erases_def FLASH_CR_STRT_def flash_get_page_size_def span_def
        disjoint_iff split: if_splits)
next
  fix B :: "u32 set" and d :: f103 and a h
  assume "span a 2 \<inter> B = {}"
  then show "\<forall>x\<in>B. hw_memory f103_hw (hw_writew f103_hw a h d) x = hw_memory f103_hw d x"
    by (auto simp: f103_hw_def disjoint_iff intro!: program_bytes_outside)
next
  fix B :: "u32 set" and d :: f103 and a w
  assume "span a 4 \<inter> B = {}"
  then show "\<forall>x\<in>B. hw_memory f103_hw (hw_writel f103_hw a w d) x = hw_memory f103_hw d x"
    by (auto simp: f103_hw_def disjoint_iff intro!: program_bytes_outside)
qed (simp_all add: f103_hw_def)

lemma stm32_supported_steinzeit [simp]: "stm32_supported STM32F103 steinzeit f103_hw"
  by (simp add: stm32_supported_def steinzeit_def stm32_limit_def)

lemma f103_inv [simp]: "stm32_inv STM32F103 steinzeit f103_hw part_AR (\<lambda>_. {}) f"
  by (simp add: stm32_inv_def f103_hw_ok)

section \<open>An upload onto erased pages\<close>

lemma hw_SR_f103 [simp]: "hw_SR f103_hw d = (0, d)"
  by (simp add: f103_hw_def)

lemma wait_f103 [simp]: "wait_flash m f103_hw d = Some d"
  by (simp add: wait_flash_def wait_sr.simps [of f103_hw])

definition bytes_of_halves :: "u16 list \<Rightarrow> u8 list" where
  "bytes_of_halves hs = concat (map bytes_of_u16 hs)"

lemma bytes_of_halves_simps [simp]:
  "bytes_of_halves [] = []" "bytes_of_halves (h # hs) = bytes_of_u16 h @ bytes_of_halves hs"
  by (simp_all add: bytes_of_halves_def)

lemma bytes_of_halfwords [simp]: "bytes_of_halves (halfwords ws) = bytes_of_words ws"
proof (induction ws)
  case (Cons w ws)
  have "bytes_of_u16 (ucast w) @ bytes_of_u16 (ucast (drop_bit 16 w)) = bytes_of_u32 w"
    by (simp add: bytes_of_u16_def bytes_of_u32_def)
       (intro conjI; rule byte_eqI; simp add: bit_simps)
  with Cons show ?case
    by (simp add: halfwords_def)
qed (simp add: halfwords_def)

lemma length_bytes_of_halves [simp]: "length (bytes_of_halves hs) = 2 * length hs"
  by (induction hs) simp_all

lemma program_halfwords_f103:
  "unat a + 2 * length hs < 2 ^ 32 \<Longrightarrow> erased_from (part_memory d) a (2 * length hs) \<Longrightarrow>
   program_halfwords m f103_hw a hs d =
     Some (d\<lparr>part_memory := mem_write (part_memory d) a (bytes_of_halves hs)\<rparr>)"
proof (induction hs arbitrary: a d)
  case Nil
  then show ?case by (simp add: mem_write_def)
next
  case (Cons h hs)
  have a2: "unat (a + 2) = unat a + 2" using unat_add_nat [of a 2] Cons.prems(1) by simp
  let ?d = "d\<lparr>part_memory := mem_write (part_memory d) a (bytes_of_u16 h)\<rparr>"
  have "program_bytes (part_memory d) a (bytes_of_u16 h) = mem_write (part_memory d) a (bytes_of_u16 h)"
  proof
    fix x
    show "program_bytes (part_memory d) a (bytes_of_u16 h) x = mem_write (part_memory d) a (bytes_of_u16 h) x"
    proof (cases "unat (x - a) < 2")
      case True
      then have "x \<in> span a (2 * length (h # hs))" using Cons.prems(1)
        by (auto simp: span_def unat_sub_if' split: if_splits)
      then have "part_memory d x = 0xff" using Cons.prems(2) by (simp add: erased_from_def)
      then show ?thesis by (simp add: program_bytes_def mem_write_def)
    qed (simp add: program_bytes_def mem_write_def)
  qed
  then have step: "hw_writew f103_hw a h d = ?d"
    using Cons.prems(1) by (simp add: f103_hw_def)
  have "erased_from (part_memory ?d) (a + 2) (2 * length hs)"
    using Cons.prems a2 by (auto simp: erased_from_def span_def mem_write_def unat_sub_if')
  then have "program_halfwords m f103_hw (a + 2) hs ?d =
      Some (?d\<lparr>part_memory := mem_write (part_memory ?d) (a + 2) (bytes_of_halves hs)\<rparr>)"
    using Cons.prems(1) a2 by (intro Cons.IH) simp_all
  moreover have "mem_write (mem_write (part_memory d) a (bytes_of_u16 h)) (a + 2) (bytes_of_halves hs) =
      mem_write (part_memory d) a (bytes_of_halves (h # hs))"
    using mem_write_append [of "bytes_of_u16 h" "bytes_of_halves hs" "part_memory d" a] Cons.prems(1)
    by simp
  ultimately show ?case by (simp add: step)
qed

lemma check_erased_all:
  assumes "erased_from mem a n" and "unat count \<le> n" and "unat a + n < 2 ^ 32" and "4 \<le> n"
  shows "check_erased mem a count"
proof -
  have "mem_u32 mem (a + of_nat (4 * i)) = 0xffffffff" if "i < div_round_up (unat count div 4) 4" for i
  proof -
    have "4 * i + 3 < n"
      using that assms(2,4) unfolding div_round_up_def by linarith
    then have "mem (a + of_nat (4 * i + j)) = 0xff" if "j < 4" for j
      using that assms(1,3) unat_add_nat [of a "4 * i + j"] by (auto simp: erased_from_def span_def)
    from this [of 0] this [of 1] this [of 2] this [of 3]
    show ?thesis by (simp add: mem_u32_def algebra_simps) (simp add: u32_of_bytes_def)
  qed
  then show ?thesis by (simp add: check_erased_def list_all_iff)
qed

text \<open>A block whose page is erased from the block on is programmed, and only the block changes.\<close>

lemma steinzeit_simps [simp]:
  "CONFIG_BLOCK_SIZE steinzeit = 64" "flash_end steinzeit = 0x8010000"
  "CONFIG_LAUNCH_APP_ADDRESS steinzeit = 0x8002000"
  by (simp_all add: steinzeit_def)

lemma f103_page_size [simp]: "flash_get_page_size STM32F103 f103_hw a = 1024"
  by (simp add: flash_get_page_size_def f103_hw_def)

lemma f103_memory_simps [simp]:
  "hw_memory f103_hw = part_memory"
  "part_memory (hw_set_CR f103_hw 1 d) = part_memory d"
  "part_memory (lock_flash STM32F103 f103_hw d) = part_memory d"
  "part_memory (hw_set_KEYR f103_hw v d) = part_memory d"
  by (simp_all add: f103_hw_def lock_flash_def FLASH_CR_LOCK_def)

lemma f103_program:
  assumes a: "unat a + 64 < 2 ^ 32" and len: "length data = 16"
    and er: "erased_from (part_memory d) a 64"
  shows "\<exists>d'. stm32_program STM32F103 steinzeit f103_hw a p data False d = Some (0, d') \<and>
    part_memory d' = mem_write (part_memory d) a (bytes_of_words data)"
proof -
  obtain d1 where d1: "unlock_flash STM32F103 f103_hw d = Some d1" "part_memory d1 = part_memory d"
    by (simp add: unlock_flash_def)
  have "erased_from (part_memory (hw_set_CR f103_hw 1 d1)) a (2 * length (halfwords data))"
    using er d1 len by simp
  from program_halfwords_f103 [OF _ this, of STM32F103] a len
  have "write_block STM32F103 steinzeit f103_hw a data d1 = Some ((hw_set_CR f103_hw 1 d1)
      \<lparr>part_memory := mem_write (part_memory d) a (bytes_of_words data)\<rparr>)"
    by (simp add: write_block_def d1)
  moreover have "mem_read (mem_write (part_memory d) a (bytes_of_words data)) a 64 = bytes_of_words data"
    using mem_read_write_same [of "bytes_of_words data" "part_memory d" a] len by simp
  ultimately show ?thesis by (simp add: stm32_program_def d1)
qed

lemma f103_write_erased:
  assumes a: "in_app_area steinzeit a" "unat a mod 64 = 0" and len: "length data = 16"
    and page: "n = 0x8010000 - unat a" and er: "erased_from (part_memory (fl_dev f)) a n"
  shows "\<exists>f'. stm32_flash_write_block STM32F103 steinzeit f103_hw a data f = Some (0, f') \<and>
    part_memory (fl_dev f') = mem_write (part_memory (fl_dev f)) a (bytes_of_words data) \<and>
    unat (fl_page_write_count f') \<le> unat (fl_page_write_count f) + 1"
proof -
  have count: "unat (fl_page_write_count f + 1) \<le> unat (fl_page_write_count f) + 1"
    by (simp add: unat_word_ariths)
  have room: "0x8002000 \<le> unat a" "unat a + 64 \<le> 0x8010000" using a(1) by (simp_all add: in_app_area_def)
  have er64: "erased_from (part_memory (fl_dev f)) a 64"
    using er page room by (intro erased_from_sub [OF er]) auto
  obtain d' where d': "stm32_program STM32F103 steinzeit f103_hw a (ALIGN_DOWN a 1024) data False (fl_dev f) = Some (0, d')"
      "part_memory d' = mem_write (part_memory (fl_dev f)) a (bytes_of_words data)"
    using f103_program [OF _ len er64] room by auto
  have "check_erased (part_memory (fl_dev f)) a 1024" if "ALIGN_DOWN a 1024 = a"
  proof -
    have "unat a mod 1024 = 0" using aligned_mod [of a 10] that by simp
    then have "1024 dvd n" unfolding page by (intro dvd_diff_nat) (simp_all add: mod_eq_0_iff_dvd)
    then have "1024 \<le> n" using page room by (intro dvd_imp_le) simp_all
    then show ?thesis using room page by (intro check_erased_all [OF er]) auto
  qed
  moreover have "check_erased (part_memory (fl_dev f)) a 64"
    using room by (intro check_erased_all [OF er64]) auto
  moreover have "a AND 63 = 0" using a(2) by (simp add: and_63_iff)
  ultimately show ?thesis using d' count
    by (auto simp: stm32_flash_write_block_def Let_def)
qed

lemma f103_upload:
  assumes er: "erased_from (part_memory (fl_dev f)) 0x8002000 0xe000" and k: "64 * k \<le> 0xe000"
  shows "\<exists>f'. acked_upload (stm32_flash_api STM32F103 steinzeit f103_hw) steinzeit img f k f' \<and>
    erased_from (part_memory (fl_dev f')) (0x8002000 + of_nat (64 * k)) (0xe000 - 64 * k)"
  using k
proof (induction k)
  case 0
  then show ?case using er by (auto intro: acked_upload.start)
next
  case (Suc k)
  then obtain f1 where f1: "acked_upload (stm32_flash_api STM32F103 steinzeit f103_hw) steinzeit img f k f1"
      "erased_from (part_memory (fl_dev f1)) (0x8002000 + of_nat (64 * k)) (0xe000 - 64 * k)"
    by auto
  let ?a = "0x8002000 + of_nat (64 * k) :: u32" and ?d = "words_of_bytes (image_block img k)"
  have ua: "unat ?a = 0x8002000 + 64 * k"
    using Suc.prems unat_add_nat [of "0x8002000" "64 * k"] by simp
  have ua': "unat (0x8002000 + of_nat (64 * Suc k) :: u32) = 0x8002000 + 64 * Suc k"
    using Suc.prems unat_add_nat [of "0x8002000" "64 * Suc k"] by simp
  have "unat ?a mod 64 = 0" unfolding ua by presburger
  then obtain f2 where f2: "stm32_flash_write_block STM32F103 steinzeit f103_hw ?a ?d f1 = Some (0, f2)"
      "part_memory (fl_dev f2) = mem_write (part_memory (fl_dev f1)) ?a (image_block img k)"
    using f103_write_erased [of ?a ?d "0xe000 - 64 * k" f1] f1(2) ua Suc.prems
    by (auto simp: in_app_area_def)
  have "acked_upload (stm32_flash_api STM32F103 steinzeit f103_hw) steinzeit img f (Suc k) f2"
    by (rule acked_upload.forward [where r = 0, OF f1(1)]) (use f2 in \<open>simp_all add: upload_address_def\<close>)
  moreover have "erased_from (part_memory (fl_dev f2)) (0x8002000 + of_nat (64 * Suc k)) (0xe000 - 64 * Suc k)"
    using f1(2) Suc.prems ua unfolding f2(2) erased_from_def span_def ua'
    by (auto simp: mem_write_def unat_sub_if')
  ultimately show ?case by blast
qed

section \<open>Properties\<close>

text \<open>C9: \<open>flash_write_block\<close> of the STM32 does what its answer says and nothing else. On every
  register layout, on hardware that follows its manual, a call for a block in the application
  area changes no byte outside the block, or outside the block's page when the block is the
  first of its page, and a success means that the block now holds the data.\<close>

theorem stm32_write_block_contract:
  assumes "stm32_inv m c hw ar pend f" and "in_app_area c a" and "length data = 16"
    and "stm32_flash_write_block m c hw a data f = Some (r, f')"
  shows "(\<forall>x. x \<notin> stm32_touched m hw a \<longrightarrow> hw_memory hw (fl_dev f') x = hw_memory hw (fl_dev f) x) \<and>
    (0 \<le> r \<longrightarrow> mem_read (hw_memory hw (fl_dev f')) a 64 = bytes_of_words data)"
  using stm32_write_same [OF assms] stm32_write_keeps(3) [OF assms, of "{}"] assms(3)
  by (auto simp: holds_at_def)

definition blank_f103 :: "f103 stm32_flash" where
  "blank_f103 = \<lparr> fl_dev = \<lparr> part_memory = (\<lambda>_. 0xff), part_CR = 0x80, part_AR = 0 \<rparr>, fl_page_write_count = 0 \<rparr>"

lemma blank_erased: "erased_from (part_memory (fl_dev blank_f103)) a n"
  by (simp add: blank_f103_def erased_from_def)

theorem stm32_write_block_contract_witness:
  "\<exists>f'. stm32_flash_write_block STM32F103 steinzeit f103_hw 0x8002040 (replicate 16 7) blank_f103 = Some (0, f') \<and>
    part_memory (fl_dev f') 0x8002000 = 0xff \<and>
    mem_read (part_memory (fl_dev f')) 0x8002040 64 = bytes_of_words (replicate 16 7)"
proof -
  have area: "in_app_area steinzeit 0x8002040" by (simp add: in_app_area_def)
  obtain f' where f': "stm32_flash_write_block STM32F103 steinzeit f103_hw 0x8002040 (replicate 16 7) blank_f103 = Some (0, f')"
    using f103_write_erased [OF area _ _ refl blank_erased, of "replicate 16 7"] by auto
  have "0x8002000 \<notin> stm32_touched STM32F103 f103_hw 0x8002040" by (rule touched_above) simp
  with stm32_write_block_contract [OF f103_inv area _ f']
  have "part_memory (fl_dev f') 0x8002000 = 0xff"
    "mem_read (part_memory (fl_dev f')) 0x8002040 64 = bytes_of_words (replicate 16 7)"
    by (auto simp: blank_f103_def)
  with f' show ?thesis by blast
qed

text \<open>C10: An acknowledged upload boots. If every block of a correctly built image was sent in order
  to the STM32 flash code, blocks possibly repeated, and every call reported success, then after
  \<open>flash_complete\<close> the boot-time check accepts the application. What the flash held before does
  not matter, on any of the register layouts.\<close>

theorem stm32_upload_boots:
  assumes "stm32_inv m c hw ar pend f" and "image_ok c code variant"
    and "acked_upload (stm32_flash_api m c hw) c (flash_image c code version variant) f k f1"
    and "length (flash_image c code version variant) \<le> 64 * k"
    and "unat (CONFIG_LAUNCH_APP_ADDRESS c) + 64 * k \<le> unat (flash_end c)"
    and "flash_complete (stm32_flash_api m c hw) f1 = Some (r, f2)"
  shows "appvalidate_verify c (hw_memory hw (fl_dev f2)) = APP_VALID"
proof (rule verify_flash_image [OF assms(2)])
  show "holds_at (hw_memory hw (fl_dev f2)) (CONFIG_LAUNCH_APP_ADDRESS c) (flash_image c code version variant)"
    using stm32.upload_stored [OF assms(3,1,5,4,6)] by simp
qed

theorem stm32_upload_boots_witness:
  "\<exists>f1. acked_upload (stm32_flash_api STM32F103 steinzeit f103_hw) steinzeit
      (flash_image steinzeit demo_code 7 demo_variant) blank_f103 17 f1 \<and>
    appvalidate_verify steinzeit (part_memory (fl_dev f1)) = APP_VALID"
proof -
  let ?img = "flash_image steinzeit demo_code 7 demo_variant"
  obtain f1 where f1: "acked_upload (stm32_flash_api STM32F103 steinzeit f103_hw) steinzeit ?img blank_f103 17 f1"
    using f103_upload [OF blank_erased, of 17 ?img] by auto
  have "length ?img \<le> 64 * 17"
    using length_flash_image [OF image_ok_demo] by (simp add: steinzeit_def demo_code_def)
  with stm32_upload_boots [OF f103_inv image_ok_demo f1, of "sint (fl_page_write_count f1)" f1]
  have "appvalidate_verify steinzeit (hw_memory f103_hw (fl_dev f1)) = APP_VALID"
    by simp
  with f1 show ?thesis by auto
qed

text \<open>C13: The page arithmetic is right for every supported part: for a page address of the flash,
  the command word of \<open>erase_page\<close> selects exactly the page of \<open>flash_get_page_size\<close> bytes that
  starts there, in the sector, page or address numbering of the part.\<close>

theorem stm32_erases_selected_page:
  assumes "stm32_supported m c hw" and "0x08000000 \<le> unat p" and "unat p < unat (flash_end c)"
    and "ALIGN_DOWN p (flash_get_page_size m hw p) = p"
    and "m \<in> {STM32F2, STM32F4, STM32G0, STM32G4, STM32H7} \<or> a = p"
  shows "cr_erases m hw (erase_command m hw p) a = span p (unat (flash_get_page_size m hw p))"
  by (rule erase_command_span [OF assms])

theorem stm32_erases_selected_page_witness:
  "cr_erases STM32F103 f103_hw (erase_command STM32F103 f103_hw 0x8002400) 0x8002400 = span 0x8002400 1024"
  using stm32_erases_selected_page [of STM32F103 steinzeit f103_hw "0x8002400" "0x8002400"]
  by (simp add: ALIGN_DOWN_def)

text \<open>\<open>check_erased\<close> does not check the range it is given: it answers yes exactly when the first
  quarter of it (rounded up to words) is erased.\<close>

lemma check_erased_first_quarter:
  "check_erased mem addr count \<longleftrightarrow>
   (\<forall>i < 4 * div_round_up (unat count div 4) 4. mem (addr + of_nat i) = 0xff)"
  unfolding check_erased_def by (rule erased_words_iff)

text \<open>On an STM32H7 with a second bank, the sector number is capped: the erase for any page of
  the second bank selects the last sector of the first bank.\<close>

lemma stm32h7_second_bank_erases_first:
  assumes "0x08100000 \<le> unat p" and "unat p < 0x80000000"
  shows "cr_erases STM32H7 hw (erase_command STM32H7 hw p) a = span 0x080e0000 0x20000"
proof -
  have "unat (p - 0x08000000) = unat p - 0x08000000"
    using assms by (simp add: unat_sub word_le_nat_alt)
  then have "8 \<le> unat ((p - 0x08000000) div 0x20000)"
    using assms by (simp add: unat_div)
  then have "\<not> (p - 0x08000000) div 0x20000 \<le> 7" by (simp add: word_le_nat_alt)
  then have "erase_command STM32H7 hw p = 0x784"
    by (simp add: erase_command_def Let_def FLASH_CR_STRT_def not_le)
  then show ?thesis by (simp add: cr_erases_def FLASH_CR_STRT_def)
qed

end
