(* ===== verification/FlashRp.thy ===== *)
theory FlashRp
  imports FlashApi
begin











section \<open>What the code relies on\<close>










section \<open>A block written\<close>










section \<open>An upload in order\<close>












section \<open>Properties\<close>







end
