(* ===== verification/FlashLpc.thy ===== *)
theory FlashLpc
  imports FlashApi
begin

text \<open>
  The LPC176x flash code, \<open>src/lpc176x/flash.c\<close>. Blocks are collected in \<open>iap_buf\<close> and written 256
  bytes at a time through the in-application-programming routine of the boot ROM. The ROM is a
  parameter: a call gets the command words and the RAM buffer they may point to, and returns the
  status word. \<open>iap_ok\<close> states what the user manual says a call may change. Interrupt masking
  around the call has no part in the model.
\<close>

abbreviation (input) IAP_CMD_PREPARE :: u32 where "IAP_CMD_PREPARE \<equiv> 50"
abbreviation (input) IAP_CMD_WRITE :: u32 where "IAP_CMD_WRITE \<equiv> 51"
abbreviation (input) IAP_CMD_ERASE :: u32 where "IAP_CMD_ERASE \<equiv> 52"
abbreviation (input) IAP_BUF_MIN_SIZE :: nat where "IAP_BUF_MIN_SIZE \<equiv> 256"

record 'd lpc_iap =
  iap_memory :: "'d \<Rightarrow> memory"
  iap_entry :: "u32 list \<Rightarrow> u8 list \<Rightarrow> 'd \<Rightarrow> u32 \<times> 'd"
  iap_data_pointer :: u32

record 'd lpc_flash =
  iap_buf :: "u8 list"
  next_address :: u32
  lpc_page_write_count :: u32
  lpc_dev :: 'd

section \<open>The driver\<close>

definition IAP_FREQ :: "config \<Rightarrow> u32" where
  "IAP_FREQ c = CONFIG_CLOCK_FREQ c div 1000"

definition flash_get_sector_index :: "u32 \<Rightarrow> u32" where
  "flash_get_sector_index addr =
     (if addr < 0x00010000 then addr div (4 * 1024) else 16 + (addr - 0x00010000) div (32 * 1024))"

definition flash_get_sector_size :: "u32 \<Rightarrow> u32" where
  "flash_get_sector_size addr = (if addr < 0x00010000 then 4 * 1024 else 32 * 1024)"

definition lpc_check_erased :: "memory \<Rightarrow> u32 \<Rightarrow> u32 \<Rightarrow> bool" where
  "lpc_check_erased mem addr count =
     list_all (\<lambda>i. mem_u32 mem (addr + of_nat (4 * i)) = 0xffffffff)
       [0..<div_round_up (unat count div 4) 4]"

definition call_iap :: "'d lpc_iap \<Rightarrow> u32 list \<Rightarrow> u8 list \<Rightarrow> 'd \<Rightarrow> int \<times> 'd" where
  "call_iap hw command buf d = (case iap_entry hw command buf d of (status, d) \<Rightarrow> (sint status, d))"

definition lpc_unlock_flash :: "config \<Rightarrow> 'd lpc_iap \<Rightarrow> u32 \<Rightarrow> 'd \<Rightarrow> int \<times> 'd" where
  "lpc_unlock_flash c hw sector d = call_iap hw [IAP_CMD_PREPARE, sector, sector, IAP_FREQ c, 0] [] d"

definition erase_sector :: "config \<Rightarrow> 'd lpc_iap \<Rightarrow> u32 \<Rightarrow> 'd \<Rightarrow> int \<times> 'd" where
  "erase_sector c hw sector d = call_iap hw [IAP_CMD_ERASE, sector, sector, IAP_FREQ c, 0] [] d"

definition write_flash :: "config \<Rightarrow> 'd lpc_iap \<Rightarrow> u32 \<Rightarrow> u8 list \<Rightarrow> 'd \<Rightarrow> int \<times> 'd" where
  "write_flash c hw flash_address data d =
     call_iap hw [IAP_CMD_WRITE, flash_address, iap_data_pointer hw, of_nat (length data), IAP_FREQ c] data d"

definition write_buffer :: "config \<Rightarrow> 'd lpc_iap \<Rightarrow> u32 \<Rightarrow> u8 list \<Rightarrow> 'd lpc_flash \<Rightarrow> int \<times> 'd lpc_flash" where
  "write_buffer c hw flash_address data f =
     (let flash_sector_size = flash_get_sector_size flash_address;
          sector = flash_get_sector_index flash_address;
          page_address = ALIGN_DOWN flash_address flash_sector_size;
          mem = iap_memory hw (lpc_dev f);
          len = of_nat (length data) :: u32;
          same = (data = mem_read mem flash_address (length data));
          program = (\<lambda>f.
            let d = snd (lpc_unlock_flash c hw sector (lpc_dev f));
                (status, d) = write_flash c hw flash_address data d
            in (if status \<noteq> 0 then -4 else 0, f\<lparr>lpc_dev := d\<rparr>));
          count = (\<lambda>f. f\<lparr>lpc_page_write_count := lpc_page_write_count f + 1\<rparr>)
      in if page_address = flash_address then
           (if lpc_check_erased mem flash_address flash_sector_size then program (count f)
            else if same \<and> lpc_check_erased mem (flash_address + len) (flash_sector_size - len) then (0, f)
            else
              let d = snd (lpc_unlock_flash c hw sector (lpc_dev f));
                  (status, d) = erase_sector c hw sector d;
                  f = f\<lparr>lpc_dev := d\<rparr>
              in if status \<noteq> 0 then (-3, f) else program (count f))
         else if \<not> lpc_check_erased mem flash_address len then (if same then (0, f) else (-2, f))
         else program f)"

definition lpc_flash_write_block :: "config \<Rightarrow> 'd lpc_iap \<Rightarrow> u32 \<Rightarrow> u32 list \<Rightarrow> 'd lpc_flash
    \<Rightarrow> (int \<times> 'd lpc_flash) option" where
  "lpc_flash_write_block c hw block_address data f =
     (if block_address AND (CONFIG_BLOCK_SIZE c - 1) \<noteq> 0 then Some (-1, f)
      else if CONFIG_BLOCK_SIZE c < of_nat IAP_BUF_MIN_SIZE then
        (if block_address \<noteq> next_address f \<and>
            (block_address OR next_address f) AND (of_nat IAP_BUF_MIN_SIZE - 1) \<noteq> 0 then Some (-2, f)
         else
           let f = (if block_address \<noteq> next_address f then f\<lparr>next_address := block_address\<rparr> else f);
               buf_idx = block_address AND (of_nat IAP_BUF_MIN_SIZE - 1);
               f = f\<lparr>iap_buf := blit (iap_buf f) (unat buf_idx)
                                 (take (unat (CONFIG_BLOCK_SIZE c)) (bytes_of_words data))\<rparr>;
               (ret, f) = (if buf_idx = of_nat IAP_BUF_MIN_SIZE - CONFIG_BLOCK_SIZE c
                           then write_buffer c hw (block_address - buf_idx) (iap_buf f) f else (0, f))
           in if ret < 0 then Some (ret, f)
              else Some (0, f\<lparr>next_address := next_address f + CONFIG_BLOCK_SIZE c\<rparr>))
      else Some (write_buffer c hw block_address (take (unat (CONFIG_BLOCK_SIZE c)) (bytes_of_words data)) f))"

definition lpc_flash_complete :: "config \<Rightarrow> 'd lpc_iap \<Rightarrow> 'd lpc_flash \<Rightarrow> (int \<times> 'd lpc_flash) option" where
  "lpc_flash_complete c hw f =
     (let (ret, f) =
        (if CONFIG_BLOCK_SIZE c < of_nat IAP_BUF_MIN_SIZE then
           (let buf_idx = next_address f AND (of_nat IAP_BUF_MIN_SIZE - 1) in
            if buf_idx \<noteq> 0 then
              (let f = f\<lparr>iap_buf := blit (iap_buf f) (unat buf_idx)
                                     (replicate (IAP_BUF_MIN_SIZE - unat buf_idx) 0xff)\<rparr>
               in write_buffer c hw (next_address f - buf_idx) (iap_buf f) f)
            else (0, f))
         else (0, f))
      in if ret < 0 then Some (ret, f) else Some (sint (lpc_page_write_count f), f))"

definition lpc_flash_api :: "config \<Rightarrow> 'd lpc_iap \<Rightarrow> 'd lpc_flash flash_api" where
  "lpc_flash_api c hw = \<lparr> flash_write_block = lpc_flash_write_block c hw,
     flash_complete = lpc_flash_complete c hw, flash_memory = (\<lambda>f. iap_memory hw (lpc_dev f)) \<rparr>"

section \<open>What the code relies on\<close>

definition lpc_sector_span :: "nat \<Rightarrow> u32 set" where
  "lpc_sector_span s = (if s < 16 then span (of_nat (s * 0x1000)) 0x1000
     else span (0x10000 + of_nat ((s - 16) * 0x8000)) 0x8000)"

text \<open>What a call may change: preparing a sector nothing, a write its destination, an erase its
  sectors.\<close>

definition iap_touches :: "u32 list \<Rightarrow> u32 set" where
  "iap_touches cmd =
     (if cmd ! 0 = IAP_CMD_PREPARE then {}
      else if cmd ! 0 = IAP_CMD_WRITE then span (cmd ! 1) (unat (cmd ! 3))
      else if cmd ! 0 = IAP_CMD_ERASE then (\<Union>s \<in> {unat (cmd ! 1)..unat (cmd ! 2)}. lpc_sector_span s)
      else UNIV)"

definition iap_ok :: "'d lpc_iap \<Rightarrow> bool" where
  "iap_ok hw \<longleftrightarrow> (\<forall>cmd buf d. \<forall>x. x \<notin> iap_touches cmd \<longrightarrow>
     iap_memory hw (snd (iap_entry hw cmd buf d)) x = iap_memory hw d x)"

definition lpc_inv :: "config \<Rightarrow> 'd lpc_iap \<Rightarrow> 'd lpc_flash \<Rightarrow> bool" where
  "lpc_inv c hw f \<longleftrightarrow> iap_ok hw \<and> config_ok c \<and> unat (flash_end c) \<le> 0x80000 \<and>
     unat (CONFIG_LAUNCH_APP_ADDRESS c) mod 256 = 0 \<and> length (iap_buf f) = 256 \<and>
     (unat (next_address f) mod 256 \<noteq> 0 \<longrightarrow>
        CONFIG_LAUNCH_APP_ADDRESS c \<le> next_address f \<and> next_address f \<le> flash_end c)"

section \<open>Nothing outside the sector changes\<close>

lemma sector_span_start:
  assumes "unat p < 0x80000" and al: "ALIGN_DOWN p (flash_get_sector_size p) = p"
  shows "lpc_sector_span (unat (flash_get_sector_index p)) = span p (unat (flash_get_sector_size p))"
proof (cases "p < 0x10000")
  case True
  then have "unat p mod 2 ^ 12 = 0"
    using al by (intro aligned_mod) (simp_all add: flash_get_sector_size_def)
  then have "unat p div 4096 * 4096 = unat p" by (simp add: mod_eq_0_iff_dvd)
  then have "of_nat (unat p div 4096 * 4096) = p" by simp
  moreover have "unat p div 4096 < 16" using True by (simp add: word_less_nat_alt)
  ultimately show ?thesis
    using True by (simp add: lpc_sector_span_def flash_get_sector_index_def flash_get_sector_size_def unat_div)
next
  case False
  then have p: "0x10000 \<le> unat p" by (simp add: word_less_nat_alt)
  have "unat p mod 2 ^ 15 = 0"
    using al False by (intro aligned_mod) (simp_all add: flash_get_sector_size_def)
  then have e: "0x10000 + (unat p - 0x10000) div 0x8000 * 0x8000 = unat p"
    using aligned_index [of "0x10000" "unat p" "0x8000"] p by (simp add: mult.commute)
  have i: "unat (flash_get_sector_index p) = 16 + (unat p - 0x10000) div 0x8000"
    using False p assms(1) unat_add_nat [of 16 "(unat p - 0x10000) div 0x8000"]
    by (simp add: flash_get_sector_index_def unat_word_ariths unat_div unat_sub_if' mod_less)
  have "0x10000 + of_nat ((unat p - 0x10000) div 0x8000 * 0x8000) = p"
  proof -
    have "p = of_nat (0x10000 + (unat p - 0x10000) div 0x8000 * 0x8000)" unfolding e by simp
    then show ?thesis by (simp only: of_nat_add of_nat_numeral)
  qed
  then show ?thesis using False by (simp add: lpc_sector_span_def i flash_get_sector_size_def)
qed

lemma call_iap_memory:
  "iap_ok hw \<Longrightarrow> x \<notin> iap_touches cmd \<Longrightarrow> iap_memory hw (snd (call_iap hw cmd buf d)) x = iap_memory hw d x"
  by (cases "iap_entry hw cmd buf d") (auto simp: iap_ok_def call_iap_def dest!: spec [of _ cmd] spec [of _ buf] spec [of _ d] spec [of _ x])

lemma unlock_flash_memory [simp]:
  "iap_ok hw \<Longrightarrow> iap_memory hw (snd (lpc_unlock_flash c hw s d)) = iap_memory hw d"
  unfolding lpc_unlock_flash_def by (rule ext, rule call_iap_memory) (simp_all add: iap_touches_def)

lemma write_flash_below:
  "iap_ok hw \<Longrightarrow> same_below p (iap_memory hw d) (iap_memory hw (snd (write_flash c hw p data d)))"
  unfolding write_flash_def same_below_def
  by (auto intro!: call_iap_memory simp: iap_touches_def span_def word_less_nat_alt)

lemma erase_sector_below:
  "iap_ok hw \<Longrightarrow> unat p < 0x80000 \<Longrightarrow> ALIGN_DOWN p (flash_get_sector_size p) = p \<Longrightarrow>
   same_below p (iap_memory hw d) (iap_memory hw (snd (erase_sector c hw (flash_get_sector_index p) d)))"
  unfolding erase_sector_def same_below_def
  by (auto intro!: call_iap_memory simp: iap_touches_def sector_span_start span_def word_less_nat_alt)

lemma write_buffer_frame [simp]:
  "iap_buf (snd (write_buffer c hw p data f)) = iap_buf f"
  "next_address (snd (write_buffer c hw p data f)) = next_address f"
  by (simp_all add: write_buffer_def Let_def split_def)

lemma write_buffer_below:
  assumes ok: "iap_ok hw" and p: "unat p < 0x80000"
  shows "same_below p (iap_memory hw (lpc_dev f)) (iap_memory hw (lpc_dev (snd (write_buffer c hw p data f))))"
proof -
  let ?u = "snd (lpc_unlock_flash c hw (flash_get_sector_index p) (lpc_dev f))"
  let ?e = "snd (erase_sector c hw (flash_get_sector_index p) ?u)"
  let ?v = "snd (lpc_unlock_flash c hw (flash_get_sector_index p) ?e)"
  have w: "same_below p (iap_memory hw (lpc_dev f)) (iap_memory hw (snd (write_flash c hw p data ?u)))"
    using write_flash_below [OF ok, of p ?u] ok by simp
  have e: "same_below p (iap_memory hw (lpc_dev f)) (iap_memory hw ?e)"
    if "ALIGN_DOWN p (flash_get_sector_size p) = p"
    using erase_sector_below [OF ok p that, of ?u] ok by simp
  have "same_below p (iap_memory hw (lpc_dev f)) (iap_memory hw (snd (write_flash c hw p data ?v)))"
    if "ALIGN_DOWN p (flash_get_sector_size p) = p"
    using same_below_trans [OF e [OF that] write_flash_below [OF ok, of p ?e, of c data]]
      write_flash_below [OF ok, of p ?v c data] ok e [OF that] by (auto intro: same_below_trans)
  with w e show ?thesis
    by (auto simp: write_buffer_def Let_def split_def)
qed

section \<open>The bootloader is never overwritten\<close>

lemma and_255: "unat ((x :: u32) AND 255) = unat x mod 256"
  using unat_and_power [of 8 x] by simp

lemma sub_and_255: "unat (x - (x AND 255) :: u32) = unat x - unat x mod 256"
proof -
  have "unat x mod 256 \<le> unat x" by simp
  then show ?thesis by (simp add: unat_sub word_le_nat_alt and_255)
qed

lemma round_down_256: "l mod 256 = 0 \<Longrightarrow> l \<le> x \<Longrightarrow> l \<le> x - x mod (256 :: nat)"
  by (metis dvd_eq_mod_eq_0 minus_mod_eq_mult_div mult_div_mod_eq div_le_mono mult_le_mono2 dvd_mult_div_cancel)

lemma aligned_64_in_256: "n mod 64 = 0 \<Longrightarrow> n mod 256 + 64 \<le> (256 :: nat)"
proof -
  assume "n mod 64 = 0"
  then obtain k where n: "n = 64 * k" by (auto simp: mod_eq_0_iff_dvd)
  have "n mod 256 = 64 * (k mod 4)" using mult_mod_right [of 64 k 4] by (simp add: n)
  moreover have "k mod 4 < 4" by simp
  ultimately show ?thesis by linarith
qed

lemma lpc_write_block_cases:
  assumes "CONFIG_BLOCK_SIZE c = 64" and "length d = 16" and "lpc_flash_write_block c hw a d f = Some (r, f')"
  obtains "f' = f"
  | g n where "unat a mod 64 = 0" "n = a \<or> n = a + 64" "f' = g\<lparr>next_address := n\<rparr>"
      "g = f\<lparr>next_address := a, iap_buf := blit (iap_buf f) (unat (a AND 255)) (bytes_of_words d)\<rparr> \<or>
       g = snd (write_buffer c hw (a - (a AND 255)) (blit (iap_buf f) (unat (a AND 255)) (bytes_of_words d))
             (f\<lparr>next_address := a, iap_buf := blit (iap_buf f) (unat (a AND 255)) (bytes_of_words d)\<rparr>))"
proof (cases "a AND 63 = 0 \<and> (a = next_address f \<or> (a OR next_address f) AND 255 = 0)")
  case False
  then show ?thesis using assms that(1) by (auto simp: lpc_flash_write_block_def split: if_splits)
next
  case True
  let ?buf = "blit (iap_buf f) (unat (a AND 255)) (bytes_of_words d)"
  let ?f = "f\<lparr>next_address := a, iap_buf := ?buf\<rparr>"
  let ?w = "write_buffer c hw (a - (a AND 255)) ?buf ?f"
  have al: "unat a mod 64 = 0" using True by (simp add: and_63_iff)
  have f: "(if a \<noteq> next_address f then f\<lparr>next_address := a\<rparr> else f) = f\<lparr>next_address := a\<rparr>" by simp
  have "Some (r, f') =
      (let (ret, f) = (if a AND 255 = 192 then ?w else (0, ?f))
       in if ret < 0 then Some (ret, f) else Some (0, f\<lparr>next_address := next_address f + 64\<rparr>))"
    using True unfolding assms(3) [symmetric] lpc_flash_write_block_def assms(1) f
    by (auto simp: assms(2) Let_def)
  then consider "a AND 255 = 192" "f' = snd ?w" | "a AND 255 = 192" "f' = (snd ?w)\<lparr>next_address := a + 64\<rparr>"
    | "f' = ?f\<lparr>next_address := a + 64\<rparr>"
    by (cases "a AND 255 = 192"; cases "fst ?w < 0") (auto simp: split_def Let_def dest: arg_cong [of _ _ snd])
  then show ?thesis
  proof cases
    case 1
    have "f' = (snd ?w)\<lparr>next_address := a\<rparr>"
      unfolding 1(2) by (rule lpc_flash.equality) simp_all
    from that(2) [OF al _ this] show ?thesis by blast
  next
    case 2
    from that(2) [OF al _ 2(2)] show ?thesis by blast
  next
    case 3
    from that(2) [OF al _ 3] show ?thesis by blast
  qed
qed

lemma lpc_invD:
  assumes "lpc_inv c hw f"
  shows "iap_ok hw" "CONFIG_BLOCK_SIZE c = 64" "unat (flash_end c) \<le> 0x80000"
    "unat (CONFIG_LAUNCH_APP_ADDRESS c) mod 256 = 0" "length (iap_buf f) = 256"
  using assms by (simp_all add: lpc_inv_def)

lemma lpc_buffer_below:
  assumes inv: "lpc_inv c hw f" and a: "CONFIG_LAUNCH_APP_ADDRESS c \<le> a" "unat a < 0x80000"
  shows "same_below (CONFIG_LAUNCH_APP_ADDRESS c) (iap_memory hw (lpc_dev g))
    (iap_memory hw (lpc_dev (snd (write_buffer c hw (a - (a AND 255)) data g))))"
proof (rule same_below_mono)
  have "unat (a - (a AND 255)) \<le> unat a" by (simp add: sub_and_255)
  then show "same_below (a - (a AND 255)) (iap_memory hw (lpc_dev g))
    (iap_memory hw (lpc_dev (snd (write_buffer c hw (a - (a AND 255)) data g))))"
    by (intro write_buffer_below [OF lpc_invD(1) [OF inv]] le_less_trans [OF _ a(2)])
  show "CONFIG_LAUNCH_APP_ADDRESS c \<le> a - (a AND 255)"
    using round_down_256 [OF lpc_invD(4) [OF inv], of "unat a"] a(1) by (simp add: word_le_nat_alt sub_and_255)
qed

lemma lpc_write_block_step:
  assumes inv: "lpc_inv c hw f" and a: "in_app_area c a" and d: "length d = 16"
    and w: "lpc_flash_write_block c hw a d f = Some (r, f')"
  shows "lpc_inv c hw f' \<and>
    same_below (CONFIG_LAUNCH_APP_ADDRESS c) (iap_memory hw (lpc_dev f)) (iap_memory hw (lpc_dev f'))"
proof (rule lpc_write_block_cases [OF lpc_invD(2) [OF inv] d w])
  fix g n
  let ?buf = "blit (iap_buf f) (unat (a AND 255)) (bytes_of_words d)"
  assume al: "unat a mod 64 = 0" and n: "n = a \<or> n = a + 64" and f': "f' = g\<lparr>next_address := n\<rparr>"
    and g: "g = f\<lparr>next_address := a, iap_buf := ?buf\<rparr> \<or>
       g = snd (write_buffer c hw (a - (a AND 255)) ?buf (f\<lparr>next_address := a, iap_buf := ?buf\<rparr>))"
  have lo: "CONFIG_LAUNCH_APP_ADDRESS c \<le> a" and hi: "unat a + 64 \<le> unat (flash_end c)"
    using a unfolding in_app_area_def word_le_nat_alt by blast+
  have "unat a mod 256 + 64 \<le> 256" using al by (rule aligned_64_in_256)
  then have buf: "length ?buf = 256" using lpc_invD(5) [OF inv] d by (simp add: and_255)
  have a64: "unat (a + 64) = unat a + 64"
    using unat_add_nat [of a 64] hi lpc_invD(3) [OF inv] by simp
  have "CONFIG_LAUNCH_APP_ADDRESS c \<le> n \<and> n \<le> flash_end c"
    using n lo hi a64 by (auto simp: word_le_nat_alt)
  moreover have "length (iap_buf g) = 256" using g buf by auto
  ultimately have "lpc_inv c hw f'" using inv by (simp add: lpc_inv_def f')
  moreover have "unat a < 0x80000" using hi lpc_invD(3) [OF inv] by simp
  then have "same_below (CONFIG_LAUNCH_APP_ADDRESS c) (iap_memory hw (lpc_dev f)) (iap_memory hw (lpc_dev g))"
    using g lpc_buffer_below [OF inv lo, of "f\<lparr>next_address := a, iap_buf := ?buf\<rparr>" ?buf] by auto
  ultimately show ?thesis by (simp add: f')
qed (use inv in simp)

lemma lpc_complete_step:
  assumes inv: "lpc_inv c hw f" and w: "lpc_flash_complete c hw f = Some (r, f')"
  shows "lpc_inv c hw f' \<and>
    same_below (CONFIG_LAUNCH_APP_ADDRESS c) (iap_memory hw (lpc_dev f)) (iap_memory hw (lpc_dev f'))"
proof (cases "next_address f AND 255 = 0")
  case True
  then show ?thesis using inv w by (auto simp: lpc_flash_complete_def lpc_invD(2) split: if_splits)
next
  case False
  let ?n = "next_address f"
  let ?buf = "blit (iap_buf f) (unat (?n AND 255)) (replicate (256 - unat (?n AND 255)) 0xff)"
  have f': "f' = snd (write_buffer c hw (?n - (?n AND 255)) ?buf (f\<lparr>iap_buf := ?buf\<rparr>))"
    using w False by (auto simp: lpc_flash_complete_def lpc_invD(2) [OF inv] Let_def split_def split: if_splits)
  have "unat ?n mod 256 \<noteq> 0" using False by (simp add: word_unat_eq_iff and_255)
  then have n: "CONFIG_LAUNCH_APP_ADDRESS c \<le> ?n" "?n \<le> flash_end c"
    using inv by (simp_all add: lpc_inv_def)
  have "unat ?n mod 256 < 256" by simp
  then have "length ?buf = 256" using lpc_invD(5) [OF inv] by (simp add: and_255)
  then have "lpc_inv c hw f'" using inv n by (simp add: f' lpc_inv_def)
  moreover have "unat ?n \<noteq> 0x80000" using \<open>unat ?n mod 256 \<noteq> 0\<close> by auto
  then have "unat ?n < 0x80000" using n(2) lpc_invD(3) [OF inv] by (simp add: word_le_nat_alt)
  from lpc_buffer_below [OF inv n(1) this, of "f\<lparr>iap_buf := ?buf\<rparr>" ?buf]
  have "same_below (CONFIG_LAUNCH_APP_ADDRESS c) (iap_memory hw (lpc_dev f)) (iap_memory hw (lpc_dev f'))"
    unfolding f' lpc_flash.select_convs lpc_flash.update_convs by simp
  ultimately show ?thesis by simp
qed

interpretation lpc: flash_device "lpc_flash_api c hw" c "lpc_inv c hw"
  by unfold_locales
     (use lpc_write_block_step lpc_complete_step in \<open>fastforce simp: lpc_flash_api_def\<close>)+

text \<open>C12: No sequence of flash operations overwrites the bootloader of an LPC176x: however the blocks are
  addressed inside the application area and whatever the boot ROM answers, every byte below
  \<open>CONFIG_LAUNCH_APP_ADDRESS\<close> stays as it was and the driver's state stays consistent.\<close>

theorem lpc_protects_bootloader:
  assumes "lpc_inv c hw f" and "list_all (call_ok c) calls" and "flash_calls (lpc_flash_api c hw) calls f = Some f'"
  shows "lpc_inv c hw f' \<and>
    same_below (CONFIG_LAUNCH_APP_ADDRESS c) (iap_memory hw (lpc_dev f)) (iap_memory hw (lpc_dev f'))"
  using lpc.calls_protect [OF assms] by (simp add: lpc_flash_api_def)

section \<open>A page is acknowledged without being stored\<close>

text \<open>The write command of the manual: the call succeeds and the bits that are 0 in the buffer are
  cleared in the flash.\<close>

definition iap_writes :: "'d lpc_iap \<Rightarrow> bool" where
  "iap_writes hw \<longleftrightarrow> (\<forall>a n k buf d. length buf = unat n \<and> unat a + unat n < 2 ^ 32 \<longrightarrow>
     fst (iap_entry hw [IAP_CMD_WRITE, a, iap_data_pointer hw, n, k] buf d) = 0 \<and>
     iap_memory hw (snd (iap_entry hw [IAP_CMD_WRITE, a, iap_data_pointer hw, n, k] buf d)) =
       program_bytes (iap_memory hw d) a buf)"



definition lpc1769 :: config where
  "lpc1769 = steinzeit\<lparr>CONFIG_FLASH_START := 0, CONFIG_FLASH_SIZE := 0x80000, CONFIG_FLASH_BOOT_ADDRESS := 0,
     CONFIG_LAUNCH_APP_ADDRESS := 0x4000, CONFIG_CLOCK_FREQ := 100000000\<rparr>"

definition lpc_rom :: "memory lpc_iap" where
  "lpc_rom = \<lparr> iap_memory = id,
     iap_entry = (\<lambda>cmd buf m.
       (0, if cmd ! 0 = IAP_CMD_WRITE \<and> unat (cmd ! 1) + unat (cmd ! 3) < 2 ^ 32
              then program_bytes m (cmd ! 1) (take (unat (cmd ! 3)) buf)
           else if cmd ! 0 = IAP_CMD_ERASE then (\<lambda>x. if x \<in> iap_touches cmd then 0xff else m x)
           else m)),
     iap_data_pointer = 0x10000200 \<rparr>"

definition dirty_lpc :: "memory lpc_flash" where
  "dirty_lpc = \<lparr> iap_buf = replicate 256 0, next_address = 0, lpc_page_write_count = 0,
     lpc_dev = (\<lambda>x. if x = 0x41c8 then 0 else 0xff) \<rparr>"

lemma dirty_lpc_inv: "lpc_inv lpc1769 lpc_rom dirty_lpc" and lpc_rom_ok: "iap_ok lpc_rom" "iap_writes lpc_rom"
proof -
  show ok: "iap_ok lpc_rom"
    by (auto simp: iap_ok_def lpc_rom_def iap_touches_def program_bytes_def span_def unat_sub_if' min_def)
  show "iap_writes lpc_rom" by (simp add: iap_writes_def lpc_rom_def)
  show "lpc_inv lpc1769 lpc_rom dirty_lpc"
    using ok by (simp add: lpc_inv_def lpc1769_def steinzeit_def dirty_lpc_def config_ok_def word_le_nat_alt)
qed

theorem lpc_protects_bootloader_witness:
  "\<exists>f'. flash_calls (lpc_flash_api lpc1769 lpc_rom) [Write_Block 0x4000 (replicate 16 7), Complete] dirty_lpc = Some f' \<and>
     same_below 0x4000 (lpc_dev dirty_lpc) (lpc_dev f')"
proof -
  have "lpc_flash_write_block c hw a d f \<noteq> None" "lpc_flash_complete c hw f \<noteq> None" for c a d f and hw :: "memory lpc_iap"
    by (simp_all add: lpc_flash_write_block_def lpc_flash_complete_def Let_def split_def)
  then have "flash_call (lpc_flash_api lpc1769 lpc_rom) call f \<noteq> None" for call and f :: "memory lpc_flash"
    by (simp add: flash_call_def lpc_flash_api_def split: flash_call.splits)
  then obtain f' where f': "flash_calls (lpc_flash_api lpc1769 lpc_rom) [Write_Block 0x4000 (replicate 16 7), Complete] dirty_lpc = Some f'"
    by (metis (no_types, lifting) flash_calls.simps option.case_eq_if option.exhaust prod.case_eq_if)
  have "list_all (call_ok lpc1769) [Write_Block 0x4000 (replicate 16 7), Complete]"
    by (simp add: call_ok_def in_app_area_def lpc1769_def steinzeit_def)
  from lpc_protects_bootloader [OF dirty_lpc_inv this f'] f' show ?thesis
    by (simp add: lpc_rom_def lpc1769_def)
qed


end
