(* ===== verification/Console.thy ===== *)
theory Console
  imports Command "HOL-Library.Sublist"
begin

text \<open>
  What the three console transports share: CAN (\<open>generic/canserial.c\<close>), UART
  (\<open>generic/serial_irq.c\<close>) and USB (\<open>generic/usb_cdc.c\<close>).

  \<open>console_pop_input\<close>, the same loop in the first two, removes a processed block from a
  receive buffer that an interrupt handler may extend at any time. The state of the transport is
  abstract; \<open>rx_ops\<close> holds its accessors, and \<open>rx_preempt\<close> is whatever the interrupts do at the
  point where the loop re-enables them. The locale \<open>rx_buffer\<close> states what interrupts may do and
  proves that exactly the block is removed and nothing that arrived is lost.

  The locales \<open>console_stream\<close> and \<open>console_tx\<close> are the contract of \<open>console_sendf\<close>: a message is
  queued whole, behind the others, or not at all. Their lemmas say that a transport therefore
  never tears a frame, and that what fits is sent.
\<close>

lemma take_blit_end: "n \<le> length b \<Longrightarrow> take (n + length m) (blit b n m) = take n b @ m"
  by (simp add: blit_def min_def)

section \<open>Removing input under interrupts\<close>

record 's rx_ops =
  rx_pos :: "'s \<Rightarrow> u8"
  rx_buf :: "'s \<Rightarrow> u8 list"
  set_rx_pos :: "u8 \<Rightarrow> 's \<Rightarrow> 's"
  set_rx_buf :: "u8 list \<Rightarrow> 's \<Rightarrow> 's"
  rx_notify :: "'s \<Rightarrow> 's"
  rx_preempt :: "'s \<Rightarrow> 's"

text \<open>One turn of the loop up to the point where interrupts are masked: the new value of \<open>copied\<close>
  and the state. The block is never longer than what was received, so \<open>rpos - len\<close> does not
  wrap.\<close>

definition pop_copy :: "'s rx_ops \<Rightarrow> nat \<Rightarrow> nat \<Rightarrow> 's \<Rightarrow> nat \<times> 's" where
  "pop_copy ops len copied s =
     (let needcopy = unat (rx_pos ops s) - len in
      if needcopy \<noteq> 0 then
        (needcopy, rx_notify ops (set_rx_buf ops
           (blit (rx_buf ops s) copied (take (needcopy - copied) (drop (copied + len) (rx_buf ops s)))) s))
      else (copied, s))"

partial_function (option) console_pop_loop :: "'s rx_ops \<Rightarrow> nat \<Rightarrow> nat \<Rightarrow> 's \<Rightarrow> 's option" where
  "console_pop_loop ops len copied s =
     (let rpos = rx_pos ops s;
          (copied, s) = pop_copy ops len copied s;
          s = rx_preempt ops s
      in if rpos \<noteq> rx_pos ops s then console_pop_loop ops len copied s
         else Some (set_rx_pos ops (rpos - of_nat len) s))"

definition console_pop_input :: "'s rx_ops \<Rightarrow> nat \<Rightarrow> 's \<Rightarrow> 's option" where
  "console_pop_input ops len s = console_pop_loop ops len 0 s"

abbreviation (input) rx_content :: "'s rx_ops \<Rightarrow> 's \<Rightarrow> u8 list" where
  "rx_content ops s \<equiv> take (unat (rx_pos ops s)) (rx_buf ops s)"

text \<open>What the accessors and the interrupts keep, the loop keeps.\<close>

lemma pop_loop_keeps:
  assumes run: "console_pop_loop ops len copied s = Some s'" and "P s"
    and "\<And>b s. P s \<Longrightarrow> P (set_rx_buf ops b s)" and "\<And>p s. P s \<Longrightarrow> P (set_rx_pos ops p s)"
    and "\<And>s. P s \<Longrightarrow> P (rx_notify ops s)" and "\<And>s. P s \<Longrightarrow> P (rx_preempt ops s)"
  shows "P s'"
proof -
  note keep = assms(3-6)
  have copy: "P s \<Longrightarrow> P (snd (pop_copy ops len copied s))" for len copied s
    by (simp add: pop_copy_def Let_def keep)
  have "P s \<longrightarrow> P s'"
  proof (rule console_pop_loop.raw_induct [where P = "\<lambda>ops' len copied s s'. ops' = ops \<longrightarrow> P s \<longrightarrow> P s'", THEN mp, OF _ run refl])
    fix f ops' len copied s r
    assume IH: "\<And>ops' len copied s r. f ops' len copied s = Some r \<Longrightarrow> ops' = ops \<longrightarrow> P s \<longrightarrow> P r"
      and step: "(let rpos = rx_pos ops' s; (copied, s) = pop_copy ops' len copied s; s = rx_preempt ops' s
        in if rpos \<noteq> rx_pos ops' s then f ops' len copied s else Some (set_rx_pos ops' (rpos - of_nat len) s)) = Some r"
    show "ops' = ops \<longrightarrow> P s \<longrightarrow> P r"
    proof (intro impI)
      assume o: "ops' = ops" and "P s"
      then have "P (rx_preempt ops (snd (pop_copy ops len copied s)))" by (intro keep copy)
      then show "P r"
        using step IH unfolding o by (auto simp: Let_def split_def keep split: if_splits)
    qed
  qed
  then show ?thesis using assms(2) by simp
qed

lemma pop_input_keeps:
  assumes "console_pop_input ops len s = Some s'" and "P s"
    and "\<And>b s. P s \<Longrightarrow> P (set_rx_buf ops b s)" and "\<And>p s. P s \<Longrightarrow> P (set_rx_pos ops p s)"
    and "\<And>s. P s \<Longrightarrow> P (rx_notify ops s)" and "\<And>s. P s \<Longrightarrow> P (rx_preempt ops s)"
  shows "P s'"
  using assms(1) unfolding console_pop_input_def by (rule pop_loop_keeps) (rule assms(2-6), assumption?)+

text \<open>\<open>stream k s\<close> are the bytes that the interrupts of the next \<open>k\<close> preemptions append.\<close>

locale rx_buffer =
  fixes ops :: "'s rx_ops" and inv :: "'s \<Rightarrow> bool" and stream :: "nat \<Rightarrow> 's \<Rightarrow> u8 list"
    and woken :: "'s \<Rightarrow> bool"
  assumes room: "inv s \<Longrightarrow> unat (rx_pos ops s) \<le> length (rx_buf ops s)"
    and pos_set_buf [simp]: "rx_pos ops (set_rx_buf ops b s) = rx_pos ops s"
    and buf_set_buf [simp]: "rx_buf ops (set_rx_buf ops b s) = b"
    and inv_set_buf: "inv s \<Longrightarrow> length b = length (rx_buf ops s) \<Longrightarrow> inv (set_rx_buf ops b s)"
    and stream_set_buf [simp]: "stream k (set_rx_buf ops b s) = stream k s"
    and pos_set_pos [simp]: "rx_pos ops (set_rx_pos ops p s) = p"
    and buf_set_pos [simp]: "rx_buf ops (set_rx_pos ops p s) = rx_buf ops s"
    and inv_set_pos: "inv s \<Longrightarrow> unat p \<le> length (rx_buf ops s) \<Longrightarrow> inv (set_rx_pos ops p s)"
    and pos_notify [simp]: "rx_pos ops (rx_notify ops s) = rx_pos ops s"
    and buf_notify [simp]: "rx_buf ops (rx_notify ops s) = rx_buf ops s"
    and inv_notify: "inv s \<Longrightarrow> inv (rx_notify ops s)"
    and stream_notify [simp]: "stream k (rx_notify ops s) = stream k s"
    and stream_0 [simp]: "stream 0 s = []"
    and stream_Suc: "inv s \<Longrightarrow> stream (Suc k) s = stream 1 s @ stream k (rx_preempt ops s)"
    and preempt_content: "inv s \<Longrightarrow> rx_content ops (rx_preempt ops s) = rx_content ops s @ stream 1 s"
    and preempt_length: "inv s \<Longrightarrow> length (rx_buf ops (rx_preempt ops s)) = length (rx_buf ops s)"
    and preempt_inv: "inv s \<Longrightarrow> inv (rx_preempt ops s)"
    and woken_notify: "woken (rx_notify ops s)"
    and woken_preempt: "woken s \<Longrightarrow> woken (rx_preempt ops s)"
    and woken_set_pos: "woken s \<Longrightarrow> woken (set_rx_pos ops p s)"
begin

text \<open>Between two turns the buffer holds the copied part, a gap of \<open>len\<close> bytes, and the rest.\<close>

lemma pop_copy_content:
  assumes inv: "inv s" and le: "copied + len \<le> unat (rx_pos ops s)"
    and pc: "pop_copy ops len copied s = (copied', s')"
  shows "inv s' \<and> rx_pos ops s' = rx_pos ops s \<and> length (rx_buf ops s') = length (rx_buf ops s) \<and>
    copied' + len = unat (rx_pos ops s) \<and> (copied' = 0 \<or> woken s') \<and>
    take copied' (rx_buf ops s') =
      take copied (rx_buf ops s) @ drop (copied + len) (rx_content ops s) \<and>
    stream k s' = stream k s"
proof (cases "unat (rx_pos ops s) = len")
  case True
  then show ?thesis using assms by (simp add: pop_copy_def)
next
  case False
  let ?p = "unat (rx_pos ops s)" and ?b = "rx_buf ops s"
  let ?m = "take (?p - len - copied) (drop (copied + len) ?b)"
  have lenb: "?p \<le> length ?b" by (rule room [OF inv])
  have lenm: "length ?m = ?p - len - copied" using lenb by simp
  have bl: "length (blit ?b copied ?m) = length ?b" using lenb le lenm by (intro length_blit) linarith
  have c': "copied' = ?p - len" "s' = rx_notify ops (set_rx_buf ops (blit ?b copied ?m) s)"
    using pc False le by (auto simp: pop_copy_def Let_def simp del: diff_diff_left)
  have "take copied' (blit ?b copied ?m) = take copied ?b @ ?m"
  proof -
    obtain d where "?p = copied + len + d" using le le_Suc_ex by blast
    then show ?thesis using lenb unfolding c'(1) by (simp add: blit_def min_def) arith
  qed
  moreover have "?m = drop (copied + len) (take ?p ?b)"
    using le by (simp add: drop_take add.commute)
  ultimately show ?thesis
    using inv bl le c' by (auto intro: inv_notify inv_set_buf woken_notify)
qed

lemma pop_loop_content:
  "inv s \<Longrightarrow> copied + len \<le> unat (rx_pos ops s) \<Longrightarrow>
   \<exists>s' k. console_pop_loop ops len copied s = Some s' \<and> inv s' \<and> (rx_content ops s' = [] \<or> woken s') \<and>
     rx_content ops s' = take copied (rx_buf ops s) @ drop (copied + len) (rx_content ops s) @ stream k s"
proof (induction "length (rx_buf ops s) - unat (rx_pos ops s)" arbitrary: s copied rule: less_induct)
  case less
  obtain copied' s1 where pc: "pop_copy ops len copied s = (copied', s1)"
    by (cases "pop_copy ops len copied s")
  let ?s2 = "rx_preempt ops s1"
  let ?have = "take copied (rx_buf ops s) @ drop (copied + len) (rx_content ops s)"
  have s1: "inv s1" "rx_pos ops s1 = rx_pos ops s" "length (rx_buf ops s1) = length (rx_buf ops s)"
    "copied' + len = unat (rx_pos ops s)" "take copied' (rx_buf ops s1) = ?have" "copied' = 0 \<or> woken s1"
    and st: "stream k s1 = stream k s" for k
    using pop_copy_content [OF less.prems pc] by auto
  have s2: "inv ?s2" "rx_content ops ?s2 = rx_content ops s1 @ stream 1 s"
      "length (rx_buf ops ?s2) = length (rx_buf ops s)"
    using preempt_inv preempt_content preempt_length s1(1,3) st by auto
  have len2: "unat (rx_pos ops ?s2) = unat (rx_pos ops s) + length (stream 1 s)"
    using arg_cong [OF s2(2), of length] room [OF s1(1)] room [OF s2(1)] s1(2) by simp
  have pre: "take copied' (rx_buf ops ?s2) = ?have"
  proof -
    have "take copied' (rx_content ops ?s2) = take copied' (rx_content ops s1)"
      unfolding s2(2) using room [OF s1(1)] s1(2,4) by simp
    then show ?thesis using len2 s1(2,4,5) by (simp add: min_def)
  qed
  have rest: "drop (copied' + len) (rx_content ops ?s2) = stream 1 s"
    unfolding s2(2) using room [OF s1(1)] s1(2,4) by simp
  show ?case
  proof (cases "rx_pos ops ?s2 = rx_pos ops s")
    case True
    have p: "unat (rx_pos ops s - of_nat len) = copied'"
    proof -
      have "(of_nat copied' :: u8) + of_nat len = rx_pos ops s"
        using arg_cong [OF s1(4), of "of_nat :: nat \<Rightarrow> u8"] by simp
      then have "rx_pos ops s - of_nat len = (of_nat copied' :: u8)"
        by (metis add_diff_cancel_right')
      moreover have "copied' < 256" using s1(4) unat_u8_less [of "rx_pos ops s"] by linarith
      ultimately show ?thesis by (simp add: unat_of_nat take_bit_nat_eq_self)
    qed
    have "console_pop_loop ops len copied s = Some (set_rx_pos ops (rx_pos ops s - of_nat len) ?s2)"
      using True by (subst console_pop_loop.simps) (simp add: pc Let_def)
    moreover have "copied' \<le> length (rx_buf ops ?s2)"
      using s2(3) room [OF s1(1)] s1(2-4) by simp
    moreover have "rx_content ops (set_rx_pos ops (rx_pos ops s - of_nat len) ?s2) = [] \<or>
        woken (set_rx_pos ops (rx_pos ops s - of_nat len) ?s2)"
      using s1(6) p woken_preempt woken_set_pos by auto
    ultimately show ?thesis
      using pre p s2(1) inv_set_pos [OF s2(1)]
      by (intro exI [of _ "set_rx_pos ops (rx_pos ops s - of_nat len) ?s2"] exI [of _ 0]) simp
  next
    case False
    then have grew: "0 < length (stream 1 s)" using len2 by (auto simp: word_unat_eq_iff)
    have less': "length (rx_buf ops ?s2) - unat (rx_pos ops ?s2) < length (rx_buf ops s) - unat (rx_pos ops s)"
      using grew len2 s2(3) room [OF s2(1)] by linarith
    have "copied' + len \<le> unat (rx_pos ops ?s2)" using len2 s1(4) by simp
    from less.hyps [OF less' s2(1) this] obtain s' k where r: "console_pop_loop ops len copied' ?s2 = Some s'" "inv s'"
        "rx_content ops s' = [] \<or> woken s'"
        "rx_content ops s' = take copied' (rx_buf ops ?s2) @ drop (copied' + len) (rx_content ops ?s2) @ stream k ?s2"
      by blast
    note rec = r(1-3) r(4) [unfolded pre rest]
    have "console_pop_loop ops len copied s = Some s'"
      using False rec(1) by (subst console_pop_loop.simps) (simp add: pc Let_def)
    moreover have "stream 1 s @ stream k ?s2 = stream (Suc k) s"
      using st stream_Suc [OF s1(1), of k] by simp
    ultimately show ?thesis using rec(2-4) by (intro exI [of _ s'] exI [of _ "Suc k"]) simp
  qed
qed

text \<open>The block goes, the rest stays, and what arrived meanwhile follows it; the loop ends.\<close>

lemma pop_input_content:
  assumes "inv s" and "len \<le> unat (rx_pos ops s)"
  obtains s' k where "console_pop_input ops len s = Some s'" "inv s'"
    "rx_content ops s' = [] \<or> woken s'" "rx_content ops s' = drop len (rx_content ops s) @ stream k s"
  using pop_loop_content [of s 0 len] assms
  unfolding console_pop_input_def take_0 append_Nil add_0 by blast

end

section \<open>Sending whole frames\<close>

text \<open>The weaker contract, which also holds while an interrupt empties the queue: \<open>out\<close> is what was
  sent and what is queued.\<close>

locale console_stream =
  fixes sendf :: "command_encoder \<Rightarrow> 's \<Rightarrow> 's" and out :: "'s \<Rightarrow> u8 list" and inv :: "'s \<Rightarrow> bool"
  assumes sendf_inv: "inv s \<Longrightarrow> inv (sendf ce s)"
    and sendf_out: "inv s \<Longrightarrow> out (sendf ce s) = out s \<or> out (sendf ce s) = out s @ command_encode_and_frame ce"
begin

lemma sends_inv: "inv s \<Longrightarrow> inv (fold sendf ces s)"
  by (induction ces arbitrary: s) (simp_all add: sendf_inv)

text \<open>Any messages at all: the output grows by the frames of a subsequence of them, each whole.\<close>

lemma sends_whole_frames:
  "inv s \<Longrightarrow> \<exists>sent. subseq sent ces \<and>
     out (fold sendf ces s) = out s @ concat (map command_encode_and_frame sent)"
proof (induction ces arbitrary: s)
  case (Cons ce ces)
  then obtain sent where sent: "subseq sent ces"
      "out (fold sendf ces (sendf ce s)) = out (sendf ce s) @ concat (map command_encode_and_frame sent)"
    using sendf_inv by blast
  from sendf_out [OF Cons.prems, of ce] show ?case
  proof
    assume "out (sendf ce s) = out s"
    with sent show ?case by (intro exI [of _ sent]) auto
  next
    assume "out (sendf ce s) = out s @ command_encode_and_frame ce"
    with sent show ?case by (intro exI [of _ "ce # sent"]) auto
  qed
qed (simp add: exI [of _ "[]"])

end

text \<open>The full contract: which messages are queued is determined by the room there is.\<close>

locale console_tx =
  fixes sendf :: "command_encoder \<Rightarrow> 's \<Rightarrow> 's" and pending :: "'s \<Rightarrow> u8 list" and size :: nat
    and inv :: "'s \<Rightarrow> bool"
  assumes tx_inv: "inv s \<Longrightarrow> inv (sendf ce s)"
    and tx_pending: "inv s \<Longrightarrow> pending (sendf ce s) =
      (if length (pending s) + ce_max_size ce \<le> size then pending s @ command_encode_and_frame ce else pending s)"

sublocale console_tx \<subseteq> console_stream sendf pending inv
  by unfold_locales (simp_all add: tx_inv tx_pending)

context console_tx
begin

text \<open>Messages that fit together are all queued, in order.\<close>

lemma sends_all:
  "inv s \<Longrightarrow> length (pending s) + sum_list (map ce_max_size ces) \<le> size \<Longrightarrow>
   pending (fold sendf ces s) = pending s @ concat (map command_encode_and_frame ces)"
proof (induction ces arbitrary: s)
  case (Cons ce ces)
  have "length (command_encode_and_frame ce) \<le> ce_max_size ce" by (simp add: command_encode_and_frame_def)
  then have "length (pending (sendf ce s)) + sum_list (map ce_max_size ces) \<le> size"
    using Cons.prems by (simp add: tx_pending)
  then have "pending (fold sendf ces (sendf ce s)) =
      pending (sendf ce s) @ concat (map command_encode_and_frame ces)"
    by (rule Cons.IH [OF tx_inv [OF Cons.prems(1)]])
  then show ?case using Cons.prems by (simp add: tx_pending)
qed simp

end

end
