(* ===== verification/CanSerial.thy ===== *)
theory CanSerial
  imports Console Dispatch
begin

text \<open>
  The console over CAN: \<open>generic/canserial.c\<close> and the wrappers of \<open>generic/canbus.c\<close>. The global
  \<open>CanData\<close> is a record with the fields at their width. \<open>canserial_process_data\<close> and
  \<open>canserial_notify_tx\<close> are called from interrupts, which may come while the receive task runs:
  the environment holds the interrupts still to come in groups, and each point where the task
  touches shared data takes the next group. The CAN hardware is a record of two functions on a
  state of its own. The retry loops around \<open>canbus_send\<close> may not end, so what calls them is
  \<open>None\<close> when the hardware never takes the message.

  Uninitialised bytes of a local \<open>canbus_msg\<close> are zero here; they are never sent, because the
  hardware sends \<open>dlc\<close> bytes.
\<close>

section \<open>Messages and the hardware\<close>

record canbus_msg =
  msg_id :: u32
  dlc :: u32
  msg_data :: "u8 list"

definition CANMSG_DATA_LEN :: "canbus_msg \<Rightarrow> u32" where
  "CANMSG_DATA_LEN msg = (if dlc msg > 8 then 8 else dlc msg)"

abbreviation (input) CANBUS_ID_ADMIN :: u32 where "CANBUS_ID_ADMIN \<equiv> 0x3f0"
abbreviation (input) CANBUS_ID_ADMIN_RESP :: u32 where "CANBUS_ID_ADMIN_RESP \<equiv> 0x3f1"

record 'h can_hw =
  canhw_send :: "canbus_msg \<Rightarrow> 'h \<Rightarrow> int \<times> 'h"
  canhw_set_filter :: "u32 \<Rightarrow> 'h \<Rightarrow> 'h"

definition canbus_send :: "'h can_hw \<Rightarrow> canbus_msg \<Rightarrow> 'h \<Rightarrow> int \<times> 'h" where
  "canbus_send hw msg d = canhw_send hw msg d"

definition canbus_set_filter :: "'h can_hw \<Rightarrow> u32 \<Rightarrow> 'h \<Rightarrow> 'h" where
  "canbus_set_filter hw cid d = canhw_set_filter hw cid d"

section \<open>Task wake-ups\<close>

text \<open>\<open>struct task_wake\<close> of \<open>sched.h\<close> is one byte.\<close>

definition sched_wake_task :: "u8 \<Rightarrow> u8" where
  "sched_wake_task w = 1"

definition sched_check_wake :: "u8 \<Rightarrow> bool \<times> u8" where
  "sched_check_wake w = (if w = 0 then (False, w) else (True, 0))"

section \<open>The state\<close>

record can_data =
  assigned_id :: u32
  can_uuid :: "u8 list"
  tx_wake :: u8
  transmit_pos :: u8
  transmit_max :: u8
  rx_wake :: u8
  receive_pos :: u8
  id_conflict_pending :: u8
  admin_pull_pos :: u32
  admin_push_pos :: u32
  admin_queue :: "canbus_msg list"
  transmit_buf :: "u8 list"
  receive_buf :: "u8 list"

datatype can_irq = Rx_Frame canbus_msg | Tx_Done

record 'h can_env =
  cd :: can_data
  can_dev :: 'h
  arrivals :: "can_irq list list"

section \<open>Transmission\<close>

definition canserial_notify_tx :: "can_data \<Rightarrow> can_data" where
  "canserial_notify_tx s = s\<lparr>tx_wake := sched_wake_task (tx_wake s)\<rparr>"

definition canbus_notify_tx :: "can_data \<Rightarrow> can_data" where
  "canbus_notify_tx s = canserial_notify_tx s"

text \<open>The loop of \<open>canserial_tx_task\<close>; \<open>data\<close> is the local message's buffer, which keeps the bytes
  of the last message. The result is the final \<open>tpos\<close>.\<close>

function can_tx_loop :: "'h can_hw \<Rightarrow> u32 \<Rightarrow> u8 list \<Rightarrow> nat \<Rightarrow> nat \<Rightarrow> u8 list \<Rightarrow> 'h \<Rightarrow> nat \<times> 'h" where
  "can_tx_loop hw mid buf tpos tmax data d =
     (if tmax \<le> tpos then (tpos, d)
      else
        let now = (if tmax - tpos > 8 then 8 else tmax - tpos);
            data = blit data 0 (take now (drop tpos buf));
            (ret, d) = canbus_send hw \<lparr> msg_id = mid, dlc = of_nat now, msg_data = data \<rparr> d
        in if ret \<le> 0 then (tpos, d) else can_tx_loop hw mid buf (tpos + now) tmax data d)"
  by pat_completeness auto
termination by (relation "measure (\<lambda>(_, _, _, tpos, tmax, _, _). tmax - tpos)") auto

declare can_tx_loop.simps [simp del]

definition canserial_tx_task :: "'h can_hw \<Rightarrow> 'h can_env \<Rightarrow> 'h can_env" where
  "canserial_tx_task hw e =
     (let s = cd e; (woken, w) = sched_check_wake (tx_wake s); s = s\<lparr>tx_wake := w\<rparr> in
      if \<not> woken then e\<lparr>cd := s\<rparr>
      else if assigned_id s = 0 then e\<lparr>cd := s\<lparr>transmit_pos := 0, transmit_max := 0\<rparr>\<rparr>
      else
        let (tpos, d) = can_tx_loop hw (assigned_id s + 1) (transmit_buf s) (unat (transmit_pos s))
                          (unat (transmit_max s)) (replicate 8 0) (can_dev e)
        in e\<lparr>cd := s\<lparr>transmit_pos := of_nat tpos\<rparr>, can_dev := d\<rparr>)"

definition can_console_sendf :: "command_encoder \<Rightarrow> can_data \<Rightarrow> can_data" where
  "can_console_sendf ce s =
     (let s = (if transmit_pos s \<ge> transmit_max s then s\<lparr>transmit_pos := 0, transmit_max := 0\<rparr> else s);
          tpos = unat (transmit_pos s); tmax = unat (transmit_max s); max_size = ce_max_size ce in
      if tmax + max_size > 96 \<and> tmax + max_size - tpos > 96 then s
      else
        let (s, tmax) =
              (if tmax + max_size > 96 then
                 (let tmax' = tmax - tpos in
                  (s\<lparr>transmit_buf := blit (transmit_buf s) 0 (take tmax' (drop tpos (transmit_buf s))),
                     transmit_pos := 0, transmit_max := of_nat tmax'\<rparr>, tmax'))
               else (s, tmax));
            msg = command_encode_and_frame ce
        in canserial_notify_tx (s\<lparr>transmit_buf := blit (transmit_buf s) tmax msg,
             transmit_max := of_nat (tmax + length msg)\<rparr>))"

section \<open>Reception in the interrupt handler\<close>

definition canserial_notify_rx :: "can_data \<Rightarrow> can_data" where
  "canserial_notify_rx s = s\<lparr>rx_wake := sched_wake_task (rx_wake s)\<rparr>"

definition canserial_process_data :: "canbus_msg \<Rightarrow> can_data \<Rightarrow> int \<times> can_data" where
  "canserial_process_data msg s =
     (let mid = msg_id msg in
      if assigned_id s \<noteq> 0 \<and> mid = assigned_id s then
        (let rpos = unat (receive_pos s); len = CANMSG_DATA_LEN msg in
         if unat len > 192 - rpos then (-1, s)
         else (0, canserial_notify_rx (s\<lparr>receive_buf := blit (receive_buf s) rpos (take (unat len) (msg_data msg)),
                                         receive_pos := of_nat (rpos + unat len)\<rparr>)))
      else if assigned_id s \<noteq> 0 \<and> mid = assigned_id s + 1 then
        (0, canserial_notify_rx (s\<lparr>id_conflict_pending := 1\<rparr>))
      else if mid = CANBUS_ID_ADMIN then
        (let pushp = admin_push_pos s in
         if pushp \<ge> admin_pull_pos s + 8 then (-1, s)
         else (0, canserial_notify_rx (s\<lparr>admin_queue := (admin_queue s)[unat (pushp mod 8) := msg],
                                         admin_push_pos := pushp + 1\<rparr>)))
      else (0, s))"

definition canbus_process_data :: "canbus_msg \<Rightarrow> can_data \<Rightarrow> can_data" where
  "canbus_process_data msg s = snd (canserial_process_data msg s)"

fun can_interrupt :: "can_irq \<Rightarrow> can_data \<Rightarrow> can_data" where
  "can_interrupt (Rx_Frame msg) s = canbus_process_data msg s"
| "can_interrupt Tx_Done s = canbus_notify_tx s"

text \<open>Interrupts that come at one point of a task.\<close>

definition preempt :: "'h can_env \<Rightarrow> 'h can_env" where
  "preempt e = (case arrivals e of [] \<Rightarrow> e
     | irqs # rest \<Rightarrow> e\<lparr>cd := fold can_interrupt irqs (cd e), arrivals := rest\<rparr>)"

section \<open>Admin commands\<close>

definition can_check_uuid :: "canbus_msg \<Rightarrow> can_data \<Rightarrow> bool" where
  "can_check_uuid msg s \<longleftrightarrow> dlc msg \<ge> 7 \<and> take 6 (drop 1 (msg_data msg)) = take 6 (can_uuid s)"

definition can_decode_nodeid :: "int \<Rightarrow> u32" where
  "can_decode_nodeid short_id =
     (if short_id < 1 \<or> short_id > 29 then 0 else push_bit 5 (word_of_int short_id) + 0x020)"

text \<open>\<open>for (;;) { int ret = canbus_send(&msg); if (ret >= 0) break; }\<close>\<close>

partial_function (option) can_send_retry :: "'h can_hw \<Rightarrow> canbus_msg \<Rightarrow> 'h \<Rightarrow> 'h option" where
  "can_send_retry hw msg d =
     (let (ret, d) = canbus_send hw msg d in if ret \<ge> 0 then Some d else can_send_retry hw msg d)"

definition need_nodeid_msg :: "can_data \<Rightarrow> canbus_msg" where
  "need_nodeid_msg s = \<lparr> msg_id = CANBUS_ID_ADMIN_RESP, dlc = 8,
     msg_data = [0x20] @ take 6 (can_uuid s) @ [254] \<rparr>"

definition can_process_query_unassigned :: "'h can_hw \<Rightarrow> 'h can_env \<Rightarrow> 'h can_env option" where
  "can_process_query_unassigned hw e =
     (if assigned_id (cd e) \<noteq> 0 then Some e
      else do {
        d \<leftarrow> can_send_retry hw (need_nodeid_msg (cd e)) (can_dev e);
        Some (e\<lparr>can_dev := d\<rparr>)
      })"

definition can_assign :: "'h can_hw \<Rightarrow> u32 \<Rightarrow> 'h can_env \<Rightarrow> 'h can_env" where
  "can_assign hw newid e =
     e\<lparr>cd := (cd e)\<lparr>assigned_id := newid\<rparr>, can_dev := canbus_set_filter hw newid (can_dev e)\<rparr>"

definition can_process_clear_canboot_nodeid :: "'h can_hw \<Rightarrow> 'h can_env \<Rightarrow> 'h can_env" where
  "can_process_clear_canboot_nodeid hw e = can_assign hw 0 e"

definition can_id_conflict :: "'h can_hw \<Rightarrow> 'h can_env \<Rightarrow> 'h can_env" where
  "can_id_conflict hw e = can_assign hw 0 e"

definition nodeid_ack_msg :: "canbus_msg \<Rightarrow> canbus_msg" where
  "nodeid_ack_msg msg = \<lparr> msg_id = CANBUS_ID_ADMIN_RESP, dlc = 8,
     msg_data = [0x21, msg_data msg ! 7, 254, 0x01] @ replicate 4 0 \<rparr>"

definition can_process_set_canboot_nodeid :: "'h can_hw \<Rightarrow> canbus_msg \<Rightarrow> 'h can_env \<Rightarrow> 'h can_env option" where
  "can_process_set_canboot_nodeid hw msg e =
     (if dlc msg < 8 then Some e
      else
        let newid = can_decode_nodeid (uint (msg_data msg ! 7)) in
        if newid = 0 then Some e
        else if can_check_uuid msg (cd e) then
          (if newid \<noteq> assigned_id (cd e) then do {
             let e = can_assign hw newid e;
             d \<leftarrow> can_send_retry hw (nodeid_ack_msg msg) (can_dev e);
             Some (e\<lparr>can_dev := d\<rparr>)
           } else Some e)
        else if newid = assigned_id (cd e) then Some (can_id_conflict hw e)
        else Some e)"

definition can_process_admin :: "'h can_hw \<Rightarrow> canbus_msg \<Rightarrow> 'h can_env \<Rightarrow> 'h can_env option" where
  "can_process_admin hw msg e =
     (if dlc msg = 0 then Some e
      else if msg_data msg ! 0 = 0x00 then can_process_query_unassigned hw e
      else if msg_data msg ! 0 = 0x11 then can_process_set_canboot_nodeid hw msg e
      else if msg_data msg ! 0 = 0x12 then Some (can_process_clear_canboot_nodeid hw e)
      else Some e)"

section \<open>The receive task\<close>

partial_function (option) can_admin_loop :: "'h can_hw \<Rightarrow> 'h can_env \<Rightarrow> 'h can_env option" where
  "can_admin_loop hw e =
     (let e = preempt e;
          pushp = admin_push_pos (cd e);
          pullp = admin_pull_pos (cd e)
      in if pushp = pullp then Some e
         else
           let msg = admin_queue (cd e) ! unat (pullp mod 8) in do {
             e \<leftarrow> (if msg_id msg = CANBUS_ID_ADMIN then can_process_admin hw msg e else Some e);
             let e = preempt e;
             can_admin_loop hw (e\<lparr>cd := (cd e)\<lparr>admin_pull_pos := pullp + 1\<rparr>\<rparr>)
           })"

definition can_rx_ops :: "'h can_env rx_ops" where
  "can_rx_ops = \<lparr> rx_pos = (\<lambda>e. receive_pos (cd e)), rx_buf = (\<lambda>e. receive_buf (cd e)),
     set_rx_pos = (\<lambda>p e. e\<lparr>cd := (cd e)\<lparr>receive_pos := p\<rparr>\<rparr>),
     set_rx_buf = (\<lambda>b e. e\<lparr>cd := (cd e)\<lparr>receive_buf := b\<rparr>\<rparr>),
     rx_notify = (\<lambda>e. e\<lparr>cd := canserial_notify_rx (cd e)\<rparr>), rx_preempt = preempt \<rparr>"

record ('f, 'h) can_node =
  node_env :: "'h can_env"
  node_sync :: u8
  node_app :: "'f app"
  heartbeat_last_time :: u32

definition can_handle_conflict :: "'h can_hw \<Rightarrow> 'h can_env \<Rightarrow> 'h can_env" where
  "can_handle_conflict hw e =
     (if id_conflict_pending (cd e) \<noteq> 0 then
        (let e = preempt e; e = e\<lparr>cd := (cd e)\<lparr>id_conflict_pending := 0\<rparr>\<rparr> in can_id_conflict hw e)
      else e)"

text \<open>The last part of \<open>canserial_rx_task\<close>: find a block in what was received, dispatch it, and
  remove it.\<close>

definition can_rx_block :: "config \<Rightarrow> 'f flash_api \<Rightarrow> u32 \<Rightarrow> ('f, 'h) can_node \<Rightarrow> ('f, 'h) can_node option" where
  "can_rx_block c api now nd =
     (let e = node_env nd; rpos = unat (receive_pos (cd e));
          (ret, pop_count, sync, ms) = command_find_block (take rpos (receive_buf (cd e))) (node_sync nd);
          e = e\<lparr>cd := fold can_console_sendf ms (cd e)\<rparr>;
          nd = nd\<lparr>node_env := e, node_sync := sync\<rparr>
      in do {
        nd \<leftarrow> (if ret > 0 then do {
            (st, ms) \<leftarrow> command_dispatch c api (can_uuid (cd e)) now (receive_buf (cd e)) pop_count (node_app nd);
            let e = preempt e;
            Some (nd\<lparr>node_app := st, node_env := e\<lparr>cd := fold can_console_sendf ms (cd e)\<rparr>\<rparr>)
          } else Some nd);
        (if ret \<noteq> 0 then do {
            e \<leftarrow> console_pop_input can_rx_ops pop_count (preempt (node_env nd));
            Some (nd\<lparr>node_env := e\<rparr>)
          } else Some nd)
      })"

definition canserial_rx_task :: "config \<Rightarrow> 'f flash_api \<Rightarrow> 'h can_hw \<Rightarrow> u32 \<Rightarrow> ('f, 'h) can_node
    \<Rightarrow> ('f, 'h) can_node option" where
  "canserial_rx_task c api hw now nd =
     (let e = node_env nd; (woken, w) = sched_check_wake (rx_wake (cd e));
          e = e\<lparr>cd := (cd e)\<lparr>rx_wake := w\<rparr>\<rparr>
      in if \<not> woken then Some (nd\<lparr>node_env := e\<rparr>)
         else do {
           e \<leftarrow> can_admin_loop hw (can_handle_conflict hw (preempt e));
           can_rx_block c api now (nd\<lparr>node_env := preempt e\<rparr>)
         })"

section \<open>Heartbeat and setup\<close>

definition canserial_heartbeat_init :: "u32 \<Rightarrow> ('f, 'h) can_node \<Rightarrow> ('f, 'h) can_node" where
  "canserial_heartbeat_init now nd = nd\<lparr>heartbeat_last_time := now\<rparr>"

definition heartbeat_msg :: "u32 \<Rightarrow> canbus_msg" where
  "heartbeat_msg aid = \<lparr> msg_id = 0x700 + drop_bit 5 (aid - 0x020), dlc = 1, msg_data = 0x04 # replicate 7 0 \<rparr>"

definition canserial_heartbeat_task :: "config \<Rightarrow> 'h can_hw \<Rightarrow> u32 \<Rightarrow> ('f, 'h) can_node \<Rightarrow> ('f, 'h) can_node" where
  "canserial_heartbeat_task c hw now nd =
     (let e = node_env nd in
      if assigned_id (cd e) = 0 then nd
      else if timer_is_before (heartbeat_last_time nd + timer_from_us c 2500000) now then
        (let d = snd (canbus_send hw (heartbeat_msg (assigned_id (cd e))) (can_dev e))
         in nd\<lparr>node_env := e\<lparr>can_dev := d\<rparr>, heartbeat_last_time := now\<rparr>)
      else nd)"

definition canserial_set_uuid :: "u8 list \<Rightarrow> can_data \<Rightarrow> can_data" where
  "canserial_set_uuid raw_uuid s =
     (let hash = fasthash64 raw_uuid 0xA16231A7
      in canserial_notify_rx (s\<lparr>can_uuid := take 6 (bytes_of_u64 hash)\<rparr>))"

definition canserial_shutdown :: "can_data \<Rightarrow> can_data" where
  "canserial_shutdown s = canserial_notify_rx (canserial_notify_tx s)"

definition canserial_has_assigned_id :: "can_data \<Rightarrow> bool" where
  "canserial_has_assigned_id s \<longleftrightarrow> assigned_id s \<noteq> 0"

end
