(* ===== verification/CanSerialInv.thy ===== *)
theory CanSerialInv
  imports CanSerial
begin

text \<open>
  What holds of the CAN console in every state it can reach: the bounds of its buffers and
  queue positions, the values of the assigned id, and that every task and interrupt keeps them. The
  contracts of theory \<open>Console\<close> are interpreted here on \<open>can_console_sendf\<close> and on the receive
  buffer.
\<close>

section \<open>Well-formed states\<close>

definition msg_ok :: "canbus_msg \<Rightarrow> bool" where
  "msg_ok m \<longleftrightarrow> length (msg_data m) = 8"

fun irq_ok :: "can_irq \<Rightarrow> bool" where
  "irq_ok (Rx_Frame m) = msg_ok m"
| "irq_ok Tx_Done = True"

definition id_ok :: "u32 \<Rightarrow> bool" where
  "id_ok aid \<longleftrightarrow> aid = 0 \<or> (\<exists>i \<in> {1..29}. unat aid = 32 * i + 32)"

definition can_ok :: "can_data \<Rightarrow> bool" where
  "can_ok s \<longleftrightarrow> length (can_uuid s) = 6 \<and> id_ok (assigned_id s) \<and>
     length (transmit_buf s) = 96 \<and> transmit_pos s \<le> transmit_max s \<and> unat (transmit_max s) \<le> 96 \<and>
     length (receive_buf s) = 192 \<and> unat (receive_pos s) \<le> 192 \<and>
     length (admin_queue s) = 8 \<and> list_all msg_ok (admin_queue s) \<and>
     unat (admin_push_pos s - admin_pull_pos s) \<le> 8"

definition env_ok :: "'h can_env \<Rightarrow> bool" where
  "env_ok e \<longleftrightarrow> can_ok (cd e) \<and> list_all (list_all irq_ok) (arrivals e)"

lemma can_okD:
  assumes "can_ok s"
  shows "length (can_uuid s) = 6" "id_ok (assigned_id s)" "length (transmit_buf s) = 96"
    "transmit_pos s \<le> transmit_max s" "unat (transmit_max s) \<le> 96" "length (receive_buf s) = 192"
    "unat (receive_pos s) \<le> 192" "length (admin_queue s) = 8" "list_all msg_ok (admin_queue s)"
    "unat (admin_push_pos s - admin_pull_pos s) \<le> 8"
  using assms by (simp_all add: can_ok_def)

lemma unat_of_nat_u8: "n < 256 \<Longrightarrow> unat (of_nat n :: u8) = n"
  by (simp add: unat_of_nat take_bit_nat_eq_self)

lemma CANMSG_DATA_LEN_le: "unat (CANMSG_DATA_LEN m) \<le> 8"
  by (auto simp: CANMSG_DATA_LEN_def word_less_nat_alt not_less)

lemma can_ok_wakes [simp]: "can_ok (s\<lparr>rx_wake := w\<rparr>) = can_ok s" "can_ok (s\<lparr>tx_wake := w\<rparr>) = can_ok s"
    "can_ok (s\<lparr>id_conflict_pending := p\<rparr>) = can_ok s"
  by (simp_all add: can_ok_def)

lemma can_ok_notify [simp]:
  "can_ok (canserial_notify_rx s) = can_ok s" "can_ok (canserial_notify_tx s) = can_ok s"
  by (simp_all add: canserial_notify_rx_def canserial_notify_tx_def)

section \<open>Interrupts\<close>

lemma admin_push_ok:
  assumes "unat (push - pull) \<le> 8" and "\<not> push \<ge> pull + (8 :: u32)"
  shows "unat (push + 1 - pull) \<le> 8"
proof -
  have "unat (push - pull) \<noteq> 8"
  proof
    assume "unat (push - pull) = 8"
    then have "push - pull = 8" by (simp add: word_unat_eq_iff)
    then have "push = pull + 8" by (simp add: algebra_simps)
    with assms(2) show False by simp
  qed
  then have "unat (push - pull + 1) = unat (push - pull) + 1"
    using assms(1) unat_add_nat [of "push - pull" 1] by simp
  then show ?thesis using assms(1) \<open>unat (push - pull) \<noteq> 8\<close> by (simp add: algebra_simps)
qed

lemma unat_add_u8: "unat a + unat (n :: u32) < 256 \<Longrightarrow> unat (a + ucast n :: u8) = unat a + unat n"
  using unat_of_nat_u8 [of "unat a + unat n"] by simp

text \<open>The four things \<open>canserial_process_data\<close> can do.\<close>

lemma process_data_cases:
  obtains (ignore) "canbus_process_data m s = s"
  | (rx) "unat (CANMSG_DATA_LEN m) \<le> 192 - unat (receive_pos s)" "assigned_id s \<noteq> 0" "msg_id m = assigned_id s"
      "canbus_process_data m s = canserial_notify_rx (s\<lparr>receive_buf := blit (receive_buf s) (unat (receive_pos s))
         (take (unat (CANMSG_DATA_LEN m)) (msg_data m)),
       receive_pos := of_nat (unat (receive_pos s) + unat (CANMSG_DATA_LEN m))\<rparr>)"
  | (conflict) "assigned_id s \<noteq> 0" "msg_id m = assigned_id s + 1"
      "canbus_process_data m s = canserial_notify_rx (s\<lparr>id_conflict_pending := 1\<rparr>)"
  | (admin) "\<not> admin_push_pos s \<ge> admin_pull_pos s + 8" "msg_id m = CANBUS_ID_ADMIN"
      "canbus_process_data m s = canserial_notify_rx (s\<lparr>admin_queue := (admin_queue s)[unat (admin_push_pos s mod 8) := m],
       admin_push_pos := admin_push_pos s + 1\<rparr>)"
proof (cases "assigned_id s \<noteq> 0 \<and> msg_id m = assigned_id s")
  case True
  then show ?thesis
    by (cases "unat (CANMSG_DATA_LEN m) > 192 - unat (receive_pos s)"; intro ignore rx)
       (simp_all add: canbus_process_data_def canserial_process_data_def Let_def)
next
  case False
  note nrx = False
  show ?thesis
  proof (cases "assigned_id s \<noteq> 0 \<and> msg_id m = assigned_id s + 1")
    case True
    with nrx show ?thesis
      by (intro conflict) (auto simp: canbus_process_data_def canserial_process_data_def Let_def)
  next
    case False
    show ?thesis
    proof (cases "msg_id m = CANBUS_ID_ADMIN \<and> \<not> admin_push_pos s \<ge> admin_pull_pos s + 8")
      case True
      show ?thesis
        by (rule admin) (use nrx False True in \<open>auto simp: canbus_process_data_def canserial_process_data_def Let_def\<close>)
    qed (rule ignore, use nrx False in \<open>auto simp: canbus_process_data_def canserial_process_data_def Let_def\<close>)
  qed
qed

lemma list_all_update: "list_all P xs \<Longrightarrow> P x \<Longrightarrow> list_all P (xs[i := x])"
  by (auto simp: list_all_iff dest!: set_update_subset_insert [THEN subsetD])

lemma process_data_ok:
  assumes "can_ok s" and "msg_ok m"
  shows "can_ok (canbus_process_data m s)"
proof (cases rule: process_data_cases [of m s])
  case ignore
  with assms show ?thesis by simp
next
  case rx
  have l: "unat (CANMSG_DATA_LEN m) \<le> 8" by (rule CANMSG_DATA_LEN_le)
  have t: "length (take (unat (CANMSG_DATA_LEN m)) (msg_data m)) = unat (CANMSG_DATA_LEN m)"
    using l assms(2) by (simp add: msg_ok_def)
  have le: "unat (receive_pos s) + unat (CANMSG_DATA_LEN m) \<le> 192"
    using rx(1) can_okD(7) [OF assms(1)] by linarith
  then have "length (blit (receive_buf s) (unat (receive_pos s)) (take (unat (CANMSG_DATA_LEN m)) (msg_data m))) = 192"
    using t can_okD(6) [OF assms(1)] by (subst length_blit) simp_all
  with le assms show ?thesis unfolding rx(4) can_ok_notify by (simp add: can_ok_def unat_add_u8)
next
  case conflict
  with assms show ?thesis by simp
next
  case admin
  show ?thesis
    unfolding admin(3) can_ok_notify
    using assms admin_push_ok [OF _ admin(1)]
    by (simp add: can_ok_def list_all_update)
qed

lemma can_interrupt_ok: "can_ok s \<Longrightarrow> irq_ok i \<Longrightarrow> can_ok (can_interrupt i s)"
  by (cases i) (simp_all add: process_data_ok canbus_notify_tx_def)

lemma interrupts_ok: "can_ok s \<Longrightarrow> list_all irq_ok iqs \<Longrightarrow> can_ok (fold can_interrupt iqs s)"
  by (induction "iqs" arbitrary: s) (simp_all add: can_interrupt_ok)

lemma preempt_ok: "env_ok e \<Longrightarrow> env_ok (preempt e)"
  by (auto simp: env_ok_def preempt_def interrupts_ok split: list.splits)

text \<open>What an interrupt leaves alone.\<close>

lemma interrupt_keeps [simp]:
  "assigned_id (can_interrupt i s) = assigned_id s" "can_uuid (can_interrupt i s) = can_uuid s"
  "transmit_pos (can_interrupt i s) = transmit_pos s" "transmit_max (can_interrupt i s) = transmit_max s"
  "transmit_buf (can_interrupt i s) = transmit_buf s" "admin_pull_pos (can_interrupt i s) = admin_pull_pos s"
  by (cases i; simp add: canbus_process_data_def canserial_process_data_def canbus_notify_tx_def
      canserial_notify_rx_def canserial_notify_tx_def Let_def)+

lemma interrupts_keep [simp]:
  "assigned_id (fold can_interrupt iqs s) = assigned_id s" "can_uuid (fold can_interrupt iqs s) = can_uuid s"
  "transmit_pos (fold can_interrupt iqs s) = transmit_pos s" "transmit_max (fold can_interrupt iqs s) = transmit_max s"
  "transmit_buf (fold can_interrupt iqs s) = transmit_buf s" "admin_pull_pos (fold can_interrupt iqs s) = admin_pull_pos s"
  by (induction "iqs" arbitrary: s) simp_all

lemma preempt_keeps [simp]:
  "assigned_id (cd (preempt e)) = assigned_id (cd e)" "can_uuid (cd (preempt e)) = can_uuid (cd e)"
  "can_dev (preempt e) = can_dev e" "admin_pull_pos (cd (preempt e)) = admin_pull_pos (cd e)"
  by (simp_all add: preempt_def split: list.splits)

lemma wake_sticks:
  "rx_wake s \<noteq> 0 \<Longrightarrow> rx_wake (can_interrupt i s) \<noteq> 0"
  by (cases i) (simp_all add: canbus_process_data_def canserial_process_data_def canbus_notify_tx_def
      canserial_notify_rx_def canserial_notify_tx_def sched_wake_task_def Let_def)

lemma wakes_stick: "rx_wake s \<noteq> 0 \<Longrightarrow> rx_wake (fold can_interrupt iqs s) \<noteq> 0"
  by (induction iqs arbitrary: s) (simp_all add: wake_sticks)

lemma preempt_woken: "rx_wake (cd e) \<noteq> 0 \<Longrightarrow> rx_wake (cd (preempt e)) \<noteq> 0"
  by (simp add: preempt_def wakes_stick split: list.splits)

section \<open>The receive buffer\<close>

text \<open>The bytes a sequence of interrupts appends.\<close>

fun rx_bytes :: "u32 \<Rightarrow> nat \<Rightarrow> can_irq list \<Rightarrow> u8 list" where
  "rx_bytes aid pos [] = []"
| "rx_bytes aid pos (Tx_Done # iqs) = rx_bytes aid pos iqs"
| "rx_bytes aid pos (Rx_Frame m # iqs) =
     (if aid \<noteq> 0 \<and> msg_id m = aid \<and> unat (CANMSG_DATA_LEN m) \<le> 192 - pos
      then take (unat (CANMSG_DATA_LEN m)) (msg_data m) @ rx_bytes aid (pos + unat (CANMSG_DATA_LEN m)) iqs
      else rx_bytes aid pos iqs)"

definition rx_stream :: "nat \<Rightarrow> 'h can_env \<Rightarrow> u8 list" where
  "rx_stream k e = rx_bytes (assigned_id (cd e)) (unat (receive_pos (cd e))) (concat (take k (arrivals e)))"

lemma rx_bytes_append:
  "list_all irq_ok iqs \<Longrightarrow> rx_bytes aid pos (iqs @ js) = rx_bytes aid pos iqs @ rx_bytes aid (pos + length (rx_bytes aid pos iqs)) js"
proof (induction aid pos "iqs" rule: rx_bytes.induct)
  case (3 aid pos m "iqs")
  then show ?case using CANMSG_DATA_LEN_le [of m] by (auto simp: msg_ok_def min_def add.assoc)
qed simp_all

abbreviation (input) received :: "can_data \<Rightarrow> u8 list" where
  "received s \<equiv> take (unat (receive_pos s)) (receive_buf s)"

lemma received_keep:
  "\<lbrakk>receive_pos s' = receive_pos s; receive_buf s' = receive_buf s\<rbrakk> \<Longrightarrow> received s' = received s"
  by simp

lemma interrupt_received:
  assumes "can_ok s" and "irq_ok i"
  shows "received (can_interrupt i s) = received s @ rx_bytes (assigned_id s) (unat (receive_pos s)) [i]"
proof (cases i)
  case (Rx_Frame m)
  have l: "unat (CANMSG_DATA_LEN m) \<le> 8" by (rule CANMSG_DATA_LEN_le)
  have d: "length (take (unat (CANMSG_DATA_LEN m)) (msg_data m)) = unat (CANMSG_DATA_LEN m)"
    using l assms(2) Rx_Frame by (simp add: msg_ok_def)
  then show ?thesis
    using Rx_Frame l can_okD(6,7) [OF assms(1)]
    by (auto simp: canbus_process_data_def canserial_process_data_def canserial_notify_rx_def Let_def
        unat_add_u8 blit_def)
qed (simp add: canbus_notify_tx_def canserial_notify_tx_def)

lemma length_received: "can_ok s \<Longrightarrow> length (received s) = unat (receive_pos s)"
  by (simp add: can_okD)

lemma interrupts_received:
  "can_ok s \<Longrightarrow> list_all irq_ok iqs \<Longrightarrow>
   received (fold can_interrupt iqs s) = received s @ rx_bytes (assigned_id s) (unat (receive_pos s)) iqs"
proof (induction "iqs" arbitrary: s)
  case (Cons i "iqs")
  let ?s = "can_interrupt i s"
  have ok: "can_ok ?s" using Cons.prems can_interrupt_ok by simp
  have i: "received ?s = received s @ rx_bytes (assigned_id s) (unat (receive_pos s)) [i]"
    using interrupt_received Cons.prems by simp
  have "unat (receive_pos ?s) = unat (receive_pos s) + length (rx_bytes (assigned_id s) (unat (receive_pos s)) [i])"
    using arg_cong [OF i, of length] length_received [OF ok] length_received [OF Cons.prems(1)] by simp
  moreover have "rx_bytes (assigned_id s) (unat (receive_pos s)) (i # iqs) =
      rx_bytes (assigned_id s) (unat (receive_pos s)) [i] @
      rx_bytes (assigned_id s) (unat (receive_pos s) + length (rx_bytes (assigned_id s) (unat (receive_pos s)) [i])) iqs"
    using rx_bytes_append [of "[i]" _ _ "iqs"] Cons.prems(2) by simp
  ultimately show ?case using Cons.IH [OF ok] Cons.prems(2) i by simp
qed simp

lemma preempt_received:
  "env_ok e \<Longrightarrow> received (cd (preempt e)) = received (cd e) @ rx_stream 1 e"
  by (auto simp: env_ok_def preempt_def rx_stream_def interrupts_received split: list.splits)

lemma rx_stream_Suc:
  assumes "env_ok e"
  shows "rx_stream (Suc k) e = rx_stream 1 e @ rx_stream k (preempt e)"
proof (cases "arrivals e")
  case (Cons iqs rest)
  have ok: "can_ok (cd e)" "list_all irq_ok iqs" using assms Cons by (simp_all add: env_ok_def)
  have "unat (receive_pos (fold can_interrupt iqs (cd e))) =
      unat (receive_pos (cd e)) + length (rx_bytes (assigned_id (cd e)) (unat (receive_pos (cd e))) iqs)"
    using arg_cong [OF interrupts_received [OF ok], of length] length_received [OF ok(1)]
      length_received [OF interrupts_ok [OF ok]] by simp
  then show ?thesis using rx_bytes_append [OF ok(2)] Cons by (simp add: rx_stream_def preempt_def)
qed (simp add: rx_stream_def preempt_def)

interpretation can_rx: rx_buffer can_rx_ops env_ok rx_stream "\<lambda>e. rx_wake (cd e) \<noteq> 0"
proof unfold_locales
  fix e :: "'h can_env"
  assume e: "env_ok e"
  show "unat (rx_pos can_rx_ops e) \<le> length (rx_buf can_rx_ops e)"
    using e by (simp add: can_rx_ops_def env_ok_def can_ok_def)
  show "rx_content can_rx_ops (rx_preempt can_rx_ops e) = rx_content can_rx_ops e @ rx_stream 1 e"
    using preempt_received [OF e] by (simp add: can_rx_ops_def)
  show "rx_stream (Suc k) e = rx_stream 1 e @ rx_stream k (rx_preempt can_rx_ops e)" for k
    unfolding can_rx_ops_def rx_ops.select_convs by (rule rx_stream_Suc [OF e])
  have "length (receive_buf (cd (preempt e))) = 192" "length (receive_buf (cd e)) = 192"
    using e preempt_ok [OF e] unfolding env_ok_def can_ok_def by blast+
  then show "length (rx_buf can_rx_ops (rx_preempt can_rx_ops e)) = length (rx_buf can_rx_ops e)"
    by (simp add: can_rx_ops_def)
  show "env_ok (rx_preempt can_rx_ops e)" using preempt_ok [OF e] by (simp add: can_rx_ops_def)
next
  fix e :: "'h can_env"
  assume "rx_wake (cd e) \<noteq> 0"
  then show "rx_wake (cd (rx_preempt can_rx_ops e)) \<noteq> 0"
    using preempt_woken by (simp add: can_rx_ops_def)
qed (simp_all add: sched_wake_task_def can_rx_ops_def env_ok_def can_ok_def rx_stream_def canserial_notify_rx_def)

section \<open>Sending\<close>

definition can_pending :: "can_data \<Rightarrow> u8 list" where
  "can_pending s = drop (unat (transmit_pos s)) (take (unat (transmit_max s)) (transmit_buf s))"

lemma can_pending_notify [simp]: "can_pending (canserial_notify_tx s) = can_pending s"
  by (simp add: can_pending_def canserial_notify_tx_def)

lemma length_can_pending:
  "can_ok s \<Longrightarrow> length (can_pending s) = unat (transmit_max s) - unat (transmit_pos s)"
  using can_okD(3,5) [of s] by (simp add: can_pending_def min_absorb2)

text \<open>A message laid behind \<open>n\<close> bytes of the buffer.\<close>

lemma append_message:
  assumes "can_ok s" and "n + length m \<le> 96" and "unat (transmit_pos s) \<le> n"
  shows "can_ok (s\<lparr>transmit_buf := blit (transmit_buf s) n m, transmit_max := of_nat (n + length m)\<rparr>)"
    and "can_pending (s\<lparr>transmit_buf := blit (transmit_buf s) n m, transmit_max := of_nat (n + length m)\<rparr>) =
      drop (unat (transmit_pos s)) (take n (transmit_buf s)) @ m"
proof -
  have n: "unat (of_nat (n + length m) :: u8) = n + length m"
    using assms(2) by (intro unat_of_nat_u8) simp
  have b: "length (blit (transmit_buf s) n m) = 96"
    using assms can_okD(3) [OF assms(1)] by (subst length_blit) simp_all
  show "can_ok (s\<lparr>transmit_buf := blit (transmit_buf s) n m, transmit_max := of_nat (n + length m)\<rparr>)"
    using assms b n by (simp add: can_ok_def word_le_nat_alt del: of_nat_add)
  show "can_pending (s\<lparr>transmit_buf := blit (transmit_buf s) n m, transmit_max := of_nat (n + length m)\<rparr>) =
      drop (unat (transmit_pos s)) (take n (transmit_buf s)) @ m"
    using assms(2,3) n can_okD(3) [OF assms(1)] by (simp add: can_pending_def take_blit_end del: of_nat_add)
qed

lemma move_buffer:
  assumes ok: "can_ok s"
  defines "t \<equiv> s\<lparr>transmit_buf := blit (transmit_buf s) 0 (take (unat (transmit_max s) - unat (transmit_pos s))
      (drop (unat (transmit_pos s)) (transmit_buf s))),
    transmit_pos := 0, transmit_max := of_nat (unat (transmit_max s) - unat (transmit_pos s))\<rparr>"
  shows "can_ok t" and "take (unat (transmit_max s) - unat (transmit_pos s)) (transmit_buf t) = can_pending s"
    and "transmit_pos t = 0"
proof -
  let ?n = "unat (transmit_max s) - unat (transmit_pos s)"
  let ?m = "take ?n (drop (unat (transmit_pos s)) (transmit_buf s))"
  have p: "?m = can_pending s" by (simp add: can_pending_def drop_take)
  have m: "length ?m = ?n" unfolding p by (rule length_can_pending [OF ok])
  have n: "?n \<le> 96" using can_okD(5) [OF ok] by simp
  have b: "length (blit (transmit_buf s) 0 ?m) = 96"
    using n m can_okD(3) [OF ok] by (subst length_blit) simp_all
  show "can_ok t"
    using ok b n unat_of_nat_u8 [of ?n] by (simp add: t_def can_ok_def del: of_nat_diff)
  show "take ?n (transmit_buf t) = can_pending s"
    using take_blit_end [of 0 "transmit_buf s" ?m] m p by (simp add: t_def)
  show "transmit_pos t = 0" by (simp add: t_def)
qed

lemma can_sendf:
  assumes ok: "can_ok s"
  shows "can_ok (can_console_sendf ce s)"
    and "can_pending (can_console_sendf ce s) =
      (if length (can_pending s) + ce_max_size ce \<le> 96 then can_pending s @ command_encode_and_frame ce
       else can_pending s)"
proof -
  define r where "r = (if transmit_pos s \<ge> transmit_max s then s\<lparr>transmit_pos := 0, transmit_max := 0\<rparr> else s)"
  have r: "can_ok r" "can_pending r = can_pending s"
    using ok by (auto simp: r_def can_ok_def can_pending_def word_le_nat_alt)
  let ?m = "command_encode_and_frame ce" and ?tp = "unat (transmit_pos r)" and ?tm = "unat (transmit_max r)"
  have m: "length ?m \<le> ce_max_size ce" by (simp add: command_encode_and_frame_def)
  have le: "?tp \<le> ?tm" "?tm \<le> 96" using can_okD(4,5) [OF r(1)] by (simp_all add: word_le_nat_alt)
  have pl: "length (can_pending r) = ?tm - ?tp" by (rule length_can_pending [OF r(1)])
  have "can_ok (can_console_sendf ce s) \<and> can_pending (can_console_sendf ce s) =
      (if length (can_pending s) + ce_max_size ce \<le> 96 then can_pending s @ ?m else can_pending s)"
  proof (cases "?tm + ce_max_size ce \<le> 96")
    case True
    then have "can_console_sendf ce s = canserial_notify_tx
        (r\<lparr>transmit_buf := blit (transmit_buf r) ?tm ?m, transmit_max := of_nat (?tm + length ?m)\<rparr>)"
      unfolding can_console_sendf_def r_def [symmetric] by (simp add: Let_def)
    moreover have "drop ?tp (take ?tm (transmit_buf r)) = can_pending r" by (simp add: can_pending_def)
    moreover have "length (can_pending s) + ce_max_size ce \<le> 96" using True pl r(2) by simp
    ultimately show ?thesis
      using append_message [OF r(1), of ?tm ?m] True m le r(2) by (simp del: of_nat_add)
  next
    case False
    show ?thesis
    proof (cases "?tm - ?tp + ce_max_size ce \<le> 96")
      case True
      let ?n = "?tm - ?tp"
      define t where "t = r\<lparr>transmit_buf := blit (transmit_buf r) 0 (take ?n (drop ?tp (transmit_buf r))),
        transmit_pos := 0, transmit_max := of_nat ?n\<rparr>"
      note t = move_buffer [OF r(1), folded t_def]
      have "can_console_sendf ce s = canserial_notify_tx
          (t\<lparr>transmit_buf := blit (transmit_buf t) ?n ?m, transmit_max := of_nat (?n + length ?m)\<rparr>)"
        unfolding can_console_sendf_def r_def [symmetric]
        using False True le by (simp add: Let_def t_def [symmetric] del: of_nat_add of_nat_diff)
      moreover have "length (can_pending s) + ce_max_size ce \<le> 96" using True pl r(2) by simp
      ultimately show ?thesis
        using append_message [OF t(1), of ?n ?m] True m t(2,3) r(2) by (simp del: of_nat_add of_nat_diff)
    next
      case no: False
      then have "can_console_sendf ce s = r"
        unfolding can_console_sendf_def r_def [symmetric] using False le by (simp add: Let_def)
      moreover have "\<not> length (can_pending s) + ce_max_size ce \<le> 96" using no pl r(2) by simp
      ultimately show ?thesis using r by simp
    qed
  qed
  then show "can_ok (can_console_sendf ce s)"
    "can_pending (can_console_sendf ce s) =
      (if length (can_pending s) + ce_max_size ce \<le> 96 then can_pending s @ ?m else can_pending s)" by simp_all
qed

interpretation can_tx: console_tx can_console_sendf can_pending 96 can_ok
  by unfold_locales (simp_all add: can_sendf)

end
