(* ===== verification/CanNode.thy ===== *)
theory CanNode
  imports CanSerialInv
begin

text \<open>
  The CAN console as a whole: its tasks and interrupts as the steps of a relation, the invariant
  that every reachable state satisfies, and that no wake-up of the receive task is lost.
\<close>

section \<open>Admin messages\<close>

lemma can_decode_nodeid_unat:
  "1 \<le> i \<Longrightarrow> i \<le> 29 \<Longrightarrow> unat (can_decode_nodeid i) = 32 * nat i + 32"
proof -
  assume i: "1 \<le> i" "i \<le> 29"
  then have n: "unat (word_of_int i :: u32) = nat i" by (simp add: unat_eq_nat_uint uint_word_of_int)
  have "push_bit 5 (word_of_int i :: u32) = word_of_int i * 32" by (simp add: push_bit_eq_mult)
  then show ?thesis using i n by (simp add: can_decode_nodeid_def unat_word_ariths)
qed

lemma id_ok_0 [simp]: "id_ok 0" by (simp add: id_ok_def)

lemma id_ok_decode [simp]: "id_ok (can_decode_nodeid i)"
proof (cases "1 \<le> i \<and> i \<le> 29")
  case True
  then have "nat i \<in> {1..29}" by auto
  then show ?thesis using can_decode_nodeid_unat [of i] True by (auto simp: id_ok_def)
qed (auto simp: can_decode_nodeid_def)

lemma can_assign_eq: "can_assign hw aid e = e\<lparr>cd := (cd e)\<lparr>assigned_id := aid\<rparr>, can_dev := canbus_set_filter hw aid (can_dev e)\<rparr>"
  by (simp add: can_assign_def)

lemma process_admin_frame:
  assumes "can_process_admin hw msg e = Some e'" and "id_ok (assigned_id (cd e))"
  obtains aid d where "id_ok aid" "e' = e\<lparr>cd := (cd e)\<lparr>assigned_id := aid\<rparr>, can_dev := d\<rparr>"
proof -
  have same: "e\<lparr>cd := (cd e)\<lparr>assigned_id := assigned_id (cd e)\<rparr>, can_dev := d\<rparr> = e\<lparr>can_dev := d\<rparr>"
    and id: "e\<lparr>cd := (cd e)\<lparr>assigned_id := assigned_id (cd e)\<rparr>, can_dev := can_dev e\<rparr> = e" for d
    by simp_all
  have "\<exists>aid d. id_ok aid \<and> e' = e\<lparr>cd := (cd e)\<lparr>assigned_id := aid\<rparr>, can_dev := d\<rparr>"
  proof -
    consider (none) "e' = e"
      | (query) d where "e' = e\<lparr>can_dev := d\<rparr>"
      | (assign) i d where "e' = (can_assign hw (can_decode_nodeid i) e)\<lparr>can_dev := d\<rparr>"
      | (clear) "e' = can_assign hw 0 e"
      using assms(1)
      by (auto simp: can_process_admin_def can_process_query_unassigned_def can_process_set_canboot_nodeid_def
          can_process_clear_canboot_nodeid_def can_id_conflict_def bind_eq_Some_conv Let_def split: if_splits)
    then show ?thesis
    proof cases
      case none
      with id show ?thesis using assms(2) by metis
    next
      case query
      with same show ?thesis using assms(2) by metis
    next
      case assign
      then show ?thesis by (intro exI [of _ "can_decode_nodeid i"] exI [of _ d]) (simp add: can_assign_eq)
    next
      case clear
      then show ?thesis by (intro exI [of _ 0] exI) (auto simp: can_assign_eq)
    qed
  qed
  with that show ?thesis by blast
qed

lemma can_ok_assign [simp]: "id_ok aid \<Longrightarrow> can_ok s \<Longrightarrow> can_ok (s\<lparr>assigned_id := aid\<rparr>)"
  by (simp add: can_ok_def)

lemma process_admin_ok:
  assumes "can_process_admin hw msg e = Some e'" and "env_ok e"
  shows "env_ok e'" and "admin_push_pos (cd e') = admin_push_pos (cd e)" and "admin_pull_pos (cd e') = admin_pull_pos (cd e)"
    and "id_conflict_pending (cd e') = id_conflict_pending (cd e)" and "rx_wake (cd e') = rx_wake (cd e)"
proof -
  have "id_ok (assigned_id (cd e))" using assms(2) by (simp add: env_ok_def can_ok_def)
  from process_admin_frame [OF assms(1) this] obtain aid d
    where e': "id_ok aid" "e' = e\<lparr>cd := (cd e)\<lparr>assigned_id := aid\<rparr>, can_dev := d\<rparr>" .
  with assms(2) show "env_ok e'" by (simp add: env_ok_def)
  show "admin_push_pos (cd e') = admin_push_pos (cd e)" "admin_pull_pos (cd e') = admin_pull_pos (cd e)"
    "id_conflict_pending (cd e') = id_conflict_pending (cd e)" "rx_wake (cd e') = rx_wake (cd e)"
    by (simp_all add: e')
qed

section \<open>What is pending\<close>

definition quiet :: "can_data \<Rightarrow> bool" where
  "quiet s \<longleftrightarrow> rx_wake s \<noteq> 0 \<or> id_conflict_pending s = 0"

definition drained :: "can_data \<Rightarrow> bool" where
  "drained s \<longleftrightarrow> rx_wake s \<noteq> 0 \<or> admin_push_pos s = admin_pull_pos s"

lemma notify_woken [simp]: "rx_wake (canserial_notify_rx s) = 1"
  by (simp add: canserial_notify_rx_def sched_wake_task_def)

lemma interrupt_quiet: "quiet s \<Longrightarrow> quiet (can_interrupt i s)"
proof (cases i)
  case (Rx_Frame m)
  then show "quiet s \<Longrightarrow> ?thesis" by (cases rule: process_data_cases [of m s]) (simp_all add: quiet_def)
qed (simp add: quiet_def canbus_notify_tx_def canserial_notify_tx_def)

lemma interrupt_drained: "drained s \<Longrightarrow> drained (can_interrupt i s)"
proof (cases i)
  case (Rx_Frame m)
  then show "drained s \<Longrightarrow> ?thesis" by (cases rule: process_data_cases [of m s]) (simp_all add: drained_def)
qed (simp add: drained_def canbus_notify_tx_def canserial_notify_tx_def)

lemma interrupts_pending: "quiet s \<Longrightarrow> quiet (fold can_interrupt iqs s)" "drained s \<Longrightarrow> drained (fold can_interrupt iqs s)"
  by (induction iqs arbitrary: s) (simp_all add: interrupt_quiet interrupt_drained)

lemma preempt_pending: "quiet (cd e) \<Longrightarrow> quiet (cd (preempt e))" "drained (cd e) \<Longrightarrow> drained (cd (preempt e))"
  by (simp_all add: preempt_def interrupts_pending split: list.splits)

text \<open>Interrupts only add to the queue.\<close>

lemma interrupt_queue_grows:
  assumes "can_ok s"
  shows "unat (admin_push_pos s - admin_pull_pos s) \<le> unat (admin_push_pos (can_interrupt i s) - admin_pull_pos s)"
proof (cases i)
  case (Rx_Frame m)
  show ?thesis
  proof (cases rule: process_data_cases [of m s])
    case admin
    have ok: "unat (admin_push_pos s - admin_pull_pos s) \<le> 8" by (rule can_okD(10) [OF assms])
    have "unat (admin_push_pos s - admin_pull_pos s + 1) = unat (admin_push_pos s - admin_pull_pos s) + 1"
      using ok unat_add_nat [of "admin_push_pos s - admin_pull_pos s" 1] by simp
    then show ?thesis using Rx_Frame admin by (simp add: canserial_notify_rx_def algebra_simps)
  qed (use Rx_Frame in \<open>simp_all add: canserial_notify_rx_def\<close>)
qed (simp add: canbus_notify_tx_def canserial_notify_tx_def)

lemma interrupts_queue_grow:
  "can_ok s \<Longrightarrow> list_all irq_ok iqs \<Longrightarrow>
   unat (admin_push_pos s - admin_pull_pos s) \<le> unat (admin_push_pos (fold can_interrupt iqs s) - admin_pull_pos s)"
proof (induction iqs arbitrary: s)
  case (Cons i iqs)
  from Cons.IH [of "can_interrupt i s"] Cons.prems interrupt_queue_grows [OF Cons.prems(1), of i] show ?case
    by (simp add: can_interrupt_ok)
qed simp

lemma preempt_queue_grows:
  "env_ok e \<Longrightarrow> unat (admin_push_pos (cd e) - admin_pull_pos (cd e)) \<le>
     unat (admin_push_pos (cd (preempt e)) - admin_pull_pos (cd e))"
  by (auto simp: env_ok_def preempt_def interrupts_queue_grow split: list.splits)

text \<open>The oldest message is taken: what is queued shrinks by one.\<close>

lemma admin_pull_ok:
  assumes "can_ok s" and "admin_push_pos s \<noteq> admin_pull_pos s"
  shows "can_ok (s\<lparr>admin_pull_pos := admin_pull_pos s + 1\<rparr>)"
proof -
  let ?d = "admin_push_pos s - admin_pull_pos s"
  have "?d \<noteq> 0" using assms(2) by simp
  then have "1 \<le> unat ?d" by (simp add: word_unat_eq_iff Suc_le_eq)
  then have "unat (?d - 1) = unat ?d - 1" by (simp add: unat_sub word_le_nat_alt)
  then have "unat (admin_push_pos s - (admin_pull_pos s + 1)) \<le> 8"
    using can_okD(10) [OF assms(1)] by (simp add: algebra_simps)
  then show ?thesis using assms(1) by (simp add: can_ok_def)
qed

lemma admin_loop_ok:
  assumes "can_admin_loop hw e = Some e'" and "env_ok e" and "quiet (cd e)"
  shows "env_ok e' \<and> quiet (cd e') \<and> admin_push_pos (cd e') = admin_pull_pos (cd e')"
proof -
  have "env_ok e \<longrightarrow> quiet (cd e) \<longrightarrow> ?thesis"
  proof (rule can_admin_loop.raw_induct [where
        P = "\<lambda>hw e e'. env_ok e \<longrightarrow> quiet (cd e) \<longrightarrow>
          env_ok e' \<and> quiet (cd e') \<and> admin_push_pos (cd e') = admin_pull_pos (cd e')", OF _ assms(1)])
    fix f hw and e r :: "'a can_env"
    assume IH: "\<And>hw e r. f hw e = Some r \<Longrightarrow> env_ok e \<longrightarrow> quiet (cd e) \<longrightarrow>
        env_ok r \<and> quiet (cd r) \<and> admin_push_pos (cd r) = admin_pull_pos (cd r)"
      and step: "(let e = preempt e; pushp = admin_push_pos (cd e); pullp = admin_pull_pos (cd e)
        in if pushp = pullp then Some e
           else let msg = admin_queue (cd e) ! unat (pullp mod 8) in do {
             e \<leftarrow> (if msg_id msg = CANBUS_ID_ADMIN then can_process_admin hw msg e else Some e);
             let e = preempt e;
             f hw (e\<lparr>cd := (cd e)\<lparr>admin_pull_pos := pullp + 1\<rparr>\<rparr>)
           }) = Some r"
    show "env_ok e \<longrightarrow> quiet (cd e) \<longrightarrow> env_ok r \<and> quiet (cd r) \<and> admin_push_pos (cd r) = admin_pull_pos (cd r)"
    proof (intro impI)
      assume e: "env_ok e" "quiet (cd e)"
      let ?e = "preempt e"
      have p: "env_ok ?e" "quiet (cd ?e)" using e by (simp_all only: preempt_ok preempt_pending)
      show "env_ok r \<and> quiet (cd r) \<and> admin_push_pos (cd r) = admin_pull_pos (cd r)"
      proof (cases "admin_push_pos (cd ?e) = admin_pull_pos (cd ?e)")
        case True
        with step p show ?thesis by (simp add: Let_def)
      next
        case False
        let ?msg = "admin_queue (cd ?e) ! unat (admin_pull_pos (cd ?e) mod 8)"
        obtain e1 where e1: "(if msg_id ?msg = CANBUS_ID_ADMIN then can_process_admin hw ?msg ?e else Some ?e) = Some e1"
            "f hw ((preempt e1)\<lparr>cd := (cd (preempt e1))\<lparr>admin_pull_pos := admin_pull_pos (cd ?e) + 1\<rparr>\<rparr>) = Some r"
          using step unfolding Let_def if_not_P [OF False] bind_eq_Some_conv by blast
        have q: "env_ok e1" "quiet (cd e1)" "admin_push_pos (cd e1) = admin_push_pos (cd ?e)"
            "admin_pull_pos (cd e1) = admin_pull_pos (cd ?e)"
          using e1(1) process_admin_ok [OF _ p(1), of hw ?msg e1] p by (auto simp: quiet_def split: if_splits)
        let ?e2 = "preempt e1"
        have e2: "env_ok ?e2" "quiet (cd ?e2)" using q by (simp_all only: preempt_ok preempt_pending)
        have pull: "admin_pull_pos (cd ?e2) = admin_pull_pos (cd ?e)" using q(4) by simp
        have "admin_push_pos (cd ?e2) \<noteq> admin_pull_pos (cd ?e2)"
        proof
          assume "admin_push_pos (cd ?e2) = admin_pull_pos (cd ?e2)"
          then have "unat (admin_push_pos (cd e1) - admin_pull_pos (cd e1)) = 0"
            using preempt_queue_grows [OF q(1)] by simp
          then show False using q(3,4) False by (simp add: unsigned_eq_0_iff)
        qed
        from admin_pull_ok [OF _ this] e2 pull
        have "env_ok (?e2\<lparr>cd := (cd ?e2)\<lparr>admin_pull_pos := admin_pull_pos (cd ?e) + 1\<rparr>\<rparr>)"
          by (simp add: env_ok_def)
        with IH [OF e1(2)] e2(2) show ?thesis by (simp add: quiet_def)
      qed
    qed
  qed
  with assms(2,3) show ?thesis by blast
qed

section \<open>The receive task\<close>

definition rx_idle :: "can_data \<Rightarrow> u8 \<Rightarrow> bool" where
  "rx_idle s sync \<longleftrightarrow> admin_push_pos s = admin_pull_pos s \<and> id_conflict_pending s = 0 \<and>
     fst (command_find_block (received s) sync) = 0"

text \<open>Work for the task means that the task will run.\<close>

definition wake_ok :: "('f, 'h) can_node \<Rightarrow> bool" where
  "wake_ok nd \<longleftrightarrow> rx_wake (cd (node_env nd)) \<noteq> 0 \<or> rx_idle (cd (node_env nd)) (node_sync nd)"

definition node_ok :: "('f, 'h) can_node \<Rightarrow> bool" where
  "node_ok nd \<longleftrightarrow> env_ok (node_env nd) \<and> wake_ok nd"

lemma find_block_Nil [simp]: "command_find_block [] sync = (0, 0, sync, [])"
  by (simp add: command_find_block_def)

lemma sendf_keeps [simp]:
  "receive_pos (can_console_sendf ce s) = receive_pos s" "receive_buf (can_console_sendf ce s) = receive_buf s"
  "admin_push_pos (can_console_sendf ce s) = admin_push_pos s" "admin_pull_pos (can_console_sendf ce s) = admin_pull_pos s"
  "id_conflict_pending (can_console_sendf ce s) = id_conflict_pending s" "rx_wake (can_console_sendf ce s) = rx_wake s"
  "assigned_id (can_console_sendf ce s) = assigned_id s" "can_uuid (can_console_sendf ce s) = can_uuid s"
  by (simp_all add: can_console_sendf_def canserial_notify_tx_def Let_def)

lemma sends_keep [simp]:
  "receive_pos (fold can_console_sendf ms s) = receive_pos s" "receive_buf (fold can_console_sendf ms s) = receive_buf s"
  "admin_push_pos (fold can_console_sendf ms s) = admin_push_pos s" "admin_pull_pos (fold can_console_sendf ms s) = admin_pull_pos s"
  "id_conflict_pending (fold can_console_sendf ms s) = id_conflict_pending s" "rx_wake (fold can_console_sendf ms s) = rx_wake s"
  "assigned_id (fold can_console_sendf ms s) = assigned_id s" "can_uuid (fold can_console_sendf ms s) = can_uuid s"
  by (induction ms arbitrary: s) simp_all

lemma sends_env_ok [simp]: "env_ok e \<Longrightarrow> env_ok (e\<lparr>cd := fold can_console_sendf ms (cd e)\<rparr>)"
  by (simp add: env_ok_def can_tx.sends_inv)

lemma sends_pending [simp]: "quiet (fold can_console_sendf ms s) = quiet s" "drained (fold can_console_sendf ms s) = drained s"
  by (simp_all add: quiet_def drained_def)

lemma preempt_pos_grows: "env_ok e \<Longrightarrow> unat (receive_pos (cd e)) \<le> unat (receive_pos (cd (preempt e)))"
  using arg_cong [OF preempt_received [of e], of length] length_received [of "cd e"] length_received [of "cd (preempt e)"]
    preempt_ok [of e] by (simp add: env_ok_def)

text \<open>Taking a block out, whatever interrupts come.\<close>

lemma can_pop_ok:
  assumes e: "env_ok e" "quiet (cd e)" "drained (cd e)" and len: "len \<le> unat (receive_pos (cd e))"
    and run: "console_pop_input can_rx_ops len e = Some e'"
  shows "env_ok e' \<and> (rx_wake (cd e') \<noteq> 0 \<or> rx_idle (cd e') sync) \<and>
    (\<exists>k. received (cd e') = drop len (received (cd e)) @ rx_stream k e)"
proof -
  have "len \<le> unat (rx_pos can_rx_ops e)" using len by (simp add: can_rx_ops_def)
  then obtain s' k where s': "console_pop_input can_rx_ops len e = Some s'" "env_ok s'"
      "rx_content can_rx_ops s' = [] \<or> rx_wake (cd s') \<noteq> 0"
      "rx_content can_rx_ops s' = drop len (rx_content can_rx_ops e) @ rx_stream k e"
    by (rule can_rx.pop_input_content [OF e(1)])
  have "quiet (cd e') \<and> drained (cd e')"
    by (rule pop_input_keeps [OF run])
       (use e in \<open>simp_all add: can_rx_ops_def preempt_pending quiet_def [of "canserial_notify_rx s" for s]
          drained_def [of "canserial_notify_rx s" for s]\<close>, simp_all add: quiet_def drained_def)
  with s' run show ?thesis
    by (auto simp: can_rx_ops_def rx_idle_def quiet_def drained_def)
qed

lemma rx_block_ok:
  assumes e: "env_ok (node_env nd)" "quiet (cd (node_env nd))" "drained (cd (node_env nd))"
    and run: "can_rx_block c api now nd = Some nd'"
  shows "node_ok nd'"
proof -
  let ?e = "node_env nd"
  obtain ret pop sync ms where fb: "command_find_block (received (cd ?e)) (node_sync nd) = (ret, pop, sync, ms)"
    by (cases "command_find_block (received (cd ?e)) (node_sync nd)")
  let ?e1 = "?e\<lparr>cd := fold can_console_sendf ms (cd ?e)\<rparr>"
  have e1: "env_ok ?e1" "quiet (cd ?e1)" "drained (cd ?e1)" using e by simp_all
  note fbp = command_find_block_progress [OF fb]
  show ?thesis
  proof (cases "ret = 0")
    case True
    then have "nd' = nd\<lparr>node_env := ?e1, node_sync := sync\<rparr>" using run fb by (simp add: can_rx_block_def Let_def)
    moreover have "fst (command_find_block (received (cd ?e)) sync) = 0" using True fbp fb by auto
    then have "rx_wake (cd ?e1) \<noteq> 0 \<or> rx_idle (cd ?e1) sync"
      using e by (auto simp: rx_idle_def quiet_def drained_def)
    ultimately show ?thesis using e1 by (simp add: node_ok_def wake_ok_def)
  next
    case False
    then have pop: "pop \<le> unat (receive_pos (cd ?e))" using fbp length_received e(1) by (auto simp: env_ok_def)
    obtain nd1 e2 where nd1: "env_ok (node_env nd1)" "quiet (cd (node_env nd1))" "drained (cd (node_env nd1))"
        "unat (receive_pos (cd ?e)) \<le> unat (receive_pos (cd (node_env nd1)))"
        and pi: "console_pop_input can_rx_ops pop (preempt (node_env nd1)) = Some e2" and nd': "nd' = nd1\<lparr>node_env := e2\<rparr>"
    proof (cases "ret > 0")
      case True
      let ?p = "preempt ?e1"
      obtain st ms' e2 where d: "nd' = nd\<lparr>node_sync := sync, node_app := st,
            node_env := ?p\<lparr>cd := fold can_console_sendf ms' (cd ?p)\<rparr>\<rparr>\<lparr>node_env := e2\<rparr>"
          "console_pop_input can_rx_ops pop (preempt (?p\<lparr>cd := fold can_console_sendf ms' (cd ?p)\<rparr>)) = Some e2"
        using run fb True by (auto simp: can_rx_block_def Let_def bind_eq_Some_conv)
      have p: "env_ok ?p" "quiet (cd ?p)" "drained (cd ?p)" using e1 by (simp_all only: preempt_ok preempt_pending)
      moreover have "unat (receive_pos (cd ?e)) \<le> unat (receive_pos (cd ?p))" using preempt_pos_grows [OF e1(1)] by simp
      ultimately show ?thesis
        using that [of "nd\<lparr>node_sync := sync, node_app := st, node_env := ?p\<lparr>cd := fold can_console_sendf ms' (cd ?p)\<rparr>\<rparr>" e2] d
        by simp
    next
      case no: False
      obtain e2 where d: "nd' = nd\<lparr>node_env := ?e1, node_sync := sync\<rparr>\<lparr>node_env := e2\<rparr>"
          "console_pop_input can_rx_ops pop (preempt ?e1) = Some e2"
        using run fb False no by (auto simp: can_rx_block_def Let_def bind_eq_Some_conv)
      then show ?thesis using that [of "nd\<lparr>node_env := ?e1, node_sync := sync\<rparr>" e2] e1 by simp
    qed
    have p: "env_ok (preempt (node_env nd1))" "quiet (cd (preempt (node_env nd1)))" "drained (cd (preempt (node_env nd1)))"
      using nd1(1-3) by (simp_all only: preempt_ok preempt_pending)
    have "pop \<le> unat (receive_pos (cd (preempt (node_env nd1))))"
      using pop nd1(4) preempt_pos_grows [OF nd1(1)] by linarith
    from can_pop_ok [OF p this pi] show ?thesis by (simp add: node_ok_def wake_ok_def nd')
  qed
qed

lemma handle_conflict_ok:
  "env_ok e \<Longrightarrow> env_ok (can_handle_conflict hw e) \<and> quiet (cd (can_handle_conflict hw e))"
  using preempt_ok [of e]
  by (auto simp: can_handle_conflict_def can_id_conflict_def can_assign_def env_ok_def quiet_def Let_def)

lemma rx_task_ok:
  assumes ok: "node_ok nd" and run: "canserial_rx_task c api hw now nd = Some nd'"
  shows "node_ok nd'"
proof (cases "rx_wake (cd (node_env nd)) = 0")
  case True
  then have nd': "nd' = nd\<lparr>node_env := (node_env nd)\<lparr>cd := (cd (node_env nd))\<lparr>rx_wake := 0\<rparr>\<rparr>\<rparr>"
    using run by (simp add: canserial_rx_task_def sched_check_wake_def Let_def)
  show ?thesis using ok True unfolding nd' by (simp add: node_ok_def wake_ok_def env_ok_def rx_idle_def)
next
  case False
  let ?e = "preempt ((node_env nd)\<lparr>cd := (cd (node_env nd))\<lparr>rx_wake := 0\<rparr>\<rparr>)"
  obtain e1 where e1: "can_admin_loop hw (can_handle_conflict hw ?e) = Some e1"
      "can_rx_block c api now (nd\<lparr>node_env := preempt e1\<rparr>) = Some nd'"
    using run False by (auto simp: canserial_rx_task_def sched_check_wake_def Let_def bind_eq_Some_conv)
  have "env_ok ((node_env nd)\<lparr>cd := (cd (node_env nd))\<lparr>rx_wake := 0\<rparr>\<rparr>)"
    using ok by (simp add: node_ok_def env_ok_def)
  then have "env_ok ?e" by (rule preempt_ok)
  note c = handle_conflict_ok [OF this, of hw]
  have "env_ok e1 \<and> quiet (cd e1) \<and> admin_push_pos (cd e1) = admin_pull_pos (cd e1)"
    using admin_loop_ok [OF e1(1)] c by blast
  then have "env_ok (preempt e1)" "quiet (cd (preempt e1))" "drained (cd (preempt e1))"
    by (auto intro!: preempt_ok preempt_pending) (simp add: drained_def)
  then show ?thesis using rx_block_ok [OF _ _ _ e1(2)] by simp
qed

section \<open>The other tasks\<close>

lemma tx_loop_bounds:
  "tpos \<le> tmax \<Longrightarrow> can_tx_loop hw mid buf tpos tmax data d = (r, d') \<Longrightarrow> tpos \<le> r \<and> r \<le> tmax"
proof (induction hw mid buf tpos tmax data d rule: can_tx_loop.induct)
  case (1 hw mid buf tpos tmax data d)
  let ?now = "if tmax - tpos > 8 then 8 else tmax - tpos"
  let ?data = "blit data 0 (take ?now (drop tpos buf))"
  obtain ret d1 where s: "canbus_send hw \<lparr> msg_id = mid, dlc = of_nat ?now, msg_data = ?data \<rparr> d = (ret, d1)"
    by (cases "canbus_send hw \<lparr> msg_id = mid, dlc = of_nat ?now, msg_data = ?data \<rparr> d")
  have eq: "can_tx_loop hw mid buf tpos tmax data d =
      (if tmax \<le> tpos then (tpos, d) else if ret \<le> 0 then (tpos, d1)
       else can_tx_loop hw mid buf (tpos + ?now) tmax ?data d1)"
    by (subst can_tx_loop.simps) (simp only: Let_def s prod.case)
  show ?case
  proof (cases "tmax \<le> tpos \<or> ret \<le> 0")
    case True
    then show ?thesis using 1(2,3) unfolding eq by (auto split: if_splits)
  next
    case False
    then have "can_tx_loop hw mid buf (tpos + ?now) tmax ?data d1 = (r, d')" using 1(3) unfolding eq by simp
    moreover have "tpos + ?now \<le> tmax" using 1(2) by (auto; linarith)
    ultimately have "tpos + ?now \<le> r \<and> r \<le> tmax"
      using 1(1) [OF _ refl refl s [symmetric] refl] False by blast
    then show ?thesis by simp
  qed
qed

lemma tx_task_ok:
  assumes "env_ok e"
  shows "env_ok (canserial_tx_task hw e)"
    and "rx_wake (cd (canserial_tx_task hw e)) = rx_wake (cd e)"
    and "rx_idle (cd (canserial_tx_task hw e)) sync = rx_idle (cd e) sync"
proof -
  let ?s = "(cd e)\<lparr>tx_wake := snd (sched_check_wake (tx_wake (cd e)))\<rparr>"
  have cs: "canserial_tx_task hw e = e\<lparr>cd := ?s\<rparr> \<or>
      canserial_tx_task hw e = e\<lparr>cd := ?s\<lparr>transmit_pos := 0, transmit_max := 0\<rparr>\<rparr> \<or>
      (\<exists>tpos d. tpos \<le> unat (transmit_max (cd e)) \<and>
        canserial_tx_task hw e = e\<lparr>cd := ?s\<lparr>transmit_pos := of_nat tpos\<rparr>, can_dev := d\<rparr>)"
  proof -
    obtain tpos d where l: "can_tx_loop hw (assigned_id (cd e) + 1) (transmit_buf (cd e)) (unat (transmit_pos (cd e)))
        (unat (transmit_max (cd e))) (replicate 8 0) (can_dev e) = (tpos, d)"
      by (cases "can_tx_loop hw (assigned_id (cd e) + 1) (transmit_buf (cd e)) (unat (transmit_pos (cd e)))
        (unat (transmit_max (cd e))) (replicate 8 0) (can_dev e)")
    have "unat (transmit_pos (cd e)) \<le> unat (transmit_max (cd e))"
      using assms by (simp add: env_ok_def can_ok_def word_le_nat_alt)
    from tx_loop_bounds [OF this l] l show ?thesis
      by (cases "sched_check_wake (tx_wake (cd e))") (auto simp: canserial_tx_task_def Let_def)
  qed
  have "unat (of_nat tpos :: u8) = tpos" if "tpos \<le> unat (transmit_max (cd e))" for tpos
    using that assms by (intro unat_of_nat_u8) (simp add: env_ok_def can_ok_def)
  then show "env_ok (canserial_tx_task hw e)"
    using cs assms by (auto simp: env_ok_def can_ok_def word_le_nat_alt)
  show "rx_wake (cd (canserial_tx_task hw e)) = rx_wake (cd e)"
    "rx_idle (cd (canserial_tx_task hw e)) sync = rx_idle (cd e) sync"
    using cs by (auto simp: rx_idle_def)
qed

section \<open>Everything that can happen\<close>

text \<open>The global data as the C start-up code leaves it.\<close>

definition can_data_zero :: can_data where
  "can_data_zero = \<lparr> assigned_id = 0, can_uuid = replicate 6 0, tx_wake = 0, transmit_pos = 0, transmit_max = 0,
     rx_wake = 0, receive_pos = 0, id_conflict_pending = 0, admin_pull_pos = 0, admin_push_pos = 0,
     admin_queue = replicate 8 \<lparr> msg_id = 0, dlc = 0, msg_data = replicate 8 0 \<rparr>,
     transmit_buf = replicate 96 0, receive_buf = replicate 192 0 \<rparr>"

definition can_start :: "u8 list \<Rightarrow> 'f app \<Rightarrow> 'h \<Rightarrow> u32 \<Rightarrow> ('f, 'h) can_node" where
  "can_start raw_uuid app d now = canserial_heartbeat_init now
     \<lparr> node_env = \<lparr> cd = canserial_set_uuid raw_uuid can_data_zero, can_dev = d, arrivals = [] \<rparr>,
       node_sync = 0, node_app = app, heartbeat_last_time = 0 \<rparr>"

inductive can_step :: "config \<Rightarrow> 'f flash_api \<Rightarrow> 'h can_hw \<Rightarrow> ('f, 'h) can_node \<Rightarrow> ('f, 'h) can_node \<Rightarrow> bool"
  for c :: config and api :: "'f flash_api" and hw :: "'h can_hw" where
  schedule: "list_all (list_all irq_ok) arr \<Longrightarrow>
    can_step c api hw nd (nd\<lparr>node_env := (node_env nd)\<lparr>arrivals := arr\<rparr>\<rparr>)"
| interrupt: "irq_ok i \<Longrightarrow>
    can_step c api hw nd (nd\<lparr>node_env := (node_env nd)\<lparr>cd := can_interrupt i (cd (node_env nd))\<rparr>\<rparr>)"
| tx: "can_step c api hw nd (nd\<lparr>node_env := canserial_tx_task hw (node_env nd)\<rparr>)"
| rx: "canserial_rx_task c api hw now nd = Some nd' \<Longrightarrow> can_step c api hw nd nd'"
| heartbeat: "can_step c api hw nd (canserial_heartbeat_task c hw now nd)"
| shutdown: "can_step c api hw nd (nd\<lparr>node_env := (node_env nd)\<lparr>cd := canserial_shutdown (cd (node_env nd))\<rparr>\<rparr>)"

lemma can_start_ok: "node_ok (can_start raw app d now)"
  by (simp add: node_ok_def wake_ok_def can_start_def canserial_heartbeat_init_def env_ok_def can_ok_def
      canserial_set_uuid_def can_data_zero_def Let_def list_all_iff msg_ok_def canserial_notify_rx_def sched_wake_task_def)

lemma interrupt_wake:
  assumes "rx_wake s \<noteq> 0 \<or> rx_idle s sync"
  shows "rx_wake (can_interrupt i s) \<noteq> 0 \<or> rx_idle (can_interrupt i s) sync"
proof (cases i)
  case (Rx_Frame m)
  then show ?thesis
    using assms by (cases rule: process_data_cases [of m s]) (auto simp del: sched_wake_task_def)
next
  case Tx_Done
  then show ?thesis using assms by (simp add: canbus_notify_tx_def canserial_notify_tx_def rx_idle_def)
qed

lemma can_step_ok: "can_step c api hw nd nd' \<Longrightarrow> node_ok nd \<Longrightarrow> node_ok nd'"
proof (induction rule: can_step.induct)
  case (schedule arr nd)
  then show ?case by (simp add: node_ok_def wake_ok_def env_ok_def)
next
  case (interrupt i nd)
  then show ?case using interrupt_wake [of "cd (node_env nd)" "node_sync nd" i]
    by (simp add: node_ok_def wake_ok_def env_ok_def can_interrupt_ok)
next
  case (tx nd)
  then show ?case using tx_task_ok [of "node_env nd" hw] by (simp add: node_ok_def wake_ok_def)
next
  case (rx now nd nd')
  then show ?case by (metis rx_task_ok)
next
  case (heartbeat nd now)
  then show ?case by (simp add: canserial_heartbeat_task_def node_ok_def wake_ok_def env_ok_def Let_def)
next
  case (shutdown nd)
  then show ?case by (simp add: canserial_shutdown_def node_ok_def wake_ok_def env_ok_def)
qed

lemma can_steps_ok: "(can_step c api hw)\<^sup>*\<^sup>* nd nd' \<Longrightarrow> node_ok nd \<Longrightarrow> node_ok nd'"
  by (induction rule: rtranclp_induct) (simp_all add: can_step_ok)

end
