(* ===== verification/CanProps.thy ===== *)
theory CanProps
  imports CanNode
begin

text \<open>
  The properties of the CAN console: the bounds and wake-ups in every reachable state, the
  race-free removal of input, whole replies, node ids, and where the code falls short.
\<close>

section \<open>Reachable states\<close>


text \<open>C16: No wake-up of the receive task is lost. In every reachable state in which the task would
  not run, there is nothing for it to do: no admin message, no id conflict, and no complete block
  or garbage in what was received.\<close>

theorem can_no_lost_wakeup:
  assumes "(can_step c api hw)\<^sup>*\<^sup>* (can_start raw_uuid app d now) nd" and "rx_wake (cd (node_env nd)) = 0"
  shows "admin_push_pos (cd (node_env nd)) = admin_pull_pos (cd (node_env nd)) \<and>
    id_conflict_pending (cd (node_env nd)) = 0 \<and>
    fst (command_find_block (take (unat (receive_pos (cd (node_env nd)))) (receive_buf (cd (node_env nd)))) (node_sync nd)) = 0"
  using can_steps_ok [OF assms(1) can_start_ok] assms(2) by (simp add: node_ok_def wake_ok_def rx_idle_def)

section \<open>Input and output\<close>

lemma can_pop_content:
  assumes "env_ok e" and "len \<le> unat (receive_pos (cd e))"
  shows "\<exists>e' k. console_pop_input can_rx_ops len e = Some e' \<and> env_ok e' \<and>
    take (unat (receive_pos (cd e'))) (receive_buf (cd e')) =
      drop len (take (unat (receive_pos (cd e))) (receive_buf (cd e))) @ rx_stream k e"
proof -
  have "len \<le> unat (rx_pos can_rx_ops e)" using assms(2) by (simp add: can_rx_ops_def)
  then obtain e' k where "console_pop_input can_rx_ops len e = Some e'" "env_ok e'"
      "rx_content can_rx_ops e' = drop len (rx_content can_rx_ops e) @ rx_stream k e"
    by (rule can_rx.pop_input_content [OF assms(1)])
  then show ?thesis unfolding can_rx_ops_def rx_ops.select_convs by blast
qed

text \<open>Removing a block races with the interrupt handler and wins: whatever arrives while the block
  is moved out, \<open>console_pop_input\<close> ends, and leaves what was behind the block followed by exactly
  the bytes that the interrupts stored meanwhile.\<close>

lemma can_pop_exact:
  assumes "env_ok e" and "len \<le> unat (receive_pos (cd e))"
  shows "\<exists>e' k. console_pop_input can_rx_ops len e = Some e' \<and> env_ok e' \<and>
    take (unat (receive_pos (cd e'))) (receive_buf (cd e')) =
      drop len (take (unat (receive_pos (cd e))) (receive_buf (cd e))) @ rx_stream k e"
  by (rule can_pop_content [OF assms])


definition logs_sent :: "'h can_hw \<Rightarrow> ('h \<Rightarrow> u8 list) \<Rightarrow> bool" where
  "logs_sent hw wire \<longleftrightarrow> (\<forall>msg d. wire (snd (canhw_send hw msg d)) =
     wire d @ (if fst (canhw_send hw msg d) > 0 then take (unat (dlc msg)) (msg_data msg) else []))"

lemma tx_loop_wire:
  assumes "logs_sent hw wire"
  shows "tpos \<le> tmax \<Longrightarrow> tmax \<le> length buf \<Longrightarrow> length data = 8 \<Longrightarrow>
    can_tx_loop hw mid buf tpos tmax data d = (r, d') \<Longrightarrow>
    wire d' @ drop r (take tmax buf) = wire d @ drop tpos (take tmax buf)"
proof (induction "tmax - tpos" arbitrary: tpos data d rule: less_induct)
  case less
  define n where "n = (if tmax - tpos > 8 then 8 else tmax - tpos)"
  let ?chunk = "take n (drop tpos buf)"
  let ?msg = "\<lparr> msg_id = mid, dlc = of_nat n, msg_data = blit data 0 ?chunk \<rparr>"
  obtain ret d1 where s: "canbus_send hw ?msg d = (ret, d1)" by (cases "canbus_send hw ?msg d")
  have eq: "can_tx_loop hw mid buf tpos tmax data d =
      (if tmax \<le> tpos then (tpos, d) else if ret \<le> 0 then (tpos, d1)
       else can_tx_loop hw mid buf (tpos + n) tmax (blit data 0 ?chunk) d1)"
    by (subst can_tx_loop.simps) (simp only: Let_def s prod.case n_def [symmetric])
  have n: "n \<le> 8" "n \<le> tmax - tpos" by (simp_all add: n_def)
  have c: "length ?chunk = n" using n(2) less.prems(1,2) by simp
  have "take n (blit data 0 ?chunk) = ?chunk" using take_blit_end [of 0 data ?chunk] c by simp
  moreover have "unat (of_nat n :: u32) = n" using n(1) by (intro unat_of_nat_u32) simp
  ultimately have w: "wire d1 = wire d @ (if ret > 0 then ?chunk else [])"
    using assms s unfolding logs_sent_def canbus_send_def by (metis canbus_msg.select_convs(2,3) fst_conv snd_conv)
  show ?case
  proof (cases "tmax \<le> tpos \<or> ret \<le> 0")
    case True
    then show ?thesis using less.prems(1,4) w unfolding eq by (auto split: if_splits)
  next
    case False
    then have "n > 0" by (simp add: n_def)
    have rec: "can_tx_loop hw mid buf (tpos + n) tmax (blit data 0 ?chunk) d1 = (r, d')"
      using less.prems(4) False unfolding eq by simp
    have "tmax - (tpos + n) < tmax - tpos" "tpos + n \<le> tmax" using \<open>n > 0\<close> n(2) False less.prems(1) by auto
    moreover have "length (blit data 0 ?chunk) = 8" using c n(1) less.prems(3) by (subst length_blit) simp_all
    ultimately have "wire d' @ drop r (take tmax buf) = wire d1 @ drop (tpos + n) (take tmax buf)"
      using less.hyps [of "tpos + n"] less.prems(2) rec by blast
    moreover have "drop tpos (take tmax buf) = ?chunk @ drop (tpos + n) (take tmax buf)"
    proof -
      have "take n (drop tpos (take tmax buf)) = ?chunk" using n(2) by (simp add: drop_take)
      then show ?thesis
        using append_take_drop_id [of n "drop tpos (take tmax buf)"] by (simp add: add.commute)
    qed
    ultimately show ?thesis using w False by simp
  qed
qed

text \<open>The transmit task neither loses nor repeats nor reorders a byte. On hardware where an
  accepted message is one whose data goes out, the bytes sent with the response id followed by the
  bytes still queued stay the same when the task runs with an assigned id.\<close>

lemma can_tx_task_conserves:
  assumes "env_ok e" and "assigned_id (cd e) \<noteq> 0"
    and "logs_sent hw wire"
  shows "wire (can_dev (canserial_tx_task hw e)) @ can_pending (cd (canserial_tx_task hw e)) =
    wire (can_dev e) @ can_pending (cd e)"
proof -
  let ?s = "cd e"
  obtain r d where l: "can_tx_loop hw (assigned_id ?s + 1) (transmit_buf ?s) (unat (transmit_pos ?s))
      (unat (transmit_max ?s)) (replicate 8 0) (can_dev e) = (r, d)"
    by (cases "can_tx_loop hw (assigned_id ?s + 1) (transmit_buf ?s) (unat (transmit_pos ?s))
      (unat (transmit_max ?s)) (replicate 8 0) (can_dev e)")
  have ok: "can_ok ?s" using assms(1) by (simp add: env_ok_def)
  have b: "unat (transmit_pos ?s) \<le> unat (transmit_max ?s)" "unat (transmit_max ?s) \<le> 96"
    using can_okD(4,5) [OF ok] by (simp_all add: word_le_nat_alt)
  have "wire d @ drop r (take (unat (transmit_max ?s)) (transmit_buf ?s)) = wire (can_dev e) @ can_pending ?s"
    using tx_loop_wire [OF assms(3) b(1) _ _ l] b(2) can_okD(3) [OF ok] by (simp add: can_pending_def)
  moreover have "r \<le> 96" using tx_loop_bounds [OF b(1) l] b(2) by simp
  then have "unat (of_nat r :: u8) = r" by (intro unat_of_nat_u8) simp
  ultimately show ?thesis
    using l assms(2) by (simp add: canserial_tx_task_def sched_check_wake_def Let_def can_pending_def)
qed

text \<open>A CONNECT reply for an application with a variant name of 21 or more characters is dropped
  by the CAN console of the shipped configuration: whatever is queued, nothing is added, so the
  host's CONNECT is not answered.\<close>

lemma can_drops_long_connect:
  assumes "can_ok s" and "meta = appvalidate_get_metadata steinzeit (flash_memory api (flash st))"
    and "magic meta = APP_METADATA_MAGIC" and "20 < strnlen (app_variant_name meta) 32"
  shows "can_pending (fold can_console_sendf (snd (command_connect steinzeit api st)) s) = can_pending s"
proof -
  have l: "length (app_variant_name meta) = 32" by (simp add: assms(2))
  have "length (connect_variant meta) \<le> 32"
    using strnlen_le [of "app_variant_name meta" 32] length_connect_variant [OF l] by simp
  then have "connect_words steinzeit meta < 258"
    by (simp add: connect_words_def steinzeit_def div_round_up_def)
  then obtain ce where
    ce: "snd (command_connect steinzeit api st) = [ce]" "ce_max_size ce = 4 * connect_words steinzeit meta"
    using connect_reply [OF _ assms(2)] by blast
  with connect_reply_size [OF assms(3) l assms(4)] can_sendf(2) [OF assms(1), of ce] show ?thesis by simp
qed

section \<open>Node ids\<close>

text \<open>Short ids and CAN ids: the 32 ids of a short id's block lie below the admin ids, blocks of
  different short ids do not overlap, and the heartbeat of a node carries its short id.\<close>

lemma can_nodeid_blocks:
  assumes "1 \<le> i" and "i \<le> 29"
  shows "unat (can_decode_nodeid i) = 32 * nat i + 32 \<and> unat (can_decode_nodeid i) + 31 < unat CANBUS_ID_ADMIN \<and>
    (\<forall>j. i < j \<and> j \<le> 29 \<longrightarrow> unat (can_decode_nodeid i) + 31 < unat (can_decode_nodeid j)) \<and>
    unat (msg_id (heartbeat_msg (can_decode_nodeid i))) = 0x700 + nat i"
proof -
  have d: "unat (can_decode_nodeid j) = 32 * nat j + 32" if "1 \<le> j" "j \<le> 29" for j
    using that by (rule can_decode_nodeid_unat)
  have "unat (can_decode_nodeid i - 0x020) = 32 * nat i" using d [OF assms] by (simp add: unat_sub word_le_nat_alt)
  then have "unat (drop_bit 5 (can_decode_nodeid i - 0x020)) = nat i" by (simp add: drop_bit_eq_div unat_div)
  moreover have "nat i \<le> 29" using assms by simp
  ultimately have "unat (0x700 + drop_bit 5 (can_decode_nodeid i - 0x020)) = 0x700 + nat i"
    by (simp add: unat_word_ariths)
  then show ?thesis using d assms by (auto simp: heartbeat_msg_def)
qed

lemma process_admin_id:
  assumes "can_process_admin hw msg e = Some e'"
  shows "assigned_id (cd e') =
    (let aid = assigned_id (cd e); newid = can_decode_nodeid (uint (msg_data msg ! 7)) in
     if dlc msg = 0 then aid
     else if msg_data msg ! 0 = 0x12 then 0
     else if msg_data msg ! 0 = 0x11 \<and> \<not> dlc msg < 8 \<and> newid \<noteq> 0 then
       (if can_check_uuid msg (cd e) then newid else if newid = aid then 0 else aid)
     else aid)"
  using assms
  by (auto simp: can_process_admin_def can_process_query_unassigned_def can_process_set_canboot_nodeid_def
      can_process_clear_canboot_nodeid_def can_id_conflict_def can_assign_eq bind_eq_Some_conv Let_def split: if_splits)

text \<open>C19: Node ids stay unique. When two nodes with different UUIDs handle the same admin message and
  did not share an id before, they do not share one afterwards.\<close>

theorem admin_keeps_ids_unique:
  assumes "can_process_admin hw msg e1 = Some e1'" and "can_process_admin hw' msg e2 = Some e2'"
    and "take 6 (can_uuid (cd e1)) \<noteq> take 6 (can_uuid (cd e2))"
    and "assigned_id (cd e1) \<noteq> 0 \<longrightarrow> assigned_id (cd e1) \<noteq> assigned_id (cd e2)"
  shows "assigned_id (cd e1') \<noteq> 0 \<longrightarrow> assigned_id (cd e1') \<noteq> assigned_id (cd e2')"
proof -
  have "\<not> (can_check_uuid msg (cd e1) \<and> can_check_uuid msg (cd e2))"
    using assms(3) by (auto simp: can_check_uuid_def)
  with assms(4) show ?thesis
    unfolding process_admin_id [OF assms(1)] process_admin_id [OF assms(2)] by (auto simp: Let_def)
qed

text \<open>C20: The admin queue wedges when its position counters wrap: once the pull counter has reached
  2^32 - 8 and the queue is empty, every further admin message is dropped as if the queue were
  full.\<close>

theorem admin_queue_wedges:
  assumes "can_ok s" and "admin_push_pos s = admin_pull_pos s" and "0xfffffff8 \<le> admin_pull_pos s"
    and "msg_id msg = CANBUS_ID_ADMIN"
  shows "canserial_process_data msg s = (-1, s)"
proof -
  have n: "unat (assigned_id s) \<noteq> 0x3f0" "unat (assigned_id s) \<noteq> 0x3ef"
    using can_okD(2) [OF assms(1)] by (auto simp: id_ok_def)
  have "assigned_id s \<noteq> 0x3f0" "assigned_id s + 1 \<noteq> 0x3f0"
  proof -
    show "assigned_id s \<noteq> 0x3f0" using n(1) by auto
    have "assigned_id s = 0x3ef" if "assigned_id s + 1 = 0x3f0"
      using arg_cong [OF that, of "\<lambda>x. x - 1"] by simp
    with n(2) show "assigned_id s + 1 \<noteq> 0x3f0" by auto
  qed
  moreover have "admin_pull_pos s + 8 \<le> admin_pull_pos s"
    using assms(3) unat_u32_less [of "admin_pull_pos s"]
    by (simp add: word_le_nat_alt unat_word_ariths le_mod_geq del: unat_u32_less)
  ultimately show ?thesis
    using assms(2,4) by (auto simp: canserial_process_data_def Let_def)
qed

section \<open>A request is served\<close>

text \<open>C17: With a frame at the front of what was received, the receive task dispatches exactly it: the
  application goes through \<open>command_dispatch\<close> on the frame, the frame is gone from the buffer and
  what followed it stays, and the replies are queued in order when they fit.\<close>

theorem can_rx_task_serves_frame:
  assumes "env_ok (node_env nd)" and "arrivals (node_env nd) = []" and "rx_wake (cd (node_env nd)) \<noteq> 0"
    and "admin_push_pos (cd (node_env nd)) = admin_pull_pos (cd (node_env nd)) \<and> id_conflict_pending (cd (node_env nd)) = 0"
    and "take (unat (receive_pos (cd (node_env nd)))) (receive_buf (cd (node_env nd))) = frame cmd ws @ rest"
    and "length ws \<le> 30" and "node_sync nd AND CF_NEED_SYNC = 0"
    and "command_dispatch c api (can_uuid (cd (node_env nd))) now (frame cmd ws) (length (frame cmd ws)) (node_app nd) = Some (st, ms)"
    and "length (can_pending (cd (node_env nd))) + sum_list (map ce_max_size ms) \<le> 96"
  shows "\<exists>nd'. canserial_rx_task c api hw now nd = Some nd' \<and> node_app nd' = st \<and>
    take (unat (receive_pos (cd (node_env nd')))) (receive_buf (cd (node_env nd'))) = rest \<and>
    can_pending (cd (node_env nd')) = can_pending (cd (node_env nd)) @ concat (map command_encode_and_frame ms)"
proof -
  let ?nd = "nd\<lparr>node_env := (node_env nd)\<lparr>cd := (cd (node_env nd))\<lparr>rx_wake := 0\<rparr>\<rparr>\<rparr>"
  let ?e = "node_env ?nd" and ?sync = "node_sync nd AND NOT CF_NEED_VALID" and ?n = "length (frame cmd ws)"
  have pre: "preempt ?e = ?e" using assms(2) by (simp add: preempt_def)
  have adm: "can_admin_loop hw (can_handle_conflict hw ?e) = Some ?e"
    using assms(4) by (subst can_admin_loop.simps) (simp add: can_handle_conflict_def preempt_def assms(2))
  have task: "canserial_rx_task c api hw now nd = can_rx_block c api now ?nd"
    using assms(3) adm pre by (simp add: canserial_rx_task_def sched_check_wake_def Let_def)
  have rcv: "received (cd ?e) = frame cmd ws @ rest" using assms(5) by simp
  have fb: "command_find_block (received (cd ?e)) (node_sync ?nd) = (1, ?n, ?sync, [])"
    unfolding rcv by (simp add: command_find_block_frame [OF assms(6,7)])
  have pos: "?n \<le> unat (receive_pos (cd ?e))"
    using arg_cong [OF rcv, of length] by simp
  have "take ?n (receive_buf (cd ?e)) = frame cmd ws"
    using arg_cong [OF rcv, of "take ?n"] pos by (simp add: min_def)
  then have disp: "command_dispatch c api (can_uuid (cd ?e)) now (receive_buf (cd ?e)) ?n (node_app nd) = Some (st, ms)"
    using assms(8) by (simp add: command_dispatch_def)
  let ?e2 = "?e\<lparr>cd := fold can_console_sendf ms (cd ?e)\<rparr>"
  have e2: "env_ok ?e2" "preempt ?e2 = ?e2" "?n \<le> unat (receive_pos (cd ?e2))"
    using assms(1,2) pos by (simp_all add: env_ok_def can_tx.sends_inv preempt_def)
  from can_pop_content [OF e2(1,3)] obtain e3 k where e3: "console_pop_input can_rx_ops ?n ?e2 = Some e3"
      "received (cd e3) = drop ?n (received (cd ?e2)) @ rx_stream k ?e2" by blast
  have "arrivals e3 = [] \<and> can_pending (cd e3) = can_pending (cd ?e2)"
    by (rule pop_input_keeps [OF e3(1)])
       (use assms(2) in \<open>simp_all add: can_rx_ops_def preempt_def can_pending_def canserial_notify_rx_def\<close>)
  moreover have "can_pending (cd ?e2) = can_pending (cd (node_env nd)) @ concat (map command_encode_and_frame ms)"
  proof -
    have p: "can_pending (cd ?e) = can_pending (cd (node_env nd))" by (simp add: can_pending_def)
    have "can_ok (cd ?e)" using assms(1) by (simp add: env_ok_def)
    from can_tx.sends_all [OF this, of ms] assms(9) show ?thesis unfolding p by simp
  qed
  moreover have "rx_stream k ?e2 = []" using assms(2) by (simp add: rx_stream_def)
  moreover have "can_rx_block c api now ?nd = Some (?nd\<lparr>node_sync := ?sync, node_app := st, node_env := e3\<rparr>)"
    unfolding can_rx_block_def Let_def fb prod.case using disp pre e2(2) e3(1) by simp
  ultimately show ?thesis
    using e3(2) rcv by (simp add: task)
qed

section \<open>Concrete runs\<close>

text \<open>Hardware that takes every message and keeps it.\<close>

definition log_hw :: "canbus_msg list can_hw" where
  "log_hw = \<lparr> canhw_send = (\<lambda>msg d. (1, d @ [msg])), canhw_set_filter = (\<lambda>_ d. d) \<rparr>"

definition log_wire :: "canbus_msg list \<Rightarrow> u8 list" where
  "log_wire d = concat (map (\<lambda>m. take (unat (dlc m)) (msg_data m)) d)"

definition demo_node :: "(memory, canbus_msg list) can_node" where
  "demo_node = can_start [1, 2, 3] demo_app [] 0"

definition admin_msg :: "u8 list \<Rightarrow> canbus_msg" where
  "admin_msg data = \<lparr> msg_id = CANBUS_ID_ADMIN, dlc = 8, msg_data = data \<rparr>"

lemma can_ok_zero: "can_ok can_data_zero"
  by (simp add: can_ok_def can_data_zero_def list_all_iff msg_ok_def)

lemma can_data_zero_fields [simp]: "can_uuid can_data_zero = [0, 0, 0, 0, 0, 0]" "assigned_id can_data_zero = 0"
  by (simp_all add: can_data_zero_def numeral_eq_Suc)


theorem can_no_lost_wakeup_witness:
  "\<exists>nd. canserial_rx_task steinzeit demo_api log_hw 0 demo_node = Some nd \<and> rx_wake (cd (node_env nd)) = 0 \<and>
     admin_push_pos (cd (node_env nd)) = admin_pull_pos (cd (node_env nd))"
proof -
  let ?nd = "demo_node\<lparr>node_env := (node_env demo_node)\<lparr>cd := (cd (node_env demo_node))\<lparr>rx_wake := 0\<rparr>\<rparr>\<rparr>"
  have "canserial_rx_task steinzeit demo_api log_hw 0 demo_node = Some ?nd"
    by (simp add: canserial_rx_task_def can_rx_block_def sched_check_wake_def sched_wake_task_def can_handle_conflict_def preempt_def
        can_admin_loop.simps demo_node_def can_start_def canserial_heartbeat_init_def canserial_set_uuid_def
        canserial_notify_rx_def can_data_zero_def Let_def)
  moreover from this have "(can_step steinzeit demo_api log_hw)\<^sup>*\<^sup>* demo_node ?nd"
    by (blast intro: can_step.rx)
  from can_no_lost_wakeup [OF this [unfolded demo_node_def]]
  have "admin_push_pos (cd (node_env ?nd)) = admin_pull_pos (cd (node_env ?nd))" unfolding demo_node_def by simp
  ultimately show ?thesis by (intro exI [of _ ?nd]) simp
qed


definition long_variant :: "u8 list" where
  "long_variant = cstr ''a-very-long-variant-name'' @ replicate 8 0"

definition long_flash :: memory where
  "long_flash = mem_write (\<lambda>_. 0xff) 0x8002000 (flash_image steinzeit demo_code 7 long_variant)"

theorem admin_keeps_ids_unique_witness:
  "\<exists>e1 e2. can_process_admin log_hw (admin_msg [0x11, 1, 2, 3, 4, 5, 6, 9])
       \<lparr> cd = can_data_zero\<lparr>can_uuid := [1, 2, 3, 4, 5, 6]\<rparr>, can_dev = [], arrivals = [] \<rparr> = Some e1 \<and>
     can_process_admin log_hw (admin_msg [0x11, 1, 2, 3, 4, 5, 6, 9])
       \<lparr> cd = can_data_zero\<lparr>assigned_id := 320\<rparr>, can_dev = [], arrivals = [] \<rparr> = Some e2 \<and>
     assigned_id (cd e1) = 320 \<and> assigned_id (cd e1) \<noteq> assigned_id (cd e2)"
proof -
  let ?m = "admin_msg [0x11, 1, 2, 3, 4, 5, 6, 9]"
  let ?e1 = "\<lparr> cd = can_data_zero\<lparr>can_uuid := [1, 2, 3, 4, 5, 6]\<rparr>, can_dev = [] :: canbus_msg list, arrivals = [] \<rparr>"
  let ?e2 = "\<lparr> cd = can_data_zero\<lparr>assigned_id := 320\<rparr>, can_dev = [] :: canbus_msg list, arrivals = [] \<rparr>"
  have d: "can_decode_nodeid 9 = 320" by (simp add: can_decode_nodeid_def)
  have send: "can_send_retry log_hw m d = Some (d @ [m])" for m d
    by (subst can_send_retry.simps) (simp add: canbus_send_def log_hw_def)
  obtain e1 where e1: "can_process_admin log_hw ?m ?e1 = Some e1" "assigned_id (cd e1) = 320"
    by (simp add: can_process_admin_def can_process_set_canboot_nodeid_def can_check_uuid_def admin_msg_def d send can_assign_def)
  obtain e2 where e2: "can_process_admin log_hw ?m ?e2 = Some e2"
    by (simp add: can_process_admin_def can_process_set_canboot_nodeid_def can_check_uuid_def admin_msg_def d)
  have "take 6 (can_uuid (cd ?e1)) \<noteq> take 6 (can_uuid (cd ?e2))" by simp
  from admin_keeps_ids_unique [OF e1(1) e2 this] e1 e2 show ?thesis by auto
qed

theorem admin_queue_wedges_witness:
  "canserial_process_data (admin_msg [0x11, 1, 2, 3, 4, 5, 6, 9])
     (can_data_zero\<lparr>admin_push_pos := 0xfffffff8, admin_pull_pos := 0xfffffff8\<rparr>) =
   (-1, can_data_zero\<lparr>admin_push_pos := 0xfffffff8, admin_pull_pos := 0xfffffff8\<rparr>)"
proof (rule admin_queue_wedges)
  show "can_ok (can_data_zero\<lparr>admin_push_pos := 0xfffffff8, admin_pull_pos := 0xfffffff8\<rparr>)"
    using can_ok_zero by (simp add: can_ok_def)
qed (simp_all add: admin_msg_def)

theorem can_rx_task_serves_frame_witness:
  "\<exists>nd'. canserial_rx_task steinzeit demo_api log_hw 0 (demo_node\<lparr>node_env := (node_env demo_node)
     \<lparr>cd := (cd (node_env demo_node))\<lparr>receive_pos := 8, receive_buf := frame 0x55 [] @ replicate 184 0\<rparr>\<rparr>\<rparr>) = Some nd' \<and>
     can_pending (cd (node_env nd')) = frame 0xf2 []"
proof -
  let ?nd = "demo_node\<lparr>node_env := (node_env demo_node)
     \<lparr>cd := (cd (node_env demo_node))\<lparr>receive_pos := 8, receive_buf := frame 0x55 [] @ replicate 184 0\<rparr>\<rparr>\<rparr>"
  have demo: "cd (node_env demo_node) = canserial_set_uuid [1, 2, 3] can_data_zero" "arrivals (node_env demo_node) = []"
      "node_sync demo_node = 0"
    by (simp_all add: demo_node_def can_start_def canserial_heartbeat_init_def)
  have u: "canserial_set_uuid [1, 2, 3] can_data_zero =
      can_data_zero\<lparr>can_uuid := take 6 (bytes_of_u64 (fasthash64 [1, 2, 3] 0xA16231A7)), rx_wake := 1\<rparr>"
    by (simp add: canserial_set_uuid_def canserial_notify_rx_def sched_wake_task_def)
  note demo = demo(1) [unfolded u] demo(2,3)
  have ok: "env_ok (node_env ?nd)"
    using can_ok_zero by (simp add: env_ok_def can_ok_def demo can_data_zero_def)
  have l: "length ([] :: u32 list) \<le> 30" by simp
  have disp: "command_dispatch steinzeit demo_api (can_uuid (cd (node_env ?nd))) 0 (frame 0x55 []) (length (frame 0x55 [])) (node_app ?nd) =
      Some (node_app ?nd, [command_respond_command_error])"
    unfolding dispatch_frame [OF l] by (simp add: Let_def)
  have "\<exists>nd'. canserial_rx_task steinzeit demo_api log_hw 0 ?nd = Some nd' \<and> node_app nd' = node_app ?nd \<and>
      received (cd (node_env nd')) = [] \<and>
      can_pending (cd (node_env nd')) = can_pending (cd (node_env ?nd)) @
        concat (map command_encode_and_frame [command_respond_command_error])"
    by (rule can_rx_task_serves_frame [OF ok _ _ _ _ l _ disp])
       (simp_all add: demo can_data_zero_def can_pending_def command_respond_command_error_def command_respond_def)
  moreover have "can_pending (cd (node_env ?nd)) = []" by (simp add: demo can_data_zero_def can_pending_def)
  ultimately show ?thesis by (auto simp: respond_error_frame)
qed

end
