(* ===== verification/SerialIrq.thy ===== *)
theory SerialIrq
  imports Console Dispatch
begin

text \<open>
  The UART console, \<open>generic/serial_irq.c\<close>. Its buffers are static variables that two interrupt
  handlers use as well: \<open>serial_rx_byte\<close> appends a received byte and \<open>serial_get_tx_byte\<close> takes the
  next byte to send. As for CAN, the interrupts to come are given in groups, one group for each
  point where a task touches what they share; the bytes the transmit interrupt took are kept in
  \<open>ser_wire\<close>. \<open>serial_enable_tx_irq\<close> belongs to the hardware and has no effect on the state.
\<close>

section \<open>The state and the interrupts\<close>

record ser_data =
  ser_receive_buf :: "u8 list"
  ser_receive_pos :: u8
  ser_transmit_buf :: "u8 list"
  ser_transmit_pos :: u8
  ser_transmit_max :: u8

definition serial_rx_byte :: "u8 \<Rightarrow> ser_data \<Rightarrow> ser_data" where
  "serial_rx_byte data s =
     (if unat (ser_receive_pos s) \<ge> 192 then s
      else s\<lparr>ser_receive_buf := (ser_receive_buf s)[unat (ser_receive_pos s) := data],
             ser_receive_pos := ser_receive_pos s + 1\<rparr>)"

text \<open>The byte taken, or \<open>None\<close> for the return value -1.\<close>

definition serial_get_tx_byte :: "ser_data \<Rightarrow> u8 option \<times> ser_data" where
  "serial_get_tx_byte s =
     (if ser_transmit_pos s \<ge> ser_transmit_max s then (None, s)
      else (Some (ser_transmit_buf s ! unat (ser_transmit_pos s)), s\<lparr>ser_transmit_pos := ser_transmit_pos s + 1\<rparr>))"

datatype ser_irq = Rx_Byte u8 | Tx_Ready

record ser_env =
  ser :: ser_data
  ser_wire :: "u8 list"
  ser_arrivals :: "ser_irq list list"

fun ser_interrupt :: "ser_irq \<Rightarrow> ser_env \<Rightarrow> ser_env" where
  "ser_interrupt (Rx_Byte b) e = e\<lparr>ser := serial_rx_byte b (ser e)\<rparr>"
| "ser_interrupt Tx_Ready e =
     (case serial_get_tx_byte (ser e) of
        (None, s) \<Rightarrow> e\<lparr>ser := s\<rparr>
      | (Some b, s) \<Rightarrow> e\<lparr>ser := s, ser_wire := ser_wire e @ [b]\<rparr>)"

definition ser_preempt :: "ser_env \<Rightarrow> ser_env" where
  "ser_preempt e = (case ser_arrivals e of [] \<Rightarrow> e
     | irqs # rest \<Rightarrow> fold ser_interrupt irqs (e\<lparr>ser_arrivals := rest\<rparr>))"

section \<open>Tasks\<close>

definition ser_rx_ops :: "ser_env rx_ops" where
  "ser_rx_ops = \<lparr> rx_pos = (\<lambda>e. ser_receive_pos (ser e)), rx_buf = (\<lambda>e. ser_receive_buf (ser e)),
     set_rx_pos = (\<lambda>p e. e\<lparr>ser := (ser e)\<lparr>ser_receive_pos := p\<rparr>\<rparr>),
     set_rx_buf = (\<lambda>b e. e\<lparr>ser := (ser e)\<lparr>ser_receive_buf := b\<rparr>\<rparr>),
     rx_notify = (\<lambda>e. e), rx_preempt = ser_preempt \<rparr>"

text \<open>The transmit interrupt may come before \<open>transmit_max\<close> is cleared and while the message is
  built; with \<open>transmit_max\<close> at 0 it finds nothing.\<close>

definition ser_console_sendf :: "command_encoder \<Rightarrow> ser_env \<Rightarrow> ser_env" where
  "ser_console_sendf ce e =
     (let tpos = unat (ser_transmit_pos (ser e));
          e = ser_preempt e;
          tmax = unat (ser_transmit_max (ser e));
          (tpos, tmax, e) = (if tpos \<ge> tmax
            then (0, 0, e\<lparr>ser := (ser e)\<lparr>ser_transmit_max := 0, ser_transmit_pos := 0\<rparr>\<rparr>)
            else (tpos, tmax, e));
          max_size = ce_max_size ce
      in if tmax + max_size > 96 \<and> tmax + max_size - tpos > 96 then e
         else
           let e = ser_preempt e;
               (tmax, e) = (if tmax + max_size > 96 then
                   (let e = e\<lparr>ser := (ser e)\<lparr>ser_transmit_max := 0\<rparr>\<rparr>;
                        e = ser_preempt e;
                        tpos = unat (ser_transmit_pos (ser e));
                        tmax = tmax - tpos
                    in (tmax, e\<lparr>ser := (ser e)\<lparr>ser_transmit_buf := blit (ser_transmit_buf (ser e)) 0
                                   (take tmax (drop tpos (ser_transmit_buf (ser e)))),
                                 ser_transmit_pos := 0, ser_transmit_max := of_nat tmax\<rparr>\<rparr>))
                 else (tmax, e));
               msg = command_encode_and_frame ce;
               e = ser_preempt (e\<lparr>ser := (ser e)\<lparr>ser_transmit_buf := blit (ser_transmit_buf (ser e)) tmax msg\<rparr>\<rparr>)
           in e\<lparr>ser := (ser e)\<lparr>ser_transmit_max := of_nat (tmax + length msg)\<rparr>\<rparr>)"

record 'f ser_node =
  ser_node_env :: ser_env
  ser_node_sync :: u8
  ser_node_app :: "'f app"

definition ser_console_task :: "config \<Rightarrow> 'f flash_api \<Rightarrow> u8 list \<Rightarrow> u32 \<Rightarrow> 'f ser_node \<Rightarrow> 'f ser_node option" where
  "ser_console_task c api canid now nd =
     (let e = ser_node_env nd; rpos = unat (ser_receive_pos (ser e));
          (ret, pop_count, sync, ms) = command_find_block (take rpos (ser_receive_buf (ser e))) (ser_node_sync nd);
          nd = nd\<lparr>ser_node_env := fold ser_console_sendf ms e, ser_node_sync := sync\<rparr>
      in do {
        nd \<leftarrow> (if ret > 0 then do {
            (st, ms) \<leftarrow> command_dispatch c api canid now (ser_receive_buf (ser (ser_node_env nd))) pop_count (ser_node_app nd);
            Some (nd\<lparr>ser_node_app := st,
                     ser_node_env := fold ser_console_sendf ms (ser_preempt (ser_node_env nd))\<rparr>)
          } else Some nd);
        (if ret \<noteq> 0 then do {
            e \<leftarrow> console_pop_input ser_rx_ops pop_count (ser_preempt (ser_node_env nd));
            Some (nd\<lparr>ser_node_env := e\<rparr>)
          } else Some nd)
      })"

section \<open>Interrupts and the receive buffer\<close>

definition ser_ok :: "ser_data \<Rightarrow> bool" where
  "ser_ok s \<longleftrightarrow> length (ser_receive_buf s) = 192 \<and> unat (ser_receive_pos s) \<le> 192 \<and>
     length (ser_transmit_buf s) = 96 \<and> unat (ser_transmit_max s) \<le> 96"

fun ser_bytes :: "nat \<Rightarrow> ser_irq list \<Rightarrow> u8 list" where
  "ser_bytes pos [] = []"
| "ser_bytes pos (Tx_Ready # iqs) = ser_bytes pos iqs"
| "ser_bytes pos (Rx_Byte b # iqs) = (if pos \<ge> 192 then ser_bytes pos iqs else b # ser_bytes (Suc pos) iqs)"

definition ser_stream :: "nat \<Rightarrow> ser_env \<Rightarrow> u8 list" where
  "ser_stream k e = ser_bytes (unat (ser_receive_pos (ser e))) (concat (take k (ser_arrivals e)))"

lemma ser_bytes_append:
  "ser_bytes pos (xs @ ys) = ser_bytes pos xs @ ser_bytes (pos + length (ser_bytes pos xs)) ys"
  by (induction pos xs rule: ser_bytes.induct) simp_all

lemma unat_Suc_u8: "unat (w :: u8) < 255 \<Longrightarrow> unat (w + 1) = Suc (unat w)"
  by (simp add: unat_word_ariths)

lemma rx_byte_ok: "ser_ok s \<Longrightarrow> ser_ok (serial_rx_byte b s)"
  by (auto simp: ser_ok_def serial_rx_byte_def unat_Suc_u8)

lemma tx_byte_ok: "ser_ok s \<Longrightarrow> ser_ok (snd (serial_get_tx_byte s))"
  by (simp add: ser_ok_def serial_get_tx_byte_def)

lemma ser_interrupt_ok: "ser_ok (ser e) \<Longrightarrow> ser_ok (ser (ser_interrupt i e))"
  using tx_byte_ok [of "ser e"]
  by (cases i) (auto simp: rx_byte_ok split: prod.splits option.splits)

abbreviation (input) ser_received :: "ser_env \<Rightarrow> u8 list" where
  "ser_received e \<equiv> take (unat (ser_receive_pos (ser e))) (ser_receive_buf (ser e))"

lemma ser_interrupt_received:
  "ser_ok (ser e) \<Longrightarrow> ser_received (ser_interrupt i e) =
     ser_received e @ ser_bytes (unat (ser_receive_pos (ser e))) [i]"
  by (cases i) (auto simp: serial_rx_byte_def serial_get_tx_byte_def ser_ok_def unat_Suc_u8 take_Suc_conv_app_nth)

lemma ser_interrupts_received:
  "ser_ok (ser e) \<Longrightarrow> ser_ok (ser (fold ser_interrupt iqs e)) \<and>
   ser_received (fold ser_interrupt iqs e) = ser_received e @ ser_bytes (unat (ser_receive_pos (ser e))) iqs"
proof (induction iqs arbitrary: e)
  case (Cons i iqs)
  let ?e = "ser_interrupt i e"
  have ok: "ser_ok (ser ?e)" using Cons.prems by (rule ser_interrupt_ok)
  note i = ser_interrupt_received [OF Cons.prems, of i]
  have "unat (ser_receive_pos (ser ?e)) = unat (ser_receive_pos (ser e)) + length (ser_bytes (unat (ser_receive_pos (ser e))) [i])"
    using arg_cong [OF i, of length] ok Cons.prems by (simp add: ser_ok_def)
  with Cons.IH [OF ok] i ser_bytes_append [of "unat (ser_receive_pos (ser e))" "[i]" iqs] show ?case by simp
qed simp

lemma ser_interrupts_arrivals [simp]: "ser_arrivals (fold ser_interrupt iqs e) = ser_arrivals e"
proof (induction iqs arbitrary: e)
  case (Cons i iqs)
  have "ser_arrivals (ser_interrupt i e) = ser_arrivals e" by (cases i) (auto split: prod.splits option.splits)
  with Cons show ?case by simp
qed simp

lemma ser_preempt_ok: "ser_ok (ser e) \<Longrightarrow> ser_ok (ser (ser_preempt e))"
  by (auto simp: ser_preempt_def ser_interrupts_received split: list.splits)

lemma ser_preempt_received:
  "ser_ok (ser e) \<Longrightarrow> ser_received (ser_preempt e) = ser_received e @ ser_stream 1 e"
  by (auto simp: ser_preempt_def ser_interrupts_received ser_stream_def split: list.splits)

lemma ser_stream_Suc:
  assumes "ser_ok (ser e)"
  shows "ser_stream (Suc k) e = ser_stream 1 e @ ser_stream k (ser_preempt e)"
proof (cases "ser_arrivals e")
  case (Cons iqs rest)
  let ?e = "fold ser_interrupt iqs (e\<lparr>ser_arrivals := rest\<rparr>)"
  have ok: "ser_ok (ser (e\<lparr>ser_arrivals := rest\<rparr>))" using assms by simp
  note r = ser_interrupts_received [OF ok, of iqs]
  have "unat (ser_receive_pos (ser ?e)) =
      unat (ser_receive_pos (ser e)) + length (ser_bytes (unat (ser_receive_pos (ser e))) iqs)"
    using arg_cong [OF conjunct2 [OF r], of length] conjunct1 [OF r] assms by (simp add: ser_ok_def)
  then show ?thesis using Cons by (simp add: ser_stream_def ser_preempt_def ser_bytes_append)
qed (simp add: ser_stream_def ser_preempt_def)

interpretation ser_rx: rx_buffer ser_rx_ops "\<lambda>e. ser_ok (ser e)" ser_stream "\<lambda>_. True"
proof unfold_locales
  fix e :: ser_env
  assume e: "ser_ok (ser e)"
  show "unat (rx_pos ser_rx_ops e) \<le> length (rx_buf ser_rx_ops e)"
    using e by (simp add: ser_rx_ops_def ser_ok_def)
  show "rx_content ser_rx_ops (rx_preempt ser_rx_ops e) = rx_content ser_rx_ops e @ ser_stream 1 e"
    using ser_preempt_received [OF e] by (simp add: ser_rx_ops_def)
  show "ser_stream (Suc k) e = ser_stream 1 e @ ser_stream k (rx_preempt ser_rx_ops e)" for k
    unfolding ser_rx_ops_def rx_ops.select_convs by (rule ser_stream_Suc [OF e])
  show "length (rx_buf ser_rx_ops (rx_preempt ser_rx_ops e)) = length (rx_buf ser_rx_ops e)"
    using e ser_preempt_ok [OF e] by (simp add: ser_rx_ops_def ser_ok_def)
  show "ser_ok (ser (rx_preempt ser_rx_ops e))" using ser_preempt_ok [OF e] by (simp add: ser_rx_ops_def)
qed (simp_all add: ser_rx_ops_def ser_ok_def ser_stream_def)

section \<open>Sending under the transmit interrupt\<close>

text \<open>What was sent and what is queued.\<close>

definition ser_out :: "ser_env \<Rightarrow> u8 list" where
  "ser_out e = ser_wire e @ drop (unat (ser_transmit_pos (ser e)))
     (take (unat (ser_transmit_max (ser e))) (ser_transmit_buf (ser e)))"

text \<open>What interrupts do to the transmit side.\<close>

definition ser_later :: "ser_env \<Rightarrow> ser_env \<Rightarrow> bool" where
  "ser_later e e' \<longleftrightarrow> ser_ok (ser e') \<and> ser_out e' = ser_out e \<and>
     ser_transmit_buf (ser e') = ser_transmit_buf (ser e) \<and> ser_transmit_max (ser e') = ser_transmit_max (ser e) \<and>
     unat (ser_transmit_pos (ser e)) \<le> unat (ser_transmit_pos (ser e')) \<and>
     (ser_transmit_pos (ser e') = ser_transmit_pos (ser e) \<or> unat (ser_transmit_pos (ser e')) \<le> unat (ser_transmit_max (ser e)))"

lemma ser_later_interrupt:
  assumes ok: "ser_ok (ser e)"
  shows "ser_later e (ser_interrupt i e)"
proof (cases i)
  case (Rx_Byte b)
  then show ?thesis using rx_byte_ok [OF ok, of b] by (simp add: ser_later_def ser_out_def serial_rx_byte_def)
next
  case Tx_Ready
  show ?thesis
  proof (cases "ser_transmit_pos (ser e) \<ge> ser_transmit_max (ser e)")
    case True
    then show ?thesis using ok Tx_Ready by (simp add: ser_later_def serial_get_tx_byte_def ser_out_def)
  next
    case False
    let ?p = "unat (ser_transmit_pos (ser e))" and ?m = "unat (ser_transmit_max (ser e))"
    have lt: "?p < ?m" "?m \<le> 96" "?m \<le> length (ser_transmit_buf (ser e))"
      using False ok by (simp_all add: word_le_nat_alt ser_ok_def)
    have s: "unat (ser_transmit_pos (ser e) + 1) = Suc ?p" using lt by (intro unat_Suc_u8) simp
    have "drop ?p (take ?m (ser_transmit_buf (ser e))) =
        ser_transmit_buf (ser e) ! ?p # drop (Suc ?p) (take ?m (ser_transmit_buf (ser e)))"
      using lt by (subst Cons_nth_drop_Suc [symmetric]) simp_all
    then show ?thesis
      using False ok lt s Tx_Ready tx_byte_ok [OF ok] by (simp add: ser_later_def serial_get_tx_byte_def ser_out_def)
  qed
qed

lemma ser_later_trans: "ser_later e e1 \<Longrightarrow> ser_later e1 e2 \<Longrightarrow> ser_later e e2"
  by (auto simp: ser_later_def)

lemma ser_later_interrupts: "ser_ok (ser e) \<Longrightarrow> ser_later e (fold ser_interrupt iqs e)"
proof (induction iqs arbitrary: e)
  case Nil
  then show ?case by (simp add: ser_later_def)
next
  case (Cons i iqs)
  have "ser_later (ser_interrupt i e) (fold ser_interrupt iqs (ser_interrupt i e))"
    by (rule Cons.IH [OF ser_interrupt_ok [OF Cons.prems]])
  with ser_later_interrupt [OF Cons.prems, of i] show ?case by (auto intro: ser_later_trans)
qed

lemma ser_later_arrivals [simp]: "ser_later (e\<lparr>ser_arrivals := r\<rparr>) e' = ser_later e e'"
  by (simp add: ser_later_def ser_out_def)

lemma ser_later_preempt:
  assumes "ser_ok (ser e)"
  shows "ser_later e (ser_preempt e)"
proof (cases "ser_arrivals e")
  case Nil
  then show ?thesis using assms by (simp add: ser_preempt_def ser_later_def)
next
  case (Cons iqs rest)
  then show ?thesis
    using ser_later_interrupts [of "e\<lparr>ser_arrivals := rest\<rparr>" iqs] assms by (simp add: ser_preempt_def)
qed

text \<open>The message laid behind the \<open>n\<close> bytes in the buffer, an interrupt, and the new end.\<close>

lemma ser_append:
  assumes ok: "ser_ok (ser e)" and n: "unat (ser_transmit_max (ser e)) = n" "unat (ser_transmit_pos (ser e)) \<le> n"
    and m: "n + length msg \<le> 96"
  defines "e1 \<equiv> ser_preempt (e\<lparr>ser := (ser e)\<lparr>ser_transmit_buf := blit (ser_transmit_buf (ser e)) n msg\<rparr>\<rparr>)"
  shows "ser_ok (ser (e1\<lparr>ser := (ser e1)\<lparr>ser_transmit_max := of_nat (n + length msg)\<rparr>\<rparr>)) \<and>
    ser_out (e1\<lparr>ser := (ser e1)\<lparr>ser_transmit_max := of_nat (n + length msg)\<rparr>\<rparr>) = ser_out e @ msg"
proof -
  let ?b = "blit (ser_transmit_buf (ser e)) n msg"
  let ?e = "e\<lparr>ser := (ser e)\<lparr>ser_transmit_buf := ?b\<rparr>\<rparr>"
  have len: "length (ser_transmit_buf (ser e)) = 96" using ok by (simp add: ser_ok_def)
  have b: "take n ?b = take n (ser_transmit_buf (ser e))" "take (n + length msg) ?b = take n (ser_transmit_buf (ser e)) @ msg"
    using m len take_blit_end [of n "ser_transmit_buf (ser e)" msg] by simp_all
  have "length ?b = 96" using m len by (subst length_blit) simp_all
  then have ok1: "ser_ok (ser ?e)" using ok by (simp add: ser_ok_def)
  have l: "ser_ok (ser e1)" "ser_out e1 = ser_out ?e" "ser_transmit_buf (ser e1) = ?b"
      "unat (ser_transmit_pos (ser e1)) \<le> n"
    using ser_later_preempt [OF ok1] n by (auto simp: ser_later_def e1_def)
  have u: "unat (of_nat (n + length msg) :: u8) = n + length msg"
    using m by (simp add: unat_of_nat take_bit_nat_eq_self del: of_nat_add)
  have "ser_out e1 = ser_out e" using l(2) b(1) n(1) by (simp add: ser_out_def)
  moreover have "unat (ser_transmit_max (ser e1)) = n"
    using ser_later_preempt [OF ok1] n by (simp add: ser_later_def e1_def)
  ultimately show ?thesis
    using l b u m len by (simp add: ser_out_def ser_ok_def del: of_nat_add)
qed

lemma ser_sendf:
  assumes ok: "ser_ok (ser e)"
  shows "ser_ok (ser (ser_console_sendf ce e)) \<and>
    (ser_out (ser_console_sendf ce e) = ser_out e \<or>
     ser_out (ser_console_sendf ce e) = ser_out e @ command_encode_and_frame ce)"
proof -
  let ?msg = "command_encode_and_frame ce" and ?p = "unat (ser_transmit_pos (ser e))"
  have m: "length ?msg \<le> ce_max_size ce" by (simp add: command_encode_and_frame_def)
  define e1 where "e1 = ser_preempt e"
  have l1: "ser_later e e1" unfolding e1_def by (rule ser_later_preempt [OF ok])
  then have ok1: "ser_ok (ser e1)" and out1: "ser_out e1 = ser_out e" by (simp_all add: ser_later_def)
  let ?tm = "unat (ser_transmit_max (ser e1))"
  have tm: "?tm \<le> 96" using ok1 by (simp add: ser_ok_def)
  have fin: "ser_ok (ser (e'\<lparr>ser := (ser e')\<lparr>ser_transmit_max := of_nat (n + length ?msg)\<rparr>\<rparr>)) \<and>
      ser_out (e'\<lparr>ser := (ser e')\<lparr>ser_transmit_max := of_nat (n + length ?msg)\<rparr>\<rparr>) = ser_out e @ ?msg"
    if "ser_ok (ser f)" "ser_out f = ser_out e" "unat (ser_transmit_max (ser f)) = n"
      "unat (ser_transmit_pos (ser f)) \<le> n" "n + ce_max_size ce \<le> 96"
      "e' = ser_preempt (f\<lparr>ser := (ser f)\<lparr>ser_transmit_buf := blit (ser_transmit_buf (ser f)) n ?msg\<rparr>\<rparr>)" for f e' n
    using ser_append [OF that(1,3,4), of ?msg] that(2,5,6) m by simp
  show ?thesis
  proof (cases "?p \<ge> ?tm")
    case True
    define e2 where "e2 = e1\<lparr>ser := (ser e1)\<lparr>ser_transmit_max := 0, ser_transmit_pos := 0\<rparr>\<rparr>"
    have ok2: "ser_ok (ser e2)" using ok1 by (simp add: e2_def ser_ok_def)
    have "?tm \<le> unat (ser_transmit_pos (ser e1))" using l1 True by (auto simp: ser_later_def)
    then have out2: "ser_out e2 = ser_out e" using out1 by (simp add: ser_out_def e2_def)
    define e3 where "e3 = ser_preempt e2"
    have l3: "ser_later e2 e3" unfolding e3_def by (rule ser_later_preempt [OF ok2])
    have e3: "ser_ok (ser e3)" "ser_out e3 = ser_out e" "unat (ser_transmit_max (ser e3)) = 0"
        "unat (ser_transmit_pos (ser e3)) \<le> 0"
      using l3 out2 by (auto simp: ser_later_def e2_def)
    show ?thesis
    proof (cases "ce_max_size ce \<le> 96")
      case True
      from fin [OF e3 _ refl] True \<open>?p \<ge> ?tm\<close> show ?thesis
        by (simp add: ser_console_sendf_def Let_def e1_def [symmetric] e2_def [symmetric] e3_def [symmetric])
    next
      case False
      with \<open>?p \<ge> ?tm\<close> have "ser_console_sendf ce e = e2"
        by (simp add: ser_console_sendf_def Let_def e1_def [symmetric] e2_def [symmetric])
      with ok2 out2 show ?thesis by simp
    qed
  next
    case False
    then have lt: "?p < ?tm" by simp
    define e3 where "e3 = ser_preempt e1"
    have l3: "ser_later e1 e3" unfolding e3_def by (rule ser_later_preempt [OF ok1])
    have p13: "?p \<le> unat (ser_transmit_pos (ser e3))" "unat (ser_transmit_pos (ser e3)) \<le> ?tm"
      using l1 l3 lt by (auto simp: ser_later_def)
    have e3: "ser_ok (ser e3)" "ser_out e3 = ser_out e" "unat (ser_transmit_max (ser e3)) = ?tm"
      using l3 out1 by (auto simp: ser_later_def)
    consider (fits) "?tm + ce_max_size ce \<le> 96" | (move) "\<not> ?tm + ce_max_size ce \<le> 96" "?tm + ce_max_size ce - ?p \<le> 96"
      | (drop) "\<not> ?tm + ce_max_size ce \<le> 96" "\<not> ?tm + ce_max_size ce - ?p \<le> 96" by blast
    then show ?thesis
    proof cases
      case fits
      from fin [OF e3 p13(2) fits refl] fits lt show ?thesis
        by (simp add: ser_console_sendf_def Let_def e1_def [symmetric] e3_def [symmetric])
    next
      case drop
      then have "ser_console_sendf ce e = e1"
        using lt by (simp add: ser_console_sendf_def Let_def e1_def [symmetric])
      with ok1 out1 show ?thesis by simp
    next
      case move
      define e4 where "e4 = ser_preempt (e3\<lparr>ser := (ser e3)\<lparr>ser_transmit_max := 0\<rparr>\<rparr>)"
      let ?q = "unat (ser_transmit_pos (ser e4))"
      have ok3: "ser_ok (ser (e3\<lparr>ser := (ser e3)\<lparr>ser_transmit_max := 0\<rparr>\<rparr>))" using e3(1) by (simp add: ser_ok_def)
      have l4: "ser_later (e3\<lparr>ser := (ser e3)\<lparr>ser_transmit_max := 0\<rparr>\<rparr>) e4" unfolding e4_def by (rule ser_later_preempt [OF ok3])
      then have q: "ser_transmit_pos (ser e4) = ser_transmit_pos (ser e3)" by (auto simp: ser_later_def word_unat_eq_iff)
      have e4: "ser_ok (ser e4)" "ser_transmit_buf (ser e4) = ser_transmit_buf (ser e3)" "ser_wire e4 = ser_wire e3"
        using l4 by (auto simp: ser_later_def ser_out_def)
      define n where "n = ?tm - ?q"
      define b where "b = blit (ser_transmit_buf (ser e4)) 0 (take n (drop ?q (ser_transmit_buf (ser e4))))"
      define e5 where "e5 = e4\<lparr>ser := (ser e4)\<lparr>ser_transmit_buf := b, ser_transmit_pos := 0, ser_transmit_max := of_nat n\<rparr>\<rparr>"
      have len: "length (ser_transmit_buf (ser e4)) = 96" using e4(1) by (simp add: ser_ok_def)
      have nn: "n + ?q = ?tm" "n \<le> 96" using p13(2) tm by (simp_all add: n_def q)
      have c: "length (take n (drop ?q (ser_transmit_buf (ser e4)))) = n" using len nn tm by simp
      have "length b = 96" unfolding b_def using len c nn(2) by (subst length_blit) simp_all
      moreover have u: "unat (of_nat n :: u8) = n" using nn(2) by (simp add: unat_of_nat take_bit_nat_eq_self)
      ultimately have ok5: "ser_ok (ser e5)" using e4(1) nn(2) by (simp add: e5_def ser_ok_def)
      have "take n b = take n (drop ?q (ser_transmit_buf (ser e4)))"
        using take_blit_end [of 0 "ser_transmit_buf (ser e4)" "take n (drop ?q (ser_transmit_buf (ser e4)))"] c
        by (simp add: b_def)
      also have "\<dots> = drop (unat (ser_transmit_pos (ser e3))) (take ?tm (ser_transmit_buf (ser e3)))"
        by (simp add: n_def q e4(2) drop_take)
      finally have out5: "ser_out e5 = ser_out e"
        unfolding e3(2) [symmetric] by (simp add: ser_out_def e5_def u e4(3) e3(3))
      have "n + ce_max_size ce \<le> 96" using move(2) p13(1) nn(1) q by simp
      moreover have "unat (ser_transmit_max (ser e5)) = n" "unat (ser_transmit_pos (ser e5)) \<le> n"
        using u by (simp_all add: e5_def)
      ultimately have "ser_ok (ser (ser_console_sendf ce e)) \<and> ser_out (ser_console_sendf ce e) = ser_out e @ ?msg"
        using fin [OF ok5 out5 _ _ _ refl] move lt
        by (simp add: ser_console_sendf_def Let_def e1_def [symmetric] e3_def [symmetric] e4_def [symmetric]
            n_def [symmetric] b_def [symmetric] e5_def del: of_nat_diff)
      then show ?thesis by simp
    qed
  qed
qed

interpretation ser_tx: console_stream ser_console_sendf ser_out "\<lambda>e. ser_ok (ser e)"
  by unfold_locales (simp_all add: ser_sendf)

section \<open>Properties\<close>

text \<open>The receive interrupt and \<open>console_pop_input\<close> do not lose each other's work. Removing \<open>len\<close> bytes
  from the front of the UART's receive buffer always ends, and whatever bytes the receive interrupt
  appends meanwhile, what is then in the buffer is what was there without its first \<open>len\<close> bytes,
  followed by exactly the bytes received, in order.\<close>

lemma ser_pop_exact:
  assumes "ser_ok (ser e)" and "len \<le> unat (ser_receive_pos (ser e))"
  shows "\<exists>e' k. console_pop_input ser_rx_ops len e = Some e' \<and> ser_ok (ser e') \<and>
    take (unat (ser_receive_pos (ser e'))) (ser_receive_buf (ser e')) =
      drop len (take (unat (ser_receive_pos (ser e))) (ser_receive_buf (ser e))) @ ser_stream k e"
proof -
  have "len \<le> unat (rx_pos ser_rx_ops e)" using assms(2) by (simp add: ser_rx_ops_def)
  then obtain e' k where "console_pop_input ser_rx_ops len e = Some e'" "ser_ok (ser e')"
      "rx_content ser_rx_ops e' = drop len (rx_content ser_rx_ops e) @ ser_stream k e"
    by (rule ser_rx.pop_input_content [OF assms(1)])
  then show ?thesis unfolding ser_rx_ops_def rx_ops.select_convs by blast
qed

text \<open>C21: The UART never tears a reply. Whatever transmit and receive interrupts come while messages are
  handed to \<open>console_sendf\<close>, the bytes already on the wire followed by the bytes still queued are
  what they were before followed by the whole frames of a subsequence of the messages, in order:
  no byte is lost, repeated or interleaved, even when the buffer is moved down while the interrupt
  takes bytes from it.\<close>

theorem ser_sends_whole_frames:
  assumes "ser_ok (ser e)"
  shows "\<exists>sent. subseq sent ces \<and>
    ser_out (fold ser_console_sendf ces e) = ser_out e @ concat (map command_encode_and_frame sent)"
  using assms by (rule ser_tx.sends_whole_frames)

definition ser_data_zero :: ser_data where
  "ser_data_zero = \<lparr> ser_receive_buf = replicate 192 0, ser_receive_pos = 0, ser_transmit_buf = replicate 96 0,
     ser_transmit_pos = 0, ser_transmit_max = 0 \<rparr>"

lemma ser_ok_zero: "ser_ok ser_data_zero"
  by (simp add: ser_ok_def ser_data_zero_def)

theorem ser_sends_whole_frames_witness:
  "ser_out (ser_console_sendf command_respond_nack
      \<lparr> ser = ser_data_zero\<lparr>ser_transmit_pos := 1, ser_transmit_max := 92\<rparr>, ser_wire = [7],
        ser_arrivals = [[Tx_Ready], [Rx_Byte 3, Tx_Ready]] \<rparr>) \<in>
     {7 # replicate 91 0, 7 # replicate 91 0 @ command_encode_and_frame command_respond_nack}"
proof -
  let ?e = "\<lparr> ser = ser_data_zero\<lparr>ser_transmit_pos := 1, ser_transmit_max := 92\<rparr>, ser_wire = [7],
        ser_arrivals = [[Tx_Ready], [Rx_Byte 3, Tx_Ready]] \<rparr>"
  have ok: "ser_ok (ser ?e)" by (simp add: ser_ok_def ser_data_zero_def)
  have o: "ser_out ?e = 7 # replicate 91 0" by (simp add: ser_out_def ser_data_zero_def)
  obtain sent where sent: "subseq sent [command_respond_nack]"
      "ser_out (ser_console_sendf command_respond_nack ?e) = (7 # replicate 91 0) @ concat (map command_encode_and_frame sent)"
    using ser_sends_whole_frames [OF ok, of "[command_respond_nack]"] o by auto
  from sent(1) have "sent = [] \<or> sent = [command_respond_nack]"
    by (cases sent) (auto simp: subseq_Cons2_iff split: if_splits dest: list_emb_length)
  with sent(2) show ?thesis by auto
qed

end
