(* ===== verification/UsbStd.thy ===== *)
theory UsbStd
  imports Config
begin

text \<open>
  The structures and numbers of \<open>generic/usbstd.h\<close> and \<open>generic/usbstd_cdc.h\<close>. Each packed
  structure is a record with a function that lays it out in memory; a designated initialiser that
  leaves a field out leaves it zero, so every field is given where a descriptor is built.
\<close>

definition USB_DIR_IN :: u8 where "USB_DIR_IN = 0x80"

definition USB_REQ_SET_ADDRESS :: u8 where "USB_REQ_SET_ADDRESS = 0x05"
definition USB_REQ_GET_DESCRIPTOR :: u8 where "USB_REQ_GET_DESCRIPTOR = 0x06"
definition USB_REQ_SET_CONFIGURATION :: u8 where "USB_REQ_SET_CONFIGURATION = 0x09"
definition USB_CDC_REQ_SET_LINE_CODING :: u8 where "USB_CDC_REQ_SET_LINE_CODING = 0x20"
definition USB_CDC_REQ_GET_LINE_CODING :: u8 where "USB_CDC_REQ_GET_LINE_CODING = 0x21"
definition USB_CDC_REQ_SET_CONTROL_LINE_STATE :: u8 where "USB_CDC_REQ_SET_CONTROL_LINE_STATE = 0x22"

definition USB_DT_DEVICE :: u8 where "USB_DT_DEVICE = 0x01"
definition USB_DT_CONFIG :: u8 where "USB_DT_CONFIG = 0x02"
definition USB_DT_STRING :: u8 where "USB_DT_STRING = 0x03"
definition USB_DT_INTERFACE :: u8 where "USB_DT_INTERFACE = 0x04"
definition USB_DT_ENDPOINT :: u8 where "USB_DT_ENDPOINT = 0x05"
definition USB_CDC_CS_INTERFACE :: u8 where "USB_CDC_CS_INTERFACE = 0x24"
definition USB_CLASS_COMM :: u8 where "USB_CLASS_COMM = 2"
definition USB_ENDPOINT_XFER_BULK :: u8 where "USB_ENDPOINT_XFER_BULK = 2"
definition USB_ENDPOINT_XFER_INT :: u8 where "USB_ENDPOINT_XFER_INT = 3"
definition USB_LANGID_ENGLISH_US :: u16 where "USB_LANGID_ENGLISH_US = 0x0409"

named_theorems usb_numbers

lemmas [usb_numbers] =
  USB_DIR_IN_def USB_REQ_SET_ADDRESS_def USB_REQ_GET_DESCRIPTOR_def USB_REQ_SET_CONFIGURATION_def
  USB_CDC_REQ_SET_LINE_CODING_def USB_CDC_REQ_GET_LINE_CODING_def USB_CDC_REQ_SET_CONTROL_LINE_STATE_def
  USB_DT_DEVICE_def USB_DT_CONFIG_def USB_DT_STRING_def USB_DT_INTERFACE_def USB_DT_ENDPOINT_def
  USB_CDC_CS_INTERFACE_def USB_CLASS_COMM_def USB_ENDPOINT_XFER_BULK_def USB_ENDPOINT_XFER_INT_def
  USB_LANGID_ENGLISH_US_def

section \<open>Requests\<close>

record usb_ctrlrequest =
  bRequestType :: u8
  bRequest :: u8
  wValue :: u16
  wIndex :: u16
  wLength :: u16

definition usb_ctrlrequest_of_bytes :: "u8 list \<Rightarrow> usb_ctrlrequest" where
  "usb_ctrlrequest_of_bytes bs = \<lparr> bRequestType = bs ! 0, bRequest = bs ! 1,
     wValue = u16_of_bytes (bs ! 2) (bs ! 3), wIndex = u16_of_bytes (bs ! 4) (bs ! 5),
     wLength = u16_of_bytes (bs ! 6) (bs ! 7) \<rparr>"

record usb_cdc_line_coding =
  dwDTERate :: u32
  bCharFormat :: u8
  bParityType :: u8
  bDataBits :: u8

definition bytes_of_line_coding :: "usb_cdc_line_coding \<Rightarrow> u8 list" where
  "bytes_of_line_coding l = bytes_of_u32 (dwDTERate l) @ [bCharFormat l, bParityType l, bDataBits l]"

definition line_coding_of_bytes :: "u8 list \<Rightarrow> usb_cdc_line_coding" where
  "line_coding_of_bytes bs = \<lparr> dwDTERate = u32_of_bytes (bs ! 0) (bs ! 1) (bs ! 2) (bs ! 3),
     bCharFormat = bs ! 4, bParityType = bs ! 5, bDataBits = bs ! 6 \<rparr>"

section \<open>Descriptors\<close>

record usb_device_descriptor =
  bcdUSB :: u16
  bDeviceClass :: u8
  bDeviceSubClass :: u8
  bDeviceProtocol :: u8
  bMaxPacketSize0 :: u8
  idVendor :: u16
  idProduct :: u16
  bcdDevice :: u16
  iManufacturer :: u8
  iProduct :: u8
  iSerialNumber :: u8
  bNumConfigurations :: u8

text \<open>The two bytes every descriptor starts with, its length and type, are arguments: \<open>bLength\<close> is
  the size of the structure in every initialiser.\<close>

definition with_header :: "u8 \<Rightarrow> u8 list \<Rightarrow> u8 list" where
  "with_header ty body = [of_nat (2 + length body), ty] @ body"

definition bytes_of_device_descriptor :: "usb_device_descriptor \<Rightarrow> u8 list" where
  "bytes_of_device_descriptor d = with_header USB_DT_DEVICE
     (bytes_of_u16 (bcdUSB d) @ [bDeviceClass d, bDeviceSubClass d, bDeviceProtocol d, bMaxPacketSize0 d] @
      bytes_of_u16 (idVendor d) @ bytes_of_u16 (idProduct d) @ bytes_of_u16 (bcdDevice d) @
      [iManufacturer d, iProduct d, iSerialNumber d, bNumConfigurations d])"

record usb_config_descriptor =
  wTotalLength :: u16
  bNumInterfaces :: u8
  bConfigurationValue :: u8
  iConfiguration :: u8
  cfg_bmAttributes :: u8
  bMaxPower :: u8

definition bytes_of_config_descriptor :: "usb_config_descriptor \<Rightarrow> u8 list" where
  "bytes_of_config_descriptor d = with_header USB_DT_CONFIG
     (bytes_of_u16 (wTotalLength d) @
      [bNumInterfaces d, bConfigurationValue d, iConfiguration d, cfg_bmAttributes d, bMaxPower d])"

record usb_interface_descriptor =
  bInterfaceNumber :: u8
  bAlternateSetting :: u8
  bNumEndpoints :: u8
  bInterfaceClass :: u8
  bInterfaceSubClass :: u8
  bInterfaceProtocol :: u8
  iInterface :: u8

definition bytes_of_interface_descriptor :: "usb_interface_descriptor \<Rightarrow> u8 list" where
  "bytes_of_interface_descriptor d = with_header USB_DT_INTERFACE
     [bInterfaceNumber d, bAlternateSetting d, bNumEndpoints d, bInterfaceClass d, bInterfaceSubClass d,
      bInterfaceProtocol d, iInterface d]"

record usb_endpoint_descriptor =
  bEndpointAddress :: u8
  ep_bmAttributes :: u8
  wMaxPacketSize :: u16
  bInterval :: u8

definition bytes_of_endpoint_descriptor :: "usb_endpoint_descriptor \<Rightarrow> u8 list" where
  "bytes_of_endpoint_descriptor d = with_header USB_DT_ENDPOINT
     ([bEndpointAddress d, ep_bmAttributes d] @ bytes_of_u16 (wMaxPacketSize d) @ [bInterval d])"

record usb_cdc_header_descriptor =
  hdr_bDescriptorSubType :: u8
  bcdCDC :: u16

definition bytes_of_cdc_header :: "usb_cdc_header_descriptor \<Rightarrow> u8 list" where
  "bytes_of_cdc_header d = with_header USB_CDC_CS_INTERFACE ([hdr_bDescriptorSubType d] @ bytes_of_u16 (bcdCDC d))"

record usb_cdc_acm_descriptor =
  acm_bDescriptorSubType :: u8
  bmCapabilities :: u8

definition bytes_of_cdc_acm :: "usb_cdc_acm_descriptor \<Rightarrow> u8 list" where
  "bytes_of_cdc_acm d = with_header USB_CDC_CS_INTERFACE [acm_bDescriptorSubType d, bmCapabilities d]"

record usb_cdc_union_descriptor =
  union_bDescriptorSubType :: u8
  bMasterInterface0 :: u8
  bSlaveInterface0 :: u8

definition bytes_of_cdc_union :: "usb_cdc_union_descriptor \<Rightarrow> u8 list" where
  "bytes_of_cdc_union d = with_header USB_CDC_CS_INTERFACE
     [union_bDescriptorSubType d, bMasterInterface0 d, bSlaveInterface0 d]"

text \<open>A string descriptor with 16-bit code units.\<close>

definition usb_string_descriptor :: "u16 list \<Rightarrow> u8 list" where
  "usb_string_descriptor us = with_header USB_DT_STRING (concat (map bytes_of_u16 us))"

lemma length_with_header [simp]: "length (with_header ty body) = 2 + length body"
  by (simp add: with_header_def)

lemma length_usb_structs [simp]:
  "length (bytes_of_device_descriptor dev) = 18" "length (bytes_of_config_descriptor cfg) = 9"
  "length (bytes_of_interface_descriptor ifc) = 9" "length (bytes_of_endpoint_descriptor ep) = 7"
  "length (bytes_of_cdc_header hdr) = 5" "length (bytes_of_cdc_acm acm) = 4" "length (bytes_of_cdc_union un) = 5"
  "length (bytes_of_line_coding lc) = 7"
  by (simp_all add: bytes_of_device_descriptor_def bytes_of_config_descriptor_def bytes_of_interface_descriptor_def
      bytes_of_endpoint_descriptor_def bytes_of_cdc_header_def bytes_of_cdc_acm_def bytes_of_cdc_union_def bytes_of_line_coding_def)

lemma length_usb_string_descriptor [simp]: "length (usb_string_descriptor us) = 2 + 2 * length us"
  by (induction us) (simp_all add: usb_string_descriptor_def)

lemma nth_with_header [simp]: "with_header ty body ! 0 = of_nat (2 + length body)" "with_header ty body ! Suc 0 = ty"
  by (simp_all add: with_header_def)

lemma line_coding_roundtrip: "length bs = 7 \<Longrightarrow> bytes_of_line_coding (line_coding_of_bytes bs) = bs"
  by (auto simp: bytes_of_line_coding_def line_coding_of_bytes_def list_eq_iff_nth_eq nth_append less_Suc_eq numeral_eq_Suc
      nth_Cons split: nat.splits)

end
