(* ===== verification/UsbCdc.thy ===== *)
theory UsbCdc
  imports Console Dispatch UsbStd CanSerial
begin

text \<open>
  The console over USB, \<open>generic/usb_cdc.c\<close>: the bulk endpoints that carry the messages, the
  descriptors, and the control transfers of endpoint 0. The USB controller is a record of the
  functions that \<open>usb_cdc.h\<close> asks of the board, on a state of its own; a read returns its return
  value and the bytes it stored. All tasks run one after the other and only wake-up flags are set
  by interrupts.
\<close>

section \<open>Configuration and controller\<close>

record usb_config =
  CONFIG_USB_VENDOR_ID :: u16
  CONFIG_USB_DEVICE_ID :: u16
  CONFIG_USB_SERIAL_NUMBER :: "u8 list"
  CONFIG_USB_SERIAL_NUMBER_CHIPID :: bool
  USB_CDC_EP_BULK_IN :: u8
  USB_CDC_EP_BULK_OUT :: u8
  USB_CDC_EP_ACM :: u8

abbreviation (input) USB_CDC_EP0_SIZE :: nat where "USB_CDC_EP0_SIZE \<equiv> 16"
abbreviation (input) USB_CDC_EP_ACM_SIZE :: nat where "USB_CDC_EP_ACM_SIZE \<equiv> 8"
abbreviation (input) USB_CDC_EP_BULK_OUT_SIZE :: nat where "USB_CDC_EP_BULK_OUT_SIZE \<equiv> 64"
abbreviation (input) USB_CDC_EP_BULK_IN_SIZE :: nat where "USB_CDC_EP_BULK_IN_SIZE \<equiv> 64"

record 'u usb_hw =
  usb_read_bulk_out :: "nat \<Rightarrow> 'u \<Rightarrow> (int \<times> u8 list) \<times> 'u"
  usb_send_bulk_in :: "u8 list \<Rightarrow> 'u \<Rightarrow> int \<times> 'u"
  usb_read_ep0 :: "nat \<Rightarrow> 'u \<Rightarrow> (int \<times> u8 list) \<times> 'u"
  usb_read_ep0_setup :: "nat \<Rightarrow> 'u \<Rightarrow> (int \<times> u8 list) \<times> 'u"
  usb_send_ep0 :: "u8 list \<Rightarrow> 'u \<Rightarrow> int \<times> 'u"
  usb_stall_ep0 :: "'u \<Rightarrow> 'u"
  usb_set_address :: "u16 \<Rightarrow> 'u \<Rightarrow> 'u"
  usb_set_configure :: "'u \<Rightarrow> 'u"
  usbserial_get_serialid :: "u8 list"

text \<open>Where a control transfer reads from or writes to: a constant (a null pointer of size 0 is an
  empty one), or \<open>line_coding\<close> from some offset on.\<close>

datatype xfer_ptr = Constant "u8 list" | Line_Coding nat

record usb_data =
  usb_bulk_in_wake :: u8
  usb_transmit_buf :: "u8 list"
  usb_transmit_pos :: u8
  usb_bulk_out_wake :: u8
  usb_receive_buf :: "u8 list"
  usb_receive_pos :: u8
  usb_xfer_data :: xfer_ptr
  usb_xfer_size :: u8
  usb_xfer_flags :: u8
  line_coding :: "u8 list"
  line_control_state :: u8
  usb_ep0_wake :: u8

section \<open>The bulk endpoints\<close>

definition usb_notify_bulk_in :: "usb_data \<Rightarrow> usb_data" where
  "usb_notify_bulk_in s = s\<lparr>usb_bulk_in_wake := sched_wake_task (usb_bulk_in_wake s)\<rparr>"

definition usb_notify_bulk_out :: "usb_data \<Rightarrow> usb_data" where
  "usb_notify_bulk_out s = s\<lparr>usb_bulk_out_wake := sched_wake_task (usb_bulk_out_wake s)\<rparr>"

definition usb_notify_ep0 :: "usb_data \<Rightarrow> usb_data" where
  "usb_notify_ep0 s = s\<lparr>usb_ep0_wake := sched_wake_task (usb_ep0_wake s)\<rparr>"

definition usb_bulk_in_task :: "'u usb_hw \<Rightarrow> usb_data \<times> 'u \<Rightarrow> usb_data \<times> 'u" where
  "usb_bulk_in_task hw = (\<lambda>(s, d).
     let (woken, w) = sched_check_wake (usb_bulk_in_wake s); s = s\<lparr>usb_bulk_in_wake := w\<rparr> in
     if \<not> woken then (s, d)
     else
       let tpos = unat (usb_transmit_pos s) in
       if tpos = 0 then (s, d)
       else
         let max_tpos = (if tpos > USB_CDC_EP_BULK_IN_SIZE then USB_CDC_EP_BULK_IN_SIZE else tpos);
             (ret, d) = usb_send_bulk_in hw (take max_tpos (usb_transmit_buf s)) d
         in if ret \<le> 0 then (s, d)
            else
              let needcopy = tpos - nat ret;
                  s = (if needcopy \<noteq> 0
                       then usb_notify_bulk_in (s\<lparr>usb_transmit_buf := blit (usb_transmit_buf s) 0
                              (take needcopy (drop (nat ret) (usb_transmit_buf s)))\<rparr>)
                       else s)
              in (s\<lparr>usb_transmit_pos := of_nat needcopy\<rparr>, d))"

definition usb_console_sendf :: "command_encoder \<Rightarrow> usb_data \<Rightarrow> usb_data" where
  "usb_console_sendf ce s =
     (let tpos = unat (usb_transmit_pos s); max_size = ce_max_size ce in
      if tpos + max_size > 192 then s
      else
        let msg = command_encode_and_frame ce
        in usb_notify_bulk_in (s\<lparr>usb_transmit_buf := blit (usb_transmit_buf s) tpos msg,
             usb_transmit_pos := of_nat (tpos + length msg)\<rparr>))"

record ('f, 'u) usb_node =
  usb :: usb_data
  usb_dev :: 'u
  usb_sync :: u8
  usb_app :: "'f app"

text \<open>The first half of \<open>usb_bulk_out_task\<close>: more data is read when a whole packet fits. The result is
  the local \<open>rpos\<close>.\<close>

definition usb_read_data :: "'u usb_hw \<Rightarrow> usb_data \<Rightarrow> 'u \<Rightarrow> nat \<times> usb_data \<times> 'u" where
  "usb_read_data hw s d =
     (let rpos = unat (usb_receive_pos s) in
      if rpos + USB_CDC_EP_BULK_OUT_SIZE \<le> 128 then
        (let ((ret, bs), d) = usb_read_bulk_out hw USB_CDC_EP_BULK_OUT_SIZE d;
             s = s\<lparr>usb_receive_buf := blit (usb_receive_buf s) rpos bs\<rparr>
         in if ret > 0 then (rpos + nat ret, usb_notify_bulk_out s, d) else (rpos, s, d))
      else (rpos, usb_notify_bulk_out s, d))"

definition usb_bulk_out_task :: "config \<Rightarrow> 'f flash_api \<Rightarrow> 'u usb_hw \<Rightarrow> u8 list \<Rightarrow> u32 \<Rightarrow> ('f, 'u) usb_node
    \<Rightarrow> ('f, 'u) usb_node option" where
  "usb_bulk_out_task c api hw canid now nd =
     (let s = usb nd; (woken, w) = sched_check_wake (usb_bulk_out_wake s); s = s\<lparr>usb_bulk_out_wake := w\<rparr> in
      if \<not> woken then Some (nd\<lparr>usb := s\<rparr>)
      else
        let (rpos, s, d) = usb_read_data hw s (usb_dev nd) in do {
          (ret, pop_count, sync, st, ms) \<leftarrow>
            command_find_and_dispatch c api canid now (take rpos (usb_receive_buf s)) (usb_sync nd) (usb_app nd);
          let s = fold usb_console_sendf ms s;
          let (rpos, s) = (if ret \<noteq> 0 then
                  (let needcopy = rpos - pop_count in
                   if needcopy \<noteq> 0 then
                     (needcopy, usb_notify_bulk_out (s\<lparr>usb_receive_buf := blit (usb_receive_buf s) 0
                        (take needcopy (drop pop_count (usb_receive_buf s)))\<rparr>))
                   else (needcopy, s))
                else (rpos, s));
          Some (nd\<lparr>usb := s\<lparr>usb_receive_pos := of_nat rpos\<rparr>, usb_dev := d, usb_sync := sync, usb_app := st\<rparr>)
        })"

section \<open>Descriptors\<close>

definition USB_STR_ID_MANUFACTURER :: u8 where "USB_STR_ID_MANUFACTURER = 1"
definition USB_STR_ID_PRODUCT :: u8 where "USB_STR_ID_PRODUCT = 2"
definition USB_STR_ID_SERIAL :: u8 where "USB_STR_ID_SERIAL = 3"

text \<open>A \<open>u""\<close> literal of ASCII characters.\<close>

definition utf16 :: "u8 list \<Rightarrow> u16 list" where
  "utf16 s = map ucast s"

definition cdc_string_langids :: "u8 list" where
  "cdc_string_langids = usb_string_descriptor [USB_LANGID_ENGLISH_US]"

definition cdc_string_manufacturer :: "u8 list" where
  "cdc_string_manufacturer = usb_string_descriptor (utf16 (cstr ''katapult''))"

definition cdc_string_product :: "config \<Rightarrow> u8 list" where
  "cdc_string_product c = usb_string_descriptor (utf16 (CONFIG_MCU c))"

definition cdc_string_serial :: "usb_config \<Rightarrow> u8 list" where
  "cdc_string_serial u = usb_string_descriptor (utf16 (CONFIG_USB_SERIAL_NUMBER u))"

definition cdc_device_descriptor :: "usb_config \<Rightarrow> u8 list" where
  "cdc_device_descriptor u = bytes_of_device_descriptor
     \<lparr> bcdUSB = 0x0200, bDeviceClass = USB_CLASS_COMM, bDeviceSubClass = 0, bDeviceProtocol = 0,
       bMaxPacketSize0 = of_nat USB_CDC_EP0_SIZE, idVendor = CONFIG_USB_VENDOR_ID u, idProduct = CONFIG_USB_DEVICE_ID u,
       bcdDevice = 0x0100, iManufacturer = USB_STR_ID_MANUFACTURER, iProduct = USB_STR_ID_PRODUCT,
       iSerialNumber = USB_STR_ID_SERIAL, bNumConfigurations = 1 \<rparr>"

text \<open>The members of \<open>cdc_config_descriptor\<close> after the first, in order.\<close>

definition cdc_config_members :: "usb_config \<Rightarrow> u8 list list" where
  "cdc_config_members u =
    [bytes_of_interface_descriptor \<lparr> bInterfaceNumber = 0, bAlternateSetting = 0, bNumEndpoints = 1,
       bInterfaceClass = USB_CLASS_COMM, bInterfaceSubClass = 0x02, bInterfaceProtocol = 1, iInterface = 0 \<rparr>,
     bytes_of_cdc_header \<lparr> hdr_bDescriptorSubType = 0x00, bcdCDC = 0x0110 \<rparr>,
     bytes_of_cdc_acm \<lparr> acm_bDescriptorSubType = 0x02, bmCapabilities = 0x06 \<rparr>,
     bytes_of_cdc_union \<lparr> union_bDescriptorSubType = 0x06, bMasterInterface0 = 0, bSlaveInterface0 = 1 \<rparr>,
     bytes_of_endpoint_descriptor \<lparr> bEndpointAddress = USB_CDC_EP_ACM u OR USB_DIR_IN,
       ep_bmAttributes = USB_ENDPOINT_XFER_INT, wMaxPacketSize = of_nat USB_CDC_EP_ACM_SIZE, bInterval = 255 \<rparr>,
     bytes_of_interface_descriptor \<lparr> bInterfaceNumber = 1, bAlternateSetting = 0, bNumEndpoints = 2,
       bInterfaceClass = 0x0A, bInterfaceSubClass = 0, bInterfaceProtocol = 0, iInterface = 0 \<rparr>,
     bytes_of_endpoint_descriptor \<lparr> bEndpointAddress = USB_CDC_EP_BULK_OUT u,
       ep_bmAttributes = USB_ENDPOINT_XFER_BULK, wMaxPacketSize = of_nat USB_CDC_EP_BULK_OUT_SIZE, bInterval = 0 \<rparr>,
     bytes_of_endpoint_descriptor \<lparr> bEndpointAddress = USB_CDC_EP_BULK_IN u OR USB_DIR_IN,
       ep_bmAttributes = USB_ENDPOINT_XFER_BULK, wMaxPacketSize = of_nat USB_CDC_EP_BULK_IN_SIZE, bInterval = 0 \<rparr>]"

definition cdc_config_descriptor :: "usb_config \<Rightarrow> u8 list" where
  "cdc_config_descriptor u =
     (let members = concat (cdc_config_members u) in
      bytes_of_config_descriptor \<lparr> wTotalLength = of_nat (9 + length members), bNumInterfaces = 2,
        bConfigurationValue = 1, iConfiguration = 0, cfg_bmAttributes = 0xC0, bMaxPower = 50 \<rparr> @ members)"

definition cdc_descriptors :: "config \<Rightarrow> usb_config \<Rightarrow> (u16 \<times> u16 \<times> u8 list) list" where
  "cdc_descriptors c u =
     [(push_bit 8 (ucast USB_DT_DEVICE), 0x0000, cdc_device_descriptor u),
      (push_bit 8 (ucast USB_DT_CONFIG), 0x0000, cdc_config_descriptor u),
      (push_bit 8 (ucast USB_DT_STRING), 0x0000, cdc_string_langids),
      (push_bit 8 (ucast USB_DT_STRING) OR ucast USB_STR_ID_MANUFACTURER, USB_LANGID_ENGLISH_US, cdc_string_manufacturer),
      (push_bit 8 (ucast USB_DT_STRING) OR ucast USB_STR_ID_PRODUCT, USB_LANGID_ENGLISH_US, cdc_string_product c)] @
     (if \<not> CONFIG_USB_SERIAL_NUMBER_CHIPID u
      then [(push_bit 8 (ucast USB_DT_STRING) OR ucast USB_STR_ID_SERIAL, USB_LANGID_ENGLISH_US, cdc_string_serial u)]
      else [])"

definition usb_fill_serial :: "nat \<Rightarrow> u8 list \<Rightarrow> u8 list" where
  "usb_fill_serial strlen src =
     usb_string_descriptor (map (\<lambda>i.
       let c = (if odd i then src ! (i div 2) AND 0x0f else drop_bit 4 (src ! (i div 2)))
       in ucast (if c < 10 then c + 48 else c - 10 + 65)) [0..<strlen])"

section \<open>Control transfers\<close>

definition UX_READ :: u8 where "UX_READ = 1"
definition UX_SEND :: u8 where "UX_SEND = 2"
definition UX_SEND_ZLP :: u8 where "UX_SEND_ZLP = 8"

definition usb_do_stall :: "'u usb_hw \<Rightarrow> usb_data \<times> 'u \<Rightarrow> usb_data \<times> 'u" where
  "usb_do_stall hw = (\<lambda>(s, d). (s\<lparr>usb_xfer_flags := 0\<rparr>, usb_stall_ep0 hw d))"

fun xfer_bytes :: "usb_data \<Rightarrow> xfer_ptr \<Rightarrow> nat \<Rightarrow> u8 list" where
  "xfer_bytes s (Constant bs) n = take n bs"
| "xfer_bytes s (Line_Coding off) n = take n (drop off (line_coding s))"

fun xfer_advance :: "xfer_ptr \<Rightarrow> nat \<Rightarrow> xfer_ptr" where
  "xfer_advance (Constant bs) n = Constant (drop n bs)"
| "xfer_advance (Line_Coding off) n = Line_Coding (off + n)"

text \<open>One call of the board's functions in \<open>usb_do_xfer\<close>. Boards have no separate program memory
  (\<open>NEED_PROGMEM\<close> is 0), and only \<open>line_coding\<close> is ever read into.\<close>

definition xfer_chunk :: "'u usb_hw \<Rightarrow> xfer_ptr \<Rightarrow> nat \<Rightarrow> u8 \<Rightarrow> usb_data \<times> 'u \<Rightarrow> int \<times> usb_data \<times> 'u" where
  "xfer_chunk hw data xs flags = (\<lambda>(s, d).
     if flags AND UX_READ \<noteq> 0 then
       (let ((ret, bs), d) = usb_read_ep0 hw xs d in
        (ret, case data of Line_Coding off \<Rightarrow> s\<lparr>line_coding := blit (line_coding s) off bs\<rparr> | Constant _ \<Rightarrow> s, d))
     else (let (ret, d) = usb_send_ep0 hw (xfer_bytes s data xs) d in (ret, s, d)))"

function usb_do_xfer :: "'u usb_hw \<Rightarrow> xfer_ptr \<Rightarrow> nat \<Rightarrow> u8 \<Rightarrow> usb_data \<times> 'u \<Rightarrow> usb_data \<times> 'u" where
  "usb_do_xfer hw data sz flags sd =
     (let xs = (if sz > USB_CDC_EP0_SIZE then USB_CDC_EP0_SIZE else sz);
          (ret, s, d) = xfer_chunk hw data xs flags sd
      in if ret = int xs then
           (let data = xfer_advance data xs; rest = sz - xs in
            if rest = 0 then
              (if flags AND UX_READ \<noteq> 0 then usb_do_xfer hw data rest UX_SEND (s, d)
               else if xs = USB_CDC_EP0_SIZE \<and> flags AND UX_SEND_ZLP \<noteq> 0 then usb_do_xfer hw data rest flags (s, d)
               else (usb_notify_ep0 (s\<lparr>usb_xfer_flags := 0\<rparr>), d))
            else usb_do_xfer hw data rest flags (s, d))
         else if ret = -1 then
           (s\<lparr>usb_xfer_data := data, usb_xfer_size := of_nat sz, usb_xfer_flags := flags\<rparr>, d)
         else usb_do_stall hw (s, d))"
  by pat_completeness auto
termination
  by (relation "measure (\<lambda>(_, _, sz, flags, _). 2 * sz + (if flags AND UX_READ \<noteq> 0 then 1 else 0))")
     (auto simp: UX_READ_def UX_SEND_def split: if_splits)

declare usb_do_xfer.simps [simp del]

definition find_descriptor :: "(u16 \<times> u16 \<times> u8 list) list \<Rightarrow> usb_ctrlrequest \<Rightarrow> u8 list option" where
  "find_descriptor ds req =
     foldl (\<lambda>desc (v, i, bs). if v = wValue req \<and> i = wIndex req then Some bs else desc) None ds"

definition usb_req_get_descriptor :: "config \<Rightarrow> usb_config \<Rightarrow> 'u usb_hw \<Rightarrow> usb_ctrlrequest \<Rightarrow> usb_data \<times> 'u
    \<Rightarrow> usb_data \<times> 'u" where
  "usb_req_get_descriptor c u hw req sd =
     (if bRequestType req \<noteq> USB_DIR_IN then usb_do_stall hw sd
      else
        let desc = find_descriptor (cdc_descriptors c u) req;
            desc = (if CONFIG_USB_SERIAL_NUMBER_CHIPID u \<and>
                       wValue req = push_bit 8 (ucast USB_DT_STRING) OR ucast USB_STR_ID_SERIAL \<and>
                       wIndex req = USB_LANGID_ENGLISH_US
                    then Some (usbserial_get_serialid hw) else desc)
        in case desc of
             None \<Rightarrow> usb_do_stall hw sd
           | Some bs \<Rightarrow>
               let sz = length bs; len = unat (wLength req);
                   (sz, flags) = (if sz > len then (len, UX_SEND)
                                    else if sz < len then (sz, UX_SEND OR UX_SEND_ZLP)
                                    else (sz, UX_SEND))
               in usb_do_xfer hw (Constant bs) sz flags sd)"

definition usb_req_set_address :: "'u usb_hw \<Rightarrow> usb_ctrlrequest \<Rightarrow> usb_data \<times> 'u \<Rightarrow> usb_data \<times> 'u" where
  "usb_req_set_address hw req sd =
     (if bRequestType req \<noteq> 0 \<or> wIndex req \<noteq> 0 \<or> wLength req \<noteq> 0 then usb_do_stall hw sd
      else (fst sd, usb_set_address hw (wValue req) (snd sd)))"

definition usb_req_set_configuration :: "'u usb_hw \<Rightarrow> usb_ctrlrequest \<Rightarrow> usb_data \<times> 'u \<Rightarrow> usb_data \<times> 'u" where
  "usb_req_set_configuration hw req sd =
     (if bRequestType req \<noteq> 0 \<or> wValue req \<noteq> 1 \<or> wIndex req \<noteq> 0 \<or> wLength req \<noteq> 0 then usb_do_stall hw sd
      else
        let d = usb_set_configure hw (snd sd);
            s = usb_notify_bulk_out (usb_notify_bulk_in (fst sd))
        in usb_do_xfer hw (Constant []) 0 UX_SEND (s, d))"

definition usb_req_set_line_coding :: "'u usb_hw \<Rightarrow> usb_ctrlrequest \<Rightarrow> usb_data \<times> 'u \<Rightarrow> usb_data \<times> 'u" where
  "usb_req_set_line_coding hw req sd =
     (if bRequestType req \<noteq> 0x21 \<or> wValue req \<noteq> 0 \<or> wIndex req \<noteq> 0 \<or> wLength req \<noteq> 7 then usb_do_stall hw sd
      else usb_do_xfer hw (Line_Coding 0) 7 UX_READ sd)"

definition usb_req_get_line_coding :: "'u usb_hw \<Rightarrow> usb_ctrlrequest \<Rightarrow> usb_data \<times> 'u \<Rightarrow> usb_data \<times> 'u" where
  "usb_req_get_line_coding hw req sd =
     (if bRequestType req \<noteq> 0xa1 \<or> wValue req \<noteq> 0 \<or> wIndex req \<noteq> 0 \<or> wLength req < 7 then usb_do_stall hw sd
      else usb_do_xfer hw (Line_Coding 0) 7 UX_SEND sd)"

definition usb_req_set_line :: "'u usb_hw \<Rightarrow> usb_ctrlrequest \<Rightarrow> usb_data \<times> 'u \<Rightarrow> usb_data \<times> 'u" where
  "usb_req_set_line hw req sd =
     (if bRequestType req \<noteq> 0x21 \<or> wIndex req \<noteq> 0 \<or> wLength req \<noteq> 0 then usb_do_stall hw sd
      else usb_do_xfer hw (Constant []) 0 UX_SEND ((fst sd)\<lparr>line_control_state := ucast (wValue req)\<rparr>, snd sd))"

definition usb_state_ready :: "config \<Rightarrow> usb_config \<Rightarrow> 'u usb_hw \<Rightarrow> usb_data \<times> 'u \<Rightarrow> usb_data \<times> 'u" where
  "usb_state_ready c u hw = (\<lambda>(s, d).
     let ((ret, bs), d) = usb_read_ep0_setup hw 8 d; sd = (s, d) in
     if ret \<noteq> 8 then sd
     else
       let req = usb_ctrlrequest_of_bytes bs in
       if bRequest req = USB_REQ_GET_DESCRIPTOR then usb_req_get_descriptor c u hw req sd
       else if bRequest req = USB_REQ_SET_ADDRESS then usb_req_set_address hw req sd
       else if bRequest req = USB_REQ_SET_CONFIGURATION then usb_req_set_configuration hw req sd
       else if bRequest req = USB_CDC_REQ_SET_LINE_CODING then usb_req_set_line_coding hw req sd
       else if bRequest req = USB_CDC_REQ_GET_LINE_CODING then usb_req_get_line_coding hw req sd
       else if bRequest req = USB_CDC_REQ_SET_CONTROL_LINE_STATE then usb_req_set_line hw req sd
       else usb_do_stall hw sd)"

definition usb_ep0_task :: "config \<Rightarrow> usb_config \<Rightarrow> 'u usb_hw \<Rightarrow> usb_data \<times> 'u \<Rightarrow> usb_data \<times> 'u" where
  "usb_ep0_task c u hw = (\<lambda>(s, d).
     let (woken, w) = sched_check_wake (usb_ep0_wake s); s = s\<lparr>usb_ep0_wake := w\<rparr> in
     if \<not> woken then (s, d)
     else if usb_xfer_flags s \<noteq> 0 then usb_do_xfer hw (usb_xfer_data s) (unat (usb_xfer_size s)) (usb_xfer_flags s) (s, d)
     else usb_state_ready c u hw (s, d))"

definition usb_shutdown :: "usb_data \<Rightarrow> usb_data" where
  "usb_shutdown s = usb_notify_ep0 (usb_notify_bulk_out (usb_notify_bulk_in s))"

end
