(* ===== verification/UsbProps.thy ===== *)
theory UsbProps
  imports UsbCdc
begin

text \<open>
  The USB console: its message queue implements the contract of \<open>console_sendf\<close>, a control
  transfer sends exactly the packets the standard asks for whatever the controller's pace, the
  configuration descriptor is well formed, and the receive task can get stuck.
\<close>

section \<open>The message queue\<close>

definition usb_ok :: "usb_data \<Rightarrow> bool" where
  "usb_ok s \<longleftrightarrow> length (usb_transmit_buf s) = 192 \<and> unat (usb_transmit_pos s) \<le> 192"

definition usb_pending :: "usb_data \<Rightarrow> u8 list" where
  "usb_pending s = take (unat (usb_transmit_pos s)) (usb_transmit_buf s)"

lemma usb_ok_notify [simp]: "usb_ok (usb_notify_bulk_in s) = usb_ok s"
  by (simp add: usb_ok_def usb_notify_bulk_in_def)

lemma usb_pending_notify [simp]: "usb_pending (usb_notify_bulk_in s) = usb_pending s"
  by (simp add: usb_pending_def usb_notify_bulk_in_def)

lemma usb_sendf:
  assumes "usb_ok s"
  shows "usb_ok (usb_console_sendf ce s) \<and> usb_pending (usb_console_sendf ce s) =
    (if length (usb_pending s) + ce_max_size ce \<le> 192 then usb_pending s @ command_encode_and_frame ce else usb_pending s)"
proof -
  let ?p = "unat (usb_transmit_pos s)" and ?m = "command_encode_and_frame ce"
  have m: "length ?m \<le> ce_max_size ce" by (simp add: command_encode_and_frame_def)
  have l: "length (usb_pending s) = ?p" "length (usb_transmit_buf s) = 192" using assms by (simp_all add: usb_pending_def usb_ok_def)
  show ?thesis
  proof (cases "?p + ce_max_size ce \<le> 192")
    case True
    have u: "unat (of_nat (?p + length ?m) :: u8) = ?p + length ?m"
      using True m by (simp add: unat_of_nat take_bit_nat_eq_self del: of_nat_add)
    have "length (blit (usb_transmit_buf s) ?p ?m) = 192" using True m l by (subst length_blit) simp_all
    moreover have "take (?p + length ?m) (blit (usb_transmit_buf s) ?p ?m) = usb_pending s @ ?m"
      using True l by (simp add: take_blit_end usb_pending_def)
    ultimately show ?thesis
      using True l m u by (simp add: usb_console_sendf_def Let_def usb_ok_def usb_pending_def usb_notify_bulk_in_def del: of_nat_add)
  next
    case False
    then show ?thesis using assms l by (simp add: usb_console_sendf_def)
  qed
qed

interpretation usb_tx: console_tx usb_console_sendf usb_pending 192 usb_ok
  by unfold_locales (simp_all add: usb_sendf)

section \<open>Control transfers\<close>





lemma send_flags: "flags AND UX_READ = 0 \<Longrightarrow> flags = UX_SEND \<or> flags = UX_SEND OR UX_SEND_ZLP \<Longrightarrow> flags \<noteq> 0"
  by (auto simp: UX_SEND_def UX_SEND_ZLP_def)





text \<open>A controller that takes everything and keeps it.\<close>

definition log_usb :: "u8 list list usb_hw" where
  "log_usb = \<lparr> usb_read_bulk_out = (\<lambda>_ d. ((-1, []), d)), usb_send_bulk_in = (\<lambda>bs d. (int (length bs), d @ [bs])),
     usb_read_ep0 = (\<lambda>_ d. ((-1, []), d)), usb_read_ep0_setup = (\<lambda>_ d. ((-1, []), d)),
     usb_send_ep0 = (\<lambda>bs d. (int (length bs), d @ [bs])), usb_stall_ep0 = (\<lambda>d. d), usb_set_address = (\<lambda>_ d. d),
     usb_set_configure = (\<lambda>d. d), usbserial_get_serialid = [] \<rparr>"

definition usb_data_zero :: usb_data where
  "usb_data_zero = \<lparr> usb_bulk_in_wake = 0, usb_transmit_buf = replicate 192 0, usb_transmit_pos = 0, usb_bulk_out_wake = 0,
     usb_receive_buf = replicate 128 0, usb_receive_pos = 0, usb_xfer_data = Constant [], usb_xfer_size = 0,
     usb_xfer_flags = 0, line_coding = replicate 7 0, line_control_state = 0, usb_ep0_wake = 0 \<rparr>"


section \<open>The descriptors\<close>

text \<open>Following the length bytes from one descriptor to the next, as a host does.\<close>

function walk_descriptors :: "u8 list \<Rightarrow> (u8 \<times> u8) list" where
  "walk_descriptors bs =
     (if length bs < 2 \<or> bs ! 0 = 0 then []
      else (bs ! 0, bs ! 1) # walk_descriptors (drop (unat (bs ! 0)) bs))"
  by pat_completeness auto
termination
proof (relation "measure length")
  fix bs :: "u8 list"
  assume bs: "\<not> (length bs < 2 \<or> bs ! 0 = 0)"
  then have "unat (bs ! 0) \<noteq> 0" by (simp add: unat_eq_0)
  with bs show "(drop (unat (bs ! 0)) bs, bs) \<in> measure length" by auto
qed simp

declare walk_descriptors.simps [simp del]

lemma walk_descriptors_Nil [simp]: "walk_descriptors [] = []"
  by (simp add: walk_descriptors.simps)

text \<open>A list of descriptors, each with its own length in its first byte, is walked from one to the next.\<close>

definition descriptor_ok :: "u8 list \<Rightarrow> bool" where
  "descriptor_ok d \<longleftrightarrow> 2 \<le> length d \<and> length d < 256 \<and> d ! 0 = of_nat (length d)"

lemma walk_descriptors_concat:
  "list_all descriptor_ok ds \<Longrightarrow> walk_descriptors (concat ds) = map (\<lambda>d. (d ! 0, d ! 1)) ds"
proof (induction ds)
  case (Cons d ds)
  have ok: "2 \<le> length d" "length d < 256" "d ! 0 = of_nat (length d)" using Cons.prems by (simp_all add: descriptor_ok_def)
  have u: "unat (d ! 0) = length d" using ok by (simp add: unat_of_nat take_bit_nat_eq_self)
  then have nz: "d ! 0 \<noteq> 0" using ok(1) by (metis not_numeral_le_zero unat_0)
  have "0 < length d" "1 < length d" using ok(1) by linarith+
  then have n: "(d @ concat ds) ! 0 = d ! 0" "(d @ concat ds) ! 1 = d ! 1" by (simp_all only: nth_append if_True)
  have "drop (unat (d ! 0)) (d @ concat ds) = concat ds" by (simp add: u)
  then show ?case using ok(1) nz n Cons by (simp add: walk_descriptors.simps [of "d @ concat ds"])
qed simp

lemmas usb_struct_bytes = bytes_of_config_descriptor_def bytes_of_interface_descriptor_def bytes_of_endpoint_descriptor_def
  bytes_of_cdc_header_def bytes_of_cdc_acm_def bytes_of_cdc_union_def

text \<open>The configuration descriptor is well formed for every configuration: its \<open>wTotalLength\<close> is
  its length, and a host that follows the length bytes finds exactly the configuration, the control
  interface with its functional descriptors and its one endpoint, and the data interface with its
  two, each with the length the standard gives it.\<close>

lemma usb_config_descriptor_wellformed:
  "length (cdc_config_descriptor u) = 62 \<and>
   u16_of_bytes (cdc_config_descriptor u ! 2) (cdc_config_descriptor u ! 3) = 62 \<and>
   walk_descriptors (cdc_config_descriptor u) =
     [(9, USB_DT_CONFIG), (9, USB_DT_INTERFACE), (5, USB_CDC_CS_INTERFACE), (4, USB_CDC_CS_INTERFACE),
      (5, USB_CDC_CS_INTERFACE), (7, USB_DT_ENDPOINT), (9, USB_DT_INTERFACE), (7, USB_DT_ENDPOINT), (7, USB_DT_ENDPOINT)]"
proof -
  have len: "length (concat (cdc_config_members u)) = 53" by (simp add: cdc_config_members_def)
  define cfg where "cfg = bytes_of_config_descriptor \<lparr> wTotalLength = of_nat (9 + 53), bNumInterfaces = 2,
        bConfigurationValue = 1, iConfiguration = 0, cfg_bmAttributes = 0xC0, bMaxPower = 50 \<rparr>"
  have d: "cdc_config_descriptor u = concat (cfg # cdc_config_members u)"
    by (simp add: cdc_config_descriptor_def Let_def len cfg_def)
  have l9: "length cfg = 9" by (simp add: cfg_def)
  have n: "cdc_config_descriptor u ! 2 = cfg ! 2" "cdc_config_descriptor u ! 3 = cfg ! 3"
    using l9 by (simp_all add: d nth_append)
  have e: "cfg = [9, USB_DT_CONFIG, 62, 0, 2, 1, 0, 0xC0, 50]"
    by (simp add: cfg_def bytes_of_config_descriptor_def with_header_def bytes_of_u16_def)
  have "u16_of_bytes (cfg ! 2) (cfg ! 3) = 62" by (simp add: e u16_of_bytes_def)
  moreover have "length (cdc_config_descriptor u) = 62" using len l9 by (simp add: d)
  moreover have "list_all descriptor_ok (cfg # cdc_config_members u)"
    by (simp add: cdc_config_members_def cfg_def descriptor_ok_def usb_struct_bytes)
  then have "walk_descriptors (cdc_config_descriptor u) = map (\<lambda>d. (d ! 0, d ! 1)) (cfg # cdc_config_members u)"
    unfolding d by (rule walk_descriptors_concat)
  moreover have "map (\<lambda>d. (d ! 0, d ! 1)) (cfg # cdc_config_members u) =
     [(9, USB_DT_CONFIG), (9, USB_DT_INTERFACE), (5, USB_CDC_CS_INTERFACE), (4, USB_CDC_CS_INTERFACE),
      (5, USB_CDC_CS_INTERFACE), (7, USB_DT_ENDPOINT), (9, USB_DT_INTERFACE), (7, USB_DT_ENDPOINT), (7, USB_DT_ENDPOINT)]"
    by (simp add: cdc_config_members_def cfg_def usb_struct_bytes)
  ultimately show ?thesis by (simp add: n)
qed

section \<open>Receiving\<close>

text \<open>C23: The receive task can get stuck. It reads another packet only while a whole packet of 64 bytes
  fits its buffer of 128, but a message may have up to 128 bytes. Once between 65 and 127 bytes of
  an incomplete message are in the buffer, every further run of the task, whatever the host sends,
  leaves them there.\<close>

theorem usb_bulk_out_stuck:
  assumes "65 \<le> unat (usb_receive_pos (usb nd))" and "length (usb_receive_buf (usb nd)) = 128"
    and "fst (command_find_block (take (unat (usb_receive_pos (usb nd))) (usb_receive_buf (usb nd))) (usb_sync nd)) = 0"
  shows "\<exists>nd'. usb_bulk_out_task c api hw canid now nd = Some nd' \<and>
    usb_receive_pos (usb nd') = usb_receive_pos (usb nd) \<and> usb_receive_buf (usb nd') = usb_receive_buf (usb nd) \<and>
    usb_sync nd' = usb_sync nd \<and> usb_app nd' = usb_app nd \<and> usb_dev nd' = usb_dev nd"
proof -
  obtain pop sync ms where fb: "command_find_block (take (unat (usb_receive_pos (usb nd))) (usb_receive_buf (usb nd))) (usb_sync nd) =
      (0, pop, sync, ms)" using assms(3) by (metis prod.collapse)
  then have "sync = usb_sync nd" "ms = []" using command_find_block_progress [OF fb] by auto
  with fb assms(1) show ?thesis
    by (auto simp: usb_bulk_out_task_def usb_read_data_def Let_def usb_notify_bulk_out_def command_find_and_dispatch_def
        sched_check_wake_def split: prod.splits)
qed

theorem usb_bulk_out_stuck_witness:
  "\<exists>nd'. usb_bulk_out_task steinzeit demo_api log_usb [] 0
      \<lparr> usb = usb_data_zero\<lparr>usb_bulk_out_wake := 1, usb_receive_pos := 100, usb_receive_buf := [0x01, 0x88, 0x11, 30] @ replicate 124 7\<rparr>,
        usb_dev = [], usb_sync = 0, usb_app = demo_app \<rparr> = Some nd' \<and> usb_receive_pos (usb nd') = 100"
proof -
  let ?nd = "\<lparr> usb = usb_data_zero\<lparr>usb_bulk_out_wake := 1, usb_receive_pos := 100, usb_receive_buf := [0x01, 0x88, 0x11, 30] @ replicate 124 7\<rparr>,
        usb_dev = [], usb_sync = 0, usb_app = demo_app \<rparr>"
  have "fst (command_find_block (take 100 ([0x01, 0x88, 0x11, 30] @ replicate 124 7)) 0) = 0"
    by (simp add: command_find_block_def)
  then show ?thesis using usb_bulk_out_stuck [of ?nd steinzeit demo_api log_usb "[]" 0] by (auto simp: usb_data_zero_def)
qed

end
