(* ===== verification/Boot.thy ===== *)
theory Boot
  imports AppValidate Timer
begin

text \<open>
  From reset to the application or the main loop: the reset handler and the helpers of
  \<open>generic/armcm_canboot.c\<close>, \<open>bootentry.c\<close>, \<open>generic/armcm_reset.c\<close>, the board check of
  \<open>rp2040/rp2350_dblreset.c\<close>, and \<open>sched_main\<close> and the timeout task of \<open>sched.c\<close>. Flash and RAM
  are one memory; the symbols of the linker script are a parameter. The eight bytes at
  \<open>_stack_end\<close> survive a reset and carry the request to the next boot. Delays and writes that a
  second reset can fall between are a list of actions, so that a reset at any time can be
  asked about.
\<close>

section \<open>The boot code\<close>

definition REQUEST_CANBOOT :: u64 where "REQUEST_CANBOOT = 0x5984E3FA6CA1589B"
definition REQUEST_START_APP :: u64 where "REQUEST_START_APP = 0x7b06ec45a9a8243d"

record link =
  data_start :: u32
  data_end :: u32
  data_flash :: u32
  bss_start :: u32
  bss_end :: u32
  stack_end :: u32

definition mem_u64 :: "memory \<Rightarrow> u32 \<Rightarrow> u64" where
  "mem_u64 m a = u64_of_bytes (m a) (m (a + 1)) (m (a + 2)) (m (a + 3)) (m (a + 4)) (m (a + 5)) (m (a + 6)) (m (a + 7))"

definition get_bootup_code :: "link \<Rightarrow> memory \<Rightarrow> u64" where
  "get_bootup_code l mem = mem_u64 mem (stack_end l)"

definition boot_set_bootup_code :: "link \<Rightarrow> u64 \<Rightarrow> memory \<Rightarrow> memory" where
  "boot_set_bootup_code l code mem = mem_write mem (stack_end l) (bytes_of_u64 code)"

definition set_bootup_code :: "link \<Rightarrow> u64 \<Rightarrow> memory \<Rightarrow> memory" where
  "set_bootup_code l code mem = boot_set_bootup_code l code mem"

definition application_check_valid :: "config \<Rightarrow> memory \<Rightarrow> bool" where
  "application_check_valid c mem =
     (let app = mem_u32 mem (CONFIG_LAUNCH_APP_ADDRESS c + CONFIG_METADATA_PAGE_SIZE c) in
      if app = 0 \<or> app = 0xffffffff then False else appvalidate_verify c mem = APP_VALID)"

text \<open>The memory the processor restarts with.\<close>

definition do_reset :: "link \<Rightarrow> u64 \<Rightarrow> memory \<Rightarrow> memory" where
  "do_reset l code mem = set_bootup_code l code mem"

definition application_jump :: "link \<Rightarrow> memory \<Rightarrow> memory" where
  "application_jump l mem = do_reset l REQUEST_START_APP mem"

definition system_reset :: "link \<Rightarrow> memory \<Rightarrow> memory" where
  "system_reset l mem = do_reset l 0 mem"

text \<open>\<open>try_request_canboot\<close> of an application: the first word of the bootloader's vector table is the
  address the request goes to.\<close>

definition try_request_canboot :: "config \<Rightarrow> memory \<Rightarrow> memory" where
  "try_request_canboot c mem =
     mem_write mem (mem_u32 mem (CONFIG_FLASH_BOOT_ADDRESS c)) (bytes_of_u64 REQUEST_CANBOOT)"

section \<open>The reset handler\<close>

text \<open>Both loops count down to exactly zero, so they only end for a multiple of four.\<close>

partial_function (option) boot_memset :: "memory \<Rightarrow> u32 \<Rightarrow> u32 \<Rightarrow> u32 \<Rightarrow> memory option" where
  "boot_memset mem s v n =
     (if n = 0 then Some mem else boot_memset (mem_write mem s (bytes_of_u32 v)) (s + 4) v (n - 4))"

partial_function (option) boot_memcpy :: "memory \<Rightarrow> u32 \<Rightarrow> u32 \<Rightarrow> u32 \<Rightarrow> memory option" where
  "boot_memcpy mem dest src n =
     (if n = 0 then Some mem
      else boot_memcpy (mem_write mem dest (bytes_of_u32 (mem_u32 mem src))) (dest + 4) (src + 4) (n - 4))"

text \<open>How the handler goes on: into the application with its vector table, stack pointer and entry
  point, or into \<open>armcm_main\<close>.\<close>

datatype boot_exit =
    Start_App memory u32 u32 u32
  | Run_Main memory

definition boot_start_application :: "config \<Rightarrow> link \<Rightarrow> memory \<Rightarrow> boot_exit" where
  "boot_start_application c l mem =
     (let mem = boot_set_bootup_code l 0 mem;
          vtor = CONFIG_LAUNCH_APP_ADDRESS c + CONFIG_METADATA_PAGE_SIZE c
      in Start_App mem vtor (mem_u32 mem vtor) (mem_u32 mem (vtor + 4)))"

definition reset_handler_stage_two :: "config \<Rightarrow> link \<Rightarrow> memory \<Rightarrow> boot_exit option" where
  "reset_handler_stage_two c l mem =
     (let bootup_code = get_bootup_code l mem in
      if bootup_code = REQUEST_START_APP then Some (boot_start_application c l mem)
      else do {
        let count = (data_end l - data_start l) div 4 * 4;
        mem \<leftarrow> boot_memcpy mem (data_start l) (data_flash l) count;
        mem \<leftarrow> boot_memset mem (bss_start l) 0 ((bss_end l - bss_start l) div 4 * 4);
        Some (Run_Main mem)
      })"

section \<open>Bootloader or application\<close>

datatype boot_action = Udelay u32 | Set_Code u64 | Button_Setup | Set_Chip_Reset u32

abbreviation (input) DOUBLE_CLICK_MIN_US :: u32 where "DOUBLE_CLICK_MIN_US \<equiv> 10000"
abbreviation (input) DOUBLE_CLICK_MAX_US :: u32 where "DOUBLE_CLICK_MAX_US \<equiv> 500000"

text \<open>What the checks read from the hardware: the button's pin and the level that means pressed, and
  the chip reset register.\<close>

record boot_inputs =
  button_level :: int
  button_high :: int
  chip_reset :: u32

definition POWMAN_CHIP_RESET_DOUBLE_TAP_BITS :: u32 where "POWMAN_CHIP_RESET_DOUBLE_TAP_BITS = 1"

definition check_button_pressed :: "config \<Rightarrow> boot_inputs \<Rightarrow> bool \<times> boot_action list" where
  "check_button_pressed c i =
     (if \<not> CONFIG_ENABLE_BUTTON c then (False, [])
      else (button_level i = button_high i, [Button_Setup, Udelay 10]))"

definition board_check_double_reset :: "boot_inputs \<Rightarrow> bool \<times> boot_action list" where
  "board_check_double_reset i =
     (if chip_reset i AND POWMAN_CHIP_RESET_DOUBLE_TAP_BITS \<noteq> 0 then (True, [Set_Chip_Reset 0x5afe0000])
      else (False, [Udelay DOUBLE_CLICK_MIN_US, Set_Chip_Reset 0x5afe0001,
                    Udelay (DOUBLE_CLICK_MAX_US - DOUBLE_CLICK_MIN_US), Set_Chip_Reset 0x5afe0000]))"

definition check_double_reset :: "config \<Rightarrow> boot_inputs \<Rightarrow> bool \<times> boot_action list" where
  "check_double_reset c i =
     (if \<not> CONFIG_ENABLE_DOUBLE_RESET c then (False, [])
      else if CONFIG_HAVE_BOARD_CHECK_DOUBLE_RESET c then board_check_double_reset i
      else (False, [Udelay DOUBLE_CLICK_MIN_US, Set_Code REQUEST_CANBOOT,
                    Udelay (DOUBLE_CLICK_MAX_US - DOUBLE_CLICK_MIN_US), Set_Code 0]))"

text \<open>The result, \<open>commanded_entry\<close> and what was done on the way.\<close>

definition bootentry_check :: "config \<Rightarrow> link \<Rightarrow> boot_inputs \<Rightarrow> memory \<Rightarrow> bool \<times> bool \<times> boot_action list" where
  "bootentry_check c l i mem =
     (let bootup_code = get_bootup_code l mem;
          commanded_entry = (bootup_code = REQUEST_CANBOOT);
          (enter, acts) =
            (if commanded_entry \<or> \<not> application_check_valid c mem then (True, [])
             else check_button_pressed c i)
      in if enter then (True, commanded_entry, acts @ [Set_Code 0])
         else
           let (res, acts') = check_double_reset c i in (res, commanded_entry, acts @ acts'))"

definition bootentry_is_commanded :: "bool \<Rightarrow> bool" where
  "bootentry_is_commanded commanded_entry = commanded_entry"

fun boot_act :: "link \<Rightarrow> boot_action \<Rightarrow> memory \<Rightarrow> memory" where
  "boot_act l (Set_Code code) mem = set_bootup_code l code mem"
| "boot_act l _ mem = mem"

text \<open>The memory that a reset finds \<open>t\<close> microseconds after the first action.\<close>

fun run_until :: "link \<Rightarrow> boot_action list \<Rightarrow> nat \<Rightarrow> memory \<Rightarrow> memory" where
  "run_until l [] t mem = mem"
| "run_until l (Udelay d # acts) t mem = (if t < unat d then mem else run_until l acts (t - unat d) mem)"
| "run_until l (a # acts) t mem = run_until l acts t (boot_act l a mem)"

text \<open>\<open>sched_main\<close> up to its loop: a reset into the application, or the bootloader's main loop, with
  whether it was commanded.\<close>

datatype sched_exit = Reset memory | Main_Loop bool memory

definition sched_main :: "config \<Rightarrow> link \<Rightarrow> boot_inputs \<Rightarrow> memory \<Rightarrow> sched_exit" where
  "sched_main c l i mem =
     (let (enter, commanded, acts) = bootentry_check c l i mem; mem = fold (boot_act l) acts mem in
      if \<not> enter then Reset (application_jump l mem) else Main_Loop commanded mem)"

section \<open>The timeout\<close>

abbreviation (input) TIMEOUT_NO_SHORTID_US :: u32 where "TIMEOUT_NO_SHORTID_US \<equiv> 10000000"
abbreviation (input) TIMEOUT_WITH_SHORTID_US :: u32 where "TIMEOUT_WITH_SHORTID_US \<equiv> 30000000"

record timeout =
  timeout_start :: u32
  timeout_initialized :: bool

definition timeout_init :: "bool \<Rightarrow> u32 \<Rightarrow> timeout \<Rightarrow> timeout" where
  "timeout_init commanded now t =
     (if \<not> bootentry_is_commanded commanded then t\<lparr>timeout_initialized := False\<rparr>
      else t\<lparr>timeout_start := now, timeout_initialized := True\<rparr>)"

text \<open>One run of the task: the memory of the reset it ends in, or the timer it goes on with. \<open>now\<close> and
  \<open>now'\<close> are its two readings of the clock.\<close>

datatype timeout_result = Timeout_Jump memory | Timeout_Wait timeout

definition timeout_task :: "config \<Rightarrow> link \<Rightarrow> bool \<Rightarrow> bool \<Rightarrow> u32 \<Rightarrow> u32 \<Rightarrow> memory \<Rightarrow> timeout \<Rightarrow> timeout_result" where
  "timeout_task c l in_transfer assigned_id now now' mem t =
     (if \<not> timeout_initialized t then Timeout_Wait t
      else if in_transfer then Timeout_Wait t
      else
        let timeout_us = (if assigned_id then TIMEOUT_WITH_SHORTID_US else TIMEOUT_NO_SHORTID_US);
            timeout_end = timeout_start t + timer_from_us c timeout_us
        in if timer_is_before now timeout_end then Timeout_Wait t
           else if application_check_valid c mem then Timeout_Jump (application_jump l mem)
           else Timeout_Wait (t\<lparr>timeout_start := now'\<rparr>))"

end
