(* ===== verification/BootProps.thy ===== *)
theory BootProps
  imports Boot
begin

text \<open>
  What the boot code guarantees: the loops of the reset handler end and set up memory as the
  linker script says, only a valid application is ever started, a double reset and a request
  enter the bootloader, and what the timeout does.
\<close>

section \<open>The code at the end of the stack\<close>

lemma u64_of_bytes_of_u64:
  "length bs = 8 \<Longrightarrow> bs = bytes_of_u64 w \<Longrightarrow>
   u64_of_bytes (bs ! 0) (bs ! 1) (bs ! 2) (bs ! 3) (bs ! 4) (bs ! 5) (bs ! 6) (bs ! 7) = w"
  by (simp add: bytes_of_u64_def u64_of_bytes_inverse)

lemma mem_u64_write [simp]: "mem_u64 (mem_write m a (bytes_of_u64 w)) a = w"
  by (simp add: mem_u64_def mem_write_def bytes_of_u64_def u64_of_bytes_inverse)

lemma get_set_bootup_code [simp]:
  "get_bootup_code l (set_bootup_code l code mem) = code"
  "get_bootup_code l (boot_set_bootup_code l code mem) = code"
  by (simp_all add: get_bootup_code_def set_bootup_code_def boot_set_bootup_code_def)

lemma codes_differ [simp]:
  "REQUEST_CANBOOT \<noteq> REQUEST_START_APP" "REQUEST_START_APP \<noteq> REQUEST_CANBOOT"
  "REQUEST_START_APP \<noteq> 0" "REQUEST_CANBOOT \<noteq> 0" "0 \<noteq> REQUEST_START_APP" "0 \<noteq> REQUEST_CANBOOT"
  by (simp_all add: REQUEST_CANBOOT_def REQUEST_START_APP_def)

section \<open>The layout\<close>

text \<open>What \<open>armcm_link.lds.S\<close> gives: word-aligned sections in RAM, in order, then the stack and eight
  reserved bytes, RAM above or below the flash, and an application with room for its metadata
  and two words of code.\<close>

definition layout_ok :: "config \<Rightarrow> link \<Rightarrow> bool" where
  "layout_ok c l \<longleftrightarrow> config_ok c \<and> 84 \<le> unat (CONFIG_METADATA_PAGE_SIZE c) \<and>
     unat (CONFIG_LAUNCH_APP_ADDRESS c) + unat (CONFIG_METADATA_PAGE_SIZE c) + 8 \<le>
       unat (CONFIG_FLASH_START c + CONFIG_FLASH_SIZE c) \<and>
     unat (data_start l) mod 4 = 0 \<and> unat (data_end l) mod 4 = 0 \<and>
     unat (bss_start l) mod 4 = 0 \<and> unat (bss_end l) mod 4 = 0 \<and>
     unat (data_start l) \<le> unat (data_end l) \<and> unat (data_end l) \<le> unat (bss_start l) \<and>
     unat (bss_start l) \<le> unat (bss_end l) \<and> unat (bss_end l) \<le> unat (stack_end l) \<and>
     unat (stack_end l) + 8 \<le> 2 ^ 32 \<and>
     (unat (CONFIG_FLASH_START c + CONFIG_FLASH_SIZE c) \<le> unat (data_start l) \<or>
      unat (stack_end l) + 8 \<le> unat (CONFIG_FLASH_START c)) \<and>
     (unat (data_flash l) + (unat (data_end l) - unat (data_start l)) \<le> unat (data_start l) \<or>
      unat (stack_end l) \<le> unat (data_flash l) \<and>
      unat (data_flash l) + (unat (data_end l) - unat (data_start l)) \<le> 2 ^ 32)"

definition app_area :: "config \<Rightarrow> u32 set" where
  "app_area c = {x. unat (CONFIG_LAUNCH_APP_ADDRESS c) \<le> unat x \<and>
     unat x < unat (CONFIG_FLASH_START c + CONFIG_FLASH_SIZE c)}"

definition same_app :: "config \<Rightarrow> memory \<Rightarrow> memory \<Rightarrow> bool" where
  "same_app c m m' \<longleftrightarrow> (\<forall>x \<in> app_area c. m' x = m x)"

lemma mem_read_app_area:
  assumes "same_app c m m'" and "unat (CONFIG_LAUNCH_APP_ADDRESS c) \<le> unat a"
    and "unat a + n \<le> unat (CONFIG_FLASH_START c + CONFIG_FLASH_SIZE c)"
  shows "mem_read m' a n = mem_read m a n"
proof (rule mem_read_eqI)
  fix i assume i: "i < n"
  have "unat a + i < 2 ^ 32" using i assms(3) unat_u32_less [of "CONFIG_FLASH_START c + CONFIG_FLASH_SIZE c"]
    by (simp del: unat_u32_less)
  then have "unat (a + of_nat i) = unat a + i" by (rule unat_add_nat)
  with i assms show "m' (a + of_nat i) = m (a + of_nat i)" by (simp add: same_app_def app_area_def)
qed

lemma mem_u32_read: "mem_u32 m a = u32_at (mem_read m a 4) 0"
  by (simp add: mem_u32_def u32_at_def)

lemma layout_max_app_size:
  assumes "layout_ok c l"
  shows "unat (CONFIG_LAUNCH_APP_ADDRESS c + CONFIG_METADATA_PAGE_SIZE c) =
      unat (CONFIG_LAUNCH_APP_ADDRESS c) + unat (CONFIG_METADATA_PAGE_SIZE c)" (is ?A)
    and "unat (CONFIG_LAUNCH_APP_ADDRESS c) + unat (CONFIG_METADATA_PAGE_SIZE c) + unat (MAX_APP_SIZE c) =
      unat (CONFIG_FLASH_START c + CONFIG_FLASH_SIZE c)" (is ?B)
proof -
  let ?s = "CONFIG_FLASH_START c" and ?z = "CONFIG_FLASH_SIZE c" and ?a = "CONFIG_LAUNCH_APP_ADDRESS c"
    and ?p = "CONFIG_METADATA_PAGE_SIZE c"
  have c: "config_ok c" and r: "unat ?a + unat ?p + 8 \<le> unat (?s + ?z)"
    using assms by (simp_all add: layout_ok_def)
  show A: ?A using r unat_u32_less [of "?s + ?z"] by (simp add: unat_word_ariths del: unat_u32_less)
  have m: "MAX_APP_SIZE c = (?s + ?z) - (?a + ?p)" by (simp add: MAX_APP_SIZE_def algebra_simps)
  have "?a + ?p \<le> ?s + ?z" using A r by (simp add: word_le_nat_alt)
  then have "unat (MAX_APP_SIZE c) = unat (?s + ?z) - unat (?a + ?p)" unfolding m by (rule unat_sub)
  with A r show ?B by simp
qed

lemma same_app_verify:
  assumes "layout_ok c l" and "same_app c m m'"
  shows "application_check_valid c m' = application_check_valid c m"
proof -
  let ?a = "CONFIG_LAUNCH_APP_ADDRESS c" and ?p = "CONFIG_METADATA_PAGE_SIZE c"
  note sz = layout_max_app_size [OF assms(1)]
  have p: "84 \<le> unat ?p" "unat ?a + unat ?p + 8 \<le> unat (CONFIG_FLASH_START c + CONFIG_FLASH_SIZE c)"
    using assms(1) by (simp_all add: layout_ok_def)
  have meta: "mem_read m' ?a n = mem_read m ?a n" if "n \<le> 84" for n
    using mem_read_app_area [OF assms(2), of ?a n] that p by simp
  have code: "mem_read m' (?a + ?p) n = mem_read m (?a + ?p) n" if "n \<le> unat (MAX_APP_SIZE c)" for n
    using mem_read_app_area [OF assms(2), of "?a + ?p" n] that sz by simp
  have sp: "mem_u32 m' (?a + ?p) = mem_u32 m (?a + ?p)"
    using code [of 4] sz p by (simp add: mem_u32_read)
  have "appvalidate_get_metadata c m' = appvalidate_get_metadata c m"
    using meta [of 84] by (simp add: appvalidate_get_metadata_def get_metadata_addr_def app_metadata_size_def)
  moreover have "mem_read m' (get_metadata_addr c) meta_crc_offset = mem_read m (get_metadata_addr c) meta_crc_offset"
    using meta [of meta_crc_offset] by (simp add: get_metadata_addr_def meta_crc_offset_def)
  moreover have "mem_read m' (get_app_code_addr c) (unat sz) = mem_read m (get_app_code_addr c) (unat sz)"
    if "\<not> sz > MAX_APP_SIZE c" for sz
    using code [of "unat sz"] that by (simp add: get_app_code_addr_def word_le_nat_alt not_less)
  ultimately have "appvalidate_verify c m' = appvalidate_verify c m"
    by (auto simp: appvalidate_verify_def Let_def)
  with sp show ?thesis by (simp add: application_check_valid_def)
qed

section \<open>Writes to RAM\<close>

lemma mem_write_unat:
  assumes "unat a + length bs \<le> 2 ^ 32"
  shows "mem_write m a bs x = (if unat a \<le> unat x \<and> unat x < unat a + length bs then bs ! (unat x - unat a) else m x)"
proof -
  have "unat (x - a) = (if unat a \<le> unat x then unat x - unat a else unat x + 2 ^ 32 - unat a)"
    by (simp add: unat_sub_if')
  then show ?thesis using assms unat_u32_less [of a] by (auto simp: mem_write_def simp del: unat_u32_less)
qed

lemma write_ram_same_app:
  assumes "layout_ok c l" and "unat (data_start l) \<le> unat a" and "unat a + length bs \<le> unat (stack_end l) + 8"
  shows "same_app c m (mem_write m a bs)"
proof -
  have c: "config_ok c" and b: "unat (stack_end l) + 8 \<le> 2 ^ 32"
    and d: "unat (CONFIG_FLASH_START c + CONFIG_FLASH_SIZE c) \<le> unat (data_start l) \<or>
      unat (stack_end l) + 8 \<le> unat (CONFIG_FLASH_START c)"
    using assms(1) by (simp_all add: layout_ok_def)
  have le: "unat a + length bs \<le> 2 ^ 32" using assms(3) b by simp
  have "unat (CONFIG_FLASH_START c) \<le> unat (CONFIG_LAUNCH_APP_ADDRESS c)"
    using c by (simp add: config_ok_def word_le_nat_alt)
  with d assms(2,3) show ?thesis unfolding same_app_def app_area_def mem_write_unat [OF le] by auto
qed

lemma set_code_same_app: "layout_ok c l \<Longrightarrow> same_app c m (set_bootup_code l code m)"
  unfolding set_bootup_code_def boot_set_bootup_code_def
  by (rule write_ram_same_app, assumption) (auto simp: layout_ok_def)

lemma set_code_valid [simp]:
  assumes "layout_ok c l"
  shows "application_check_valid c (set_bootup_code l code m) = application_check_valid c m"
    and "application_check_valid c (boot_set_bootup_code l code m) = application_check_valid c m"
  using same_app_verify [OF assms set_code_same_app [OF assms]] by (simp_all add: set_bootup_code_def)

lemma write_below_code:
  assumes "unat a + length bs \<le> unat (stack_end l)" and "unat (stack_end l) + 8 \<le> 2 ^ 32"
  shows "get_bootup_code l (mem_write m a bs) = get_bootup_code l m"
proof -
  have le: "unat a + length bs \<le> 2 ^ 32" using assms by simp
  have s: "unat (stack_end l + of_nat k) = unat (stack_end l) + k" if "k < 8" for k
    using that assms(2) by (intro unat_add_nat) simp
  have "mem_write m a bs (stack_end l + of_nat k) = m (stack_end l + of_nat k)" if "k < 8" for k
    using assms(1) unfolding mem_write_unat [OF le] s [OF that] by simp
  from this [of 0] this [of 1] this [of 2] this [of 3] this [of 4] this [of 5] this [of 6] this [of 7]
  show ?thesis by (simp add: get_bootup_code_def mem_u64_def)
qed

section \<open>The loops of the reset handler\<close>

lemma of_nat_4_Suc: "(of_nat (4 * Suc k) :: u32) - 4 = of_nat (4 * k)"
  by simp

lemma of_nat_4_nonzero: "4 * Suc k < 2 ^ 32 \<Longrightarrow> (of_nat (4 * Suc k) :: u32) \<noteq> 0"
  using unat_of_nat_u32 [of "4 * Suc k"] by (metis unat_0 mult_eq_0_iff nat.distinct(1) zero_neq_numeral)

lemma boot_memset_eq:
  "4 * k < 2 ^ 32 \<Longrightarrow> boot_memset mem s v (of_nat (4 * k)) = Some (mem_write mem s (concat (replicate k (bytes_of_u32 v))))"
proof (induction k arbitrary: mem s)
  case 0
  then show ?case by (simp add: boot_memset.simps mem_write_def)
next
  case (Suc k)
  let ?b = "bytes_of_u32 v"
  have len: "length (concat (replicate k ?b)) = 4 * k" by (induction k) simp_all
  have "boot_memset mem s v (of_nat (4 * Suc k)) = boot_memset (mem_write mem s ?b) (s + 4) v (of_nat (4 * k))"
    using of_nat_4_nonzero [OF Suc.prems] by (subst boot_memset.simps) (simp only: of_nat_4_Suc if_False)
  also have "\<dots> = Some (mem_write (mem_write mem s ?b) (s + 4) (concat (replicate k ?b)))"
    using Suc.prems by (intro Suc.IH) simp
  also have "mem_write (mem_write mem s ?b) (s + 4) (concat (replicate k ?b)) = mem_write mem s (?b @ concat (replicate k ?b))"
    using mem_write_append [of ?b "concat (replicate k ?b)" mem s] Suc.prems len by simp
  finally show ?case by simp
qed

lemma mem_read_4: "mem_read m a 4 = bytes_of_u32 (mem_u32 m a)"
  by (rule nth_equalityI) (auto simp: mem_u32_def less_Suc_eq numeral_eq_Suc)

lemma boot_memcpy_eq:
  "4 * k < 2 ^ 32 \<Longrightarrow> unat dest + 4 * k \<le> 2 ^ 32 \<Longrightarrow> unat src + 4 * k \<le> 2 ^ 32 \<Longrightarrow>
   unat src + 4 * k \<le> unat dest \<or> unat dest + 4 * k \<le> unat src \<Longrightarrow>
   boot_memcpy mem dest src (of_nat (4 * k)) = Some (mem_write mem dest (mem_read mem src (4 * k)))"
proof (induction k arbitrary: mem dest src)
  case 0
  then show ?case by (simp add: boot_memcpy.simps mem_write_def)
next
  case (Suc k)
  let ?m = "mem_write mem dest (bytes_of_u32 (mem_u32 mem src))"
  have step: "boot_memcpy mem dest src (of_nat (4 * Suc k)) = boot_memcpy ?m (dest + 4) (src + 4) (of_nat (4 * k))"
    using of_nat_4_nonzero [OF Suc.prems(1)] by (subst boot_memcpy.simps) (simp only: of_nat_4_Suc if_False)
  show ?case
  proof (cases "k = 0")
    case True
    then show ?thesis using step mem_read_4 [of mem src] by (simp add: boot_memcpy.simps)
  next
    case False
    then have u: "unat (dest + 4) = unat dest + 4" "unat (src + 4) = unat src + 4"
      using unat_add_nat [of dest 4] unat_add_nat [of src 4] Suc.prems by simp_all
    have "boot_memcpy ?m (dest + 4) (src + 4) (of_nat (4 * k)) = Some (mem_write ?m (dest + 4) (mem_read ?m (src + 4) (4 * k)))"
      using Suc.prems u by (intro Suc.IH) auto
    also have "mem_read ?m (src + 4) (4 * k) = mem_read mem (src + 4) (4 * k)"
    proof (rule mem_read_eqI)
      fix i assume i: "i < 4 * k"
      have v: "unat (src + 4 + of_nat i) = unat src + 4 + i"
        using i u Suc.prems(3) unat_add_nat [of "src + 4" i] by simp
      have le: "unat dest + length (bytes_of_u32 (mem_u32 mem src)) \<le> 2 ^ 32" using Suc.prems by simp
      show "?m (src + 4 + of_nat i) = mem (src + 4 + of_nat i)"
        unfolding mem_write_unat [OF le] v using Suc.prems(4) i by auto
    qed
    also have "mem_write ?m (dest + 4) (mem_read mem (src + 4) (4 * k)) =
        mem_write mem dest (bytes_of_u32 (mem_u32 mem src) @ mem_read mem (src + 4) (4 * k))"
      using mem_write_append [of "bytes_of_u32 (mem_u32 mem src)" "mem_read mem (src + 4) (4 * k)" mem dest] Suc.prems by simp
    also have "bytes_of_u32 (mem_u32 mem src) @ mem_read mem (src + 4) (4 * k) = mem_read mem src (4 * Suc k)"
      using mem_read_append [of mem src 4 "4 * k"] mem_read_4 [of mem src] by simp
    finally show ?thesis using step by simp
  qed
qed

text \<open>Neither loop ends for a count that is not a multiple of four.\<close>

lemma boot_memset_returns:
  assumes "boot_memset mem s v n = Some mem'"
  shows "unat n mod 4 = 0"
proof (rule boot_memset.raw_induct [where P = "\<lambda>mem s v n mem'. unat n mod 4 = 0", OF _ assms])
  fix f mem s v and n :: u32 and mem'
  assume IH: "\<And>mem s v n mem'. f mem s v n = Some mem' \<Longrightarrow> unat n mod 4 = 0"
    and eq: "(if n = 0 then Some mem else f (mem_write mem s (bytes_of_u32 v)) (s + 4) v (n - 4)) = Some mem'"
  show "unat n mod 4 = 0"
  proof (cases "n = 0")
    case False
    with eq IH have "unat (n - 4) mod 4 = 0" by auto
    then show ?thesis by (simp add: unat_sub_if' split: if_splits) presburger+
  qed simp
qed

lemma section_count:
  assumes "unat (a :: u32) mod 4 = 0" and "unat b mod 4 = 0" and "unat a \<le> unat b"
  shows "(b - a) div 4 * 4 = of_nat (4 * ((unat b - unat a) div 4))" and "4 * ((unat b - unat a) div 4) = unat b - unat a"
proof -
  show d: "4 * ((unat b - unat a) div 4) = unat b - unat a"
    using assms by (metis dvd_diff_nat dvd_mult_div_cancel mod_0_imp_dvd)
  have s: "unat (b - a) = unat b - unat a" using assms(3) by (intro unat_sub) (simp add: word_le_nat_alt)
  have "unat b - unat a < 2 ^ 32" using unat_u32_less [of b] by (simp del: unat_u32_less)
  then have n: "unat (of_nat (unat b - unat a) :: u32) = unat b - unat a" "unat ((b - a) div 4 * 4) = unat b - unat a"
    using d by (simp_all add: unat_of_nat_u32 unat_word_ariths unat_div s mult.commute del: of_nat_diff)
  show "(b - a) div 4 * 4 = of_nat (4 * ((unat b - unat a) div 4))"
    unfolding d word_unat_eq_iff n ..
qed

lemma concat_zeros: "concat (replicate k (bytes_of_u32 0)) = replicate (4 * k) 0"
  by (induction k) (simp_all add: bytes_of_u32_def numeral_eq_Suc)

lemma handler_eq:
  assumes lay: "layout_ok c l" and code: "get_bootup_code l mem \<noteq> REQUEST_START_APP"
  shows "reset_handler_stage_two c l mem = Some (Run_Main
    (mem_write (mem_write mem (data_start l) (mem_read mem (data_flash l) (unat (data_end l) - unat (data_start l))))
       (bss_start l) (replicate (unat (bss_end l) - unat (bss_start l)) 0)))"
proof -
  have a: "unat (data_start l) mod 4 = 0" "unat (data_end l) mod 4 = 0" "unat (data_start l) \<le> unat (data_end l)"
      "unat (bss_start l) mod 4 = 0" "unat (bss_end l) mod 4 = 0" "unat (bss_start l) \<le> unat (bss_end l)"
    using lay by (simp_all add: layout_ok_def)
  note d = section_count [OF a(1-3)] and b = section_count [OF a(4-6)]
  have f: "unat (data_flash l) + (unat (data_end l) - unat (data_start l)) \<le> unat (data_start l) \<or>
      unat (data_end l) \<le> unat (data_flash l) \<and>
      unat (data_flash l) + (unat (data_end l) - unat (data_start l)) \<le> 2 ^ 32"
    using lay unfolding layout_ok_def by linarith
  have small: "unat (data_start l) < 2 ^ 32" "unat (data_end l) < 2 ^ 32" "unat (bss_end l) < 2 ^ 32" by simp_all
  have "boot_memcpy mem (data_start l) (data_flash l) ((data_end l - data_start l) div 4 * 4) =
      Some (mem_write mem (data_start l) (mem_read mem (data_flash l) (unat (data_end l) - unat (data_start l))))"
    unfolding d(1) by (subst boot_memcpy_eq; (unfold d(2))?) (use a(3) f small in linarith | simp)+
  moreover have "boot_memset m (bss_start l) 0 ((bss_end l - bss_start l) div 4 * 4) =
      Some (mem_write m (bss_start l) (replicate (unat (bss_end l) - unat (bss_start l)) 0))" for m
    unfolding b(1) by (subst boot_memset_eq; (unfold concat_zeros b(2))?) (use small in linarith | simp)+
  ultimately show ?thesis using code by (simp add: reset_handler_stage_two_def Let_def)
qed

text \<open>C25: The reset handler always ends and prepares memory. With the layout of the linker script, when no
  start of the application is requested, both loops of \<open>reset_handler_stage_two\<close> end, the
  initialised data are in place, the bss segment is zero, every byte outside the two is as it was,
  in particular the boot code and the application, and the handler goes on to the main program.\<close>

theorem reset_handler_prepares_memory:
  assumes "layout_ok c l" and "get_bootup_code l mem \<noteq> REQUEST_START_APP"
  shows "\<exists>mem'. reset_handler_stage_two c l mem = Some (Run_Main mem') \<and>
    mem_read mem' (data_start l) (unat (data_end l) - unat (data_start l)) =
      mem_read mem (data_flash l) (unat (data_end l) - unat (data_start l)) \<and>
    mem_read mem' (bss_start l) (unat (bss_end l) - unat (bss_start l)) =
      replicate (unat (bss_end l) - unat (bss_start l)) 0 \<and>
    (\<forall>x. unat x < unat (data_start l) \<or> unat (data_end l) \<le> unat x \<and> unat x < unat (bss_start l) \<or>
        unat (bss_end l) \<le> unat x \<longrightarrow> mem' x = mem x)"
proof -
  let ?nd = "unat (data_end l) - unat (data_start l)" and ?nb = "unat (bss_end l) - unat (bss_start l)"
  let ?m1 = "mem_write mem (data_start l) (mem_read mem (data_flash l) ?nd)"
  let ?m2 = "mem_write ?m1 (bss_start l) (replicate ?nb 0)"
  have o: "unat (data_start l) \<le> unat (data_end l)" "unat (data_end l) \<le> unat (bss_start l)"
      "unat (bss_start l) \<le> unat (bss_end l)"
    using assms(1) by (simp_all add: layout_ok_def)
  have small: "unat (data_end l) < 2 ^ 32" "unat (bss_end l) < 2 ^ 32" by simp_all
  have le: "unat (data_start l) + length (mem_read mem (data_flash l) ?nd) \<le> 2 ^ 32"
      "unat (bss_start l) + length (replicate ?nb (0 :: u8)) \<le> 2 ^ 32"
    using o small unfolding length_mem_read length_replicate by linarith+
  have "mem_read ?m2 (data_start l) ?nd = mem_read ?m1 (data_start l) ?nd"
  proof (rule mem_read_eqI)
    fix i assume i: "i < ?nd"
    then have "unat (data_start l + of_nat i) = unat (data_start l) + i" using small o by (intro unat_add_nat) linarith
    moreover have "\<not> unat (bss_start l) \<le> unat (data_start l) + i" using i o by linarith
    ultimately show "?m2 (data_start l + of_nat i) = ?m1 (data_start l + of_nat i)"
      unfolding mem_write_unat [OF le(2)] by simp
  qed
  also have "\<dots> = mem_read mem (data_flash l) ?nd"
    using mem_read_write_same [of "mem_read mem (data_flash l) ?nd" mem "data_start l"] le(1) by simp
  finally have "mem_read ?m2 (data_start l) ?nd = mem_read mem (data_flash l) ?nd" .
  moreover have "mem_read ?m2 (bss_start l) ?nb = replicate ?nb 0"
    using mem_read_write_same [of "replicate ?nb 0" ?m1 "bss_start l"] le(2) by simp
  moreover have "\<forall>x. unat x < unat (data_start l) \<or> unat (data_end l) \<le> unat x \<and> unat x < unat (bss_start l) \<or>
        unat (bss_end l) \<le> unat x \<longrightarrow> ?m2 x = mem x"
    unfolding mem_write_unat [OF le(2)] mem_write_unat [OF le(1)] using o by auto
  ultimately show ?thesis using handler_eq [OF assms] by blast
qed

text \<open>The first two words of the application are not touched by a new boot code.\<close>

lemma boot_words_kept:
  assumes "layout_ok c l"
  shows "mem_u32 (boot_set_bootup_code l code m) (get_app_code_addr c) = mem_u32 m (get_app_code_addr c)"
    and "mem_u32 (boot_set_bootup_code l code m) (get_app_code_addr c + 4) = mem_u32 m (get_app_code_addr c + 4)"
proof -
  note sz = layout_max_app_size [OF assms]
  have r: "unat (CONFIG_LAUNCH_APP_ADDRESS c) + unat (CONFIG_METADATA_PAGE_SIZE c) + 8 \<le>
      unat (CONFIG_FLASH_START c + CONFIG_FLASH_SIZE c)" using assms by (simp add: layout_ok_def)
  have "mem_read (set_bootup_code l code m) (get_app_code_addr c) 8 = mem_read m (get_app_code_addr c) 8"
    by (rule mem_read_app_area [OF set_code_same_app [OF assms]]) (use r sz in \<open>simp_all add: get_app_code_addr_def\<close>)
  then show "mem_u32 (boot_set_bootup_code l code m) (get_app_code_addr c) = mem_u32 m (get_app_code_addr c)"
    "mem_u32 (boot_set_bootup_code l code m) (get_app_code_addr c + 4) = mem_u32 m (get_app_code_addr c + 4)"
    using mem_read_append [of "set_bootup_code l code m" "get_app_code_addr c" 4 4] mem_read_append [of m "get_app_code_addr c" 4 4]
    by (simp_all add: mem_u32_read set_bootup_code_def)
qed

section \<open>The boot machine\<close>

datatype boot_phase = In_Reset | In_Loader timeout | In_App

text \<open>Everything that can happen between power-on and power-off: the two ways through the reset handler,
  a reset while the boot decision is made, work of the bootloader that leaves the boot code alone,
  its timeout, its reset after COMPLETE, a reset from outside, and an application that resets
  without asking for its own start.\<close>

inductive boot_step :: "config \<Rightarrow> link \<Rightarrow> boot_phase \<times> memory \<Rightarrow> boot_phase \<times> memory \<Rightarrow> bool"
  for c :: config and l :: link where
  start: "reset_handler_stage_two c l mem = Some (Start_App mem' vtor sp pc) \<Longrightarrow>
    boot_step c l (In_Reset, mem) (In_App, mem')"
| decide_reset: "reset_handler_stage_two c l mem = Some (Run_Main mem1) \<Longrightarrow> sched_main c l i mem1 = Reset mem2 \<Longrightarrow>
    boot_step c l (In_Reset, mem) (In_Reset, mem2)"
| decide_loop: "reset_handler_stage_two c l mem = Some (Run_Main mem1) \<Longrightarrow>
    sched_main c l i mem1 = Main_Loop commanded mem2 \<Longrightarrow>
    boot_step c l (In_Reset, mem) (In_Loader (timeout_init commanded now t), mem2)"
| decide_interrupted: "reset_handler_stage_two c l mem = Some (Run_Main mem1) \<Longrightarrow>
    bootentry_check c l i mem1 = (enter, commanded, acts) \<Longrightarrow>
    boot_step c l (In_Reset, mem) (In_Reset, run_until l acts us mem1)"
| work: "get_bootup_code l mem' = get_bootup_code l mem \<Longrightarrow> boot_step c l (In_Loader t, mem) (In_Loader t, mem')"
| timeout_jump: "timeout_task c l in_transfer assigned now now' mem t = Timeout_Jump mem' \<Longrightarrow>
    boot_step c l (In_Loader t, mem) (In_Reset, mem')"
| timeout_wait: "timeout_task c l in_transfer assigned now now' mem t = Timeout_Wait t' \<Longrightarrow>
    boot_step c l (In_Loader t, mem) (In_Loader t', mem)"
| completed: "boot_step c l (In_Loader t, mem) (In_Reset, system_reset l mem)"
| external: "boot_step c l (In_Loader t, mem) (In_Reset, mem)"
| app: "get_bootup_code l mem' \<noteq> REQUEST_START_APP \<Longrightarrow> boot_step c l (In_App, mem) (In_Reset, mem')"

definition boot_inv :: "config \<Rightarrow> link \<Rightarrow> boot_phase \<times> memory \<Rightarrow> bool" where
  "boot_inv c l = (\<lambda>(ph, mem). case ph of
     In_Reset \<Rightarrow> get_bootup_code l mem = REQUEST_START_APP \<longrightarrow> application_check_valid c mem
   | In_Loader t \<Rightarrow> get_bootup_code l mem \<noteq> REQUEST_START_APP
   | In_App \<Rightarrow> True)"

lemma handler_main:
  assumes "layout_ok c l" and "reset_handler_stage_two c l mem = Some (Run_Main mem1)"
  shows "get_bootup_code l mem1 \<noteq> REQUEST_START_APP"
proof -
  have code: "get_bootup_code l mem \<noteq> REQUEST_START_APP"
    using assms(2) by (auto simp: reset_handler_stage_two_def boot_start_application_def Let_def)
  have o: "unat (data_start l) \<le> unat (data_end l)" "unat (data_end l) \<le> unat (bss_start l)"
      "unat (bss_start l) \<le> unat (bss_end l)" "unat (bss_end l) \<le> unat (stack_end l)" "unat (stack_end l) + 8 \<le> 2 ^ 32"
    using assms(1) by (simp_all add: layout_ok_def)
  have "get_bootup_code l mem1 = get_bootup_code l mem"
    using handler_eq [OF assms(1) code] assms(2) o by (auto simp: write_below_code)
  with code show ?thesis by simp
qed

lemma acts_code:
  assumes "bootentry_check c l i mem = (enter, commanded, acts)"
  shows "a \<in> set acts \<Longrightarrow> a = Set_Code code \<Longrightarrow> code \<noteq> REQUEST_START_APP"
  using assms
  by (auto simp: bootentry_check_def check_button_pressed_def check_double_reset_def board_check_double_reset_def Let_def
      split: if_splits prod.splits)

lemma fold_acts:
  "layout_ok c l \<Longrightarrow> (\<And>code. Set_Code code \<in> set acts \<Longrightarrow> code \<noteq> REQUEST_START_APP) \<Longrightarrow>
   get_bootup_code l mem \<noteq> REQUEST_START_APP \<Longrightarrow>
   get_bootup_code l (fold (boot_act l) acts mem) \<noteq> REQUEST_START_APP \<and>
   application_check_valid c (fold (boot_act l) acts mem) = application_check_valid c mem"
proof (induction acts arbitrary: mem)
  case (Cons a acts)
  have "get_bootup_code l (boot_act l a mem) \<noteq> REQUEST_START_APP"
    using Cons.prems(2,3) by (cases a) simp_all
  moreover have "application_check_valid c (boot_act l a mem) = application_check_valid c mem"
    using Cons.prems(1) by (cases a) simp_all
  ultimately show ?case using Cons by simp
qed simp

lemma run_until_code:
  "(\<And>code. Set_Code code \<in> set acts \<Longrightarrow> code \<noteq> REQUEST_START_APP) \<Longrightarrow>
   get_bootup_code l mem \<noteq> REQUEST_START_APP \<Longrightarrow>
   get_bootup_code l (run_until l acts us mem) \<noteq> REQUEST_START_APP"
proof (induction acts arbitrary: us mem)
  case (Cons a acts)
  then show ?case by (cases a) auto
qed simp

lemma sched_main_reset:
  assumes "layout_ok c l" and "get_bootup_code l mem \<noteq> REQUEST_START_APP" and "sched_main c l i mem = Reset mem'"
  shows "application_check_valid c mem'"
proof -
  obtain enter commanded acts where b: "bootentry_check c l i mem = (enter, commanded, acts)"
    by (cases "bootentry_check c l i mem")
  have m: "\<not> enter" "mem' = application_jump l (fold (boot_act l) acts mem)"
    using assms(3) b by (auto simp: sched_main_def Let_def split: if_splits)
  have "application_check_valid c mem"
    using b m(1) by (auto simp: bootentry_check_def Let_def split: if_splits prod.splits)
  with fold_acts [OF assms(1) acts_code [OF b] assms(2)] assms(1) m(2)
  show ?thesis by (auto simp: application_jump_def do_reset_def)
qed

lemma boot_step_inv:
  assumes lay: "layout_ok c l" and "boot_step c l s s'" and "boot_inv c l s"
  shows "boot_inv c l s'"
  using assms(2,3)
proof cases
  case (decide_reset mem mem1 i mem2)
  with sched_main_reset [OF lay handler_main [OF lay decide_reset(3)] decide_reset(4)] show ?thesis
    by (simp add: boot_inv_def)
next
  case (decide_loop mem mem1 i commanded mem2 now t)
  obtain enter com acts where b: "bootentry_check c l i mem1 = (enter, com, acts)" by (cases "bootentry_check c l i mem1")
  have "mem2 = fold (boot_act l) acts mem1" using decide_loop(4) b by (auto simp: sched_main_def Let_def split: if_splits)
  with fold_acts [OF lay acts_code [OF b] handler_main [OF lay decide_loop(3)]] decide_loop show ?thesis
    by (auto simp: boot_inv_def)
next
  case (decide_interrupted mem mem1 i enter commanded acts us)
  from run_until_code [OF acts_code [OF decide_interrupted(4)] handler_main [OF lay decide_interrupted(3)]]
  show ?thesis using decide_interrupted by (auto simp: boot_inv_def)
next
  case (timeout_jump in_transfer assigned now now' mem t mem')
  then have "application_check_valid c mem" "mem' = application_jump l mem"
    by (auto simp: timeout_task_def Let_def split: if_splits)
  with lay timeout_jump show ?thesis by (simp add: boot_inv_def application_jump_def do_reset_def)
qed (auto simp: boot_inv_def system_reset_def do_reset_def)

text \<open>C24: Only a valid application is ever started. From power-on with any memory in which the boot code
  does not happen to hold the start request, whatever then happens, requests, transfers, button
  presses, timeouts and resets at any moment, each time the reset handler starts the application
  its metadata and hash verify, it is given the stack pointer and the entry point of its own vector
  table, and the request has been cleared, so that the next reset does not start it again unchecked.\<close>

theorem only_valid_app_started:
  assumes "layout_ok c l" and "get_bootup_code l mem0 \<noteq> REQUEST_START_APP"
    and "(boot_step c l)\<^sup>*\<^sup>* (In_Reset, mem0) (In_Reset, mem)"
    and "reset_handler_stage_two c l mem = Some (Start_App mem' vtor sp pc)"
  shows "application_check_valid c mem' \<and> appvalidate_verify c mem' = APP_VALID \<and> vtor = get_app_code_addr c \<and>
    sp = mem_u32 mem vtor \<and> pc = mem_u32 mem (vtor + 4) \<and> get_bootup_code l mem' = 0"
proof -
  have "boot_inv c l (In_Reset, mem0)" using assms(2) by (simp add: boot_inv_def)
  with assms(3) have "boot_inv c l (In_Reset, mem)"
    by (induction rule: rtranclp_induct) (auto intro: boot_step_inv [OF assms(1)])
  then have "get_bootup_code l mem = REQUEST_START_APP \<longrightarrow> application_check_valid c mem" by (simp add: boot_inv_def)
  moreover have st: "get_bootup_code l mem = REQUEST_START_APP"
      "boot_start_application c l mem = Start_App mem' vtor sp pc"
    using assms(4) by (auto simp: reset_handler_stage_two_def Let_def split: if_splits bind_splits)
  ultimately have v: "application_check_valid c mem" by simp
  have m: "mem' = boot_set_bootup_code l 0 mem" "vtor = get_app_code_addr c" "sp = mem_u32 mem' vtor" "pc = mem_u32 mem' (vtor + 4)"
    using st(2) by (auto simp: boot_start_application_def Let_def get_app_code_addr_def)
  have v': "application_check_valid c mem'" using v assms(1) by (simp add: m(1))
  then have "appvalidate_verify c mem' = APP_VALID" by (auto simp: application_check_valid_def Let_def split: if_splits)
  with v' m show ?thesis by (simp add: boot_words_kept [OF assms(1)])
qed

section \<open>Requests\<close>

lemma request_enters_loop:
  assumes "layout_ok c l" and "get_bootup_code l mem = REQUEST_CANBOOT"
  shows "\<exists>mem1 mem2. reset_handler_stage_two c l mem = Some (Run_Main mem1) \<and>
    sched_main c l i mem1 = Main_Loop True mem2 \<and> get_bootup_code l mem2 = 0"
proof -
  have o: "unat (data_start l) \<le> unat (data_end l)" "unat (data_end l) \<le> unat (bss_start l)"
      "unat (bss_start l) \<le> unat (bss_end l)" "unat (bss_end l) \<le> unat (stack_end l)" "unat (stack_end l) + 8 \<le> 2 ^ 32"
    using assms(1) by (simp_all add: layout_ok_def)
  have "get_bootup_code l mem \<noteq> REQUEST_START_APP" using assms(2) by simp
  from handler_eq [OF assms(1) this] obtain mem1 where m: "reset_handler_stage_two c l mem = Some (Run_Main mem1)"
      "get_bootup_code l mem1 = get_bootup_code l mem" using o by (auto simp: write_below_code)
  then show ?thesis using assms(2) by (auto simp: sched_main_def bootentry_check_def Let_def)
qed

text \<open>C26: A double click of the reset button enters the bootloader. With the double reset check of
  \<open>bootentry.c\<close> switched on, a valid application and no request pending, the boot code decides for
  the application, but a second reset that comes between 10 and 500 milliseconds after the check
  began makes the next boot enter the bootloader's main loop as a commanded entry; a second reset
  before or after that leaves no request.\<close>

theorem double_reset_enters_bootloader:
  assumes "layout_ok c l" and "CONFIG_ENABLE_DOUBLE_RESET c" and "\<not> CONFIG_HAVE_BOARD_CHECK_DOUBLE_RESET c"
    and "\<not> CONFIG_ENABLE_BUTTON c" and "application_check_valid c mem" and "get_bootup_code l mem \<noteq> REQUEST_CANBOOT"
    and "bootentry_check c l i mem = (enter, commanded, acts)"
  shows "\<not> enter \<and>
    (10000 \<le> t \<and> t < 500000 \<longrightarrow> (\<exists>mem1 mem2. reset_handler_stage_two c l (run_until l acts t mem) = Some (Run_Main mem1) \<and>
       sched_main c l i' mem1 = Main_Loop True mem2)) \<and>
    (t < 10000 \<or> 500000 \<le> t \<longrightarrow> get_bootup_code l (run_until l acts t mem) \<noteq> REQUEST_CANBOOT)"
proof -
  have a: "\<not> enter" "acts = [Udelay 10000, Set_Code REQUEST_CANBOOT, Udelay 490000, Set_Code 0]"
    using assms(2-7) by (auto simp: bootentry_check_def check_button_pressed_def check_double_reset_def Let_def)
  have "get_bootup_code l (run_until l acts t mem) = REQUEST_CANBOOT" if "10000 \<le> t" "t < 500000"
    using that by (simp add: a(2))
  then have "\<exists>mem1 mem2. reset_handler_stage_two c l (run_until l acts t mem) = Some (Run_Main mem1) \<and>
       sched_main c l i' mem1 = Main_Loop True mem2" if "10000 \<le> t" "t < 500000"
    using that request_enters_loop [OF assms(1)] by metis
  moreover have "get_bootup_code l (run_until l acts t mem) \<noteq> REQUEST_CANBOOT" if "t < 10000 \<or> 500000 \<le> t"
    using that assms(6) by (auto simp: a(2))
  ultimately show ?thesis using a(1) by blast
qed

section \<open>The timeout\<close>

text \<open>When the timeout starts the application, \<open>e\<close> ticks after its start.\<close>

lemma timeout_jump_iff:
  assumes "span = timer_from_us c (if assigned then 30000000 else 10000000)"
  shows "(\<exists>mem'. timeout_task c l in_transfer assigned (timeout_start t + e) now' mem t = Timeout_Jump mem') \<longleftrightarrow>
    timeout_initialized t \<and> \<not> in_transfer \<and> application_check_valid c mem \<and>
    \<not> (if e < span then unat span - unat e \<le> 2 ^ 31 else 2 ^ 31 \<le> unat e - unat span)"
proof -
  have "timer_is_before (timeout_start t + e) (timeout_start t + span) \<longleftrightarrow>
     (if e < span then unat span - unat e \<le> 2 ^ 31 else 2 ^ 31 \<le> unat e - unat span)"
    by (rule timer_before_deadline)
  then show ?thesis unfolding assms by (auto simp: timeout_task_def Let_def)
qed

text \<open>C27: The longer timeout of a node that has a short id is none. At 72 MHz its 30 seconds are more than
  \<open>2^31\<close> ticks, so that \<open>timer_is_before\<close> sees the deadline in the past: with a valid application the
  first run of the task in the first 12,516,352 ticks, a sixth of a second, resets into the
  application, where a node without a short id waits for 10 seconds.\<close>

theorem timeout_with_shortid_fires_early:
  assumes "timeout_initialized t" and "application_check_valid steinzeit mem" and "unat e < 12516352"
  shows "timeout_task steinzeit l False True (timeout_start t + e) now' mem t = Timeout_Jump (application_jump l mem) \<and>
    timeout_task steinzeit l False False (timeout_start t + e) now' mem t = Timeout_Wait t"
proof -
  have s: "unat (timer_from_us steinzeit 30000000) = 2160000000" "unat (timer_from_us steinzeit 10000000) = 720000000"
    by (simp_all add: timer_from_us_def steinzeit_def)
  have "\<not> timer_is_before (timeout_start t + e) (timeout_start t + timer_from_us steinzeit 30000000)"
    "timer_is_before (timeout_start t + e) (timeout_start t + timer_from_us steinzeit 10000000)"
    using assms(3) by (simp_all add: timer_before_deadline word_less_nat_alt s)
  then show ?thesis using assms(1,2) by (simp add: timeout_task_def Let_def)
qed

section \<open>Witnesses\<close>

definition demo_link :: link where
  "demo_link = \<lparr> data_start = 0x20000000, data_end = 0x20000100, data_flash = 0x8001000,
     bss_start = 0x20000100, bss_end = 0x20000800, stack_end = 0x20004ff8 \<rparr>"

lemma demo_link_fields:
  "data_start demo_link = 0x20000000" "data_end demo_link = 0x20000100" "data_flash demo_link = 0x8001000"
  "bss_start demo_link = 0x20000100" "bss_end demo_link = 0x20000800" "stack_end demo_link = 0x20004ff8"
  by (simp_all add: demo_link_def)

lemma layout_ok_demo: "layout_ok steinzeit demo_link"
  unfolding layout_ok_def by (simp add: demo_link_def) (simp add: steinzeit_def)

lemma demo_check_valid: "application_check_valid steinzeit demo_flash"
proof -
  have "appvalidate_verify steinzeit demo_flash = APP_VALID" by (rule verify_flash_image [OF image_ok_demo demo_flash_holds])
  moreover have "mem_u32 demo_flash (get_app_code_addr steinzeit) = 0x78563412"
    using demo_flash_code [of 0] demo_flash_code [of 1] demo_flash_code [of 2] demo_flash_code [of 3]
    by (simp add: mem_u32_def demo_code_def u32_of_bytes_def)
  ultimately show ?thesis by (simp add: application_check_valid_def get_app_code_addr_def)
qed

lemma length_demo_image: "length (flash_image steinzeit demo_code 7 demo_variant) = 1034"
  using length_flash_image [OF image_ok_demo, of 7] by (simp add: steinzeit_def demo_code_def)

lemma demo_flash_ram: "0x8002000 + 1034 \<le> unat x \<Longrightarrow> demo_flash x = 0xff"
  unfolding demo_flash_def by (subst mem_write_unat) (simp_all add: length_demo_image)

lemma demo_bootup_code: "get_bootup_code demo_link demo_flash = 0xffffffffffffffff"
  by (simp add: get_bootup_code_def mem_u64_def demo_link_def demo_flash_ram u64_of_bytes_def)

theorem reset_handler_prepares_memory_witness:
  "\<exists>mem'. reset_handler_stage_two steinzeit demo_link demo_flash = Some (Run_Main mem') \<and>
    mem_read mem' 0x20000100 0x700 = replicate 0x700 0 \<and> mem' 0x8002000 = demo_flash 0x8002000"
proof -
  have "get_bootup_code demo_link demo_flash \<noteq> REQUEST_START_APP"
    by (simp add: demo_bootup_code REQUEST_START_APP_def)
  from reset_handler_prepares_memory [OF layout_ok_demo this] obtain mem' where
    "reset_handler_stage_two steinzeit demo_link demo_flash = Some (Run_Main mem')"
    "mem_read mem' 0x20000100 0x700 = replicate 0x700 0" "\<forall>x. unat x < 0x20000000 \<longrightarrow> mem' x = demo_flash x"
    by (auto simp: demo_link_fields)
  then show ?thesis by auto
qed

lemma demo_boots_app:
  obtains mem where "boot_step steinzeit demo_link (In_Reset, demo_flash) (In_Reset, mem)"
    "get_bootup_code demo_link mem = REQUEST_START_APP"
proof -
  have "get_bootup_code demo_link demo_flash \<noteq> REQUEST_START_APP"
    by (simp add: demo_bootup_code REQUEST_START_APP_def)
  note h = handler_eq [OF layout_ok_demo this]
  obtain mem1 where m1: "reset_handler_stage_two steinzeit demo_link demo_flash = Some (Run_Main mem1)" using h by simp
  have o: "unat (data_start demo_link) \<le> unat (data_end demo_link)" "unat (data_end demo_link) \<le> unat (bss_start demo_link)"
      "unat (bss_start demo_link) \<le> unat (bss_end demo_link)" "unat (bss_end demo_link) \<le> unat (stack_end demo_link)"
      "unat (stack_end demo_link) + 8 \<le> 2 ^ 32" "unat (data_start demo_link) \<le> unat (stack_end demo_link)"
    by (simp_all add: demo_link_def)
  have code: "get_bootup_code demo_link mem1 = 0xffffffffffffffff"
    using h m1 o demo_bootup_code by (simp add: write_below_code demo_link_fields)
  have "same_app steinzeit demo_flash mem1"
  proof -
    have w: "same_app steinzeit m (mem_write m a bs)"
      if "unat (data_start demo_link) \<le> unat a" "unat a + length bs \<le> unat (stack_end demo_link) + 8" for m a bs
      by (rule write_ram_same_app [OF layout_ok_demo that])
    have t: "same_app steinzeit m m' \<Longrightarrow> same_app steinzeit m' m'' \<Longrightarrow> same_app steinzeit m m''" for m m' m''
      by (simp add: same_app_def)
    have "mem1 = mem_write (mem_write demo_flash 0x20000000 (mem_read demo_flash 0x8001000 0x100)) 0x20000100 (replicate 0x700 0)"
      using h m1 by (simp add: demo_link_fields)
    then show ?thesis
      using t [OF w [of "0x20000000" "mem_read demo_flash 0x8001000 0x100" demo_flash] w [of "0x20000100" "replicate 0x700 0"]]
      by (simp add: demo_link_fields)
  qed
  then have "application_check_valid steinzeit mem1" using same_app_verify [OF layout_ok_demo] demo_check_valid by simp
  then have "sched_main steinzeit demo_link i mem1 = Reset (application_jump demo_link mem1)" for i
    using code by (simp add: sched_main_def bootentry_check_def Let_def check_button_pressed_def check_double_reset_def
        steinzeit_def REQUEST_CANBOOT_def)
  from decide_reset [OF m1 this] show ?thesis by (rule that) (simp add: application_jump_def do_reset_def)
qed

theorem only_valid_app_started_witness:
  "\<exists>mem mem' vtor sp pc. (boot_step steinzeit demo_link)\<^sup>*\<^sup>* (In_Reset, demo_flash) (In_Reset, mem) \<and>
    reset_handler_stage_two steinzeit demo_link mem = Some (Start_App mem' vtor sp pc) \<and>
    appvalidate_verify steinzeit mem' = APP_VALID"
proof -
  obtain mem where m: "boot_step steinzeit demo_link (In_Reset, demo_flash) (In_Reset, mem)"
      "get_bootup_code demo_link mem = REQUEST_START_APP" by (rule demo_boots_app)
  obtain mem' vtor sp pc where s: "reset_handler_stage_two steinzeit demo_link mem = Some (Start_App mem' vtor sp pc)"
    using m(2) by (simp add: reset_handler_stage_two_def boot_start_application_def Let_def)
  have "get_bootup_code demo_link demo_flash \<noteq> REQUEST_START_APP"
    by (simp add: demo_bootup_code REQUEST_START_APP_def)
  with only_valid_app_started [OF layout_ok_demo this r_into_rtranclp [of "boot_step steinzeit demo_link", OF m(1)] s] m(1) s show ?thesis by blast
qed

theorem double_reset_enters_bootloader_witness:
  "\<exists>acts mem1 mem2. bootentry_check (steinzeit\<lparr>CONFIG_ENABLE_DOUBLE_RESET := True\<rparr>) demo_link
      \<lparr> button_level = 0, button_high = 0, chip_reset = 0 \<rparr> demo_flash = (False, False, acts) \<and>
    reset_handler_stage_two (steinzeit\<lparr>CONFIG_ENABLE_DOUBLE_RESET := True\<rparr>) demo_link
      (run_until demo_link acts 200000 demo_flash) = Some (Run_Main mem1) \<and>
    sched_main (steinzeit\<lparr>CONFIG_ENABLE_DOUBLE_RESET := True\<rparr>) demo_link
      \<lparr> button_level = 1, button_high = 0, chip_reset = 0 \<rparr> mem1 = Main_Loop True mem2"
proof -
  let ?c = "steinzeit\<lparr>CONFIG_ENABLE_DOUBLE_RESET := True\<rparr>" and ?i = "\<lparr> button_level = 0, button_high = 0, chip_reset = 0 \<rparr>"
  have lay: "layout_ok ?c demo_link"
    unfolding layout_ok_def config_ok_def by (simp add: demo_link_fields) (simp add: steinzeit_def word_le_nat_alt)
  have "get_metadata_addr ?c = get_metadata_addr steinzeit" "get_app_code_addr ?c = get_app_code_addr steinzeit"
    "MAX_APP_SIZE ?c = MAX_APP_SIZE steinzeit"
    by (simp_all add: get_metadata_addr_def get_app_code_addr_def MAX_APP_SIZE_def)
  then have "appvalidate_verify ?c demo_flash = appvalidate_verify steinzeit demo_flash"
    by (simp only: appvalidate_verify_def appvalidate_get_metadata_def)
  then have v: "application_check_valid ?c demo_flash"
    using demo_check_valid by (simp add: application_check_valid_def Let_def split: if_splits)
  have f: "CONFIG_ENABLE_DOUBLE_RESET ?c" "\<not> CONFIG_HAVE_BOARD_CHECK_DOUBLE_RESET ?c" "\<not> CONFIG_ENABLE_BUTTON ?c"
    by (simp_all add: steinzeit_def)
  obtain enter commanded acts where b: "bootentry_check ?c demo_link ?i demo_flash = (enter, commanded, acts)"
    by (cases "bootentry_check ?c demo_link ?i demo_flash")
  have code: "get_bootup_code demo_link demo_flash \<noteq> REQUEST_CANBOOT" by (simp add: demo_bootup_code REQUEST_CANBOOT_def)
  have "\<not> commanded" using b code by (auto simp: bootentry_check_def Let_def split: if_splits prod.splits)
  with double_reset_enters_bootloader [OF lay f v code b, of 200000 "\<lparr> button_level = 1, button_high = 0, chip_reset = 0 \<rparr>"] b
  show ?thesis by auto
qed

theorem timeout_with_shortid_fires_early_witness:
  "timeout_task steinzeit demo_link False True 5 6 demo_flash \<lparr> timeout_start = 5, timeout_initialized = True \<rparr> =
     Timeout_Jump (application_jump demo_link demo_flash)"
  using timeout_with_shortid_fires_early [of "\<lparr> timeout_start = 5, timeout_initialized = True \<rparr>" demo_flash 0 demo_link 6]
    demo_check_valid by simp

end
