(* ===== verification/StmCan.thy ===== *)
theory StmCan
  imports CanSerial
begin

text \<open>
  The two CAN drivers of the STM32 boards, \<open>stm32/can.c\<close> for the bxCAN controller and
  \<open>stm32/fdcan.c\<close> for the FDCAN controller. A controller is a record of the registers the driver
  uses, each holding what it was last written or what the hardware shows there; the busy-waits of
  \<open>can_init\<close> take the sequence of values they read. Both give \<open>generic/canbus.h\<close> its
  \<open>canhw_send\<close> and \<open>canhw_set_filter\<close>, and both call \<open>canbus_process_data\<close> from their interrupt.
\<close>

definition CANMSG_ID_RTR :: u32 where "CANMSG_ID_RTR = 0x40000000"
definition CANMSG_ID_EFF :: u32 where "CANMSG_ID_EFF = 0x80000000"

text \<open>The two words of the union in \<open>struct canbus_msg\<close>.\<close>

definition data32_0 :: "canbus_msg \<Rightarrow> u32" where
  "data32_0 msg = u32_of_bytes (msg_data msg ! 0) (msg_data msg ! 1) (msg_data msg ! 2) (msg_data msg ! 3)"

definition data32_1 :: "canbus_msg \<Rightarrow> u32" where
  "data32_1 msg = u32_of_bytes (msg_data msg ! 4) (msg_data msg ! 5) (msg_data msg ! 6) (msg_data msg ! 7)"

text \<open>\<open>while (!ready) ;\<close> on the values \<open>rd k\<close>; the result is the number of the reading that ended it.\<close>

partial_function (option) wait_reg :: "(u32 \<Rightarrow> bool) \<Rightarrow> (nat \<Rightarrow> u32) \<Rightarrow> nat \<Rightarrow> nat option" where
  "wait_reg ready rd k = (if ready (rd k) then Some k else wait_reg ready rd (Suc k))"

section \<open>Bit timing\<close>

text \<open>The loop of \<open>compute_btr\<close>, the same in both drivers.\<close>

fun find_qs :: "u32 \<Rightarrow> u32 list \<Rightarrow> u32" where
  "find_qs bit_clocks [] = 9"
| "find_qs bit_clocks (qs # rest) = (if bit_clocks mod qs = 0 then qs else find_qs bit_clocks rest)"

record btr_fields =
  btr_sjw :: u32
  btr_ts1 :: u32
  btr_ts2 :: u32
  btr_brp :: u32

definition compute_btr_fields :: "u32 \<Rightarrow> u32 \<Rightarrow> btr_fields" where
  "compute_btr_fields pclock bitrate =
     (let bit_clocks = pclock div bitrate;
          sjw = 2;
          qs = find_qs bit_clocks [18, 17, 16, 15, 14, 13, 12, 11, 10];
          brp = bit_clocks div qs;
          time_seg2 = qs div 8;
          time_seg1 = qs - (1 + time_seg2)
      in \<lparr> btr_sjw = sjw, btr_ts1 = time_seg1, btr_ts2 = time_seg2, btr_brp = brp \<rparr>)"

definition bx_make_btr :: "u32 \<Rightarrow> u32 \<Rightarrow> u32 \<Rightarrow> u32 \<Rightarrow> u32" where
  "bx_make_btr sjw time_seg1 time_seg2 brp =
     push_bit 24 (sjw - 1) OR push_bit 16 (time_seg1 - 1) OR push_bit 20 (time_seg2 - 1) OR push_bit 0 (brp - 1)"

definition bx_compute_btr :: "u32 \<Rightarrow> u32 \<Rightarrow> u32" where
  "bx_compute_btr pclock bitrate =
     (let f = compute_btr_fields pclock bitrate in bx_make_btr (btr_sjw f) (btr_ts1 f) (btr_ts2 f) (btr_brp f))"

definition fd_make_btr :: "u32 \<Rightarrow> u32 \<Rightarrow> u32 \<Rightarrow> u32 \<Rightarrow> u32" where
  "fd_make_btr sjw time_seg1 time_seg2 brp =
     push_bit 25 (sjw - 1) OR push_bit 8 (time_seg1 - 1) OR push_bit 0 (time_seg2 - 1) OR push_bit 16 (brp - 1)"

definition fd_compute_btr :: "u32 \<Rightarrow> u32 \<Rightarrow> u32" where
  "fd_compute_btr pclock bitrate =
     (let f = compute_btr_fields pclock bitrate in fd_make_btr (btr_sjw f) (btr_ts1 f) (btr_ts2 f) (btr_brp f))"

section \<open>bxCAN\<close>

abbreviation (input) CAN_TSR_TME0 :: u32 where "CAN_TSR_TME0 \<equiv> 0x04000000"
abbreviation (input) CAN_TSR_TME1 :: u32 where "CAN_TSR_TME1 \<equiv> 0x08000000"
abbreviation (input) CAN_TSR_TME2 :: u32 where "CAN_TSR_TME2 \<equiv> 0x10000000"
abbreviation (input) CAN_TSR_RQCP0 :: u32 where "CAN_TSR_RQCP0 \<equiv> 0x00000001"
abbreviation (input) CAN_TSR_RQCP1 :: u32 where "CAN_TSR_RQCP1 \<equiv> 0x00000100"
abbreviation (input) CAN_TSR_RQCP2 :: u32 where "CAN_TSR_RQCP2 \<equiv> 0x00010000"
abbreviation (input) CAN_IER_TMEIE :: u32 where "CAN_IER_TMEIE \<equiv> 1"
abbreviation (input) CAN_IER_FMPIE0 :: u32 where "CAN_IER_FMPIE0 \<equiv> 2"
abbreviation (input) CAN_TI0R_IDE :: u32 where "CAN_TI0R_IDE \<equiv> 4"
abbreviation (input) CAN_TI0R_RTR :: u32 where "CAN_TI0R_RTR \<equiv> 2"
abbreviation (input) CAN_TI0R_TXRQ :: u32 where "CAN_TI0R_TXRQ \<equiv> 1"
abbreviation (input) CAN_TI0R_STID :: u32 where "CAN_TI0R_STID \<equiv> 0xFFE00000"
abbreviation (input) CAN_RI0R_IDE :: u32 where "CAN_RI0R_IDE \<equiv> 4"
abbreviation (input) CAN_RI0R_RTR :: u32 where "CAN_RI0R_RTR \<equiv> 2"
abbreviation (input) CAN_RDT0R_DLC :: u32 where "CAN_RDT0R_DLC \<equiv> 0xF"
abbreviation (input) CAN_RF0R_FMP0 :: u32 where "CAN_RF0R_FMP0 \<equiv> 3"
abbreviation (input) CAN_RF0R_RFOM0 :: u32 where "CAN_RF0R_RFOM0 \<equiv> 0x20"
abbreviation (input) CAN_FMR_FINIT :: u32 where "CAN_FMR_FINIT \<equiv> 1"
abbreviation (input) CAN_FMR_CAN2SB :: u32 where "CAN_FMR_CAN2SB \<equiv> 0x3F00"
abbreviation (input) CAN_MCR_INRQ :: u32 where "CAN_MCR_INRQ \<equiv> 1"
abbreviation (input) CAN_MCR_TXFP :: u32 where "CAN_MCR_TXFP \<equiv> 4"
abbreviation (input) CAN_MCR_ABOM :: u32 where "CAN_MCR_ABOM \<equiv> 0x40"
abbreviation (input) CAN_MSR_INAK :: u32 where "CAN_MSR_INAK \<equiv> 1"

text \<open>A mailbox: identifier, data length, low and high data word.\<close>

record can_mailbox =
  mb_IR :: u32
  mb_DTR :: u32
  mb_DLR :: u32
  mb_DHR :: u32

text \<open>The registers. \<open>FILTER_CAN\<close> and \<open>SOC_CAN\<close> are the same controller except for CAN2 of an STM32F4,
  whose filters are on CAN1; \<open>bx_filter_elsewhere\<close> says so.\<close>

record bxcan =
  bx_filter_elsewhere :: bool
  bx_TSR :: u32
  bx_IER :: u32
  bx_MCR :: u32
  bx_BTR :: u32
  bx_RF0R :: u32
  bx_FMR :: u32
  bx_FA1R :: u32
  bx_FS1R :: u32
  bx_filters :: "(u32 \<times> u32) list"
  bx_tx :: "can_mailbox list"
  bx_rx :: can_mailbox

definition bx_canhw_send :: "canbus_msg \<Rightarrow> bxcan \<Rightarrow> int \<times> bxcan" where
  "bx_canhw_send msg d =
     (let tsr = bx_TSR d in
      if tsr AND (CAN_TSR_TME0 OR CAN_TSR_TME1 OR CAN_TSR_TME2) = 0 then
        (-1, d\<lparr>bx_IER := bx_IER d OR CAN_IER_TMEIE\<rparr>)
      else
        let mbox = (if tsr AND CAN_TSR_TME0 \<noteq> 0 then 0 else if tsr AND CAN_TSR_TME1 \<noteq> 0 then 1 else 2);
            mb = bx_tx d ! mbox;
            mb = mb\<lparr>mb_DTR := (mb_DTR mb AND 0xFFFFFFF0) OR (dlc msg AND 0x0F), mb_DLR := data32_0 msg, mb_DHR := data32_1 msg\<rparr>;
            tir = (if msg_id msg AND CANMSG_ID_EFF \<noteq> 0 then push_bit 3 (msg_id msg AND 0x1fffffff) OR CAN_TI0R_IDE
                   else push_bit 21 (msg_id msg AND 0x7ff));
            tir = tir OR (if msg_id msg AND CANMSG_ID_RTR \<noteq> 0 then CAN_TI0R_RTR else 0);
            mb = mb\<lparr>mb_IR := tir OR CAN_TI0R_TXRQ\<rparr>
        in (int (unat (CANMSG_DATA_LEN msg)), d\<lparr>bx_tx := (bx_tx d)[mbox := mb]\<rparr>))"

definition bx_canhw_set_filter :: "config \<Rightarrow> u32 \<Rightarrow> bxcan \<Rightarrow> bxcan" where
  "bx_canhw_set_filter c cid d =
     (let fmr = bx_FMR d;
          fmr = (if bx_filter_elsewhere d then fmr AND NOT CAN_FMR_CAN2SB else fmr);
          d = d\<lparr>bx_FMR := fmr OR CAN_FMR_FINIT\<rparr>;
          d = d\<lparr>bx_FA1R := 0\<rparr>;
          (cid, d) =
            (if CONFIG_CANBUS_FILTER c then
               (let msk = CAN_TI0R_STID OR CAN_TI0R_IDE OR CAN_TI0R_RTR in
                (cid, d\<lparr>bx_filters := (bx_filters d)[0 := (push_bit 21 CANBUS_ID_ADMIN, msk),
                   1 := (push_bit 21 (cid + 1), msk), 2 := (push_bit 21 cid, msk)]\<rparr>))
             else (0, d\<lparr>bx_filters := (bx_filters d)[0 := (0, 0)]\<rparr>));
          d = d\<lparr>bx_FS1R := 1 OR 2 OR 4\<rparr>;
          d = d\<lparr>bx_FA1R := 1 OR (if cid \<noteq> 0 then 2 OR 4 else 0)\<rparr>
      in d\<lparr>bx_FMR := fmr AND NOT CAN_FMR_FINIT\<rparr>)"

text \<open>The message the interrupt reads from the receive mailbox.\<close>

definition bx_read_msg :: "can_mailbox \<Rightarrow> canbus_msg" where
  "bx_read_msg mb =
     (let rir = mb_IR mb;
          mid = (if rir AND CAN_RI0R_IDE \<noteq> 0 then (drop_bit 3 rir AND 0x1fffffff) OR CANMSG_ID_EFF
                 else drop_bit 21 rir AND 0x7ff);
          mid = mid OR (if rir AND CAN_RI0R_RTR \<noteq> 0 then CANMSG_ID_RTR else 0)
      in \<lparr> msg_id = mid, dlc = mb_DTR mb AND CAN_RDT0R_DLC, msg_data = bytes_of_u32 (mb_DLR mb) @ bytes_of_u32 (mb_DHR mb) \<rparr>)"

definition bx_CAN_IRQHandler :: "bxcan \<Rightarrow> can_data \<Rightarrow> bxcan \<times> can_data" where
  "bx_CAN_IRQHandler d s =
     (let (d, s) = (if bx_RF0R d AND CAN_RF0R_FMP0 \<noteq> 0
                    then (d\<lparr>bx_RF0R := CAN_RF0R_RFOM0\<rparr>, canbus_process_data (bx_read_msg (bx_rx d)) s) else (d, s));
          ier = bx_IER d
      in if ier AND CAN_IER_TMEIE \<noteq> 0 \<and> bx_TSR d AND (CAN_TSR_RQCP0 OR CAN_TSR_RQCP1 OR CAN_TSR_RQCP2) \<noteq> 0
         then (d\<lparr>bx_IER := ier AND NOT CAN_IER_TMEIE\<rparr>, canbus_notify_tx s) else (d, s))"

text \<open>\<open>can_init\<close>, from the bit timing on; \<open>rd1\<close> and \<open>rd2\<close> are what its two waits read from \<open>MSR\<close>.
  Clocks, pins and the interrupt controller are set up by other parts.\<close>

definition bx_can_init :: "config \<Rightarrow> u32 \<Rightarrow> (nat \<Rightarrow> u32) \<Rightarrow> (nat \<Rightarrow> u32) \<Rightarrow> bxcan \<Rightarrow> bxcan option" where
  "bx_can_init c pclock rd1 rd2 d = do {
     let btr = bx_compute_btr pclock (CONFIG_CANBUS_FREQUENCY c);
     let d = d\<lparr>bx_MCR := CAN_MCR_INRQ\<rparr>;
     _ \<leftarrow> wait_reg (\<lambda>msr. msr AND CAN_MSR_INAK \<noteq> 0) rd1 0;
     let d = d\<lparr>bx_BTR := btr\<rparr>;
     let d = d\<lparr>bx_MCR := CAN_MCR_TXFP OR CAN_MCR_ABOM\<rparr>;
     _ \<leftarrow> wait_reg (\<lambda>msr. msr AND CAN_MSR_INAK = 0) rd2 0;
     let d = bx_canhw_set_filter c 0 d;
     Some (d\<lparr>bx_IER := CAN_IER_FMPIE0\<rparr>)
   }"

definition bx_hw :: "config \<Rightarrow> bxcan can_hw" where
  "bx_hw c = \<lparr> canhw_send = bx_canhw_send, canhw_set_filter = bx_canhw_set_filter c \<rparr>"

section \<open>FDCAN\<close>

datatype fdcan_mach = FD_STM32G | FD_STM32H7

abbreviation (input) FDCAN_XTD :: u32 where "FDCAN_XTD \<equiv> 0x40000000"
abbreviation (input) FDCAN_RTR :: u32 where "FDCAN_RTR \<equiv> 0x20000000"
abbreviation (input) FDCAN_CCCR_INIT :: u32 where "FDCAN_CCCR_INIT \<equiv> 1"
abbreviation (input) FDCAN_CCCR_CCE :: u32 where "FDCAN_CCCR_CCE \<equiv> 2"
abbreviation (input) FDCAN_CCCR_CSA :: u32 where "FDCAN_CCCR_CSA \<equiv> 8"
abbreviation (input) FDCAN_CCCR_CSR :: u32 where "FDCAN_CCCR_CSR \<equiv> 0x10"
abbreviation (input) FDCAN_CCCR_PXHD :: u32 where "FDCAN_CCCR_PXHD \<equiv> 0x1000"
abbreviation (input) FDCAN_TXFQS_TFQF :: u32 where "FDCAN_TXFQS_TFQF \<equiv> 0x200000"
abbreviation (input) FDCAN_IE_RF0NE :: u32 where "FDCAN_IE_RF0NE \<equiv> 1"
abbreviation (input) FDCAN_ILE_EINT0 :: u32 where "FDCAN_ILE_EINT0 \<equiv> 1"

definition FDCAN_TXFQS_TFQPI :: "fdcan_mach \<Rightarrow> u32" where
  "FDCAN_TXFQS_TFQPI m = (if m = FD_STM32G then 0x30000 else 0x1F0000)"
definition FDCAN_RXF0S_F0FL :: "fdcan_mach \<Rightarrow> u32" where
  "FDCAN_RXF0S_F0FL m = (if m = FD_STM32G then 0xF else 0x7F)"
definition FDCAN_RXF0S_F0GI :: "fdcan_mach \<Rightarrow> u32" where
  "FDCAN_RXF0S_F0GI m = (if m = FD_STM32G then 0x300 else 0x3F00)"
definition FDCAN_IE_TC :: "fdcan_mach \<Rightarrow> u32" where
  "FDCAN_IE_TC m = (if m = FD_STM32G then 0x80 OR 0x100 OR 0x200 else 0x200 OR 0x400 OR 0x800)"

record fdcan_fifo =
  id_section :: u32
  dlc_section :: u32
  fifo_data :: "u32 list"

text \<open>The registers and the message RAM; \<open>fd_msg_ram\<close> is the offset of the controller's part of the
  message RAM.\<close>

record fdcan =
  fd_CCCR :: u32
  fd_NBTP :: u32
  fd_IR :: u32
  fd_IE :: u32
  fd_ILE :: u32
  fd_TXFQS :: u32
  fd_TXBAR :: u32
  fd_RXF0S :: u32
  fd_RXF0A :: u32
  fd_RXGFC :: u32
  fd_SIDFC :: u32
  fd_GFC :: u32
  fd_RXF0C :: u32
  fd_RXESC :: u32
  fd_TXBC :: u32
  fd_TXESC :: u32
  fd_msg_ram :: u32
  fd_FLS :: "u32 list"
  fd_RXF0 :: "fdcan_fifo list"
  fd_TXFIFO :: "fdcan_fifo list"

text \<open>Offsets in \<open>struct fdcan_msg_ram\<close>: 28 and 16 filter words, two receive FIFOs of three elements of
  18 words, six event words.\<close>

definition FLS_offset :: "fdcan \<Rightarrow> u32" where "FLS_offset d = fd_msg_ram d"
definition RXF0_offset :: "fdcan \<Rightarrow> u32" where "RXF0_offset d = fd_msg_ram d + 4 * (28 + 16)"
definition TXFIFO_offset :: "fdcan \<Rightarrow> u32" where "TXFIFO_offset d = fd_msg_ram d + 4 * (28 + 16 + 3 * 18 + 3 * 18 + 6)"

definition fd_canhw_send :: "fdcan_mach \<Rightarrow> canbus_msg \<Rightarrow> fdcan \<Rightarrow> int \<times> fdcan" where
  "fd_canhw_send m msg d =
     (let txfqs = fd_TXFQS d in
      if txfqs AND FDCAN_TXFQS_TFQF \<noteq> 0 then (-1, d)
      else
        let w_index = drop_bit 16 (txfqs AND FDCAN_TXFQS_TFQPI m);
            txfifo = fd_TXFIFO d ! unat w_index;
            ids = (if msg_id msg AND CANMSG_ID_EFF \<noteq> 0 then (msg_id msg AND 0x1fffffff) OR FDCAN_XTD
                   else push_bit 18 (msg_id msg AND 0x7ff));
            ids = ids OR (if msg_id msg AND CANMSG_ID_RTR \<noteq> 0 then FDCAN_RTR else 0);
            txfifo = txfifo\<lparr>id_section := ids, dlc_section := push_bit 16 (dlc msg AND 0x0f),
              fifo_data := (fifo_data txfifo)[0 := data32_0 msg, 1 := data32_1 msg]\<rparr>
        in (int (unat (CANMSG_DATA_LEN msg)),
            d\<lparr>fd_TXFIFO := (fd_TXFIFO d)[unat w_index := txfifo], fd_TXBAR := push_bit (unat w_index) 1\<rparr>))"

definition fd_can_filter :: "nat \<Rightarrow> u32 \<Rightarrow> fdcan \<Rightarrow> fdcan" where
  "fd_can_filter index cid d =
     d\<lparr>fd_FLS := (fd_FLS d)[index := push_bit 30 2 OR push_bit 27 1 OR push_bit 16 cid OR 0x7FF]\<rparr>"

text \<open>\<open>rd\<close> is what the wait reads from \<open>CCCR\<close>.\<close>

definition fd_canhw_set_filter :: "fdcan_mach \<Rightarrow> config \<Rightarrow> u32 \<Rightarrow> (nat \<Rightarrow> u32) \<Rightarrow> fdcan \<Rightarrow> fdcan option" where
  "fd_canhw_set_filter m c cid rd d =
     (if \<not> CONFIG_CANBUS_FILTER c then Some d
      else do {
        let d = d\<lparr>fd_CCCR := fd_CCCR d OR FDCAN_CCCR_INIT\<rparr>;
        _ \<leftarrow> wait_reg (\<lambda>cccr. cccr AND FDCAN_CCCR_INIT \<noteq> 0) rd 0;
        let d = d\<lparr>fd_CCCR := fd_CCCR d OR FDCAN_CCCR_CCE\<rparr>;
        let d = fd_can_filter 2 (cid + 1) (fd_can_filter 1 cid (fd_can_filter 0 CANBUS_ID_ADMIN d));
        let d = (case m of
             FD_STM32G \<Rightarrow> d\<lparr>fd_RXGFC := push_bit 16 (if cid \<noteq> 0 then 3 else 1) OR push_bit 4 2\<rparr>
           | FD_STM32H7 \<Rightarrow> d\<lparr>fd_SIDFC := FLS_offset d OR push_bit 16 (if cid \<noteq> 0 then 3 else 1), fd_GFC := push_bit 4 2\<rparr>);
        let d = d\<lparr>fd_CCCR := fd_CCCR d AND NOT FDCAN_CCCR_CCE\<rparr>;
        Some (d\<lparr>fd_CCCR := fd_CCCR d AND NOT FDCAN_CCCR_INIT\<rparr>)
      })"

definition fd_read_msg :: "fdcan_fifo \<Rightarrow> canbus_msg" where
  "fd_read_msg rxf0 =
     (let ids = id_section rxf0;
          mid = (if ids AND FDCAN_XTD \<noteq> 0 then (ids AND 0x1fffffff) OR CANMSG_ID_EFF else drop_bit 18 ids AND 0x7ff);
          mid = mid OR (if ids AND FDCAN_RTR \<noteq> 0 then CANMSG_ID_RTR else 0)
      in \<lparr> msg_id = mid, dlc = drop_bit 16 (dlc_section rxf0) AND 0x0f,
           msg_data = bytes_of_u32 (fifo_data rxf0 ! 0) @ bytes_of_u32 (fifo_data rxf0 ! 1) \<rparr>)"

text \<open>Writing a bit of \<open>IR\<close> clears it.\<close>

definition fd_CAN_IRQHandler :: "fdcan_mach \<Rightarrow> fdcan \<Rightarrow> can_data \<Rightarrow> fdcan \<times> can_data" where
  "fd_CAN_IRQHandler m d s =
     (let ir = fd_IR d;
          (d, s) = (if ir AND FDCAN_IE_RF0NE \<noteq> 0 then
              (let d = d\<lparr>fd_IR := fd_IR d AND NOT FDCAN_IE_RF0NE\<rparr>; rxf0s = fd_RXF0S d in
               if rxf0s AND FDCAN_RXF0S_F0FL m \<noteq> 0 then
                 (let idx = drop_bit 8 (rxf0s AND FDCAN_RXF0S_F0GI m); msg = fd_read_msg (fd_RXF0 d ! unat idx)
                  in (d\<lparr>fd_RXF0A := idx\<rparr>, canbus_process_data msg s))
               else (d, s))
            else (d, s))
      in if ir AND FDCAN_IE_TC m \<noteq> 0 then (d\<lparr>fd_IR := fd_IR d AND NOT (FDCAN_IE_TC m)\<rparr>, canbus_notify_tx s) else (d, s))"

definition fd_can_init :: "fdcan_mach \<Rightarrow> config \<Rightarrow> u32 \<Rightarrow> (nat \<Rightarrow> u32) \<Rightarrow> (nat \<Rightarrow> u32) \<Rightarrow> (nat \<Rightarrow> u32) \<Rightarrow> fdcan \<Rightarrow> fdcan option" where
  "fd_can_init m c pclock rd1 rd2 rd3 d = do {
     let btr = fd_compute_btr pclock (CONFIG_CANBUS_FREQUENCY c);
     let d = d\<lparr>fd_CCCR := fd_CCCR d AND NOT FDCAN_CCCR_CSR\<rparr>;
     _ \<leftarrow> wait_reg (\<lambda>cccr. cccr AND FDCAN_CCCR_CSA = 0) rd1 0;
     let d = d\<lparr>fd_CCCR := fd_CCCR d OR FDCAN_CCCR_INIT\<rparr>;
     _ \<leftarrow> wait_reg (\<lambda>cccr. cccr AND FDCAN_CCCR_INIT \<noteq> 0) rd2 0;
     let d = d\<lparr>fd_CCCR := fd_CCCR d OR FDCAN_CCCR_CCE\<rparr>;
     let d = d\<lparr>fd_CCCR := fd_CCCR d OR FDCAN_CCCR_PXHD\<rparr>;
     let d = d\<lparr>fd_NBTP := btr\<rparr>;
     let d = (case m of FD_STM32G \<Rightarrow> d
        | FD_STM32H7 \<Rightarrow> d\<lparr>fd_RXF0C := RXF0_offset d OR push_bit 16 3,
            fd_RXESC := push_bit 4 7 OR push_bit 0 7,
            fd_TXBC := TXFIFO_offset d OR push_bit 24 3,
            fd_TXESC := push_bit 0 7\<rparr>);
     let d = d\<lparr>fd_CCCR := fd_CCCR d AND NOT FDCAN_CCCR_CCE\<rparr>;
     let d = d\<lparr>fd_CCCR := fd_CCCR d AND NOT FDCAN_CCCR_INIT\<rparr>;
     d \<leftarrow> fd_canhw_set_filter m c 0 rd3 d;
     let d = d\<lparr>fd_ILE := FDCAN_ILE_EINT0\<rparr>;
     Some (d\<lparr>fd_IE := FDCAN_IE_RF0NE OR FDCAN_IE_TC m\<rparr>)
   }"

end
