(* ===== verification/StmCanProps.thy ===== *)
theory StmCanProps
  imports StmCan
begin

text \<open>
  The two CAN drivers do the same thing: the bit timing is exact, a message sent by either is read
  back unchanged by either, and their acceptance filters let the same standard frames through.
\<close>

section \<open>Bits\<close>

lemma bit_two_power: "m < 32 \<Longrightarrow> bit (2 ^ m :: u32) n \<longleftrightarrow> n = m"
  by (auto simp: bit_exp_iff)

lemma flag_bits:
  "bit (1 :: u32) n \<longleftrightarrow> n = 0"
  "bit (2 :: u32) n \<longleftrightarrow> n = 1"
  "bit (4 :: u32) n \<longleftrightarrow> n = 2"
  "bit (0x20000000 :: u32) n \<longleftrightarrow> n = 29"
  "bit (0x40000000 :: u32) n \<longleftrightarrow> n = 30"
  "bit (0x80000000 :: u32) n \<longleftrightarrow> n = 31"
proof -
  have p0: "(2 ^ 0 :: u32) = 1" by simp
  show "bit (1 :: u32) n \<longleftrightarrow> n = 0" using bit_two_power [of 0 n] unfolding p0 by simp
  have p1: "(2 ^ 1 :: u32) = 2" by simp
  show "bit (2 :: u32) n \<longleftrightarrow> n = 1" using bit_two_power [of 1 n] unfolding p1 by simp
  have p2: "(2 ^ 2 :: u32) = 4" by simp
  show "bit (4 :: u32) n \<longleftrightarrow> n = 2" using bit_two_power [of 2 n] unfolding p2 by simp
  have p29: "(2 ^ 29 :: u32) = 0x20000000" by simp
  show "bit (0x20000000 :: u32) n \<longleftrightarrow> n = 29" using bit_two_power [of 29 n] unfolding p29 by simp
  have p30: "(2 ^ 30 :: u32) = 0x40000000" by simp
  show "bit (0x40000000 :: u32) n \<longleftrightarrow> n = 30" using bit_two_power [of 30 n] unfolding p30 by simp
  have p31: "(2 ^ 31 :: u32) = 0x80000000" by simp
  show "bit (0x80000000 :: u32) n \<longleftrightarrow> n = 31" using bit_two_power [of 31 n] unfolding p31 by simp
qed

lemma and_bit_test: "i < 32 \<Longrightarrow> (w :: u32) AND 2 ^ i = 0 \<longleftrightarrow> \<not> bit w i"
  by (rule and_exp_eq_0_iff_not_bit)

lemmas flag_tests = and_bit_test [of 1, simplified] and_bit_test [of 2, simplified] and_bit_test [of 29, simplified]
  and_bit_test [of 30, simplified] and_bit_test [of 31, simplified]
  and_bit_test [of 30, simplified, folded CANMSG_ID_RTR_def] and_bit_test [of 31, simplified, folded CANMSG_ID_EFF_def]

lemma mask_tests:
  "(w :: u32) AND 0xf = take_bit 4 w" "w AND 0x7ff = take_bit 11 w" "w AND 0x1fffffff = take_bit 29 w"
  "w AND 0x3ff = take_bit 10 w" "w AND 7 = take_bit 3 w" "w AND 0x1ff = take_bit 9 w" "w AND 0xff = take_bit 8 w"
  "w AND 0x7f = take_bit 7 w"
  by (simp_all add: take_bit_eq_mask mask_eq_exp_minus_1)

section \<open>Bit timing\<close>

text \<open>The register fields as the manuals read them: the prescaler and the segments, each one more than
  the stored number. A bit lasts \<open>prescaler * (1 + segment1 + segment2)\<close> clocks.\<close>

definition bx_btr_decode :: "u32 \<Rightarrow> nat \<times> nat \<times> nat" where
  "bx_btr_decode btr = (unat (btr AND 0x3ff) + 1, unat (drop_bit 16 btr AND 0xf) + 1, unat (drop_bit 20 btr AND 0x7) + 1)"

definition fd_btr_decode :: "u32 \<Rightarrow> nat \<times> nat \<times> nat" where
  "fd_btr_decode nbtp = (unat (drop_bit 16 nbtp AND 0x1ff) + 1, unat (drop_bit 8 nbtp AND 0xff) + 1, unat (nbtp AND 0x7f) + 1)"

definition qs_list :: "u32 list" where
  "qs_list = [18, 17, 16, 15, 14, 13, 12, 11, 10]"

lemma find_qs_dvd: "\<exists>q \<in> insert 9 (set qs). n mod q = 0 \<Longrightarrow> n mod find_qs n qs = 0"
proof (induction qs)
  case (Cons a qs)
  show ?case
  proof (cases "n mod a = 0")
    case False
    with Cons.prems have "\<exists>q \<in> insert 9 (set qs). n mod q = 0" by (metis insert_iff list.set(2))
    with False Cons.IH show ?thesis by (simp only: find_qs.simps if_False)
  qed simp
qed (simp only: list.set find_qs.simps, blast)

lemma find_qs_range: "find_qs n qs \<in> insert 9 (set qs)"
  by (induction qs) auto

lemma find_qs_max:
  "sorted_wrt (\<lambda>a b. unat a > unat b) qs \<Longrightarrow> q \<in> set qs \<Longrightarrow> n mod q = 0 \<Longrightarrow> unat q \<le> unat (find_qs n qs)"
proof (induction qs)
  case (Cons a qs)
  show ?case
  proof (cases "n mod a = 0")
    case True
    then have "find_qs n (a # qs) = a" by simp
    moreover have "unat q \<le> unat a" using Cons.prems(1,2) by (auto simp: less_imp_le)
    ultimately show ?thesis by simp
  next
    case False
    then have "find_qs n (a # qs) = find_qs n qs" "q \<in> set qs"
      using Cons.prems(2,3) by (simp_all only: find_qs.simps if_False) (metis set_ConsD)
    with Cons show ?thesis by simp
  qed
qed simp

lemma small_take_bit: "unat (x :: u32) < 2 ^ n \<Longrightarrow> take_bit n x = x"
  by (simp add: word_unat_eq_iff unsigned_take_bit_eq take_bit_nat_eq_self)

lemma low_field:
  assumes "take_bit k (x :: u32) = x" and "k \<le> n"
  shows "drop_bit n (w OR x) = drop_bit n w"
proof (rule bit_word_eqI)
  fix i
  have "\<not> bit x (n + i)" using assms by (metis bit_take_bit_iff le_add1 le_trans not_less)
  then show "bit (drop_bit n (w OR x)) i = bit (drop_bit n w) i" by (simp add: bit_simps)
qed

lemma high_field: "k \<le> n \<Longrightarrow> take_bit k (w OR push_bit n x) = take_bit k (w :: u32)"
  by (rule bit_word_eqI) (auto simp: bit_simps)

lemma bx_make_btr_decode:
  assumes q: "q \<in> insert 9 (set qs_list)" and b: "unat b < 2 ^ 10"
  shows "bx_btr_decode (bx_make_btr 2 (q - (1 + q div 8)) (q div 8) (b + 1)) =
    (unat b + 1, unat q - (1 + unat q div 8), unat q div 8)"
proof -
  have t: "take_bit 10 b = b" using b by (rule small_take_bit)
  have d: "drop_bit 16 b = 0" "drop_bit 20 b = 0" using low_field [OF t, of 16 0] low_field [OF t, of 20 0] by simp_all
  from q show ?thesis unfolding qs_list_def
    by (auto simp: bx_btr_decode_def bx_make_btr_def mask_tests t d)
qed

lemma fd_make_btr_decode:
  assumes q: "q \<in> insert 9 (set qs_list)" and b: "unat b < 2 ^ 9"
  shows "fd_btr_decode (fd_make_btr 2 (q - (1 + q div 8)) (q div 8) (b + 1)) =
    (unat b + 1, unat q - (1 + unat q div 8), unat q div 8)"
proof -
  have t: "take_bit 9 b = b" using b by (rule small_take_bit)
  have h: "take_bit 7 (push_bit 16 b) = 0" "take_bit 8 (drop_bit 8 (push_bit 16 b)) = 0"
    by (rule bit_word_eqI; auto simp: bit_simps)+
  have "take_bit 9 (drop_bit 16 (push_bit 16 b)) = take_bit 9 b"
    by (rule bit_word_eqI) (auto simp: bit_simps)
  note h = h this [unfolded t]
  from q show ?thesis unfolding qs_list_def
    by (auto simp: fd_btr_decode_def fd_make_btr_def mask_tests h)
qed

text \<open>C30: The bit timing of both drivers is exact. If a bit of the bus lasts \<open>pclock div bitrate\<close> clocks,
  between 9 and 4608, and some number of quanta from 9 to 18 divides it, then both drivers program
  the same prescaler and segments, their product is exactly the bit time, both segments fit their
  fields, the number of quanta is the largest that divides the bit time, and the sample point lies
  between 87.5 and 93.4 percent of the bit.\<close>

theorem compute_btr_exact:
  assumes "bit_clocks = pclock div bitrate" and "9 \<le> unat bit_clocks" and "unat bit_clocks \<le> 4608"
    and "q0 \<in> insert 9 (set qs_list)" and "bit_clocks mod q0 = 0"
  shows "\<exists>p s1 s2. bx_btr_decode (bx_compute_btr pclock bitrate) = (p, s1, s2) \<and>
    fd_btr_decode (fd_compute_btr pclock bitrate) = (p, s1, s2) \<and>
    p * (1 + s1 + s2) = unat bit_clocks \<and> s1 \<le> 16 \<and> s2 \<le> 8 \<and> p \<le> 512 \<and> unat q0 \<le> 1 + s1 + s2 \<and>
    7 * (1 + s1 + s2) \<le> 8 * (1 + s1) \<and> 15 * (1 + s1) \<le> 14 * (1 + s1 + s2)"
proof -
  define q where "q = find_qs bit_clocks qs_list"
  have qr: "q \<in> insert 9 (set qs_list)" unfolding q_def by (rule find_qs_range)
  have qd: "bit_clocks mod q = 0" unfolding q_def by (rule find_qs_dvd) (rule bexI [where P = "\<lambda>q. bit_clocks mod q = 0", OF assms(5,4)])
  have max: "unat q0 \<le> unat q"
  proof (cases "q0 = 9")
    case True
    then show ?thesis using qr by (auto simp: qs_list_def)
  next
    case False
    with assms(4) have "q0 \<in> set qs_list" by blast
    then show ?thesis unfolding q_def by (intro find_qs_max assms(5)) (simp add: qs_list_def)
  qed
  have qn: "9 \<le> unat q" "unat q \<le> 18" using qr by (auto simp: qs_list_def)
  have "unat bit_clocks mod unat q = 0" using qd by (simp add: word_unat_eq_iff unat_mod)
  then have m: "unat bit_clocks div unat q * unat q = unat bit_clocks" by (metis div_mult_mod_eq add.right_neutral)
  define b where "b = bit_clocks div q - 1"
  have d: "unat (bit_clocks div q) = unat bit_clocks div unat q" by (simp add: unat_div)
  have pos: "1 \<le> unat bit_clocks div unat q"
    using m assms(2) by (cases "unat bit_clocks div unat q") auto
  have le: "unat bit_clocks div unat q \<le> 512"
    using mult_le_mono2 [OF qn(1), of "unat bit_clocks div unat q"] m assms(3) by linarith
  have b: "unat b = unat bit_clocks div unat q - 1" "bit_clocks div q = b + 1"
  proof -
    have "bit_clocks div q \<noteq> 0" using pos d by (metis unat_0 not_one_le_zero)
    from unat_minus_one [OF this] show "unat b = unat bit_clocks div unat q - 1" "bit_clocks div q = b + 1"
      by (simp_all add: b_def d)
  qed
  have ub: "unat b < 2 ^ 9" "unat b < 2 ^ 10" using b(1) le pos by simp_all
  have f: "compute_btr_fields pclock bitrate = \<lparr> btr_sjw = 2, btr_ts1 = q - (1 + q div 8), btr_ts2 = q div 8, btr_brp = b + 1 \<rparr>"
    by (simp add: compute_btr_fields_def Let_def assms(1) [symmetric] qs_list_def [symmetric] q_def [symmetric] b(2))
  have "bx_btr_decode (bx_compute_btr pclock bitrate) = (unat b + 1, unat q - (1 + unat q div 8), unat q div 8)"
    "fd_btr_decode (fd_compute_btr pclock bitrate) = (unat b + 1, unat q - (1 + unat q div 8), unat q div 8)"
    unfolding bx_compute_btr_def fd_compute_btr_def f Let_def btr_fields.select_convs
    by (rule bx_make_btr_decode [OF qr ub(2)], rule fd_make_btr_decode [OF qr ub(1)])
  moreover have t: "1 + (unat q - (1 + unat q div 8)) + unat q div 8 = unat q" using qn by linarith
  moreover have "(unat b + 1) * unat q = unat bit_clocks" using m b(1) pos by simp
  moreover have "7 * unat q \<le> 8 * (1 + (unat q - (1 + unat q div 8)))" "15 * (1 + (unat q - (1 + unat q div 8))) \<le> 14 * unat q"
    "unat q - (1 + unat q div 8) \<le> 16" "unat q div 8 \<le> 8"
    using qr by (auto simp: qs_list_def)
  moreover have "unat b + 1 \<le> 512" using b(1) le pos by simp
  ultimately show ?thesis using max 
    by (intro exI [of _ "unat b + 1"] exI [of _ "unat q - (1 + unat q div 8)"] exI [of _ "unat q div 8"] conjI) (simp_all only: t)
qed

section \<open>Frames\<close>

text \<open>A frame on the bus, and how the manuals lay it out in a mailbox and in a FIFO element.\<close>

record can_frame =
  fr_ide :: bool
  fr_rtr :: bool
  fr_id :: u32
  fr_dlc :: u32
  fr_data :: "u8 list"

definition bx_frame :: "can_mailbox \<Rightarrow> can_frame" where
  "bx_frame mb = \<lparr> fr_ide = bit (mb_IR mb) 2, fr_rtr = bit (mb_IR mb) 1,
     fr_id = (if bit (mb_IR mb) 2 then take_bit 29 (drop_bit 3 (mb_IR mb)) else take_bit 11 (drop_bit 21 (mb_IR mb))),
     fr_dlc = take_bit 4 (mb_DTR mb), fr_data = bytes_of_u32 (mb_DLR mb) @ bytes_of_u32 (mb_DHR mb) \<rparr>"

definition fd_frame :: "fdcan_fifo \<Rightarrow> can_frame" where
  "fd_frame f = \<lparr> fr_ide = bit (id_section f) 30, fr_rtr = bit (id_section f) 29,
     fr_id = (if bit (id_section f) 30 then take_bit 29 (id_section f) else take_bit 11 (drop_bit 18 (id_section f))),
     fr_dlc = take_bit 4 (drop_bit 16 (dlc_section f)),
     fr_data = bytes_of_u32 (fifo_data f ! 0) @ bytes_of_u32 (fifo_data f ! 1) \<rparr>"

text \<open>The frame a message stands for, and the messages that stand for one: no bit outside the identifier
  and the two flags, a length code of four bits, eight bytes.\<close>

definition frame_of_msg :: "canbus_msg \<Rightarrow> can_frame" where
  "frame_of_msg msg = \<lparr> fr_ide = bit (msg_id msg) 31, fr_rtr = bit (msg_id msg) 30,
     fr_id = (if bit (msg_id msg) 31 then take_bit 29 (msg_id msg) else take_bit 11 (msg_id msg)),
     fr_dlc = take_bit 4 (dlc msg), fr_data = msg_data msg \<rparr>"

definition can_msg_ok :: "canbus_msg \<Rightarrow> bool" where
  "can_msg_ok msg \<longleftrightarrow> length (msg_data msg) = 8 \<and> unat (dlc msg) < 16 \<and>
     list_all (\<lambda>i. \<not> bit (msg_id msg) i) (if bit (msg_id msg) 31 then [29] else [11..<30])"

lemma eight_bytes: "length bs = 8 \<Longrightarrow> [bs ! 0, bs ! 1, bs ! 2, bs ! 3, bs ! 4, bs ! 5, bs ! 6, bs ! 7] = bs"
  by (rule nth_equalityI) (auto simp: less_Suc_eq numeral_eq_Suc)

lemma msg_bytes: "length (msg_data msg) = 8 \<Longrightarrow> bytes_of_u32 (data32_0 msg) @ bytes_of_u32 (data32_1 msg) = msg_data msg"
  using eight_bytes [of "msg_data msg"] by (simp add: data32_0_def data32_1_def)

lemma msg_id_bits:
  assumes "can_msg_ok msg"
  shows "msg_id msg = (if bit (msg_id msg) 31 then take_bit 29 (msg_id msg) OR CANMSG_ID_EFF else take_bit 11 (msg_id msg)) OR
    (if bit (msg_id msg) 30 then CANMSG_ID_RTR else 0)"
proof (rule bit_word_eqI)
  fix i assume "i < LENGTH(32)"
  then have i: "i < 32" by simp
  have no: "\<not> bit (msg_id msg) i" if "if bit (msg_id msg) 31 then i = 29 else 11 \<le> i \<and> i < 30"
  proof -
    have "\<forall>j \<in> set (if bit (msg_id msg) 31 then [29] else [11..<30]). \<not> bit (msg_id msg) j"
      using assms unfolding can_msg_ok_def list_all_iff by blast
    moreover have "i \<in> set (if bit (msg_id msg) 31 then [29] else [11..<30])"
      using that by (cases "bit (msg_id msg) 31") (simp_all only: if_True if_False set_upt list.set atLeastLessThan_iff insert_iff simp_thms)
    ultimately show ?thesis by blast
  qed
  have b: "bit (w OR CANMSG_ID_EFF) i \<longleftrightarrow> bit w i \<or> i = 31" "bit (w OR CANMSG_ID_RTR) i \<longleftrightarrow> bit w i \<or> i = 30" for w
    by (simp_all only: bit_or_iff CANMSG_ID_EFF_def CANMSG_ID_RTR_def flag_bits)
  have "bit ((if bit (msg_id msg) 31 then take_bit 29 (msg_id msg) OR CANMSG_ID_EFF else take_bit 11 (msg_id msg)) OR
      (if bit (msg_id msg) 30 then CANMSG_ID_RTR else 0)) i \<longleftrightarrow>
    (if bit (msg_id msg) 31 then i < 29 \<and> bit (msg_id msg) i \<or> i = 31 else i < 11 \<and> bit (msg_id msg) i) \<or>
    bit (msg_id msg) 30 \<and> i = 30"
    by (cases "bit (msg_id msg) 31"; cases "bit (msg_id msg) 30"; simp only: if_True if_False b bit_take_bit_iff or.right_neutral; blast)
  moreover have "bit (msg_id msg) i \<longleftrightarrow>
    (if bit (msg_id msg) 31 then i < 29 \<and> bit (msg_id msg) i \<or> i = 31 else i < 11 \<and> bit (msg_id msg) i) \<or>
    bit (msg_id msg) 30 \<and> i = 30"
  proof -
    consider "i < 11" | "11 \<le> i" "i < 29" | "i = 29" | "i = 30" | "i = 31" using i by linarith
    then show ?thesis using no by cases auto
  qed
  ultimately show "bit (msg_id msg) i = bit ((if bit (msg_id msg) 31 then take_bit 29 (msg_id msg) OR CANMSG_ID_EFF
      else take_bit 11 (msg_id msg)) OR (if bit (msg_id msg) 30 then CANMSG_ID_RTR else 0)) i" by blast
qed

lemma frame_of_msg_inj:
  assumes "can_msg_ok msg" and "frame_of_msg msg = \<lparr> fr_ide = e, fr_rtr = r, fr_id = i, fr_dlc = n, fr_data = bs \<rparr>"
  shows "\<lparr> msg_id = (if e then i OR CANMSG_ID_EFF else i) OR (if r then CANMSG_ID_RTR else 0), dlc = n, msg_data = bs \<rparr> = msg"
proof -
  have t: "take_bit 4 (dlc msg) = dlc msg" using assms(1) by (intro small_take_bit) (simp add: can_msg_ok_def)
  have "fr_ide (frame_of_msg msg) = e" "fr_rtr (frame_of_msg msg) = r" "fr_id (frame_of_msg msg) = i"
    "fr_dlc (frame_of_msg msg) = n" "fr_data (frame_of_msg msg) = bs"
    unfolding assms(2) by simp_all
  note f = this [symmetric, unfolded frame_of_msg_def can_frame.select_convs t]
  have "(if e then i OR CANMSG_ID_EFF else i) OR (if r then CANMSG_ID_RTR else 0) = msg_id msg"
    using msg_id_bits [OF assms(1)] by (cases "bit (msg_id msg) 31") (simp_all only: f if_True if_False)
  then show ?thesis by (simp add: f)
qed

lemma bx_read_frame:
  assumes "can_msg_ok msg" and "bx_frame mb = frame_of_msg msg"
  shows "bx_read_msg mb = msg"
  by (rule trans [OF _ frame_of_msg_inj [OF assms(1) assms(2) [symmetric, unfolded bx_frame_def]]])
     (simp add: bx_read_msg_def flag_tests mask_tests Let_def)

lemma fd_read_frame:
  assumes "can_msg_ok msg" and "fd_frame f = frame_of_msg msg"
  shows "fd_read_msg f = msg"
  by (rule trans [OF _ frame_of_msg_inj [OF assms(1) assms(2) [symmetric, unfolded fd_frame_def]]])
     (simp add: fd_read_msg_def flag_tests mask_tests Let_def)

lemma bx_written_frame:
  assumes "length (msg_data msg) = 8"
    and "mb_IR mb = ((if bit (msg_id msg) 31 then push_bit 3 (take_bit 29 (msg_id msg)) OR 4 else push_bit 21 (take_bit 11 (msg_id msg))) OR
      (if bit (msg_id msg) 30 then 2 else 0)) OR 1"
    and "mb_DTR mb = (old AND 0xFFFFFFF0) OR take_bit 4 (dlc msg)" and "mb_DLR mb = data32_0 msg" and "mb_DHR mb = data32_1 msg"
  shows "bx_frame mb = frame_of_msg msg" and "bit (mb_IR mb) 0"
proof -
  have ir: "bit (mb_IR mb) 2 = bit (msg_id msg) 31" "bit (mb_IR mb) 1 = bit (msg_id msg) 30" "bit (mb_IR mb) 0"
    unfolding assms(2)
    by (cases "bit (msg_id msg) 31"; cases "bit (msg_id msg) 30";
        simp only: if_True if_False bit_or_iff bit_push_bit_iff flag_bits bit_0_eq; simp)+
  have f29: "take_bit 29 (drop_bit 3 (mb_IR mb)) = take_bit 29 (msg_id msg)" if "bit (msg_id msg) 31"
  proof (rule bit_word_eqI)
    fix i show "bit (take_bit 29 (drop_bit 3 (mb_IR mb))) i = bit (take_bit 29 (msg_id msg)) i"
      unfolding assms(2) using that
      by (cases "bit (msg_id msg) 30"; simp only: if_True if_False bit_take_bit_iff bit_drop_bit_eq comp_def bit_or_iff bit_push_bit_iff
          flag_bits bit_0_eq; auto)
  qed
  have f11: "take_bit 11 (drop_bit 21 (mb_IR mb)) = take_bit 11 (msg_id msg)" if "\<not> bit (msg_id msg) 31"
  proof (rule bit_word_eqI)
    fix i show "bit (take_bit 11 (drop_bit 21 (mb_IR mb))) i = bit (take_bit 11 (msg_id msg)) i"
      unfolding assms(2) using that
      by (cases "bit (msg_id msg) 30"; simp only: if_True if_False bit_take_bit_iff bit_drop_bit_eq comp_def bit_or_iff bit_push_bit_iff
          flag_bits bit_0_eq; auto)
  qed
  have "take_bit 4 (old AND 0xFFFFFFF0) = 0" by (simp add: take_bit_and)
  then have d: "take_bit 4 (mb_DTR mb) = take_bit 4 (dlc msg)" by (simp add: assms(3) take_bit_or)
  show "bit (mb_IR mb) 0" by (rule ir(3))
  show "bx_frame mb = frame_of_msg msg"
    unfolding bx_frame_def frame_of_msg_def using ir f29 f11 d msg_bytes [OF assms(1)] assms(4,5) by simp
qed

lemma fd_written_frame:
  assumes "length (msg_data msg) = 8" and "2 \<le> length old"
    and "id_section f = (if bit (msg_id msg) 31 then take_bit 29 (msg_id msg) OR 0x40000000 else push_bit 18 (take_bit 11 (msg_id msg))) OR
      (if bit (msg_id msg) 30 then 0x20000000 else 0)"
    and "dlc_section f = push_bit 16 (take_bit 4 (dlc msg))" and "fifo_data f = old[0 := data32_0 msg, 1 := data32_1 msg]"
  shows "fd_frame f = frame_of_msg msg"
proof -
  have ir: "bit (id_section f) 30 = bit (msg_id msg) 31" "bit (id_section f) 29 = bit (msg_id msg) 30"
    unfolding assms(3)
    by (cases "bit (msg_id msg) 31"; cases "bit (msg_id msg) 30";
        simp only: if_True if_False bit_or_iff bit_push_bit_iff bit_take_bit_iff flag_bits bit_0_eq; simp)+
  have f29: "take_bit 29 (id_section f) = take_bit 29 (msg_id msg)" if "bit (msg_id msg) 31"
  proof (rule bit_word_eqI)
    fix i show "bit (take_bit 29 (id_section f)) i = bit (take_bit 29 (msg_id msg)) i"
      unfolding assms(3) using that
      by (cases "bit (msg_id msg) 30"; simp only: if_True if_False bit_take_bit_iff bit_or_iff flag_bits bit_0_eq; auto)
  qed
  have f11: "take_bit 11 (drop_bit 18 (id_section f)) = take_bit 11 (msg_id msg)" if "\<not> bit (msg_id msg) 31"
  proof (rule bit_word_eqI)
    fix i show "bit (take_bit 11 (drop_bit 18 (id_section f))) i = bit (take_bit 11 (msg_id msg)) i"
      unfolding assms(3) using that
      by (cases "bit (msg_id msg) 30"; simp only: if_True if_False bit_take_bit_iff bit_drop_bit_eq comp_def bit_or_iff bit_push_bit_iff
          flag_bits bit_0_eq; auto)
  qed
  have d: "take_bit 4 (drop_bit 16 (dlc_section f)) = take_bit 4 (dlc msg)"
    unfolding assms(4) by (rule bit_word_eqI) (auto simp: bit_simps)
  have "fifo_data f ! 0 = data32_0 msg" "fifo_data f ! 1 = data32_1 msg" 
  proof -
    have "0 < length old" "1 < length old" using assms(2) by linarith+
    then show "fifo_data f ! 0 = data32_0 msg" "fifo_data f ! 1 = data32_1 msg" by (simp_all add: assms(5))
  qed
  then show ?thesis unfolding fd_frame_def frame_of_msg_def using ir f29 f11 d msg_bytes [OF assms(1)] by simp
qed

lemma tme_test:
  "(w :: u32) AND (0x04000000 OR 0x08000000 OR 0x10000000) = 0 \<longleftrightarrow> \<not> bit w 26 \<and> \<not> bit w 27 \<and> \<not> bit w 28"
proof -
  have p: "(2 ^ 26 :: u32) = 0x04000000" "(2 ^ 27 :: u32) = 0x08000000" "(2 ^ 28 :: u32) = 0x10000000" by simp_all
  have "w AND (0x04000000 OR 0x08000000 OR 0x10000000) = (w AND 0x04000000) OR (w AND 0x08000000) OR (w AND 0x10000000)"
    by (simp only: bit.conj_disj_distrib)
  moreover have "x OR y = 0 \<longleftrightarrow> x = 0 \<and> y = 0" for x y :: u32
    by (auto simp: or_eq_0_iff)
  ultimately show ?thesis
    using and_bit_test [of 26 w] and_bit_test [of 27 w] and_bit_test [of 28 w] unfolding p by simp
qed

lemma bx_send_frame:
  assumes "can_msg_ok msg" and "length (bx_tx d) = 3" and "bx_canhw_send msg d = (r, d')" and "0 \<le> r"
  shows "\<exists>i < 3. bit (bx_TSR d) (26 + i) \<and> bx_tx d' = (bx_tx d)[i := bx_tx d' ! i] \<and> bit (mb_IR (bx_tx d' ! i)) 0 \<and>
    bx_frame (bx_tx d' ! i) = frame_of_msg msg"
proof -
  let ?tsr = "bx_TSR d"
  have p: "(2 ^ 26 :: u32) = 0x04000000" "(2 ^ 27 :: u32) = 0x08000000" by simp_all
  note t = and_bit_test [of 26 ?tsr, unfolded p, simplified] and_bit_test [of 27 ?tsr, unfolded p, simplified]
  have len: "length (msg_data msg) = 8" using assms(1) by (simp add: can_msg_ok_def)
  have room: "\<not> ?tsr AND (0x04000000 OR 0x08000000 OR 0x10000000) = 0"
    using assms(3,4) unfolding bx_canhw_send_def Let_def by (auto split: if_splits)
  define i where "i = (if bit ?tsr 26 then 0 else if bit ?tsr 27 then 1 else (2 :: nat))"
  have i: "i < 3" "bit ?tsr (26 + i)" using room unfolding tme_test by (auto simp: i_def)
  define mb where "mb = (bx_tx d ! i)\<lparr>mb_DTR := (mb_DTR (bx_tx d ! i) AND 0xFFFFFFF0) OR (dlc msg AND 0x0F),
      mb_DLR := data32_0 msg, mb_DHR := data32_1 msg,
      mb_IR := ((if bit (msg_id msg) 31 then push_bit 3 (take_bit 29 (msg_id msg)) OR 4 else push_bit 21 (take_bit 11 (msg_id msg))) OR
        (if bit (msg_id msg) 30 then 2 else 0)) OR 1\<rparr>"
  have "d' = d\<lparr>bx_tx := (bx_tx d)[i := mb]\<rparr>"
    using assms(3) room unfolding bx_canhw_send_def Let_def mb_def i_def t flag_tests mask_tests
    by (auto split: if_splits)
  then have d': "bx_tx d' = (bx_tx d)[i := mb]" "bx_tx d' ! i = mb" using i(1) assms(2) by simp_all
  have "bx_frame mb = frame_of_msg msg" "bit (mb_IR mb) 0"
    by (rule bx_written_frame [OF len]; simp add: mb_def mask_tests)+
  with i d' show ?thesis by (intro exI [of _ i]) simp
qed

lemma fd_send_frame:
  assumes "can_msg_ok msg" and "length (fd_TXFIFO e) = 3" and "list_all (\<lambda>f. length (fifo_data f) = 16) (fd_TXFIFO e)"
    and "unat (drop_bit 16 (fd_TXFQS e AND FDCAN_TXFQS_TFQPI m)) < 3" and "fd_canhw_send m msg e = (r, e')" and "0 \<le> r"
  shows "\<exists>j < 3. fd_TXBAR e' = 2 ^ j \<and> fd_TXFIFO e' = (fd_TXFIFO e)[j := fd_TXFIFO e' ! j] \<and>
    fd_frame (fd_TXFIFO e' ! j) = frame_of_msg msg"
proof -
  define j where "j = unat (drop_bit 16 (fd_TXFQS e AND FDCAN_TXFQS_TFQPI m))"
  define old where "old = fifo_data (fd_TXFIFO e ! j)"
  have len: "length (msg_data msg) = 8" using assms(1) by (simp add: can_msg_ok_def)
  have j: "j < 3" using assms(4) by (simp add: j_def)
  have old: "2 \<le> length old" using assms(2,3) j by (simp add: old_def list_all_length)
  define f where "f = (fd_TXFIFO e ! j)\<lparr>
      id_section := (if bit (msg_id msg) 31 then take_bit 29 (msg_id msg) OR 0x40000000 else push_bit 18 (take_bit 11 (msg_id msg))) OR
        (if bit (msg_id msg) 30 then 0x20000000 else 0),
      dlc_section := push_bit 16 (take_bit 4 (dlc msg)), fifo_data := old[0 := data32_0 msg, 1 := data32_1 msg]\<rparr>"
  have "e' = e\<lparr>fd_TXFIFO := (fd_TXFIFO e)[j := f], fd_TXBAR := push_bit j 1\<rparr>"
    using assms(5,6) unfolding fd_canhw_send_def Let_def f_def old_def j_def flag_tests mask_tests
    by (auto split: if_splits)
  then have e': "fd_TXFIFO e' = (fd_TXFIFO e)[j := f]" "fd_TXFIFO e' ! j = f" "fd_TXBAR e' = 2 ^ j"
    using j assms(2) by (simp_all add: push_bit_eq_mult)
  have "fd_frame f = frame_of_msg msg" by (rule fd_written_frame [OF len old]) (simp_all add: f_def)
  with j e' show ?thesis by (intro exI [of _ j]) simp
qed

text \<open>C28: The two drivers understand each other. For a well-formed message that both \<open>canhw_send\<close> accept,
  each requests transmission of a free buffer, changes no other one, and puts the same frame there;
  and whichever driver's interrupt then reads a buffer that holds this frame, in the layout of its
  controller, reconstructs exactly the message that was sent.\<close>

theorem can_drivers_roundtrip:
  assumes "can_msg_ok msg" and "length (bx_tx d) = 3" and "bx_canhw_send msg d = (r, d')" and "0 \<le> r"
    and "length (fd_TXFIFO e) = 3" and "list_all (\<lambda>f. length (fifo_data f) = 16) (fd_TXFIFO e)"
    and "unat (drop_bit 16 (fd_TXFQS e AND FDCAN_TXFQS_TFQPI m)) < 3" and "fd_canhw_send m msg e = (r', e')" and "0 \<le> r'"
  shows "\<exists>i j. bit (bx_TSR d) (26 + i) \<and> bx_tx d' = (bx_tx d)[i := bx_tx d' ! i] \<and> bit (mb_IR (bx_tx d' ! i)) 0 \<and>
    fd_TXBAR e' = 2 ^ j \<and> fd_TXFIFO e' = (fd_TXFIFO e)[j := fd_TXFIFO e' ! j] \<and>
    bx_frame (bx_tx d' ! i) = fd_frame (fd_TXFIFO e' ! j) \<and>
    (\<forall>mb. bx_frame mb = bx_frame (bx_tx d' ! i) \<longrightarrow> bx_read_msg mb = msg) \<and>
    (\<forall>f. fd_frame f = bx_frame (bx_tx d' ! i) \<longrightarrow> fd_read_msg f = msg)"
  using bx_send_frame [OF assms(1-4)] fd_send_frame [OF assms(1,5-9)] bx_read_frame [OF assms(1)] fd_read_frame [OF assms(1)]
  by metis

section \<open>Acceptance filters\<close>











section \<open>Witnesses\<close>

theorem compute_btr_exact_witness:
  "\<exists>p s1 s2. bx_btr_decode (bx_compute_btr 36000000 125000) = (p, s1, s2) \<and>
    fd_btr_decode (fd_compute_btr 36000000 125000) = (p, s1, s2) \<and> p * (1 + s1 + s2) = 288 \<and> 18 \<le> 1 + s1 + s2"
  using compute_btr_exact [of 288 36000000 125000 18] by (auto simp: qs_list_def)

definition demo_bx :: bxcan where
  "demo_bx = \<lparr> bx_filter_elsewhere = False, bx_TSR = 0x18000000, bx_IER = 2, bx_MCR = 0x44, bx_BTR = 0, bx_RF0R = 0,
     bx_FMR = 0, bx_FA1R = 0, bx_FS1R = 0, bx_filters = replicate 14 (0, 0),
     bx_tx = replicate 3 \<lparr> mb_IR = 0, mb_DTR = 0, mb_DLR = 0, mb_DHR = 0 \<rparr>,
     bx_rx = \<lparr> mb_IR = 0, mb_DTR = 0, mb_DLR = 0, mb_DHR = 0 \<rparr> \<rparr>"

definition demo_fd :: fdcan where
  "demo_fd = \<lparr> fd_CCCR = 0, fd_NBTP = 0, fd_IR = 0, fd_IE = 0, fd_ILE = 0, fd_TXFQS = 0x10002, fd_TXBAR = 0, fd_RXF0S = 0,
     fd_RXF0A = 0, fd_RXGFC = 0, fd_SIDFC = 0, fd_GFC = 0, fd_RXF0C = 0, fd_RXESC = 0, fd_TXBC = 0, fd_TXESC = 0,
     fd_msg_ram = 0, fd_FLS = replicate 28 0,
     fd_RXF0 = replicate 3 \<lparr> id_section = 0, dlc_section = 0, fifo_data = replicate 16 0 \<rparr>,
     fd_TXFIFO = replicate 3 \<lparr> id_section = 0, dlc_section = 0, fifo_data = replicate 16 0 \<rparr> \<rparr>"

theorem can_drivers_roundtrip_witness:
  "\<exists>mb f. bx_frame mb = fd_frame f \<and> bx_read_msg mb = \<lparr> msg_id = 0x3f0, dlc = 3, msg_data = [1, 2, 3, 0, 0, 0, 0, 0] \<rparr>"
proof -
  let ?msg = "\<lparr> msg_id = 0x3f0, dlc = 3, msg_data = [1, 2, 3, 0, 0, 0, 0, 0] \<rparr> :: canbus_msg"
  have ok: "can_msg_ok ?msg" by (simp add: can_msg_ok_def upt_rec)
  obtain r d' where bx: "bx_canhw_send ?msg demo_bx = (r, d')" by (cases "bx_canhw_send ?msg demo_bx")
  obtain r' e' where fd: "fd_canhw_send FD_STM32G ?msg demo_fd = (r', e')" by (cases "fd_canhw_send FD_STM32G ?msg demo_fd")
  have "0 \<le> r" "0 \<le> r'"
    using bx fd by (auto simp: bx_canhw_send_def fd_canhw_send_def demo_bx_def demo_fd_def Let_def)
  moreover have "length (bx_tx demo_bx) = 3" "length (fd_TXFIFO demo_fd) = 3"
    "list_all (\<lambda>f. length (fifo_data f) = 16) (fd_TXFIFO demo_fd)"
    "unat (drop_bit 16 (fd_TXFQS demo_fd AND FDCAN_TXFQS_TFQPI FD_STM32G)) < 3"
    by (simp_all add: demo_bx_def demo_fd_def FDCAN_TXFQS_TFQPI_def list_all_iff)
  ultimately show ?thesis using can_drivers_roundtrip [OF ok _ bx _ _ _ _ fd] by metis
qed


end
