(* ===== verification/Can2040Pio.thy ===== *)
theory Can2040Pio
  imports StmCan
begin

text \<open>
  The hardware side of the software CAN controller of the RP2040, \<open>lib/can2040/can2040.c\<close>: its
  programs for the four state machines of a PIO block and every routine that sets them up or
  talks to them, and the routines on bits that need no hardware: CRC, stuffing and unstuffing.

  A write to a register is one entry of a trace, in the order of the code, so that what the
  hardware is told can be read off; the registers that the code reads back have the value the
  data sheet gives them: writing \<open>IRQ\<close> clears the flags, writing \<open>IRQ_FORCE\<close> raises them, writing
  \<open>FDEBUG\<close> clears its sticky bits, joining the FIFOs of a machine empties them. The state machines
  themselves run on their own; what they do shows in the inputs: flags, received words, the
  address of machine 3, the level of its FIFO.
\<close>

section \<open>Registers\<close>

datatype io_reg =
    RESETS_RESET_CLR | PADS u32 | IO_CTRL u32
  | PIO_CTRL | PIO_FDEBUG | PIO_IRQ | PIO_IRQ_FORCE | PIO_INTE0 | PIO_TXF nat | PIO_INSTR_MEM nat
  | SM_CLKDIV nat | SM_EXECCTRL nat | SM_SHIFTCTRL nat | SM_PINCTRL nat | SM_INSTR nat

record pio =
  io_trace :: "(io_reg \<times> u32) list"
  resets_reset :: u32
  pio_fdebug :: u32
  pio_irq_flags :: u32
  pio_inte0 :: u32
  pio_rxf1 :: "u32 list"
  pio_flevel :: u32
  pio_sm3_addr :: u32

definition io_effect :: "io_reg \<Rightarrow> u32 \<Rightarrow> pio \<Rightarrow> pio" where
  "io_effect r v p = (case r of
       RESETS_RESET_CLR \<Rightarrow> p\<lparr>resets_reset := resets_reset p AND NOT v\<rparr>
     | PIO_FDEBUG \<Rightarrow> p\<lparr>pio_fdebug := pio_fdebug p AND NOT v\<rparr>
     | PIO_IRQ \<Rightarrow> p\<lparr>pio_irq_flags := pio_irq_flags p AND NOT v\<rparr>
     | PIO_IRQ_FORCE \<Rightarrow> p\<lparr>pio_irq_flags := pio_irq_flags p OR v\<rparr>
     | PIO_INTE0 \<Rightarrow> p\<lparr>pio_inte0 := v\<rparr>
     | SM_SHIFTCTRL i \<Rightarrow> if i = 1 then p\<lparr>pio_rxf1 := []\<rparr> else p
     | _ \<Rightarrow> p)"

definition io_write :: "io_reg \<Rightarrow> u32 \<Rightarrow> pio \<Rightarrow> pio" where
  "io_write r v p = io_effect r v (p\<lparr>io_trace := io_trace p @ [(r, v)]\<rparr>)"

text \<open>A run of writes, in order.\<close>

fun io_writes :: "(io_reg \<times> u32) list \<Rightarrow> pio \<Rightarrow> pio" where
  "io_writes [] p = p"
| "io_writes ((r, v) # ws) p = io_writes ws (io_write r v p)"

section \<open>Helpers of the RP2040\<close>

definition rp2040_clear_reset :: "u32 \<Rightarrow> (nat \<Rightarrow> u32) \<Rightarrow> pio \<Rightarrow> pio option" where
  "rp2040_clear_reset reset_bit reset_done p =
     (if resets_reset p AND reset_bit \<noteq> 0 then do {
        let p = io_write RESETS_RESET_CLR reset_bit p;
        _ \<leftarrow> wait_reg (\<lambda>done. done AND reset_bit \<noteq> 0) reset_done 0;
        Some p
      } else Some p)"

definition rp2040_gpio_peripheral :: "u32 \<Rightarrow> u32 \<Rightarrow> int \<Rightarrow> pio \<Rightarrow> pio" where
  "rp2040_gpio_peripheral gpio func pull_up p =
     io_writes
       [(PADS gpio, 0x40 OR push_bit 5 1 OR (if pull_up > 0 then 8 else 0) OR (if pull_up < 0 then 4 else 0)),
        (IO_CTRL gpio, push_bit 0 func)] p"

section \<open>The state machines\<close>

abbreviation (input) PIO_CLOCK_PER_BIT :: u32 where "PIO_CLOCK_PER_BIT \<equiv> 32"
abbreviation (input) PIO_RX_WAKE_BITS :: u32 where "PIO_RX_WAKE_BITS \<equiv> 10"

abbreviation (input) offset_sync_found_end_of_message :: nat where "offset_sync_found_end_of_message \<equiv> 2"
abbreviation (input) offset_sync_signal_start :: u32 where "offset_sync_signal_start \<equiv> 4"
abbreviation (input) offset_sync_entry :: u32 where "offset_sync_entry \<equiv> 6"
abbreviation (input) offset_sync_end :: u32 where "offset_sync_end \<equiv> 13"
abbreviation (input) offset_shared_rx_read :: u32 where "offset_shared_rx_read \<equiv> 13"
abbreviation (input) offset_shared_rx_end :: u32 where "offset_shared_rx_end \<equiv> 15"
abbreviation (input) offset_match_load_next :: u32 where "offset_match_load_next \<equiv> 18"
abbreviation (input) offset_tx_conflict :: u32 where "offset_tx_conflict \<equiv> 24"
abbreviation (input) offset_match_end :: u32 where "offset_match_end \<equiv> 25"
abbreviation (input) offset_tx_got_recessive :: nat where "offset_tx_got_recessive \<equiv> 25"
abbreviation (input) offset_tx_write_pin :: u32 where "offset_tx_write_pin \<equiv> 27"

definition can2040_program_instructions :: "u32 list" where
  "can2040_program_instructions =
    [0x0085, 0x0048, 0xe029, 0x00cc, 0xc000, 0x00c0, 0xc040, 0xe429,
     0xf043, 0xc104, 0x03c5, 0x0307, 0x0043, 0x20c4, 0x4001, 0xa046,
     0x01b2, 0xc002, 0x40eb, 0x4054, 0xa047, 0x8080, 0xa027, 0x0098,
     0xa0e2, 0x6021, 0x00df, 0xb801, 0x02d9, 0x0058, 0x6021, 0x011b]"

definition SI_MAYTX :: u32 where "SI_MAYTX = 0x100"
definition SI_MATCHED :: u32 where "SI_MATCHED = 0x400"
definition SI_ACKDONE :: u32 where "SI_ACKDONE = 0x800"
definition SI_RX_DATA :: u32 where "SI_RX_DATA = 0x2"
definition SI_TXPENDING :: u32 where "SI_TXPENDING = 0x200"

lemmas SI_defs = SI_MAYTX_def SI_MATCHED_def SI_ACKDONE_def SI_RX_DATA_def SI_TXPENDING_def

text \<open>The raw and the enabled interrupt status, in the bits that the code looks at: the flags of the
  four machines and whether machine 1 has received something.\<close>

definition pio_intr :: "pio \<Rightarrow> u32" where
  "pio_intr p = push_bit 8 (pio_irq_flags p AND 0xf) OR (if pio_rxf1 p \<noteq> [] then SI_RX_DATA else 0)"

definition pio_ints0 :: "pio \<Rightarrow> u32" where
  "pio_ints0 p = pio_intr p AND pio_inte0 p"

definition pio_sync_setup :: "u32 \<Rightarrow> pio \<Rightarrow> pio" where
  "pio_sync_setup gpio_rx = io_writes
     [(SM_EXECCTRL 0, push_bit 24 gpio_rx OR push_bit 12 (offset_sync_end - 1) OR push_bit 7 offset_sync_signal_start),
      (SM_PINCTRL 0, push_bit 26 1 OR push_bit 5 gpio_rx),
      (SM_INSTR 0, 0xe080),
      (SM_PINCTRL 0, 0),
      (PIO_TXF 0, 9 + 6 * PIO_CLOCK_PER_BIT div 2),
      (SM_INSTR 0, 0x80a0),
      (SM_INSTR 0, offset_sync_entry)]"

definition pio_rx_setup :: "u32 \<Rightarrow> pio \<Rightarrow> pio" where
  "pio_rx_setup gpio_rx = io_writes
     [(SM_EXECCTRL 1, push_bit 12 (offset_shared_rx_end - 1) OR push_bit 7 offset_shared_rx_read),
      (SM_PINCTRL 1, push_bit 15 gpio_rx),
      (SM_SHIFTCTRL 1, 0),
      (SM_SHIFTCTRL 1, 0x80000000 OR push_bit 20 PIO_RX_WAKE_BITS OR 0x10000),
      (SM_INSTR 1, offset_shared_rx_read)]"

definition pio_match_setup :: "u32 \<Rightarrow> pio \<Rightarrow> pio" where
  "pio_match_setup gpio_rx = io_writes
     [(SM_EXECCTRL 2, push_bit 12 (offset_match_end - 1) OR push_bit 7 offset_shared_rx_read),
      (SM_PINCTRL 2, push_bit 15 gpio_rx),
      (SM_SHIFTCTRL 2, 0),
      (SM_INSTR 2, 0xe040),
      (SM_INSTR 2, 0xa0e2),
      (SM_INSTR 2, 0xa02a),
      (SM_INSTR 2, offset_match_load_next)]"

definition pio_tx_setup :: "u32 \<Rightarrow> u32 \<Rightarrow> pio \<Rightarrow> pio" where
  "pio_tx_setup gpio_rx gpio_tx = io_writes
     [(SM_EXECCTRL 3, push_bit 24 gpio_rx OR push_bit 12 offset_tx_conflict OR push_bit 7 offset_tx_conflict),
      (SM_SHIFTCTRL 3, 0x40000000 OR 0x20000),
      (SM_PINCTRL 3, push_bit 26 1 OR push_bit 20 1 OR push_bit 5 gpio_tx OR push_bit 0 gpio_tx),
      (SM_INSTR 3, 0xe001),
      (SM_INSTR 3, 0xe081)]"

definition pio_sync_normal_start_signal :: "pio \<Rightarrow> pio" where
  "pio_sync_normal_start_signal = io_write (PIO_INSTR_MEM offset_sync_found_end_of_message) 0xe12a"

definition pio_sync_slow_start_signal :: "pio \<Rightarrow> pio" where
  "pio_sync_slow_start_signal = io_write (PIO_INSTR_MEM offset_sync_found_end_of_message) 0xa127"

definition pio_rx_check_stall :: "pio \<Rightarrow> bool" where
  "pio_rx_check_stall p \<longleftrightarrow> pio_fdebug p AND push_bit (0 + 1) 1 \<noteq> 0"

definition pio_match_check :: "u32 \<Rightarrow> pio \<Rightarrow> pio" where
  "pio_match_check match_key = io_write (PIO_TXF 2) match_key"

definition pio_match_calc_key :: "u32 \<Rightarrow> u32 \<Rightarrow> u32" where
  "pio_match_calc_key raw_bits rx_bit_pos = (raw_bits AND 0x1fffff) OR push_bit 21 (- rx_bit_pos)"

definition pio_match_clear :: "pio \<Rightarrow> pio" where
  "pio_match_clear = pio_match_check 0"

definition pio_tx_reset :: "pio \<Rightarrow> pio" where
  "pio_tx_reset = io_writes
     [(PIO_CTRL, push_bit 0 0x07),
      (PIO_CTRL, push_bit 0 0x07 OR push_bit 4 0x08),
      (PIO_IRQ, drop_bit 8 (SI_MATCHED OR SI_ACKDONE)),
      (SM_SHIFTCTRL 3, 0),
      (SM_SHIFTCTRL 3, 0x40000000 OR 0x20000)]"

definition pio_tx_send :: "u32 list \<Rightarrow> pio \<Rightarrow> pio" where
  "pio_tx_send words p =
     (let p = pio_tx_reset p;
          p = io_write (PIO_INSTR_MEM offset_tx_got_recessive) 0x6021 p;
          p = io_writes (map (\<lambda>w. (PIO_TXF 3, w)) words) p
      in io_writes
           [(SM_INSTR 3, 0xe001),
            (SM_INSTR 3, 0x6021),
            (SM_INSTR 3, offset_tx_write_pin),
            (SM_INSTR 3, 0x20c0),
            (PIO_CTRL, push_bit 0 0x0f)] p)"

definition pio_tx_inject_ack :: "u32 \<Rightarrow> pio \<Rightarrow> pio" where
  "pio_tx_inject_ack match_key p =
     (let p = pio_tx_reset p;
          p = io_writes
           [(PIO_INSTR_MEM offset_tx_got_recessive, 0xc023),
            (PIO_TXF 3, 0x7fffffff),
            (SM_INSTR 3, 0xe001),
            (SM_INSTR 3, 0x6021),
            (SM_INSTR 3, offset_tx_write_pin),
            (SM_INSTR 3, 0x20c2),
            (PIO_CTRL, push_bit 0 0x0f)] p
      in pio_match_check match_key p)"

definition pio_tx_did_fail :: "pio \<Rightarrow> bool" where
  "pio_tx_did_fail p \<longleftrightarrow>
     (if pio_sm3_addr p = offset_tx_conflict then pio_intr p AND SI_RX_DATA = 0
      else pio_flevel p AND 0x0f000000 = 0 \<and> pio_intr p AND (SI_MAYTX OR SI_RX_DATA) = SI_MAYTX)"

definition pio_irq_set :: "u32 \<Rightarrow> pio \<Rightarrow> pio" where
  "pio_irq_set sm_irqs = io_write PIO_INTE0 (sm_irqs OR SI_RX_DATA)"

definition pio_irq_disable :: "pio \<Rightarrow> pio" where
  "pio_irq_disable = io_write PIO_INTE0 0"

definition pio_irq_get :: "pio \<Rightarrow> u32" where
  "pio_irq_get p = pio_inte0 p"

definition pio_signal_set_txpending :: "pio \<Rightarrow> pio" where
  "pio_signal_set_txpending = io_write PIO_IRQ_FORCE (drop_bit 8 SI_TXPENDING)"

definition pio_signal_clear_txpending :: "pio \<Rightarrow> pio" where
  "pio_signal_clear_txpending = io_write PIO_IRQ (drop_bit 8 SI_TXPENDING)"

definition pio_load_program :: "pio \<Rightarrow> pio" where
  "pio_load_program = io_writes (map (\<lambda>i. (PIO_INSTR_MEM i, can2040_program_instructions ! i)) [0..<32])"

definition pio_sm_setup :: "u32 \<Rightarrow> u32 \<Rightarrow> pio \<Rightarrow> pio" where
  "pio_sm_setup gpio_rx gpio_tx p =
     (let p = io_writes [(PIO_CTRL, 0xf0 OR 0xf00), (PIO_FDEBUG, 0xffffffff), (PIO_IRQ, 0xff)] p;
          p = pio_signal_set_txpending p;
          p = pio_load_program p;
          p = pio_sync_setup gpio_rx p;
          p = pio_rx_setup gpio_rx p;
          p = pio_match_setup gpio_rx p;
          p = pio_tx_setup gpio_rx gpio_tx p
      in io_write PIO_CTRL (push_bit 0 0x07) p)"

definition pio_setup :: "u32 \<Rightarrow> u32 \<Rightarrow> u32 \<Rightarrow> u32 \<Rightarrow> u32 \<Rightarrow> (nat \<Rightarrow> u32) \<Rightarrow> pio \<Rightarrow> pio option" where
  "pio_setup pio_num gpio_rx gpio_tx sys_clock bitrate reset_done p = do {
     p \<leftarrow> rp2040_clear_reset (if pio_num \<noteq> 0 then 0x800 else 0x400) reset_done p;
     let clkdiv = (256 div PIO_CLOCK_PER_BIT) * sys_clock div bitrate;
     let p = io_writes (map (\<lambda>i. (SM_CLKDIV i, push_bit 8 clkdiv)) [0..<4]) p;
     let p = pio_sm_setup gpio_rx gpio_tx p;
     let pio_func = (if pio_num \<noteq> 0 then 7 else 6);
     let p = rp2040_gpio_peripheral gpio_rx pio_func 1 p;
     Some (rp2040_gpio_peripheral gpio_tx pio_func 0 p)
   }"

section \<open>CRC\<close>

definition crc_table :: "u16 list" where
  "crc_table =
    [0x0000, 0x4599, 0x4eab, 0x0b32, 0x58cf, 0x1d56, 0x1664, 0x53fd, 0x7407, 0x319e, 0x3aac, 0x7f35,
     0x2cc8, 0x6951, 0x6263, 0x27fa, 0x2d97, 0x680e, 0x633c, 0x26a5, 0x7558, 0x30c1, 0x3bf3, 0x7e6a,
     0x5990, 0x1c09, 0x173b, 0x52a2, 0x015f, 0x44c6, 0x4ff4, 0x0a6d, 0x5b2e, 0x1eb7, 0x1585, 0x501c,
     0x03e1, 0x4678, 0x4d4a, 0x08d3, 0x2f29, 0x6ab0, 0x6182, 0x241b, 0x77e6, 0x327f, 0x394d, 0x7cd4,
     0x76b9, 0x3320, 0x3812, 0x7d8b, 0x2e76, 0x6bef, 0x60dd, 0x2544, 0x02be, 0x4727, 0x4c15, 0x098c,
     0x5a71, 0x1fe8, 0x14da, 0x5143, 0x73c5, 0x365c, 0x3d6e, 0x78f7, 0x2b0a, 0x6e93, 0x65a1, 0x2038,
     0x07c2, 0x425b, 0x4969, 0x0cf0, 0x5f0d, 0x1a94, 0x11a6, 0x543f, 0x5e52, 0x1bcb, 0x10f9, 0x5560,
     0x069d, 0x4304, 0x4836, 0x0daf, 0x2a55, 0x6fcc, 0x64fe, 0x2167, 0x729a, 0x3703, 0x3c31, 0x79a8,
     0x28eb, 0x6d72, 0x6640, 0x23d9, 0x7024, 0x35bd, 0x3e8f, 0x7b16, 0x5cec, 0x1975, 0x1247, 0x57de,
     0x0423, 0x41ba, 0x4a88, 0x0f11, 0x057c, 0x40e5, 0x4bd7, 0x0e4e, 0x5db3, 0x182a, 0x1318, 0x5681,
     0x717b, 0x34e2, 0x3fd0, 0x7a49, 0x29b4, 0x6c2d, 0x671f, 0x2286, 0x2213, 0x678a, 0x6cb8, 0x2921,
     0x7adc, 0x3f45, 0x3477, 0x71ee, 0x5614, 0x138d, 0x18bf, 0x5d26, 0x0edb, 0x4b42, 0x4070, 0x05e9,
     0x0f84, 0x4a1d, 0x412f, 0x04b6, 0x574b, 0x12d2, 0x19e0, 0x5c79, 0x7b83, 0x3e1a, 0x3528, 0x70b1,
     0x234c, 0x66d5, 0x6de7, 0x287e, 0x793d, 0x3ca4, 0x3796, 0x720f, 0x21f2, 0x646b, 0x6f59, 0x2ac0,
     0x0d3a, 0x48a3, 0x4391, 0x0608, 0x55f5, 0x106c, 0x1b5e, 0x5ec7, 0x54aa, 0x1133, 0x1a01, 0x5f98,
     0x0c65, 0x49fc, 0x42ce, 0x0757, 0x20ad, 0x6534, 0x6e06, 0x2b9f, 0x7862, 0x3dfb, 0x36c9, 0x7350,
     0x51d6, 0x144f, 0x1f7d, 0x5ae4, 0x0919, 0x4c80, 0x47b2, 0x022b, 0x25d1, 0x6048, 0x6b7a, 0x2ee3,
     0x7d1e, 0x3887, 0x33b5, 0x762c, 0x7c41, 0x39d8, 0x32ea, 0x7773, 0x248e, 0x6117, 0x6a25, 0x2fbc,
     0x0846, 0x4ddf, 0x46ed, 0x0374, 0x5089, 0x1510, 0x1e22, 0x5bbb, 0x0af8, 0x4f61, 0x4453, 0x01ca,
     0x5237, 0x17ae, 0x1c9c, 0x5905, 0x7eff, 0x3b66, 0x3054, 0x75cd, 0x2630, 0x63a9, 0x689b, 0x2d02,
     0x276f, 0x62f6, 0x69c4, 0x2c5d, 0x7fa0, 0x3a39, 0x310b, 0x7492, 0x5368, 0x16f1, 0x1dc3, 0x585a,
     0x0ba7, 0x4e3e, 0x450c, 0x0095]"

definition crc_byte :: "u32 \<Rightarrow> u32 \<Rightarrow> u32" where
  "crc_byte crc data = push_bit 8 crc XOR ucast (crc_table ! unat ((drop_bit 7 crc XOR data) AND 0xff))"

definition crc_bytes :: "u32 \<Rightarrow> u32 \<Rightarrow> u32 \<Rightarrow> u32" where
  "crc_bytes crc data num =
     (let crc = (if num \<noteq> 1 \<and> num \<noteq> 2 \<and> num \<noteq> 3 then crc_byte crc (drop_bit 24 data) else crc);
          crc = (if num \<noteq> 1 \<and> num \<noteq> 2 then crc_byte crc (drop_bit 16 data) else crc);
          crc = (if num \<noteq> 1 then crc_byte crc (drop_bit 8 data) else crc)
      in crc_byte crc data)"

section \<open>Unstuffing\<close>

record bitunstuffer =
  stuffed_bits :: u32
  count_stuff :: u32
  unstuffed_bits :: u32
  count_unstuff :: u32

text \<open>\<open>(1 << n) - 1\<close>.\<close>

definition low_mask :: "u32 \<Rightarrow> u32" where
  "low_mask n = push_bit (unat n) 1 - 1"

definition unstuf_add_bits :: "u32 \<Rightarrow> u32 \<Rightarrow> bitunstuffer \<Rightarrow> bitunstuffer" where
  "unstuf_add_bits data count bu =
     bu\<lparr>stuffed_bits := push_bit (unat count) (stuffed_bits bu) OR (data AND low_mask count), count_stuff := count\<rparr>"

definition unstuf_set_count :: "u32 \<Rightarrow> bitunstuffer \<Rightarrow> bitunstuffer" where
  "unstuf_set_count num_bits bu = bu\<lparr>unstuffed_bits := 0, count_unstuff := num_bits\<rparr>"

definition unstuf_clear_state :: "bitunstuffer \<Rightarrow> bitunstuffer" where
  "unstuf_clear_state bu =
     (let lb = push_bit (unat (count_stuff bu)) 1
      in bu\<lparr>stuffed_bits := (stuffed_bits bu AND (lb - 1)) OR push_bit 1 lb\<rparr>)"

definition unstuf_restore_state :: "u32 \<Rightarrow> bitunstuffer \<Rightarrow> bitunstuffer" where
  "unstuf_restore_state data bu =
     (let cs = count_stuff bu
      in bu\<lparr>stuffed_bits := (stuffed_bits bu AND low_mask cs) OR push_bit (unat cs) data\<rparr>)"

text \<open>\<open>~e4\<close>: a set bit where the five bits from there up are equal.\<close>

definition equal_runs :: "u32 \<Rightarrow> u32" where
  "equal_runs b =
     (let edges = b XOR drop_bit 1 b; e2 = edges OR drop_bit 1 edges; e4 = e2 OR drop_bit 2 e2 in NOT e4)"

text \<open>The inner loop of \<open>unstuf_pull_bits\<close>; where it breaks, the end and the head of the outer loop follow.\<close>

partial_function (option) unstuf_loop ::
    "u32 \<Rightarrow> u32 \<Rightarrow> u32 \<Rightarrow> u32 \<Rightarrow> u32 \<Rightarrow> bitunstuffer \<Rightarrow> (int \<times> bitunstuffer) option" where
  "unstuf_loop sb rm_bits try_cnt cs cu bu =
     (let try_mask = push_bit (unat (cs + 1 - try_cnt)) (low_mask try_cnt) in
      if rm_bits AND try_mask = 0 then
        (let cu = cu - try_cnt; cs = cs - try_cnt;
             bu = bu\<lparr>count_unstuff := cu, count_stuff := cs,
               unstuffed_bits := unstuffed_bits bu OR push_bit (unat cu) (drop_bit (unat cs) sb AND low_mask try_cnt)\<rparr>
         in if cu = 0 then Some (0, bu)
            else if cs = 0 then Some (1, bu)
            else unstuf_loop sb rm_bits (if cs > cu then cu else cs) cs cu bu)
      else
        (let cs = cs - 1; bu = bu\<lparr>count_stuff := cs\<rparr> in
         if rm_bits AND push_bit (unat (cs + 1)) 1 \<noteq> 0 then
           if rm_bits AND push_bit (unat cs) 1 \<noteq> 0 then
             Some (if sb AND push_bit (unat cs) 1 \<noteq> 0 then -1 else -2, bu)
           else if cs = 0 then Some (1, bu)
           else unstuf_loop sb rm_bits (if cs > cu then cu else cs) cs cu bu
         else
           let cu = cu - 1;
               bu = bu\<lparr>count_unstuff := cu,
                 unstuffed_bits := unstuffed_bits bu OR push_bit (unat cu) (drop_bit (unat cs) sb AND 1)\<rparr>
           in unstuf_loop sb rm_bits (try_cnt div 2) cs cu bu))"

definition unstuf_pull_bits :: "bitunstuffer \<Rightarrow> (int \<times> bitunstuffer) option" where
  "unstuf_pull_bits bu =
     (let sb = stuffed_bits bu; rm_bits = equal_runs sb; cs = count_stuff bu; cu = count_unstuff bu in
      if cs = 0 then Some (1, bu)
      else unstuf_loop sb rm_bits (if cs > cu then cu else cs) cs cu bu)"

definition unstuf_get_raw :: "bitunstuffer \<Rightarrow> u32" where
  "unstuf_get_raw bu = drop_bit (unat (count_stuff bu)) (stuffed_bits bu)"

section \<open>Stuffing\<close>

text \<open>The inner loop of \<open>bitstuff\<close>; where it breaks, the head of the outer loop follows.\<close>

partial_function (option) bitstuff_loop :: "u32 \<Rightarrow> u32 \<Rightarrow> u32 \<Rightarrow> u32 \<Rightarrow> u32 \<Rightarrow> (u32 \<times> u32) option" where
  "bitstuff_loop add_bits try_cnt b count num_bits =
     (let try_mask = push_bit (unat (num_bits - try_cnt)) (low_mask try_cnt) in
      if add_bits AND try_mask = 0 then
        if try_cnt \<ge> num_bits then Some (b, count)
        else let num_bits = num_bits - try_cnt in bitstuff_loop add_bits ((num_bits + 1) div 2) b count num_bits
      else if add_bits AND push_bit (unat (num_bits - 1)) 1 \<noteq> 0 then
        (let lm = low_mask num_bits; low = b AND lm; high = push_bit 1 (b AND NOT (drop_bit 1 lm));
             b = high XOR low XOR push_bit (unat (num_bits - 1)) 1; count = count + 1
         in if num_bits \<le> 4 then Some (b, count)
            else let num_bits = num_bits - 4 in bitstuff_loop (equal_runs b) num_bits b count num_bits)
      else bitstuff_loop add_bits (try_cnt div 2) b count (num_bits - 1))"

text \<open>The word the bits were stuffed in, and how many they are now.\<close>

definition bitstuff :: "u32 \<Rightarrow> u32 \<Rightarrow> (u32 \<times> u32) option" where
  "bitstuff b num_bits = bitstuff_loop (equal_runs b) num_bits b num_bits num_bits"

record bitstuffer =
  prev_stuffed :: u32
  bitpos :: u32
  bs_buf :: "u32 list"

definition bs_pushraw :: "u32 \<Rightarrow> u32 \<Rightarrow> bitstuffer \<Rightarrow> bitstuffer" where
  "bs_pushraw data count bs =
     (let wp = unat (bitpos bs div 32); bitused = bitpos bs mod 32; bitavail = 32 - bitused; buf = bs_buf bs;
          buf = (if bitavail \<ge> count then buf[wp := buf ! wp OR push_bit (unat (bitavail - count)) data]
                 else buf[wp := buf ! wp OR drop_bit (unat (count - bitavail)) data,
                          wp + 1 := buf ! (wp + 1) OR push_bit (unat (32 - (count - bitavail))) data])
      in bs\<lparr>bs_buf := buf, bitpos := bitpos bs + count\<rparr>)"

definition bs_push :: "u32 \<Rightarrow> u32 \<Rightarrow> bitstuffer \<Rightarrow> bitstuffer option" where
  "bs_push data count bs = do {
     let data = data AND low_mask count;
     (stuf, newcount) \<leftarrow> bitstuff (push_bit (unat count) (prev_stuffed bs) OR data) count;
     Some ((bs_pushraw stuf newcount bs)\<lparr>prev_stuffed := stuf\<rparr>)
   }"

definition bs_finalize :: "bitstuffer \<Rightarrow> u32 \<times> u32 list" where
  "bs_finalize bs =
     (let words = (bitpos bs + 32 - 1) div 32; extra = words * 32 - bitpos bs; buf = bs_buf bs
      in (words, if extra \<noteq> 0 then buf[unat (words - 1) := buf ! unat (words - 1) OR low_mask extra] else buf))"

end
