(* ===== verification/Can2040.thy ===== *)
theory Can2040
  imports Can2040Pio
begin

text \<open>
  The software CAN controller of the RP2040, \<open>lib/can2040/can2040.c\<close>: transmit queue, reporting,
  the parser of received frames, the interrupt handler and the API, and the board's driver
  \<open>rp2040/can.c\<close> on top of it. The callback is a log of its calls, which the driver passes on to
  the CAN console after the interrupt; it touches nothing of the controller. The hardware goes on
  between two readings of a register: what it does before the \<open>k\<close>th reading is a parameter.
\<close>

section \<open>State\<close>

definition CAN2040_ID_RTR :: u32 where "CAN2040_ID_RTR = 0x40000000"
definition CAN2040_ID_EFF :: u32 where "CAN2040_ID_EFF = 0x80000000"
definition CAN2040_NOTIFY_RX :: u32 where "CAN2040_NOTIFY_RX = 0x100000"
definition CAN2040_NOTIFY_TX :: u32 where "CAN2040_NOTIFY_TX = 0x200000"
definition CAN2040_NOTIFY_ERROR :: u32 where "CAN2040_NOTIFY_ERROR = 0x800000"

lemmas NOTIFY_defs = CAN2040_NOTIFY_RX_def CAN2040_NOTIFY_TX_def CAN2040_NOTIFY_ERROR_def

type_synonym can2040_msg = canbus_msg

definition can2040_msg_zero :: can2040_msg where
  "can2040_msg_zero = \<lparr> msg_id = 0, dlc = 0, msg_data = replicate 8 0 \<rparr>"

datatype tx_state = TS_IDLE | TS_QUEUED | TS_ACKING_RX | TS_CONFIRM_TX

datatype parse_state =
  MS_START | MS_HEADER | MS_EXT_HEADER | MS_DATA0 | MS_DATA1 | MS_CRC | MS_ACK | MS_EOF0 | MS_EOF1 | MS_DISCARD

definition RS_NEED_EOF_FLAG :: u32 where "RS_NEED_EOF_FLAG = 4"
definition RS_IDLE :: u32 where "RS_IDLE = 0"
definition RS_NEED_RX_ACK :: u32 where "RS_NEED_RX_ACK = 1"
definition RS_NEED_TX_ACK :: u32 where "RS_NEED_TX_ACK = 2"
definition RS_NEED_TX_EOF :: u32 where "RS_NEED_TX_EOF = RS_NEED_TX_ACK OR RS_NEED_EOF_FLAG"

lemmas RS_defs = RS_NEED_EOF_FLAG_def RS_IDLE_def RS_NEED_RX_ACK_def RS_NEED_TX_ACK_def RS_NEED_TX_EOF_def

record can2040_stats =
  rx_total :: u32
  tx_total :: u32
  tx_attempt :: u32
  parse_error :: u32

record can2040_tx =
  qt_msg :: can2040_msg
  qt_crc :: u32
  stuffed_words :: u32
  stuffed_data :: "u32 list"

text \<open>\<open>struct can2040\<close> with its PIO block, the calls of the callback, and the message that another core
  submits between two readings of \<open>tx_push_pos\<close>, if any.\<close>

record can2040 =
  pio_num :: u32
  gpio_rx :: u32
  gpio_tx :: u32
  c_stats :: can2040_stats
  unstuf :: bitunstuffer
  raw_bit_count :: u32
  parse_state :: parse_state
  parse_crc :: u32
  parse_crc_bits :: u32
  parse_crc_pos :: u32
  parse_msg :: can2040_msg
  report_state :: u32
  tx_state :: tx_state
  tx_pull_pos :: u32
  tx_push_pos :: u32
  tx_queue :: "can2040_tx list"
  c_pio :: pio
  rx_calls :: "(u32 \<times> can2040_msg) list"
  tx_racing :: "can2040_tx option"

definition on_pio :: "(pio \<Rightarrow> pio) \<Rightarrow> can2040 \<Rightarrow> can2040" where
  "on_pio f c2 = c2\<lparr>c_pio := f (c_pio c2)\<rparr>"

section \<open>Transmit state\<close>

definition tx_qpos :: "u32 \<Rightarrow> u32" where
  "tx_qpos pos = pos mod 4"

definition tx_race :: "can2040 \<Rightarrow> can2040" where
  "tx_race c2 = (case tx_racing c2 of
       None \<Rightarrow> c2
     | Some qt \<Rightarrow> c2\<lparr>tx_queue := (tx_queue c2)[unat (tx_qpos (tx_push_pos c2)) := qt],
                      tx_push_pos := tx_push_pos c2 + 1, tx_racing := None\<rparr>)"

definition tx_schedule_transmit :: "can2040 \<Rightarrow> u32 \<times> can2040" where
  "tx_schedule_transmit c2 =
     (if tx_state c2 = TS_QUEUED \<and> \<not> pio_tx_did_fail (c_pio c2) then (0, c2)
      else
        let pull_pos = tx_pull_pos c2;
            send = (\<lambda>c2.
              let c2 = c2\<lparr>tx_state := TS_QUEUED, c_stats := (c_stats c2)\<lparr>tx_attempt := tx_attempt (c_stats c2) + 1\<rparr>\<rparr>;
                  qt = tx_queue c2 ! unat (tx_qpos pull_pos)
              in (0, on_pio (pio_tx_send (take (unat (stuffed_words qt)) (stuffed_data qt))) c2))
        in if tx_push_pos c2 = pull_pos then
             let c2 = tx_race (on_pio pio_signal_clear_txpending (c2\<lparr>tx_state := TS_IDLE\<rparr>)) in
             if tx_push_pos c2 = pull_pos then (SI_TXPENDING, c2)
             else send (on_pio pio_signal_set_txpending c2)
           else send c2)"

definition tx_inject_ack :: "u32 \<Rightarrow> can2040 \<Rightarrow> can2040" where
  "tx_inject_ack match_key c2 = on_pio (pio_tx_inject_ack match_key) (c2\<lparr>tx_state := TS_ACKING_RX\<rparr>)"

definition tx_check_local_message :: "can2040 \<Rightarrow> int \<times> can2040" where
  "tx_check_local_message c2 =
     (if tx_state c2 \<noteq> TS_QUEUED then (0, c2)
      else
        let qt = tx_queue c2 ! unat (tx_qpos (tx_pull_pos c2)); pm = parse_msg c2; tm = qt_msg qt in
        if msg_id tm = msg_id pm then
          if qt_crc qt \<noteq> parse_crc c2 \<or> dlc tm \<noteq> dlc pm \<or> data32_0 tm \<noteq> data32_0 pm \<or> data32_1 tm \<noteq> data32_1 pm
          then (-1, c2)
          else (1, c2\<lparr>tx_state := TS_CONFIRM_TX\<rparr>)
        else (0, c2))"

section \<open>Notification callbacks\<close>

definition rx_cb :: "u32 \<Rightarrow> can2040_msg \<Rightarrow> can2040 \<Rightarrow> can2040" where
  "rx_cb notify msg c2 = c2\<lparr>rx_calls := rx_calls c2 @ [(notify, msg)]\<rparr>"

definition report_callback_error :: "u32 \<Rightarrow> can2040 \<Rightarrow> can2040" where
  "report_callback_error error_code = rx_cb (CAN2040_NOTIFY_ERROR OR error_code) can2040_msg_zero"

definition report_callback_rx_msg :: "can2040 \<Rightarrow> can2040" where
  "report_callback_rx_msg c2 =
     rx_cb CAN2040_NOTIFY_RX (parse_msg c2) (c2\<lparr>c_stats := (c_stats c2)\<lparr>rx_total := rx_total (c_stats c2) + 1\<rparr>\<rparr>)"

definition report_callback_tx_msg :: "can2040 \<Rightarrow> can2040" where
  "report_callback_tx_msg c2 =
     (let c2 = c2\<lparr>tx_pull_pos := tx_pull_pos c2 + 1\<rparr>
      in rx_cb CAN2040_NOTIFY_TX (parse_msg c2) (c2\<lparr>c_stats := (c_stats c2)\<lparr>tx_total := tx_total (c_stats c2) + 1\<rparr>\<rparr>))"

definition report_handle_eof :: "can2040 \<Rightarrow> can2040" where
  "report_handle_eof c2 =
     (let c2 = (if report_state c2 AND RS_NEED_EOF_FLAG \<noteq> 0 then
            let c2 = on_pio pio_sync_normal_start_signal c2 in
            if report_state c2 = RS_NEED_TX_EOF then report_callback_tx_msg c2 else report_callback_rx_msg c2
          else c2)
      in on_pio pio_match_clear (c2\<lparr>report_state := RS_IDLE\<rparr>))"

definition report_is_not_in_tx :: "can2040 \<Rightarrow> bool" where
  "report_is_not_in_tx c2 \<longleftrightarrow> report_state c2 AND RS_NEED_TX_ACK = 0"

definition report_note_message_start :: "can2040 \<Rightarrow> can2040" where
  "report_note_message_start = on_pio (pio_irq_set SI_MAYTX)"

definition report_note_crc_start :: "can2040 \<Rightarrow> int \<times> can2040" where
  "report_note_crc_start c2 =
     (let (ret, c2) = tx_check_local_message c2 in
      if ret < 0 then (-1, c2)
      else if ret \<noteq> 0 then
        let c2 = c2\<lparr>report_state := RS_NEED_TX_ACK\<rparr>; bits = push_bit 9 (parse_crc_bits c2) OR 0x0ff
        in (0, on_pio (pio_match_check (pio_match_calc_key bits (parse_crc_pos c2 + 9))) c2)
      else
        let c2 = c2\<lparr>report_state := RS_NEED_RX_ACK\<rparr>; c2 = on_pio pio_signal_set_txpending c2
        in (0, on_pio (pio_irq_set (SI_MAYTX OR SI_TXPENDING)) c2))"

definition report_note_crc_success :: "can2040 \<Rightarrow> can2040" where
  "report_note_crc_success c2 =
     (if report_state c2 = RS_NEED_TX_ACK then on_pio (pio_irq_set (SI_MAYTX OR SI_MATCHED)) c2 else c2)"

definition report_note_ack_success :: "can2040 \<Rightarrow> can2040" where
  "report_note_ack_success c2 =
     (if report_state c2 = RS_IDLE then c2 else c2\<lparr>report_state := report_state c2 OR RS_NEED_EOF_FLAG\<rparr>)"

definition report_note_eof_success :: "can2040 \<Rightarrow> can2040" where
  "report_note_eof_success c2 =
     (if report_state c2 = RS_IDLE then c2 else on_pio (pio_irq_set SI_TXPENDING) (report_handle_eof c2))"

definition report_note_discarding :: "can2040 \<Rightarrow> can2040" where
  "report_note_discarding c2 =
     (let c2 = (if report_state c2 \<noteq> RS_IDLE then on_pio pio_match_clear (c2\<lparr>report_state := RS_IDLE\<rparr>) else c2);
          c2 = on_pio pio_sync_slow_start_signal c2
      in on_pio (pio_irq_set (SI_MAYTX OR SI_TXPENDING)) c2)"

definition report_line_ackdone :: "can2040 \<Rightarrow> can2040" where
  "report_line_ackdone c2 =
     (let bits = push_bit 8 (parse_crc_bits c2) OR 0x7f;
          c2 = on_pio (pio_match_check (pio_match_calc_key bits (parse_crc_pos c2 + 8))) c2;
          (check_txpending, c2) = tx_schedule_transmit c2
      in on_pio (pio_irq_set (SI_MAYTX OR SI_MATCHED OR check_txpending)) c2)"

definition report_line_matched :: "can2040 \<Rightarrow> can2040" where
  "report_line_matched c2 =
     (let c2 = (if report_state c2 \<noteq> RS_IDLE
            then report_handle_eof (c2\<lparr>report_state := report_state c2 OR RS_NEED_EOF_FLAG\<rparr>) else c2);
          (check_txpending, c2) = tx_schedule_transmit c2
      in on_pio (pio_irq_set check_txpending) c2)"

definition report_line_maytx :: "can2040 \<Rightarrow> can2040" where
  "report_line_maytx c2 =
     (let c2 = (if report_state c2 \<noteq> RS_IDLE then report_handle_eof c2 else c2);
          (check_txpending, c2) = tx_schedule_transmit c2
      in on_pio (pio_irq_set check_txpending) c2)"

definition report_line_txpending :: "can2040 \<Rightarrow> can2040" where
  "report_line_txpending c2 =
     (let pio_irqs = pio_irq_get (c_pio c2) in
      if pio_irqs = SI_MAYTX OR SI_TXPENDING OR SI_RX_DATA \<and> report_state c2 = RS_NEED_RX_ACK then
        let mk = pio_match_calc_key (parse_crc_bits c2) (parse_crc_pos c2); c2 = tx_inject_ack mk c2
        in on_pio (pio_irq_set (SI_MAYTX OR SI_ACKDONE)) c2
      else
        let (check_txpending, c2) = tx_schedule_transmit c2
        in on_pio (pio_irq_set ((pio_irqs AND NOT SI_TXPENDING) OR check_txpending)) c2)"

section \<open>Input state\<close>

definition data_state_clear_bits :: "can2040 \<Rightarrow> can2040" where
  "data_state_clear_bits c2 = c2\<lparr>raw_bit_count := 0, unstuf := (unstuf c2)\<lparr>stuffed_bits := 0, count_stuff := 0\<rparr>\<rparr>"

definition data_state_go_next :: "parse_state \<Rightarrow> u32 \<Rightarrow> can2040 \<Rightarrow> can2040" where
  "data_state_go_next st num_bits c2 = c2\<lparr>parse_state := st, unstuf := unstuf_set_count num_bits (unstuf c2)\<rparr>"

definition sm_setup :: "can2040 \<Rightarrow> can2040" where
  "sm_setup c2 = on_pio (pio_sm_setup (gpio_rx c2) (gpio_tx c2)) c2"

definition data_state_go_discard :: "can2040 \<Rightarrow> can2040" where
  "data_state_go_discard c2 =
     (let c2 = (if pio_rx_check_stall (c_pio c2)
            then report_callback_error 0 (sm_setup (data_state_clear_bits c2)) else c2)
      in report_note_discarding (data_state_go_next MS_DISCARD 32 c2))"

definition data_state_go_error :: "can2040 \<Rightarrow> can2040" where
  "data_state_go_error c2 =
     data_state_go_discard (c2\<lparr>c_stats := (c_stats c2)\<lparr>parse_error := parse_error (c_stats c2) + 1\<rparr>\<rparr>)"

definition data_state_line_error :: "can2040 \<Rightarrow> can2040" where
  "data_state_line_error c2 = (if parse_state c2 = MS_DISCARD then data_state_go_discard c2 else data_state_go_error c2)"

definition data_state_line_passive :: "can2040 \<Rightarrow> can2040" where
  "data_state_line_passive c2 =
     (if parse_state c2 \<noteq> MS_DISCARD \<and> parse_state c2 \<noteq> MS_START then data_state_go_error c2
      else
        let dom_bits = NOT (unstuf_get_raw (unstuf c2)) in
        if dom_bits = 0 then data_state_go_discard (sm_setup (data_state_clear_bits c2))
        else if dom_bits AND 0x3ff = 0 then data_state_go_next MS_START 1 c2
        else data_state_go_discard c2)"

definition data_state_go_crc :: "can2040 \<Rightarrow> can2040 option" where
  "data_state_go_crc c2 = do {
     let c2 = c2\<lparr>parse_crc := parse_crc c2 AND 0x7fff\<rparr>;
     let crcstart_bitpos = raw_bit_count c2 - count_stuff (unstuf c2) - 1;
     (crc_bits, count) \<leftarrow> bitstuff (push_bit 15 (unstuf_get_raw (unstuf c2)) OR parse_crc c2) (15 + 1);
     let crc_bitcount = count - 1;
     let c2 = c2\<lparr>parse_crc_bits := push_bit 1 crc_bits OR 1, parse_crc_pos := crcstart_bitpos + crc_bitcount + 1\<rparr>;
     let (ret, c2) = report_note_crc_start c2;
     if ret \<noteq> 0 then Some (data_state_go_error c2) else Some (data_state_go_next MS_CRC 16 c2)
   }"

definition data_state_go_data :: "u32 \<Rightarrow> u32 \<Rightarrow> can2040 \<Rightarrow> can2040 option" where
  "data_state_go_data mid data c2 =
     (if data AND push_bit 4 0x03 \<noteq> 0 then Some (data_state_go_discard c2)
      else
        let mlen = data AND 0x0f;
            (n, mid) = (if data AND push_bit 6 1 \<noteq> 0 then (0, mid OR CAN2040_ID_RTR) else (mlen, mid));
            c2 = c2\<lparr>parse_msg := \<lparr> msg_id = mid, dlc = mlen, msg_data = replicate 8 0 \<rparr>\<rparr>
        in if n \<noteq> 0 then Some (data_state_go_next MS_DATA0 (if n \<ge> 4 then 32 else n * 8) c2)
           else data_state_go_crc c2)"

definition data_state_update_start :: "u32 \<Rightarrow> can2040 \<Rightarrow> can2040" where
  "data_state_update_start data c2 =
     (let c2 = c2\<lparr>parse_msg := (parse_msg c2)\<lparr>msg_id := data\<rparr>\<rparr>
      in data_state_go_next MS_HEADER 17 (report_note_message_start c2))"

definition data_state_update_header :: "u32 \<Rightarrow> can2040 \<Rightarrow> can2040 option" where
  "data_state_update_header data c2 =
     (let data = data OR push_bit 17 (msg_id (parse_msg c2)) in
      if data AND 0x60 = 0x60 then
        Some (data_state_go_next MS_EXT_HEADER 20 (c2\<lparr>parse_msg := (parse_msg c2)\<lparr>msg_id := data\<rparr>\<rparr>))
      else data_state_go_data (drop_bit 7 data AND 0x7ff) data (c2\<lparr>parse_crc := crc_bytes 0 data 3\<rparr>))"

definition data_state_update_ext_header :: "u32 \<Rightarrow> can2040 \<Rightarrow> can2040 option" where
  "data_state_update_ext_header data c2 =
     (let hdr1 = msg_id (parse_msg c2);
          crc = crc_bytes 0 (drop_bit 4 hdr1) 2;
          c2 = c2\<lparr>parse_crc := crc_bytes crc (push_bit 20 (hdr1 AND 0x0f) OR data) 3\<rparr>;
          mid = (push_bit 11 hdr1 AND 0x1ffc0000) OR (push_bit 13 hdr1 AND 0x3e000) OR drop_bit 7 data OR CAN2040_ID_EFF
      in data_state_go_data mid data c2)"

definition bswap32 :: "u32 \<Rightarrow> u8 list" where
  "bswap32 w = rev (bytes_of_u32 w)"

definition data_state_update_data0 :: "u32 \<Rightarrow> can2040 \<Rightarrow> can2040 option" where
  "data_state_update_data0 data c2 =
     (let mlen = dlc (parse_msg c2); bits = (if mlen \<ge> 4 then 32 else mlen * 8);
          c2 = c2\<lparr>parse_crc := crc_bytes (parse_crc c2) data mlen,
            parse_msg := (parse_msg c2)\<lparr>msg_data :=
              bswap32 (push_bit (unat (32 - bits)) data) @ drop 4 (msg_data (parse_msg c2))\<rparr>\<rparr>
      in if mlen > 4 then Some (data_state_go_next MS_DATA1 (if mlen \<ge> 8 then 32 else (mlen - 4) * 8) c2)
         else data_state_go_crc c2)"

definition data_state_update_data1 :: "u32 \<Rightarrow> can2040 \<Rightarrow> can2040 option" where
  "data_state_update_data1 data c2 =
     (let mlen = dlc (parse_msg c2); bits = (if mlen \<ge> 8 then 32 else (mlen - 4) * 8)
      in data_state_go_crc (c2\<lparr>parse_crc := crc_bytes (parse_crc c2) data (mlen - 4),
           parse_msg := (parse_msg c2)\<lparr>msg_data :=
             take 4 (msg_data (parse_msg c2)) @ bswap32 (push_bit (unat (32 - bits)) data)\<rparr>\<rparr>))"

definition data_state_update_crc :: "u32 \<Rightarrow> can2040 \<Rightarrow> can2040" where
  "data_state_update_crc data c2 =
     (if push_bit 1 (parse_crc c2) OR 1 \<noteq> data then data_state_go_error c2
      else
        let c2 = report_note_crc_success c2; c2 = c2\<lparr>unstuf := unstuf_clear_state (unstuf c2)\<rparr>
        in data_state_go_next MS_ACK 2 c2)"

definition data_state_update_ack :: "u32 \<Rightarrow> can2040 \<Rightarrow> can2040" where
  "data_state_update_ack data c2 =
     (if data \<noteq> 0x01 then
        data_state_go_error (c2\<lparr>unstuf := unstuf_restore_state (push_bit 2 (parse_crc_bits c2) OR data) (unstuf c2)\<rparr>)
      else data_state_go_next MS_EOF0 4 (report_note_ack_success c2))"

definition data_state_update_eof0 :: "u32 \<Rightarrow> can2040 \<Rightarrow> can2040" where
  "data_state_update_eof0 data c2 =
     (if data \<noteq> 0x0f \<or> pio_rx_check_stall (c_pio c2) then data_state_go_error c2
      else data_state_go_next MS_EOF1 5 (c2\<lparr>unstuf := unstuf_clear_state (unstuf c2)\<rparr>))"

definition data_state_update_eof1 :: "u32 \<Rightarrow> can2040 \<Rightarrow> can2040" where
  "data_state_update_eof1 data c2 =
     (if data = 0x1f then data_state_go_next MS_START 1 (report_note_eof_success c2)
      else if data \<ge> 0x1c \<or> data \<ge> 0x18 \<and> report_is_not_in_tx c2 then
        data_state_go_discard (report_note_eof_success c2)
      else data_state_go_error c2)"

definition data_state_update_discard :: "u32 \<Rightarrow> can2040 \<Rightarrow> can2040" where
  "data_state_update_discard data c2 = data_state_go_discard c2"

definition data_state_update :: "u32 \<Rightarrow> can2040 \<Rightarrow> can2040 option" where
  "data_state_update data c2 = (case parse_state c2 of
       MS_START \<Rightarrow> Some (data_state_update_start data c2)
     | MS_HEADER \<Rightarrow> data_state_update_header data c2
     | MS_EXT_HEADER \<Rightarrow> data_state_update_ext_header data c2
     | MS_DATA0 \<Rightarrow> data_state_update_data0 data c2
     | MS_DATA1 \<Rightarrow> data_state_update_data1 data c2
     | MS_CRC \<Rightarrow> Some (data_state_update_crc data c2)
     | MS_ACK \<Rightarrow> Some (data_state_update_ack data c2)
     | MS_EOF0 \<Rightarrow> Some (data_state_update_eof0 data c2)
     | MS_EOF1 \<Rightarrow> Some (data_state_update_eof1 data c2)
     | MS_DISCARD \<Rightarrow> Some (data_state_update_discard data c2))"

section \<open>Input processing\<close>

partial_function (option) process_rx_loop :: "can2040 \<Rightarrow> can2040 option" where
  "process_rx_loop c2 = do {
     (ret, bu) \<leftarrow> unstuf_pull_bits (unstuf c2);
     let c2 = c2\<lparr>unstuf := bu\<rparr>;
     if ret > 0 then Some c2
     else if ret = 0 then do {
       c2 \<leftarrow> data_state_update (unstuffed_bits (unstuf c2)) c2;
       process_rx_loop c2
     } else process_rx_loop (if ret = -1 then data_state_line_passive c2 else data_state_line_error c2)
   }"

definition process_rx :: "u32 \<Rightarrow> can2040 \<Rightarrow> can2040 option" where
  "process_rx rx_data c2 =
     process_rx_loop (c2\<lparr>unstuf := unstuf_add_bits rx_data PIO_RX_WAKE_BITS (unstuf c2),
       raw_bit_count := raw_bit_count c2 + PIO_RX_WAKE_BITS\<rparr>)"

text \<open>The loop ends with the interrupts still to be handled.\<close>

partial_function (option) irq_rx_loop :: "(nat \<Rightarrow> pio \<Rightarrow> pio) \<Rightarrow> nat \<Rightarrow> u32 \<Rightarrow> can2040 \<Rightarrow> (u32 \<times> can2040) option" where
  "irq_rx_loop hw k ints c2 =
     (if ints AND SI_RX_DATA \<noteq> 0 then do {
        let rx_data = hd (pio_rxf1 (c_pio c2));
        c2 \<leftarrow> process_rx rx_data (on_pio (\<lambda>p. p\<lparr>pio_rxf1 := tl (pio_rxf1 p)\<rparr>) c2);
        let c2 = on_pio (hw (Suc k)) c2;
        let ints = pio_ints0 (c_pio c2);
        if ints = 0 then Some (0, c2) else irq_rx_loop hw (Suc k) ints c2
      } else Some (ints, c2))"

definition can2040_pio_irq_handler :: "(nat \<Rightarrow> pio \<Rightarrow> pio) \<Rightarrow> can2040 \<Rightarrow> can2040 option" where
  "can2040_pio_irq_handler hw c2 = do {
     let c2 = on_pio (hw 0) c2;
     (ints, c2) \<leftarrow> irq_rx_loop hw 0 (pio_ints0 (c_pio c2)) c2;
     Some (if ints AND SI_ACKDONE \<noteq> 0 then report_line_ackdone c2
       else if ints AND SI_MATCHED \<noteq> 0 then report_line_matched c2
       else if ints AND SI_MAYTX \<noteq> 0 then report_line_maytx c2
       else if ints AND SI_TXPENDING \<noteq> 0 then report_line_txpending c2
       else c2)
   }"

section \<open>Transmit queuing\<close>

definition can2040_check_transmit :: "can2040 \<Rightarrow> bool" where
  "can2040_check_transmit c2 \<longleftrightarrow> tx_push_pos c2 - tx_pull_pos c2 < 4"

text \<open>The message as it is queued, and how many of its bytes are sent.\<close>

definition tx_msg_id :: "u32 \<Rightarrow> u32" where
  "tx_msg_id mid =
     (if mid AND CAN2040_ID_EFF \<noteq> 0 then mid AND NOT 0x20000000 else mid AND (CAN2040_ID_RTR OR 0x7ff))"

definition tx_data_len :: "can2040_msg \<Rightarrow> u32" where
  "tx_data_len m =
     (if msg_id m AND CAN2040_ID_RTR \<noteq> 0 then 0 else if dlc m > 8 then 8 else dlc m)"

definition tx_copy_msg :: "can2040_msg \<Rightarrow> can2040_msg" where
  "tx_copy_msg msg =
     (let m = \<lparr> msg_id = tx_msg_id (msg_id msg), dlc = dlc msg AND 0x0f, msg_data = replicate 8 0 \<rparr>
      in m\<lparr>msg_data := blit (msg_data m) 0 (take (unat (tx_data_len m)) (msg_data msg))\<rparr>)"

definition tx_push_header :: "can2040_msg \<Rightarrow> bitstuffer \<Rightarrow> (u32 \<times> bitstuffer) option" where
  "tx_push_header m bs =
     (let edlc = dlc m OR (if msg_id m AND CAN2040_ID_RTR \<noteq> 0 then 0x40 else 0) in
      if msg_id m AND CAN2040_ID_EFF \<noteq> 0 then do {
        let mid = msg_id m;
        let h1 = drop_bit 11 (mid AND 0x1ffc0000) OR 0x60 OR drop_bit 13 (mid AND 0x3e000);
        let h2 = push_bit 7 (mid AND 0x1fff) OR edlc;
        let crc = crc_bytes 0 (drop_bit 4 h1) 2;
        let crc = crc_bytes crc (push_bit 20 (h1 AND 0x0f) OR h2) 3;
        bs \<leftarrow> bs_push h1 19 bs;
        bs \<leftarrow> bs_push h2 20 bs;
        Some (crc, bs)
      } else do {
        let hdr = push_bit 7 (msg_id m AND 0x7ff) OR edlc;
        let crc = crc_bytes 0 hdr 3;
        bs \<leftarrow> bs_push hdr 19 bs;
        Some (crc, bs)
      })"

fun tx_push_data :: "u8 list \<Rightarrow> u32 \<Rightarrow> bitstuffer \<Rightarrow> (u32 \<times> bitstuffer) option" where
  "tx_push_data [] crc bs = Some (crc, bs)"
| "tx_push_data (v # vs) crc bs = do {
     let crc = crc_byte crc (ucast v);
     bs \<leftarrow> bs_push (ucast v) 8 bs;
     tx_push_data vs crc bs
   }"

definition tx_encode :: "can2040_msg \<Rightarrow> can2040_tx option" where
  "tx_encode m = do {
     (crc, bs) \<leftarrow> tx_push_header m \<lparr> prev_stuffed = 1, bitpos = 0, bs_buf = replicate 5 0 \<rparr>;
     (crc, bs) \<leftarrow> tx_push_data (take (unat (tx_data_len m)) (msg_data m)) crc bs;
     let crc = crc AND 0x7fff;
     bs \<leftarrow> bs_push crc 15 bs;
     let bs = bs_pushraw 1 1 bs;
     let (words, buf) = bs_finalize bs;
     Some \<lparr> qt_msg = m, qt_crc = crc, stuffed_words = words, stuffed_data = buf \<rparr>
   }"

definition can2040_transmit :: "can2040_msg \<Rightarrow> can2040 \<Rightarrow> (int \<times> can2040) option" where
  "can2040_transmit msg c2 =
     (let pending = tx_push_pos c2 - tx_pull_pos c2 in
      if pending \<ge> 4 then Some (-1, c2)
      else do {
        qt \<leftarrow> tx_encode (tx_copy_msg msg);
        let c2 = c2\<lparr>tx_queue := (tx_queue c2)[unat (tx_qpos (tx_push_pos c2)) := qt]\<rparr>;
        let c2 = c2\<lparr>tx_push_pos := tx_push_pos c2 + 1\<rparr>;
        Some (0, on_pio pio_signal_set_txpending c2)
      })"

section \<open>Setup\<close>

definition pio_zero :: pio where
  "pio_zero = \<lparr> io_trace = [], resets_reset = 0xffffffff, pio_fdebug = 0, pio_irq_flags = 0, pio_inte0 = 0,
     pio_rxf1 = [], pio_flevel = 0, pio_sm3_addr = 0 \<rparr>"

definition can2040_tx_zero :: can2040_tx where
  "can2040_tx_zero = \<lparr> qt_msg = can2040_msg_zero, qt_crc = 0, stuffed_words = 0, stuffed_data = replicate 5 0 \<rparr>"

definition can2040_setup :: "u32 \<Rightarrow> pio \<Rightarrow> can2040" where
  "can2040_setup num p =
     \<lparr> pio_num = (if num \<noteq> 0 then 1 else 0), gpio_rx = 0, gpio_tx = 0,
       c_stats = \<lparr> rx_total = 0, tx_total = 0, tx_attempt = 0, parse_error = 0 \<rparr>,
       unstuf = \<lparr> stuffed_bits = 0, count_stuff = 0, unstuffed_bits = 0, count_unstuff = 0 \<rparr>,
       raw_bit_count = 0, parse_state = MS_START, parse_crc = 0, parse_crc_bits = 0, parse_crc_pos = 0,
       parse_msg = can2040_msg_zero, report_state = RS_IDLE, tx_state = TS_IDLE, tx_pull_pos = 0, tx_push_pos = 0,
       tx_queue = replicate 4 can2040_tx_zero, c_pio = p, rx_calls = [], tx_racing = None \<rparr>"

definition can2040_start :: "u32 \<Rightarrow> u32 \<Rightarrow> u32 \<Rightarrow> u32 \<Rightarrow> (nat \<Rightarrow> u32) \<Rightarrow> can2040 \<Rightarrow> can2040 option" where
  "can2040_start sys_clock bitrate g_rx g_tx reset_done c2 = do {
     let c2 = c2\<lparr>gpio_rx := g_rx, gpio_tx := g_tx\<rparr>;
     let c2 = data_state_clear_bits c2;
     p \<leftarrow> pio_setup (pio_num c2) (gpio_rx c2) (gpio_tx c2) sys_clock bitrate reset_done (c_pio c2);
     Some (data_state_go_discard (c2\<lparr>c_pio := p\<rparr>))
   }"

definition can2040_stop :: "can2040 \<Rightarrow> can2040" where
  "can2040_stop c2 = sm_setup (on_pio pio_irq_disable c2)"

text \<open>The copy is retried until a comparison finds it equal; \<open>rd\<close> are the successive states of the
  statistics that the copies and comparisons find.\<close>

partial_function (option) can2040_get_statistics :: "(nat \<Rightarrow> can2040_stats) \<Rightarrow> nat \<Rightarrow> can2040_stats option" where
  "can2040_get_statistics rd k =
     (let stats = rd k in if stats = rd (Suc k) then Some stats else can2040_get_statistics rd (Suc (Suc k)))"

section \<open>The board's driver\<close>

definition rp_canhw_send :: "canbus_msg \<Rightarrow> can2040 \<Rightarrow> (int \<times> can2040) option" where
  "rp_canhw_send msg cbus = do {
     (ret, cbus) \<leftarrow> can2040_transmit msg cbus;
     Some (if ret < 0 then (-1, cbus) else (int (unat (CANMSG_DATA_LEN msg)), cbus))
   }"

definition rp_canhw_set_filter :: "u32 \<Rightarrow> can2040 \<Rightarrow> can2040" where
  "rp_canhw_set_filter mid cbus = cbus"

definition can2040_cb :: "u32 \<times> can2040_msg \<Rightarrow> can_data \<Rightarrow> can_data" where
  "can2040_cb call s =
     (let (notify, msg) = call in
      if notify AND CAN2040_NOTIFY_TX \<noteq> 0 then canbus_notify_tx s
      else if notify AND CAN2040_NOTIFY_RX \<noteq> 0 then canbus_process_data msg s
      else s)"

definition PIOx_IRQHandler :: "(nat \<Rightarrow> pio \<Rightarrow> pio) \<Rightarrow> can2040 \<Rightarrow> can_data \<Rightarrow> (can2040 \<times> can_data) option" where
  "PIOx_IRQHandler hw cbus s = do {
     cbus \<leftarrow> can2040_pio_irq_handler hw (cbus\<lparr>rx_calls := []\<rparr>);
     Some (cbus, fold can2040_cb (rx_calls cbus) s)
   }"

definition rp_can_init :: "config \<Rightarrow> u32 \<Rightarrow> u32 \<Rightarrow> u32 \<Rightarrow> (nat \<Rightarrow> u32) \<Rightarrow> pio \<Rightarrow> can2040 option" where
  "rp_can_init c pclk g_rx g_tx reset_done p =
     can2040_start pclk (CONFIG_CANBUS_FREQUENCY c) g_rx g_tx reset_done (can2040_setup 0 p)"

end
