(* ===== verification/Can2040Rx.thy ===== *)
theory Can2040Rx
  imports Can2040
begin

text \<open>
  The receive path of \<open>can2040.c\<close> returns: the bit counters stay in range in every state, each round
  of the unstuffer's loops consumes a bit, and so \<open>process_rx\<close> ends for whatever bits arrive.
\<close>

declare unstuf_loop.simps [simp del] bitstuff_loop.simps [simp del] process_rx_loop.simps [simp del]

section \<open>The unstuffer\<close>

lemma low_mask_1 [simp]: "low_mask 1 = 1"
  by (simp add: low_mask_def)

lemma unat_minus_small: "b \<le> a \<Longrightarrow> unat (a - b) = unat a - unat (b :: u32)"
  by (rule unat_sub)

lemma unat_div_2 [simp]: "unat (a div 2 :: u32) = unat a div 2"
  by (simp add: unat_div)

text \<open>What one call of \<open>unstuf_pull_bits\<close> leaves: more bits wanted and none left, or a field complete,
  or a violation, the last two with fewer bits left than before.\<close>

definition pulled :: "u32 \<Rightarrow> u32 \<Rightarrow> int \<Rightarrow> bitunstuffer \<Rightarrow> bool" where
  "pulled cs cu ret bu \<longleftrightarrow>
     (ret = 1 \<and> count_stuff bu = 0 \<and> count_unstuff bu \<noteq> 0 \<and> count_unstuff bu \<le> cu) \<or>
     (ret = 0 \<and> count_stuff bu < cs) \<or>
     ((ret = -1 \<or> ret = -2) \<and> count_stuff bu < cs \<and> count_unstuff bu \<noteq> 0 \<and> count_unstuff bu \<le> cu)"

lemma pulled_mono: "pulled cs' cu' ret bu \<Longrightarrow> cs' < cs \<Longrightarrow> cu' \<le> cu \<Longrightarrow> pulled cs cu ret bu"
  by (auto simp: pulled_def)

lemma unstuf_loop_pulls:
  "\<lbrakk> count_stuff bu = cs; count_unstuff bu = cu; try_cnt \<noteq> 0; try_cnt \<le> cs; try_cnt \<le> cu \<rbrakk> \<Longrightarrow>
   \<exists>ret bu'. unstuf_loop sb rm_bits try_cnt cs cu bu = Some (ret, bu') \<and> pulled cs cu ret bu'"
proof (induction "unat cs" arbitrary: bu cs cu try_cnt rule: less_induct)
  case less
  let ?mask = "push_bit (unat (cs + 1 - try_cnt)) (low_mask try_cnt)"
  have cs0: "cs \<noteq> 0" using less.prems by (auto simp: word_le_nat_alt word_unat_eq_iff)
  have again: "\<exists>ret bu'. unstuf_loop sb rm_bits (if cs' > cu' then cu' else cs') cs' cu' b = Some (ret, bu') \<and>
      pulled cs cu ret bu'"
    if "cs' < cs" "cu' \<le> cu" "cs' \<noteq> 0" "cu' \<noteq> 0" "count_stuff b = cs'" "count_unstuff b = cu'" for cs' cu' b
  proof -
    have "\<exists>ret bu'. unstuf_loop sb rm_bits (if cs' > cu' then cu' else cs') cs' cu' b = Some (ret, bu') \<and> pulled cs' cu' ret bu'"
      by (rule less.hyps) (use that in \<open>auto simp: word_less_nat_alt word_le_nat_alt\<close>)
    then show ?thesis using pulled_mono [OF _ that(1,2)] by blast
  qed
  show ?case
  proof (cases "rm_bits AND ?mask = 0")
    case True
    let ?cs = "cs - try_cnt" and ?cu = "cu - try_cnt"
    let ?bu = "bu\<lparr>count_unstuff := ?cu, count_stuff := ?cs,
               unstuffed_bits := unstuffed_bits bu OR push_bit (unat ?cu) (drop_bit (unat ?cs) sb AND low_mask try_cnt)\<rparr>"
    have "unat try_cnt \<noteq> 0" using less.prems(3) by (simp add: word_unat_eq_iff)
    then have s: "?cs < cs" "?cu \<le> cu" using less.prems by (auto simp: word_less_nat_alt word_le_nat_alt unat_sub)
    have "unstuf_loop sb rm_bits try_cnt cs cu bu =
        (if ?cu = 0 then Some (0, ?bu) else if ?cs = 0 then Some (1, ?bu)
         else unstuf_loop sb rm_bits (if ?cs > ?cu then ?cu else ?cs) ?cs ?cu ?bu)"
      by (subst unstuf_loop.simps) (simp add: True Let_def)
    then show ?thesis using again [of ?cs ?cu ?bu] s by (auto simp: pulled_def)
  next
    case False
    let ?cs = "cs - 1"
    have s: "?cs < cs" using cs0 by (simp add: word_less_nat_alt unat_minus_one word_unat_eq_iff)
    let ?b = "bu\<lparr>count_stuff := ?cs\<rparr>"
    have e: "unstuf_loop sb rm_bits try_cnt cs cu bu =
        (if rm_bits AND push_bit (unat cs) 1 \<noteq> 0 then
           if rm_bits AND push_bit (unat ?cs) 1 \<noteq> 0 then Some (if sb AND push_bit (unat ?cs) 1 \<noteq> 0 then -1 else -2, ?b)
           else if ?cs = 0 then Some (1, ?b)
           else unstuf_loop sb rm_bits (if ?cs > cu then cu else ?cs) ?cs cu ?b
         else unstuf_loop sb rm_bits (try_cnt div 2) ?cs (cu - 1)
           (?b\<lparr>count_unstuff := cu - 1,
              unstuffed_bits := unstuffed_bits ?b OR push_bit (unat (cu - 1)) (drop_bit (unat ?cs) sb AND 1)\<rparr>))"
      by (subst unstuf_loop.simps) (simp add: False Let_def)
    have cu0: "cu \<noteq> 0" using less.prems by (auto simp: word_le_nat_alt word_unat_eq_iff)
    show ?thesis
    proof (cases "rm_bits AND push_bit (unat cs) 1 = 0")
      case False
      then show ?thesis using again [of ?cs cu ?b] s cu0 less.prems unfolding e by (auto simp: pulled_def)
    next
      case True
      have "try_cnt \<noteq> 1" using False True by auto
      then have t: "1 < unat try_cnt" using less.prems(3) by (auto simp: word_unat_eq_iff)
      have c: "unat (cs - 1) = unat cs - 1" "unat (cu - 1) = unat cu - 1"
        using cs0 cu0 by (simp_all add: unat_minus_one)
      have "\<exists>ret bu'. unstuf_loop sb rm_bits (try_cnt div 2) ?cs (cu - 1)
           (?b\<lparr>count_unstuff := cu - 1,
              unstuffed_bits := unstuffed_bits ?b OR push_bit (unat (cu - 1)) (drop_bit (unat ?cs) sb AND 1)\<rparr>) = Some (ret, bu') \<and>
          pulled ?cs (cu - 1) ret bu'"
        using less.prems t c s by (intro less.hyps) (auto simp: word_less_nat_alt word_le_nat_alt word_unat_eq_iff)
      then show ?thesis using True pulled_mono [OF _ s, of "cu - 1" _ _ cu] c unfolding e
        by (fastforce simp: word_le_nat_alt)
    qed
  qed
qed

lemma unstuf_pull_bits_returns:
  assumes "count_unstuff bu \<noteq> 0"
  shows "\<exists>ret bu'. unstuf_pull_bits bu = Some (ret, bu') \<and> pulled (count_stuff bu) (count_unstuff bu) ret bu'"
proof (cases "count_stuff bu = 0")
  case True
  with assms show ?thesis by (simp add: unstuf_pull_bits_def pulled_def)
next
  case False
  with assms show ?thesis
    unfolding unstuf_pull_bits_def Let_def by (simp, intro conjI impI unstuf_loop_pulls) auto
qed

section \<open>The stuffer\<close>

lemma bitstuff_loop_returns:
  "\<lbrakk> try_cnt \<le> num_bits; try_cnt \<noteq> 0 \<or> num_bits = 0 \<rbrakk> \<Longrightarrow>
   \<exists>b' count'. bitstuff_loop add_bits try_cnt b count num_bits = Some (b', count')"
proof (induction "unat num_bits" arbitrary: add_bits try_cnt b count num_bits rule: less_induct)
  case less
  let ?mask = "push_bit (unat (num_bits - try_cnt)) (low_mask try_cnt)"
  show ?case
  proof (cases "add_bits AND ?mask = 0")
    case True
    show ?thesis
    proof (cases "try_cnt \<ge> num_bits")
      case True
      with \<open>add_bits AND ?mask = 0\<close> show ?thesis by (subst bitstuff_loop.simps) simp
    next
      case False
      let ?n = "num_bits - try_cnt"
      have t: "try_cnt \<noteq> 0" using less.prems False by auto
      have n: "unat ?n = unat num_bits - unat try_cnt" using less.prems by (simp add: unat_sub)
      have lt: "unat ?n < unat num_bits" "0 < unat ?n" using False t n by (auto simp: word_le_nat_alt word_unat_eq_iff)
      have h: "unat ((?n + 1) div 2) = (unat ?n + 1) div 2"
      proof -
        have "unat (?n + 1) = unat ?n + 1"
          using lt unat_u32_less [of num_bits] by (simp add: unat_word_ariths del: unat_u32_less)
        then show ?thesis by simp
      qed
      have "\<exists>b' count'. bitstuff_loop add_bits ((?n + 1) div 2) b count ?n = Some (b', count')"
      proof (rule less.hyps [OF lt(1)])
        show "(?n + 1) div 2 \<le> ?n" using h lt(2) by (simp only: word_le_nat_alt)
        show "(?n + 1) div 2 \<noteq> 0 \<or> ?n = 0" using h lt(2) by (simp only: word_unat_eq_iff) simp
      qed
      with True False show ?thesis by (subst bitstuff_loop.simps) (simp add: Let_def)
    qed
  next
    case False
    have t0: "try_cnt \<noteq> 0" using False by (auto simp: low_mask_def)
    then have n0: "0 < unat num_bits" using less.prems by (auto simp: word_le_nat_alt word_unat_eq_iff)
    show ?thesis
    proof (cases "add_bits AND push_bit (unat (num_bits - 1)) 1 = 0")
      case True
      have "try_cnt \<noteq> 1" using False True by auto
      with t0 have t: "1 < unat try_cnt" by (auto simp: word_unat_eq_iff)
      have n: "unat (num_bits - 1) = unat num_bits - 1" using n0 by (intro unat_minus_one) auto
      have "\<exists>b' count'. bitstuff_loop add_bits (try_cnt div 2) b count (num_bits - 1) = Some (b', count')"
        using less.prems t n n0 by (intro less.hyps) (auto simp: word_le_nat_alt word_unat_eq_iff)
      with True False show ?thesis by (subst bitstuff_loop.simps) (simp add: Let_def)
    next
      case nz: False
      let ?lm = "low_mask num_bits"
      let ?b = "push_bit 1 (b AND NOT (drop_bit 1 ?lm)) XOR (b AND ?lm) XOR push_bit (unat (num_bits - 1)) 1"
      have e: "bitstuff_loop add_bits try_cnt b count num_bits =
          (if num_bits \<le> 4 then Some (?b, count + 1)
           else bitstuff_loop (equal_runs ?b) (num_bits - 4) ?b (count + 1) (num_bits - 4))"
        using False nz by (subst bitstuff_loop.simps) (simp add: Let_def)
      show ?thesis
      proof (cases "num_bits \<le> 4")
        case False
        then have "unat (num_bits - 4) = unat num_bits - 4" by (simp add: unat_sub)
        with False n0 have "\<exists>b' count'. bitstuff_loop (equal_runs ?b) (num_bits - 4) ?b (count + 1) (num_bits - 4) = Some (b', count')"
          by (intro less.hyps) (auto simp: word_le_nat_alt word_unat_eq_iff)
        with False show ?thesis unfolding e by simp
      qed (simp add: e)
    qed
  qed
qed

lemma bitstuff_returns: "\<exists>b' count. bitstuff b num_bits = Some (b', count)"
  unfolding bitstuff_def by (rule bitstuff_loop_returns) auto

section \<open>The parser's invariant\<close>

text \<open>Some bits are always wanted, and the data states are only entered with data to come.\<close>

definition rx_msg_ok :: "can2040 \<Rightarrow> bool" where
  "rx_msg_ok c2 \<longleftrightarrow> length (msg_data (parse_msg c2)) = 8 \<and>
     (parse_state c2 = MS_DATA0 \<longrightarrow> 1 \<le> dlc (parse_msg c2) \<and> dlc (parse_msg c2) \<le> 15) \<and>
     (parse_state c2 = MS_DATA1 \<longrightarrow> 5 \<le> dlc (parse_msg c2) \<and> dlc (parse_msg c2) \<le> 15)"

definition rx_ok :: "can2040 \<Rightarrow> bool" where
  "rx_ok c2 \<longleftrightarrow> count_unstuff (unstuf c2) \<noteq> 0 \<and> count_unstuff (unstuf c2) \<le> 32 \<and> rx_msg_ok c2"

definition pending :: "can2040 \<Rightarrow> u32" where
  "pending c2 = count_stuff (unstuf c2)"

text \<open>What a step of the parser may do: it keeps the invariant and adds no bits.\<close>

definition rx_step_ok :: "can2040 \<Rightarrow> can2040 \<Rightarrow> bool" where
  "rx_step_ok c2 c2' \<longleftrightarrow> rx_ok c2' \<and> pending c2' \<le> pending c2"

lemma pio_keeps [simp]:
  "unstuf (on_pio f c2) = unstuf c2" "parse_state (on_pio f c2) = parse_state c2" "parse_msg (on_pio f c2) = parse_msg c2"
  "report_state (on_pio f c2) = report_state c2" "rx_calls (on_pio f c2) = rx_calls c2" "tx_queue (on_pio f c2) = tx_queue c2"
  "tx_state (on_pio f c2) = tx_state c2" "parse_crc (on_pio f c2) = parse_crc c2" "c_stats (on_pio f c2) = c_stats c2"
  "tx_pull_pos (on_pio f c2) = tx_pull_pos c2" "tx_push_pos (on_pio f c2) = tx_push_pos c2"
  by (simp_all add: on_pio_def)

lemma rx_cb_keeps [simp]:
  "unstuf (rx_cb n m c2) = unstuf c2" "parse_state (rx_cb n m c2) = parse_state c2" "parse_msg (rx_cb n m c2) = parse_msg c2"
  "report_state (rx_cb n m c2) = report_state c2" "rx_calls (rx_cb n m c2) = rx_calls c2 @ [(n, m)]"
  by (simp_all add: rx_cb_def)

lemma reports_keep [simp]:
  "unstuf (report_handle_eof c2) = unstuf c2" "parse_msg (report_handle_eof c2) = parse_msg c2"
  "unstuf (report_note_eof_success c2) = unstuf c2" "parse_msg (report_note_eof_success c2) = parse_msg c2"
  "unstuf (report_note_discarding c2) = unstuf c2" "parse_state (report_note_discarding c2) = parse_state c2"
  "parse_msg (report_note_discarding c2) = parse_msg c2"
  "unstuf (report_note_crc_success c2) = unstuf c2" "parse_msg (report_note_crc_success c2) = parse_msg c2"
  "unstuf (report_note_ack_success c2) = unstuf c2" "parse_msg (report_note_ack_success c2) = parse_msg c2"
  "unstuf (snd (report_note_crc_start c2)) = unstuf c2" "parse_msg (snd (report_note_crc_start c2)) = parse_msg c2"
  by (simp_all add: report_handle_eof_def report_note_eof_success_def report_note_discarding_def report_note_crc_success_def
      report_note_ack_success_def report_note_crc_start_def tx_check_local_message_def report_callback_tx_msg_def
      report_callback_rx_msg_def Let_def split: prod.splits)

lemma discard_ok: "length (msg_data (parse_msg c2)) = 8 \<Longrightarrow> rx_step_ok c2 (data_state_go_discard c2)"
  by (auto simp: rx_step_ok_def rx_ok_def rx_msg_ok_def pending_def data_state_go_discard_def Let_def data_state_go_next_def
      unstuf_set_count_def report_callback_error_def sm_setup_def data_state_clear_bits_def)

lemma error_ok: "length (msg_data (parse_msg c2)) = 8 \<Longrightarrow> rx_step_ok c2 (data_state_go_error c2)"
  using discard_ok [of "c2\<lparr>c_stats := (c_stats c2)\<lparr>parse_error := parse_error (c_stats c2) + 1\<rparr>\<rparr>"]
  by (simp add: data_state_go_error_def rx_step_ok_def pending_def)

lemma rx_msg_ok_length: "rx_msg_ok c2 \<Longrightarrow> length (msg_data (parse_msg c2)) = 8"
  by (simp add: rx_msg_ok_def)

lemma rx_ok_length: "rx_ok c2 \<Longrightarrow> length (msg_data (parse_msg c2)) = 8"
  by (simp add: rx_ok_def rx_msg_ok_def)

lemma line_error_ok: "rx_ok c2 \<Longrightarrow> rx_step_ok c2 (data_state_line_error c2)"
  by (simp add: data_state_line_error_def discard_ok error_ok rx_ok_length)

lemma next_ok:
  "\<lbrakk> length (msg_data (parse_msg c2)) = 8; n \<noteq> 0; n \<le> 32; st \<noteq> MS_DATA0; st \<noteq> MS_DATA1 \<rbrakk> \<Longrightarrow>
   rx_step_ok c2 (data_state_go_next st n c2)"
  by (simp add: rx_step_ok_def rx_ok_def rx_msg_ok_def pending_def data_state_go_next_def unstuf_set_count_def)

lemma reset_discard_ok:
  assumes "rx_ok c2"
  shows "rx_step_ok c2 (data_state_go_discard (sm_setup (data_state_clear_bits c2)))"
proof -
  let ?c = "sm_setup (data_state_clear_bits c2)"
  have "rx_step_ok ?c (data_state_go_discard ?c)"
    using assms by (intro discard_ok) (simp add: sm_setup_def data_state_clear_bits_def rx_ok_length)
  moreover have "pending ?c = 0" by (simp add: pending_def sm_setup_def data_state_clear_bits_def)
  ultimately show ?thesis by (simp add: rx_step_ok_def)
qed

lemma line_passive_ok: "rx_ok c2 \<Longrightarrow> rx_step_ok c2 (data_state_line_passive c2)"
  by (auto simp: data_state_line_passive_def Let_def reset_discard_ok discard_ok error_ok rx_ok_length next_ok)

text \<open>The steps work on states that differ from the first only in fields the invariant does not see.\<close>

lemma rx_step_ok_from: "rx_step_ok c2 c2' \<Longrightarrow> pending c2 = pending c1 \<Longrightarrow> rx_step_ok c1 c2'"
  by (simp add: rx_step_ok_def)

lemma error_ok_from: "length (msg_data (parse_msg c2)) = 8 \<Longrightarrow> pending c2 = pending c1 \<Longrightarrow> rx_step_ok c1 (data_state_go_error c2)"
  by (rule rx_step_ok_from [OF error_ok])

lemma discard_ok_from: "length (msg_data (parse_msg c2)) = 8 \<Longrightarrow> pending c2 = pending c1 \<Longrightarrow> rx_step_ok c1 (data_state_go_discard c2)"
  by (rule rx_step_ok_from [OF discard_ok])

lemma next_ok_from:
  "\<lbrakk> length (msg_data (parse_msg c2)) = 8; n \<noteq> 0; n \<le> 32; st \<noteq> MS_DATA0; st \<noteq> MS_DATA1; pending c2 = pending c1 \<rbrakk> \<Longrightarrow>
   rx_step_ok c1 (data_state_go_next st n c2)"
  by (rule rx_step_ok_from [OF next_ok])

lemma go_crc_ok:
  assumes "length (msg_data (parse_msg c2)) = 8"
  shows "\<exists>c2'. data_state_go_crc c2 = Some c2' \<and> rx_step_ok c2 c2'"
proof -
  obtain b n where b: "bitstuff (push_bit 15 (unstuf_get_raw (unstuf c2)) OR (parse_crc c2 AND 0x7fff)) (15 + 1) = Some (b, n)"
    using bitstuff_returns by blast
  let ?c = "c2\<lparr>parse_crc := parse_crc c2 AND 0x7fff, parse_crc_bits := push_bit 1 b OR 1,
      parse_crc_pos := raw_bit_count c2 - count_stuff (unstuf c2) - 1 + n\<rparr>"
  obtain ret c3 where r: "report_note_crc_start ?c = (ret, c3)" by fastforce
  then have k: "unstuf c3 = unstuf c2" "parse_msg c3 = parse_msg c2"
    using reports_keep(12,13) [of ?c] by simp_all
  have "data_state_go_crc c2 = Some (if ret \<noteq> 0 then data_state_go_error c3 else data_state_go_next MS_CRC 16 c3)"
    using r by (simp add: data_state_go_crc_def Let_def b [simplified])
  moreover have "rx_step_ok c2 (data_state_go_error c3)" "rx_step_ok c2 (data_state_go_next MS_CRC 16 c3)"
    using assms k by (auto simp: pending_def intro!: error_ok_from next_ok_from)
  ultimately show ?thesis by simp
qed

lemma small_dlc: "(n :: u32) \<noteq> 0 \<Longrightarrow> \<not> 4 \<le> n \<Longrightarrow> n = 1 \<or> n = 2 \<or> n = 3"
  by (auto simp: word_unat_eq_iff word_le_nat_alt)

lemma middle_dlc: "4 < (n :: u32) \<Longrightarrow> \<not> 8 \<le> n \<Longrightarrow> n = 5 \<or> n = 6 \<or> n = 7"
  by (auto simp: word_unat_eq_iff word_le_nat_alt word_less_nat_alt)

lemma dlc_le_15: "w AND 0xf \<le> (15 :: u32)"
  by (rule word_and_le1)

lemma go_data_ok:
  assumes "length (msg_data (parse_msg c2)) = 8"
  shows "\<exists>c2'. data_state_go_data mid data c2 = Some c2' \<and> rx_step_ok c2 c2'"
proof (cases "data AND push_bit 4 0x03 = 0")
  case False
  with assms show ?thesis by (simp add: data_state_go_data_def discard_ok)
next
  case True
  let ?mid = "if data AND push_bit 6 1 \<noteq> 0 then mid OR CAN2040_ID_RTR else mid"
  let ?n = "if data AND push_bit 6 1 \<noteq> 0 then 0 else data AND 0xf"
  let ?c = "c2\<lparr>parse_msg := \<lparr> msg_id = ?mid, dlc = data AND 0xf, msg_data = replicate 8 0 \<rparr>\<rparr>"
  have e: "data_state_go_data mid data c2 =
      (if ?n \<noteq> 0 then Some (data_state_go_next MS_DATA0 (if ?n \<ge> 4 then 32 else ?n * 8) ?c) else data_state_go_crc ?c)"
    using True by (simp add: data_state_go_data_def Let_def)
  show ?thesis
  proof (cases "?n = 0")
    case True
    obtain c' where "data_state_go_crc ?c = Some c'" "rx_step_ok ?c c'" using go_crc_ok [of ?c] by auto
    then show ?thesis unfolding e using True rx_step_ok_from [of ?c c' c2] by (auto simp: pending_def)
  next
    case False
    then have n: "?n = data AND 0xf" "data AND 0xf \<noteq> 0" by (auto split: if_splits)
    have "1 \<le> data AND 0xf" using n(2) by (simp add: word_le_nat_alt word_unat_eq_iff)
    then have "rx_step_ok c2 (data_state_go_next MS_DATA0 (if ?n \<ge> 4 then 32 else ?n * 8) ?c)"
      using small_dlc [OF n(2)] dlc_le_15 [of data] unfolding n(1)
      by (auto simp: rx_step_ok_def rx_ok_def rx_msg_ok_def pending_def data_state_go_next_def unstuf_set_count_def)
    then show ?thesis unfolding e using False by auto
  qed
qed

lemma length_bswap32 [simp]: "length (bswap32 w) = 4"
  by (simp add: bswap32_def)

lemma go_crc_from:
  "length (msg_data (parse_msg c2)) = 8 \<Longrightarrow> pending c2 = pending c1 \<Longrightarrow> \<exists>c2'. data_state_go_crc c2 = Some c2' \<and> rx_step_ok c1 c2'"
  using go_crc_ok rx_step_ok_from by blast

lemma go_data_from:
  "length (msg_data (parse_msg c2)) = 8 \<Longrightarrow> pending c2 = pending c1 \<Longrightarrow>
   \<exists>c2'. data_state_go_data mid data c2 = Some c2' \<and> rx_step_ok c1 c2'"
  using go_data_ok rx_step_ok_from by blast

lemma if_some_intro: "Q a \<Longrightarrow> \<exists>x. f = Some x \<and> Q x \<Longrightarrow> \<exists>x. (if P then Some a else f) = Some x \<and> Q x"
  by auto

lemma update_data0_ok:
  assumes "rx_msg_ok c2" and "parse_state c2 = MS_DATA0"
  shows "\<exists>c2'. data_state_update_data0 data c2 = Some c2' \<and> rx_step_ok c2 c2'"
proof -
  let ?m = "dlc (parse_msg c2)"
  let ?c = "c2\<lparr>parse_crc := crc_bytes (parse_crc c2) data ?m,
            parse_msg := (parse_msg c2)\<lparr>msg_data :=
              bswap32 (push_bit (unat (32 - (if ?m \<ge> 4 then 32 else ?m * 8))) data) @ drop 4 (msg_data (parse_msg c2))\<rparr>\<rparr>"
  have len: "length (msg_data (parse_msg ?c)) = 8" using rx_msg_ok_length [OF assms(1)] by simp
  have e: "data_state_update_data0 data c2 =
      (if ?m > 4 then Some (data_state_go_next MS_DATA1 (if ?m \<ge> 8 then 32 else (?m - 4) * 8) ?c) else data_state_go_crc ?c)"
    unfolding data_state_update_data0_def Let_def ..
  obtain c' where c': "data_state_go_crc ?c = Some c'" "rx_step_ok c2 c'"
    using go_crc_from [OF len, of c2] by (auto simp: pending_def)
  have "rx_step_ok c2 (data_state_go_next MS_DATA1 (if ?m \<ge> 8 then 32 else (?m - 4) * 8) ?c)" if "?m > 4"
  proof -
    have "5 \<le> ?m \<and> ?m \<le> 15" using that assms by (auto simp: rx_msg_ok_def word_le_nat_alt word_less_nat_alt)
    then show ?thesis using middle_dlc [OF that] len
      by (auto simp: rx_step_ok_def rx_ok_def rx_msg_ok_def pending_def data_state_go_next_def unstuf_set_count_def)
  qed
  with c' show ?thesis unfolding e by auto
qed

lemma update_header_ok:
  assumes "rx_msg_ok c2"
  shows "\<exists>c2'. data_state_update_header data c2 = Some c2' \<and> rx_step_ok c2 c2'"
proof -
  let ?d = "data OR push_bit 17 (msg_id (parse_msg c2))"
  have "rx_step_ok c2 (data_state_go_next MS_EXT_HEADER 20 (c2\<lparr>parse_msg := (parse_msg c2)\<lparr>msg_id := ?d\<rparr>\<rparr>))"
    using rx_msg_ok_length [OF assms] by (intro next_ok_from) (simp_all add: pending_def)
  moreover have "\<exists>c2'. data_state_go_data (drop_bit 7 ?d AND 0x7ff) ?d (c2\<lparr>parse_crc := crc_bytes 0 ?d 3\<rparr>) = Some c2' \<and> rx_step_ok c2 c2'"
    using rx_msg_ok_length [OF assms] by (intro go_data_from) (simp_all add: pending_def)
  ultimately show ?thesis unfolding data_state_update_header_def Let_def by (rule if_some_intro)
qed

lemma update_tail_ok:
  assumes "rx_msg_ok c2"
  shows "rx_step_ok c2 (data_state_update_start data c2)" "rx_step_ok c2 (data_state_update_crc data c2)"
    "rx_step_ok c2 (data_state_update_ack data c2)" "rx_step_ok c2 (data_state_update_eof0 data c2)"
    "rx_step_ok c2 (data_state_update_eof1 data c2)"
  using rx_msg_ok_length [OF assms]
  by (auto simp: data_state_update_start_def data_state_update_crc_def data_state_update_ack_def data_state_update_eof0_def
      data_state_update_eof1_def Let_def pending_def report_note_message_start_def unstuf_clear_state_def
      unstuf_restore_state_def intro!: error_ok_from discard_ok_from next_ok_from)

lemma update_ext_header_ok:
  "rx_msg_ok c2 \<Longrightarrow> \<exists>c2'. data_state_update_ext_header data c2 = Some c2' \<and> rx_step_ok c2 c2'"
  unfolding data_state_update_ext_header_def Let_def by (rule go_data_from) (simp_all add: pending_def rx_msg_ok_length)

lemma update_data1_ok:
  "rx_msg_ok c2 \<Longrightarrow> \<exists>c2'. data_state_update_data1 data c2 = Some c2' \<and> rx_step_ok c2 c2'"
  unfolding data_state_update_data1_def Let_def by (rule go_crc_from) (simp_all add: pending_def rx_msg_ok_length)

lemma data_state_update_ok:
  assumes "rx_msg_ok c2"
  shows "\<exists>c2'. data_state_update data c2 = Some c2' \<and> rx_step_ok c2 c2'"
  using update_header_ok [OF assms] update_ext_header_ok [OF assms] update_data0_ok [OF assms] update_data1_ok [OF assms]
    update_tail_ok [OF assms] discard_ok [OF rx_msg_ok_length [OF assms]]
  by (cases "parse_state c2") (simp_all add: data_state_update_def data_state_update_discard_def)

section \<open>The loop\<close>

lemma process_rx_loop_returns:
  "rx_ok c2 \<Longrightarrow> \<exists>c2'. process_rx_loop c2 = Some c2' \<and> rx_ok c2' \<and> pending c2' = 0"
proof (induction "unat (pending c2)" arbitrary: c2 rule: less_induct)
  case less
  obtain ret bu where p: "unstuf_pull_bits (unstuf c2) = Some (ret, bu)"
      and q: "pulled (pending c2) (count_unstuff (unstuf c2)) ret bu"
    using unstuf_pull_bits_returns [of "unstuf c2"] less.prems by (auto simp: rx_ok_def rx_msg_ok_def pending_def)
  let ?c = "c2\<lparr>unstuf := bu\<rparr>"
  have again: "\<exists>c2'. process_rx_loop c = Some c2' \<and> rx_ok c2' \<and> pending c2' = 0"
    if "rx_step_ok ?c c" "count_stuff bu < pending c2" for c
    using that by (intro less.hyps) (auto simp: rx_step_ok_def pending_def word_less_nat_alt word_le_nat_alt)
  show ?case
  proof (cases "ret = 0")
    case True
    have "rx_msg_ok ?c" using less.prems by (simp add: rx_ok_def rx_msg_ok_def)
    from data_state_update_ok [OF this] obtain c' where
      "data_state_update (unstuffed_bits bu) ?c = Some c'" "rx_step_ok ?c c'" by blast
    with again [of c'] q p True show ?thesis by (subst process_rx_loop.simps) (auto simp: pulled_def)
  next
    case False
    then have "rx_ok ?c" using less.prems q by (auto simp: rx_ok_def rx_msg_ok_def pulled_def intro: order.trans)
    with False q p again line_passive_ok [of ?c] line_error_ok [of ?c] show ?thesis
      by (subst process_rx_loop.simps) (auto simp: pulled_def pending_def)
  qed
qed

lemma process_rx_returns: "rx_ok c2 \<Longrightarrow> \<exists>c2'. process_rx w c2 = Some c2' \<and> rx_ok c2' \<and> pending c2' = 0"
  unfolding process_rx_def
  by (rule process_rx_loop_returns) (simp add: rx_ok_def rx_msg_ok_def unstuf_add_bits_def)

section \<open>The interrupt handler\<close>

lemma tx_race_keeps [simp]:
  "unstuf (tx_race c2) = unstuf c2" "parse_state (tx_race c2) = parse_state c2" "parse_msg (tx_race c2) = parse_msg c2"
  by (simp_all add: tx_race_def split: option.splits)

lemma schedule_keeps [simp]:
  "unstuf (snd (tx_schedule_transmit c2)) = unstuf c2" "parse_state (snd (tx_schedule_transmit c2)) = parse_state c2"
  "parse_msg (snd (tx_schedule_transmit c2)) = parse_msg c2"
  by (simp_all add: tx_schedule_transmit_def Let_def)

lemma handle_eof_keeps [simp]: "parse_state (report_handle_eof c2) = parse_state c2"
  by (simp add: report_handle_eof_def report_callback_tx_msg_def report_callback_rx_msg_def Let_def)

lemma rx_ok_cong:
  "unstuf c1 = unstuf c2 \<Longrightarrow> parse_state c1 = parse_state c2 \<Longrightarrow> parse_msg c1 = parse_msg c2 \<Longrightarrow> rx_ok c1 \<longleftrightarrow> rx_ok c2"
  by (simp add: rx_ok_def rx_msg_ok_def)

lemma report_lines_ok [simp]:
  "rx_ok (report_line_ackdone c2) = rx_ok c2" "rx_ok (report_line_matched c2) = rx_ok c2"
  "rx_ok (report_line_maytx c2) = rx_ok c2" "rx_ok (report_line_txpending c2) = rx_ok c2"
  by (rule rx_ok_cong; simp add: report_line_ackdone_def report_line_matched_def report_line_maytx_def
      report_line_txpending_def tx_inject_ack_def Let_def case_prod_unfold)+

lemma on_pio_rx_ok [simp]: "rx_ok (on_pio f c2) = rx_ok c2"
  by (rule rx_ok_cong) simp_all

lemma no_rx_data: "pio_rxf1 p = [] \<Longrightarrow> pio_ints0 p AND SI_RX_DATA = 0"
  by (rule bit_word_eqI) (auto simp: pio_ints0_def pio_intr_def SI_RX_DATA_def bit_simps)

lemma irq_rx_loop_returns:
  assumes "\<And>p. pio_rxf1 (hw n p) = []"
  shows "\<lbrakk> rx_ok c2; k \<le> n; k = n \<longrightarrow> ints AND SI_RX_DATA = 0 \<rbrakk> \<Longrightarrow>
    \<exists>ints' c2'. irq_rx_loop hw k ints c2 = Some (ints', c2') \<and> rx_ok c2'"
proof (induction "n - k" arbitrary: k ints c2)
  case 0
  then show ?case by (subst irq_rx_loop.simps) simp
next
  case (Suc d)
  let ?c = "on_pio (\<lambda>p. p\<lparr>pio_rxf1 := tl (pio_rxf1 p)\<rparr>) c2"
  obtain c' where c': "process_rx (hd (pio_rxf1 (c_pio c2))) ?c = Some c'" "rx_ok c'"
    using process_rx_returns [of ?c] Suc.prems(1) by auto
  let ?c'' = "on_pio (hw (Suc k)) c'"
  have "Suc k = n \<longrightarrow> pio_ints0 (c_pio ?c'') AND SI_RX_DATA = 0" using assms by (auto simp: on_pio_def no_rx_data)
  then have "\<exists>ints' c2'. irq_rx_loop hw (Suc k) (pio_ints0 (c_pio ?c'')) ?c'' = Some (ints', c2') \<and> rx_ok c2'"
    using Suc c' by (intro Suc.hyps) auto
  with c' Suc.prems(1) show ?case by (subst irq_rx_loop.simps) (simp add: Let_def)
qed

lemma irq_handler_returns:
  assumes "rx_ok c2" and "\<And>p. pio_rxf1 (hw n p) = []"
  shows "\<exists>c2'. can2040_pio_irq_handler hw c2 = Some c2' \<and> rx_ok c2'"
proof -
  let ?c = "on_pio (hw 0) c2"
  have "n = 0 \<longrightarrow> pio_ints0 (c_pio ?c) AND SI_RX_DATA = 0" using assms(2) by (auto simp: on_pio_def no_rx_data)
  then obtain ints c' where "irq_rx_loop hw 0 (pio_ints0 (c_pio ?c)) ?c = Some (ints, c')" "rx_ok c'"
    using irq_rx_loop_returns [where hw = hw and n = n and ?c2.0 = ?c and k = 0 and ints = "pio_ints0 (c_pio ?c)"] assms
    by auto
  then show ?thesis by (simp add: can2040_pio_irq_handler_def Let_def)
qed

section \<open>Reachable states\<close>

text \<open>What happens to a controller: it is started, its interrupt handler runs while the receive FIFO is
  drained in the end, messages are submitted, from this core or another, the hardware moves on, the
  log of callbacks is read, it is stopped.\<close>

inductive can2040_reach :: "can2040 \<Rightarrow> bool" where
  start: "can2040_start sys_clock bitrate g_rx g_tx reset_done (can2040_setup num p) = Some c2 \<Longrightarrow> can2040_reach c2"
| irq: "can2040_reach c2 \<Longrightarrow> (\<And>p. pio_rxf1 (hw n p) = []) \<Longrightarrow> can2040_pio_irq_handler hw c2 = Some c2' \<Longrightarrow> can2040_reach c2'"
| transmit: "can2040_reach c2 \<Longrightarrow> can2040_transmit msg c2 = Some (ret, c2') \<Longrightarrow> can2040_reach c2'"
| race: "can2040_reach c2 \<Longrightarrow> can2040_reach (c2\<lparr>tx_racing := q\<rparr>)"
| hardware: "can2040_reach c2 \<Longrightarrow> can2040_reach (on_pio f c2)"
| calls: "can2040_reach c2 \<Longrightarrow> can2040_reach (c2\<lparr>rx_calls := []\<rparr>)"
| stop: "can2040_reach c2 \<Longrightarrow> can2040_reach (can2040_stop c2)"

lemma can2040_reach_rx_ok: "can2040_reach c2 \<Longrightarrow> rx_ok c2"
proof (induction rule: can2040_reach.induct)
  case (start sys_clock bitrate g_rx g_tx reset_done num p c2)
  then obtain c where "c2 = data_state_go_discard c" "length (msg_data (parse_msg c)) = 8"
    by (auto simp: can2040_start_def can2040_setup_def can2040_msg_zero_def data_state_clear_bits_def Let_def split: bind_splits)
  with discard_ok [of c] show ?case by (simp add: rx_step_ok_def)
next
  case (irq c2 hw n c2')
  with irq_handler_returns [where hw = hw and n = n and ?c2.0 = c2] show ?case by auto
next
  case (transmit c2 msg ret c2')
  then show ?case
    by (auto simp: can2040_transmit_def Let_def rx_ok_def rx_msg_ok_def on_pio_def split: if_splits bind_splits)
qed (simp_all add: rx_ok_def rx_msg_ok_def can2040_stop_def sm_setup_def)

section \<open>Properties\<close>

text \<open>C31: The software controller's interrupt handler always returns. In every state a controller can get
  into, and whatever words the receive FIFO delivers, the nested loops that unstuff and parse them
  end, so that the handler returns once a reading finds the FIFO empty; the parser then wants
  between 1 and 32 more bits, and it waits for data bytes only where the header announced some.\<close>

theorem can2040_irq_returns:
  assumes "can2040_reach c2" and "\<And>p. pio_rxf1 (hw n p) = []"
  shows "\<exists>c2'. can2040_pio_irq_handler hw c2 = Some c2' \<and>
    1 \<le> count_unstuff (unstuf c2') \<and> count_unstuff (unstuf c2') \<le> 32 \<and>
    (parse_state c2' = MS_DATA0 \<longrightarrow> 1 \<le> dlc (parse_msg c2')) \<and> (parse_state c2' = MS_DATA1 \<longrightarrow> 5 \<le> dlc (parse_msg c2'))"
proof -
  obtain c2' where c: "can2040_pio_irq_handler hw c2 = Some c2'" "rx_ok c2'"
    using irq_handler_returns [where hw = hw and n = n, OF can2040_reach_rx_ok [OF assms(1)] assms(2)] by blast
  moreover have "1 \<le> count_unstuff (unstuf c2')" using c(2) by (simp add: rx_ok_def word_le_nat_alt word_unat_eq_iff)
  ultimately show ?thesis by (auto simp: rx_ok_def rx_msg_ok_def)
qed

lemma demo_start: "\<exists>c2. can2040_start 125000000 1000000 4 5 (\<lambda>_. 0xffffffff) (can2040_setup 0 pio_zero) = Some c2"
proof -
  have w: "wait_reg P rd 0 = Some 0" if "P (rd 0)" for P rd using that by (subst wait_reg.simps) simp
  have "\<exists>p. rp2040_clear_reset 0x400 (\<lambda>_. 0xffffffff) pio_zero = Some p"
    by (simp add: rp2040_clear_reset_def w)
  then show ?thesis by (auto simp: can2040_start_def pio_setup_def Let_def can2040_setup_def data_state_clear_bits_def)
qed

theorem can2040_irq_returns_witness:
  "\<exists>c2 c2'. can2040_start 125000000 1000000 4 5 (\<lambda>_. 0xffffffff) (can2040_setup 0 pio_zero) = Some c2 \<and>
     can2040_pio_irq_handler (\<lambda>k p. p\<lparr>pio_rxf1 := (if k < 3 then [0x2a5] else [])\<rparr>) c2 = Some c2'"
proof -
  obtain c2 where c: "can2040_start 125000000 1000000 4 5 (\<lambda>_. 0xffffffff) (can2040_setup 0 pio_zero) = Some c2"
    using demo_start by blast
  from can2040_irq_returns [OF can2040_reach.start [OF c], where hw = "\<lambda>k p. p\<lparr>pio_rxf1 := (if k < 3 then [0x2a5] else [])\<rparr>" and n = 3] c
  show ?thesis by auto
qed

end
