(* ===== verification/Can2040Bits.thy ===== *)
theory Can2040Bits
  imports Can2040
begin

text \<open>
  The routines of \<open>can2040.c\<close> on bits against references: the table-driven CRC is the bit-serial CRC
  of the CAN standard.
\<close>

section \<open>CRC\<close>

text \<open>One bit into the shift register of the standard, polynomial 0x4599; a byte enters from its
  highest bit.\<close>

definition crc15_step :: "u32 \<Rightarrow> bool \<Rightarrow> u32" where
  "crc15_step c b = (let c' = take_bit 15 (push_bit 1 c) in if bit c 14 \<noteq> b then c' XOR 0x4599 else c')"

definition crc15_bits :: "u32 \<Rightarrow> bool list \<Rightarrow> u32" where
  "crc15_bits c bs = foldl crc15_step c bs"

text \<open>The \<open>n\<close> low bits of a word, highest first.\<close>

definition msb_bits :: "nat \<Rightarrow> u32 \<Rightarrow> bool list" where
  "msb_bits n w = map (bit w) (rev [0..<n])"

lemma less_15_cases:
  "n < (15::nat) \<Longrightarrow> n = 14 \<or> n = 13 \<or> n = 12 \<or> n = 11 \<or> n = 10 \<or> n = 9 \<or> n = 8 \<or>
   n = 7 \<or> n = 6 \<or> n = 5 \<or> n = 4 \<or> n = 3 \<or> n = 2 \<or> n = 1 \<or> n = 0"
  by arith

lemma bit_crc15_step:
  "bit (crc15_step c b) n \<longleftrightarrow>
     n < 15 \<and> ((0 < n \<and> bit c (n - 1)) \<noteq> ((bit c 14 \<noteq> b) \<and> n \<in> {0, 3, 4, 7, 8, 10, 14}))"
proof -
  have q: "bit (take_bit 15 (push_bit 1 c)) n \<longleftrightarrow> n < 15 \<and> 0 < n \<and> bit c (n - 1)"
    unfolding bit_take_bit_iff bit_push_bit_iff by auto
  have p: "bit (0x4599 :: u32) n \<longleftrightarrow> n \<in> {0, 3, 4, 7, 8, 10, 14}"
  proof (cases "n < 15")
    case True
    from less_15_cases [OF this] show ?thesis by (elim disjE) simp_all
  next
    case False
    have "\<not> bit (take_bit 15 (0x4599 :: u32)) n" using False by (simp only: bit_take_bit_iff) simp
    then show ?thesis using False by auto
  qed
  show ?thesis unfolding crc15_step_def Let_def by (auto simp only: bit_xor_iff q p split: if_splits)
qed

lemma msb_bits_8:
  "msb_bits 8 w = [bit w 7, bit w 6, bit w 5, bit w 4, bit w 3, bit w 2, bit w 1, bit w 0]"
proof -
  have "rev [0..<8] = [7, 6, 5, 4, 3, 2, 1, 0 :: nat]" by (simp add: upt_rec eval_nat_numeral)
  then show ?thesis unfolding msb_bits_def by (simp only: list.map)
qed

lemma crc15_byte_shift:
  "crc15_bits c (msb_bits 8 v) =
     take_bit 15 (push_bit 8 c) XOR crc15_bits 0 (msb_bits 8 ((drop_bit 7 c XOR v) AND 0xff))" (is "?l = ?r")
proof (rule bit_word_eqI)
  fix n assume "n < LENGTH(32)"
  have m: "(0xff :: u32) = mask 8" by (simp add: mask_eq_exp_minus_1)
  show "bit ?l n = bit ?r n"
  proof (cases "n < 15")
    case True
    from less_15_cases [OF this] show ?thesis unfolding m
      by (elim disjE; simp add: crc15_bits_def msb_bits_8 bit_crc15_step bit_simps; argo?)
  next
    case False
    then show ?thesis by (simp add: crc15_bits_def msb_bits_8 bit_crc15_step bit_simps)
  qed
qed

text \<open>The table is the span of its eight entries at powers of two.\<close>

fun xor_span :: "u16 list \<Rightarrow> u16 list" where
  "xor_span [] = [0]"
| "xor_span (b # bs) = (let t = xor_span bs in t @ map ((XOR) b) t)"

definition crc15_table_entry :: "u32 \<Rightarrow> u16" where
  "crc15_table_entry v = ucast (crc15_bits 0 (msb_bits 8 v))"

lemma crc15_table_entry_xor: "crc15_table_entry (v XOR w) = crc15_table_entry v XOR crc15_table_entry w"
proof (rule bit_word_eqI)
  fix n assume "n < LENGTH(16)"
  show "bit (crc15_table_entry (v XOR w)) n = bit (crc15_table_entry v XOR crc15_table_entry w) n"
  proof (cases "n < 15")
    case True
    from less_15_cases [OF this] show ?thesis
      by (elim disjE; simp add: crc15_table_entry_def crc15_bits_def msb_bits_8 bit_crc15_step bit_simps; argo?)
  qed (simp add: crc15_table_entry_def crc15_bits_def msb_bits_8 bit_crc15_step bit_simps)
qed

lemma length_xor_span [simp]: "length (xor_span bs) = 2 ^ length bs"
  by (induction bs) (simp_all add: Let_def)

lemma xor_span_nth:
  "n \<le> 8 \<Longrightarrow> i < 2 ^ n \<Longrightarrow>
   xor_span (map (\<lambda>k. crc15_table_entry (2 ^ k)) (rev [0..<n])) ! i = crc15_table_entry (of_nat i)"
proof (induction n arbitrary: i)
  case 0
  then show ?case by (simp add: crc15_table_entry_def crc15_bits_def msb_bits_8 crc15_step_def)
next
  case (Suc n)
  show ?case
  proof (cases "i < 2 ^ n")
    case True
    with Suc show ?thesis by (simp add: Let_def nth_append)
  next
    case False
    then obtain j where j: "i = 2 ^ n + j" using le_Suc_ex not_less by blast
    then have "j < 2 ^ n" using Suc.prems by simp
    then have "2 ^ n XOR of_nat j = (of_nat i :: u32)"
    proof -
      have "of_nat j = take_bit n (of_nat j :: u32)"
        using \<open>j < 2 ^ n\<close> by (metis take_bit_nat_eq_self take_bit_of_nat)
      moreover have "2 ^ n AND take_bit n (of_nat j) = (0 :: u32)"
        by (rule bit_word_eqI) (auto simp: bit_and_iff bit_take_bit_iff bit_exp_iff)
      ultimately have "2 ^ n AND of_nat j = (0 :: u32)" by simp
      then show ?thesis by (simp add: j disjunctive_add_eq_xor)
    qed
    with Suc j \<open>j < 2 ^ n\<close> show ?thesis by (simp add: Let_def nth_append crc15_table_entry_xor [symmetric])
  qed
qed

lemma crc_table_serial: "i < 256 \<Longrightarrow> crc_table ! i = crc15_table_entry (of_nat i)"
proof -
  assume i: "i < 256"
  have r: "rev [0..<8] = [7, 6, 5, 4, 3, 2, 1, 0 :: nat]" by (simp add: upt_rec eval_nat_numeral)
  have "map (\<lambda>k. crc15_table_entry (2 ^ k)) (rev [0..<8]) =
      [0x2213, 0x73c5, 0x5b2e, 0x2d97, 0x7407, 0x58cf, 0x4eab, 0x4599]"
    by (simp add: r crc15_table_entry_def crc15_bits_def msb_bits_8 crc15_step_def)
  then have "crc_table = xor_span (map (\<lambda>k. crc15_table_entry (2 ^ k)) (rev [0..<8]))"
    by (simp add: crc_table_def)
  with xor_span_nth [of 8 i] i show ?thesis by (simp only:) simp
qed

lemma take_bit_15_crc15: "take_bit 15 (crc15_bits 0 (msb_bits 8 v)) = crc15_bits 0 (msb_bits 8 v)"
  by (rule bit_word_eqI) (auto simp: bit_take_bit_iff crc15_bits_def msb_bits_8 bit_crc15_step)

lemma ucast_16_15: "take_bit 15 x = x \<Longrightarrow> ucast (ucast x :: u16) = (x :: u32)"
proof (rule bit_word_eqI)
  fix n assume "take_bit 15 x = x"
  then have "bit x n \<longleftrightarrow> n < 15 \<and> bit x n" by (metis bit_take_bit_iff)
  then show "bit (ucast (ucast x :: u16) :: u32) n = bit x n" by (auto simp: bit_simps dest: bit_imp_le_length)
qed

lemma crc_table_nth: "ucast (crc_table ! unat (v AND 0xff)) = crc15_bits 0 (msb_bits 8 (v AND 0xff))"
proof -
  have "v AND 0xff \<le> 0xff" by (rule word_and_le1)
  then have "unat (v AND 0xff) < 256" by (simp only: word_le_nat_alt) simp
  then have "ucast (crc_table ! unat (v AND 0xff)) = (ucast (crc15_table_entry (v AND 0xff)) :: u32)"
    by (simp only: crc_table_serial) simp
  also have "\<dots> = crc15_bits 0 (msb_bits 8 (v AND 0xff))"
    unfolding crc15_table_entry_def by (rule ucast_16_15 [OF take_bit_15_crc15])
  finally show ?thesis .
qed

lemma crc_byte_serial: "take_bit 15 (crc_byte c v) = crc15_bits (take_bit 15 c) (msb_bits 8 v)"
proof -
  have "take_bit 15 (crc_byte c v) =
      take_bit 15 (push_bit 8 (take_bit 15 c)) XOR crc15_bits 0 (msb_bits 8 ((drop_bit 7 c XOR v) AND 0xff))"
    unfolding crc_byte_def crc_table_nth take_bit_xor take_bit_15_crc15
    by (rule arg_cong [where f = "\<lambda>x. x XOR _"]) (rule bit_word_eqI, auto simp: bit_simps)
  moreover have "(drop_bit 7 c XOR v) AND 0xff = (drop_bit 7 (take_bit 15 c) XOR v) AND 0xff"
  proof -
    have m: "(0xff :: u32) = mask 8" by (simp add: mask_eq_exp_minus_1)
    show ?thesis unfolding m by (rule bit_word_eqI) (auto simp: bit_simps)
  qed
  ultimately show ?thesis by (simp add: crc15_byte_shift [of "take_bit 15 c"])
qed

lemma crc15_bits_append: "crc15_bits c (xs @ ys) = crc15_bits (crc15_bits c xs) ys"
  by (simp add: crc15_bits_def)

lemma msb_bits_add: "msb_bits (m + n) w = msb_bits m (drop_bit n w) @ msb_bits n w"
proof -
  have "[0..<m + n] = [0..<n] @ map (\<lambda>i. i + n) [0..<m]"
    using upt_add_eq_append [of 0 n m] map_add_upt [of n m] by (simp add: add.commute)
  then show ?thesis by (simp add: msb_bits_def rev_map bit_drop_bit_eq comp_def add.commute)
qed

lemma length_msb_bits [simp]: "length (msb_bits n w) = n"
  by (simp add: msb_bits_def)

lemma crc15_bits_byte: "crc15_bits (take_bit 15 c) (msb_bits 8 v) = take_bit 15 (crc_byte c v)"
  by (rule crc_byte_serial [symmetric])

lemma crc_bytes_serial:
  assumes "num = 1 \<or> num = 2 \<or> num = 3 \<or> num = 4"
  shows "take_bit 15 (crc_bytes crc data num) = crc15_bits (take_bit 15 crc) (msb_bits (8 * unat num) data)"
proof -
  have "msb_bits 16 data = msb_bits 8 (drop_bit 8 data) @ msb_bits 8 data"
    "msb_bits 24 data = msb_bits 8 (drop_bit 16 data) @ msb_bits 8 (drop_bit 8 data) @ msb_bits 8 data"
    "msb_bits 32 data = msb_bits 8 (drop_bit 24 data) @ msb_bits 8 (drop_bit 16 data) @ msb_bits 8 (drop_bit 8 data) @ msb_bits 8 data"
    using msb_bits_add [of 8 8 data] msb_bits_add [of 8 16 data] msb_bits_add [of 8 24 data] by simp_all
  with assms show ?thesis by (auto simp: crc_bytes_def crc15_bits_append crc15_bits_byte)
qed

section \<open>Properties\<close>

text \<open>The table-driven CRC of the software controller is the CRC of the CAN standard: for one to four
  bytes in the low bits of a word, the fifteen low bits that \<open>crc_bytes\<close> leaves are those of the
  bit-serial shift register with polynomial 0x4599 after the same bits, highest first, whatever
  bits above them the register carries along.\<close>

lemma can2040_crc_is_serial:
  assumes "num = 1 \<or> num = 2 \<or> num = 3 \<or> num = 4"
  shows "take_bit 15 (crc_bytes crc data num) = crc15_bits (take_bit 15 crc) (msb_bits (8 * unat num) data)"
  using assms by (rule crc_bytes_serial)

end
