(* ===== verification/Can2040Stuff.thy ===== *)
theory Can2040Stuff
  imports Can2040Bits Can2040Rx
begin

text \<open>
  Bit stuffing in \<open>can2040.c\<close>. The reference is the rule of the standard on lists of bits: after
  five equal bits the complement is inserted, and the receiver drops it. \<open>bitstuff\<close> and
  \<open>unstuf_pull_bits\<close>, which look for runs in whole words and halve the number of bits they try,
  compute the same.
\<close>

section \<open>The rule on lists\<close>

text \<open>\<open>h\<close> are the bits before, the latest first.\<close>

fun stuff_bits :: "bool list \<Rightarrow> bool list \<Rightarrow> bool list" where
  "stuff_bits h [] = []"
| "stuff_bits h (x # xs) =
     (if take 4 h = replicate 4 x then x # (\<not> x) # stuff_bits ((\<not> x) # x # h) xs else x # stuff_bits (x # h) xs)"

fun hist_after :: "bool list \<Rightarrow> bool list \<Rightarrow> bool list" where
  "hist_after h [] = h"
| "hist_after h (x # xs) = hist_after (x # h) xs"

lemma hist_after_append [simp]: "hist_after h (xs @ ys) = hist_after (hist_after h xs) ys"
  by (induction xs arbitrary: h) simp_all

lemma hist_after_rev: "hist_after h xs = rev xs @ h"
  by (induction xs arbitrary: h) simp_all

lemma stuff_bits_take4: "take 4 h = take 4 h' \<Longrightarrow> stuff_bits h xs = stuff_bits h' xs"
proof (induction xs arbitrary: h h')
  case Nil
  then show ?case by simp
next
  case (Cons x xs)
  have "take 3 h = take 3 h'" using arg_cong [OF Cons.prems, of "take 3"] by simp
  moreover have "take 2 h = take 2 h'" using arg_cong [OF Cons.prems, of "take 2"] by simp
  ultimately have "take 4 (x # h) = take 4 (x # h')" "take 4 ((\<not> x) # x # h) = take 4 ((\<not> x) # x # h')"
    by (simp_all add: take_Cons' numeral_eq_Suc)
  from Cons.IH [OF this(1)] Cons.IH [OF this(2)] Cons.prems show ?case by simp
qed

section \<open>Runs in a word\<close>

text \<open>The \<open>k\<close> bits of \<open>b\<close> from position \<open>n\<close> upwards: what came before the low \<open>n\<close> bits, the latest first.\<close>

definition above :: "nat \<Rightarrow> u32 \<Rightarrow> nat \<Rightarrow> bool list" where
  "above k b n = map (\<lambda>i. bit b (n + i)) [0..<k]"

lemma above_Suc: "above (Suc k) b n = bit b n # above k b (Suc n)"
  by (simp add: above_def upt_conv_Cons flip: map_Suc_upt del: upt_Suc)

lemma above_0 [simp]: "above 0 b n = []"
  by (simp add: above_def)

lemma length_above [simp]: "length (above k b n) = k"
  by (simp add: above_def)

lemma take_above: "take m (above k b n) = above (min m k) b n"
  by (cases "m \<le> k") (simp_all add: above_def take_map take_upt min_def)

lemma msb_bits_Suc: "msb_bits (Suc n) b = bit b n # msb_bits n b"
  by (simp add: msb_bits_def)

lemma msb_bits_0 [simp]: "msb_bits 0 b = []"
  by (simp add: msb_bits_def)

lemma msb_bits_cong: "(\<And>i. i < n \<Longrightarrow> bit a i = bit b i) \<Longrightarrow> msb_bits n a = msb_bits n b"
  by (simp add: msb_bits_def)

lemma above_cong: "(\<And>i. n \<le> i \<Longrightarrow> i < n + k \<Longrightarrow> bit a i = bit b i) \<Longrightarrow> above k a n = above k b n"
  by (simp add: above_def)

definition run5 :: "u32 \<Rightarrow> nat \<Rightarrow> bool" where
  "run5 b i \<longleftrightarrow> above 4 b (Suc i) = replicate 4 (bit b i)"

lemma bit_equal_runs: "i + 4 < 32 \<Longrightarrow> bit (equal_runs b) i \<longleftrightarrow> run5 b i"
  by (auto simp: equal_runs_def Let_def bit_simps run5_def above_Suc numeral_eq_Suc)

lemma bit_low_mask: "bit (low_mask n) i \<longleftrightarrow> i < unat n \<and> i < 32"
  by (auto simp: low_mask_def push_bit_eq_mult bit_simps simp flip: mask_eq_exp_minus_1)

lemma bit_window:
  "bit (push_bit m (low_mask t)) i \<longleftrightarrow> m \<le> i \<and> i < m + unat t \<and> i < 32"
  by (auto simp: bit_simps bit_low_mask)

lemma no_runs_window:
  assumes "n + 4 \<le> 32" "unat t \<le> n" "\<And>i. i < n \<Longrightarrow> bit a i = run5 b i"
  shows "a AND push_bit (n - unat t) (low_mask t) = 0 \<longleftrightarrow> (\<forall>i. n - unat t \<le> i \<and> i < n \<longrightarrow> \<not> run5 b i)"
proof -
  have "a AND push_bit (n - unat t) (low_mask t) = 0 \<longleftrightarrow> (\<forall>i. \<not> (bit a i \<and> n - unat t \<le> i \<and> i < n))"
  proof -
    have "i < n \<Longrightarrow> i < 32" for i using assms(1) by simp
    then show ?thesis using assms(2)
      by (auto simp: bit_eq_iff [of "a AND push_bit (n - unat t) (low_mask t)" 0] bit_and_iff bit_window)
  qed
  with assms show ?thesis by auto
qed

lemma and_one_bit: "n < 32 \<Longrightarrow> (a :: u32) AND push_bit n 1 = 0 \<longleftrightarrow> \<not> bit a n"
  by (simp add: and_exp_eq_0_iff_not_bit)

section \<open>The stuffer\<close>

text \<open>Bits that complete no run are left as they are.\<close>

lemma stuff_accept:
  "t \<le> n \<Longrightarrow> (\<forall>i. n - t \<le> i \<and> i < n \<longrightarrow> \<not> run5 b i) \<Longrightarrow>
   stuff_bits (above 4 b n) (msb_bits n b) =
     take t (msb_bits n b) @ stuff_bits (above 4 b (n - t)) (msb_bits (n - t) b)"
proof (induction t arbitrary: n)
  case 0
  then show ?case by simp
next
  case (Suc t)
  then obtain m where n: "n = Suc m" by (cases n) auto
  have "\<not> run5 b m" using Suc.prems n by auto
  then have "stuff_bits (above 4 b n) (msb_bits n b) = bit b m # stuff_bits (bit b m # above 4 b n) (msb_bits m b)"
    by (simp add: n msb_bits_Suc run5_def take_above)
  also have "stuff_bits (bit b m # above 4 b n) (msb_bits m b) = stuff_bits (above 4 b m) (msb_bits m b)"
  proof (rule stuff_bits_take4)
    have "above 4 b m = bit b m # above 3 b n" using above_Suc [of 3 b m] n by simp
    then show "take 4 (bit b m # above 4 b n) = take 4 (above 4 b m)" by (simp add: take_Cons' take_above)
  qed
  also have "\<dots> = take t (msb_bits m b) @ stuff_bits (above 4 b (m - t)) (msb_bits (m - t) b)"
    using Suc.prems n by (intro Suc.IH) auto
  finally show ?case by (simp add: n msb_bits_Suc)
qed

text \<open>The word after the insertion below the run that ends at the highest of \<open>n\<close> bits.\<close>

definition insert_stuff :: "u32 \<Rightarrow> u32 \<Rightarrow> u32" where
  "insert_stuff b n =
     push_bit 1 (b AND NOT (drop_bit 1 (low_mask n))) XOR (b AND low_mask n) XOR push_bit (unat (n - 1)) 1"

lemma bit_insert_stuff:
  assumes "n \<noteq> 0" "unat n < 32" "i < 32"
  shows "bit (insert_stuff b n) i \<longleftrightarrow>
    (if i < unat n - 1 then bit b i else if i = unat n - 1 then \<not> bit b i else bit b (i - 1))"
proof -
  have n: "unat (n - 1) = unat n - 1" "0 < unat n" using assms(1) by (auto simp: unat_minus_one word_unat_eq_iff)
  show ?thesis
    using assms(2,3) n(2) unfolding insert_stuff_def n(1)
    by (simp only: bit_xor_iff bit_and_iff bit_not_iff bit_push_bit_iff bit_drop_bit_eq bit_low_mask comp_def bit_1_iff) auto
qed

lemma insert_stuff_facts:
  fixes n b :: u32
  defines "m \<equiv> unat n - 1" and "b' \<equiv> insert_stuff b n"
  assumes "n \<noteq> 0" "unat n + 4 \<le> 32"
  shows "msb_bits m b' = msb_bits m b" "bit b' m \<longleftrightarrow> \<not> bit b m" "bit b' (unat n) \<longleftrightarrow> bit b m"
    "\<And>i. unat n + i < 31 \<Longrightarrow> bit b' (unat n + 1 + i) = bit b (unat n + i)"
    "above 4 b' m = (\<not> bit b m) # bit b m # above 2 b (unat n)"
    "\<And>i. m - 3 \<le> i \<Longrightarrow> i < m \<Longrightarrow> \<not> run5 b' i"
proof -
  have n: "unat n = Suc m" using assms(3) by (cases "unat n") (auto simp: m_def word_unat_eq_iff)
  have b: "bit b' i \<longleftrightarrow> (if i < m then bit b i else if i = m then \<not> bit b i else bit b (i - 1))" if "i < 32" for i
    using bit_insert_stuff [of n i b] assms(3,4) that by (simp add: b'_def m_def)
  show "msb_bits m b' = msb_bits m b" using assms(4) n by (intro msb_bits_cong) (simp add: b)
  show bm: "bit b' m \<longleftrightarrow> \<not> bit b m" and bn: "bit b' (unat n) \<longleftrightarrow> bit b m" using b n assms(4) by simp_all
  show up: "bit b' (unat n + 1 + i) = bit b (unat n + i)" if "unat n + i < 31" for i using b [of "unat n + 1 + i"] that n by simp
  have "above 4 b' m = bit b' m # bit b' (unat n) # above 2 b' (unat n + 1)"
    using above_Suc [of 3 b' m] above_Suc [of 2 b' "Suc m"] n by simp
  moreover have "above 2 b' (unat n + 1) = above 2 b (unat n)"
    using up [of 0] up [of 1] assms(4) by (simp add: above_def upt_rec)
  ultimately show "above 4 b' m = (\<not> bit b m) # bit b m # above 2 b (unat n)" by (simp add: bm bn)
  show "\<not> run5 b' i" if i: "m - 3 \<le> i" "i < m" for i
  proof
    assume "run5 b' i"
    then have h: "bit b' (Suc i + j) = bit b' i" if "j < 4" for j
      using that unfolding run5_def
      by (metis (no_types, lifting) above_def length_above nth_map_upt nth_replicate add.left_neutral diff_zero)
    have "bit b' (Suc i + (m - Suc i)) = bit b' i" "bit b' (Suc i + (m - i)) = bit b' i"
      by (rule h, use i in linarith)+
    then show False using bm bn n i by simp
  qed
qed

lemma take_msb_bits: "t \<le> n \<Longrightarrow> take t (msb_bits n b) = msb_bits t (drop_bit (n - t) b)"
  using msb_bits_add [of t "n - t" b] by simp

text \<open>One insertion, and the three bits after it that cannot complete a run.\<close>

lemma stuff_insert:
  fixes n b :: u32
  defines "m \<equiv> unat n - 1" and "b' \<equiv> insert_stuff b n"
  assumes "n \<noteq> 0" "unat n + 4 \<le> 32" "run5 b m" "t \<le> m" "t \<le> 3"
  shows "stuff_bits (above 4 b (unat n)) (msb_bits (unat n) b) =
    msb_bits (t + 2) (drop_bit (m - t) b') @ stuff_bits (above 4 b' (m - t)) (msb_bits (m - t) b')"
proof -
  have n: "unat n = Suc m" using assms(3) by (cases "unat n") (auto simp: m_def word_unat_eq_iff)
  note f = insert_stuff_facts [where b = b, OF assms(3,4), folded m_def b'_def]
  let ?x = "bit b m"
  have "stuff_bits (above 4 b (unat n)) (msb_bits (unat n) b) =
      ?x # (\<not> ?x) # stuff_bits ((\<not> ?x) # ?x # above 4 b (unat n)) (msb_bits m b)"
    using assms(5) by (simp add: n msb_bits_Suc run5_def take_above)
  also have "stuff_bits ((\<not> ?x) # ?x # above 4 b (unat n)) (msb_bits m b) = stuff_bits (above 4 b' m) (msb_bits m b')"
    unfolding f(1,5) by (rule stuff_bits_take4) (simp add: take_Cons' take_above)
  also have "\<dots> = take t (msb_bits m b') @ stuff_bits (above 4 b' (m - t)) (msb_bits (m - t) b')"
    using assms(6,7) f(6) by (intro stuff_accept) auto
  also have "take t (msb_bits m b') = msb_bits t (drop_bit (m - t) b')" using assms(6) by (rule take_msb_bits)
  finally show ?thesis
    using assms(6) f(2,3) n by (simp add: msb_bits_Suc bit_drop_bit_eq)
qed

lemma drop_bit_msb_cong:
  "(\<And>i. i < t \<Longrightarrow> bit a (n + i) = bit b (m + i)) \<Longrightarrow> msb_bits t (drop_bit n a) = msb_bits t (drop_bit m b)"
  by (rule msb_bits_cong) (simp add: bit_drop_bit_eq)

definition stuffed :: "u32 \<Rightarrow> nat \<Rightarrow> u32 \<Rightarrow> nat \<Rightarrow> bool" where
  "stuffed b n b' k \<longleftrightarrow> k \<le> (n + 3) div 4 \<and> msb_bits (n + k) b' = stuff_bits (above 4 b n) (msb_bits n b) \<and>
     (\<forall>i. n + k + i < 32 \<longrightarrow> bit b' (n + k + i) = bit b (n + i))"

lemma stuffed_accept:
  assumes "t \<le> n" "\<forall>i. n - t \<le> i \<and> i < n \<longrightarrow> \<not> run5 b i" "stuffed b (n - t) b' k" "n + (n + 3) div 4 \<le> 32"
  shows "stuffed b n b' k"
proof -
  have k: "k \<le> (n - t + 3) div 4" and up: "\<And>i. n - t + k + i < 32 \<Longrightarrow> bit b' (n - t + k + i) = bit b (n - t + i)"
    and e: "msb_bits (n - t + k) b' = stuff_bits (above 4 b (n - t)) (msb_bits (n - t) b)"
    using assms(3) by (auto simp: stuffed_def)
  have k': "k \<le> (n + 3) div 4" using k by linarith
  have "msb_bits (n + k) b' = msb_bits t (drop_bit (n - t + k) b') @ msb_bits (n - t + k) b'"
    using msb_bits_add [of t "n - t + k" b'] assms(1) by simp
  also have "msb_bits t (drop_bit (n - t + k) b') = msb_bits t (drop_bit (n - t) b)"
    using assms(1,4) k' by (intro drop_bit_msb_cong up) linarith
  finally have "msb_bits (n + k) b' = stuff_bits (above 4 b n) (msb_bits n b)"
    using stuff_accept [OF assms(1,2)] e assms(1) by (simp add: take_msb_bits)
  moreover have "bit b' (n + k + i) = bit b (n + i)" if "n + k + i < 32" for i
    using up [of "t + i"] that assms(1) by (simp add: algebra_simps)
  ultimately show ?thesis using k' by (simp add: stuffed_def)
qed

lemma stuffed_insert:
  fixes n :: u32
  assumes "n \<noteq> 0" "unat n + (unat n + 3) div 4 + 4 \<le> 32" "run5 b (unat n - 1)" "t \<le> unat n - 1" "t \<le> 3"
    and "stuffed (insert_stuff b n) (unat n - 1 - t) b' k" "k + 1 \<le> (unat n + 3) div 4"
  shows "stuffed b (unat n) b' (k + 1)"
proof -
  let ?m = "unat n - 1" and ?b = "insert_stuff b n"
  have n: "unat n = Suc ?m" using assms(1) by (cases "unat n") (auto simp: word_unat_eq_iff)
  have up: "\<And>i. ?m - t + k + i < 32 \<Longrightarrow> bit b' (?m - t + k + i) = bit ?b (?m - t + i)"
    and e: "msb_bits (?m - t + k) b' = stuff_bits (above 4 ?b (?m - t)) (msb_bits (?m - t) ?b)"
    using assms(6) by (auto simp: stuffed_def)
  have "msb_bits (unat n + (k + 1)) b' = msb_bits (t + 2) (drop_bit (?m - t + k) b') @ msb_bits (?m - t + k) b'"
    using msb_bits_add [of "t + 2" "?m - t + k" b'] n assms(4) by simp
  also have "msb_bits (t + 2) (drop_bit (?m - t + k) b') = msb_bits (t + 2) (drop_bit (?m - t) ?b)"
    using assms(2,4,7) n by (intro drop_bit_msb_cong up) linarith
  finally have "msb_bits (unat n + (k + 1)) b' = stuff_bits (above 4 b (unat n)) (msb_bits (unat n) b)"
    using stuff_insert [of n b t] assms e by simp
  moreover have "bit b' (unat n + (k + 1) + i) = bit b (unat n + i)" if i: "unat n + (k + 1) + i < 32" for i
  proof -
    have "bit b' (unat n + (k + 1) + i) = bit ?b (unat n + 1 + i)"
      using up [of "t + 2 + i"] i n assms(4) by (simp add: algebra_simps)
    also have "\<dots> = bit b (unat n + i)" using assms(1,2) i by (intro insert_stuff_facts(4)) auto
    finally show ?thesis .
  qed
  ultimately show ?thesis using assms(7) by (simp add: stuffed_def)
qed

lemma stuffed_all: "\<forall>i < n. \<not> run5 b i \<Longrightarrow> stuffed b n b 0"
  using stuff_accept [of n n b] by (simp add: stuffed_def)

lemma bitstuff_loop_stuffs:
  fixes nb t :: u32
  assumes "unat nb + (unat nb + 3) div 4 + 4 \<le> 32" and "t \<le> nb" and "t \<noteq> 0 \<or> nb = 0"
    and "\<And>i. i < unat nb \<Longrightarrow> bit a i = run5 b i"
  shows "\<exists>b' k. bitstuff_loop a t b c nb = Some (b', c + of_nat k) \<and> stuffed b (unat nb) b' k"
  using assms
proof (induction "unat nb" arbitrary: a t b c nb rule: less_induct)
  case less
  let ?n = "unat nb" and ?t = "unat t"
  have t: "?t \<le> ?n" using less.prems(2) by (simp add: word_le_nat_alt)
  have size: "?n + 4 \<le> 32" using less.prems(1) by simp
  have sub: "unat (nb - t) = ?n - ?t" using less.prems(2) by (rule unat_sub)
  have win: "a AND push_bit (unat (nb - t)) (low_mask t) = 0 \<longleftrightarrow> (\<forall>i. ?n - ?t \<le> i \<and> i < ?n \<longrightarrow> \<not> run5 b i)"
    unfolding sub by (rule no_runs_window [OF size t less.prems(4)])
  show ?case
  proof (cases "a AND push_bit (unat (nb - t)) (low_mask t) = 0")
    case True
    then have free: "\<forall>i. ?n - ?t \<le> i \<and> i < ?n \<longrightarrow> \<not> run5 b i" using win by blast
    show ?thesis
    proof (cases "t \<ge> nb")
      case True
      then have "?t = ?n" using t by (simp add: word_le_nat_alt)
      with free have "stuffed b ?n b 0" by (intro stuffed_all) auto
      with \<open>a AND _ = 0\<close> True show ?thesis by (subst bitstuff_loop.simps) (auto intro: exI [of _ 0])
    next
      case False
      let ?nb = "nb - t"
      have lt: "?t < ?n" "0 < ?t" using False less.prems(3) by (auto simp: word_le_nat_alt word_unat_eq_iff)
      have h: "unat ((?nb + 1) div 2) = (unat ?nb + 1) div 2"
        using lt size sub by (simp add: unat_word_ariths)
      have "\<exists>b' k. bitstuff_loop a ((?nb + 1) div 2) b c ?nb = Some (b', c + of_nat k) \<and> stuffed b (unat ?nb) b' k"
      proof (rule less.hyps)
        show "unat ?nb < ?n" using lt sub by simp
        show "unat ?nb + (unat ?nb + 3) div 4 + 4 \<le> 32" using less.prems(1) sub by linarith
        show "(?nb + 1) div 2 \<le> ?nb" using lt by (unfold word_le_nat_alt h sub, linarith)
        show "(?nb + 1) div 2 \<noteq> 0 \<or> ?nb = 0" using lt by (simp only: word_unat_eq_iff h sub) simp
        show "\<And>i. i < unat ?nb \<Longrightarrow> bit a i = run5 b i" using less.prems(4) sub by simp
      qed
      then obtain b' k where "bitstuff_loop a ((?nb + 1) div 2) b c ?nb = Some (b', c + of_nat k)" "stuffed b (?n - ?t) b' k"
        unfolding sub by blast
      then have r: "bitstuff_loop a ((?nb + 1) div 2) b c ?nb = Some (b', c + of_nat k)" and st: "stuffed b (?n - ?t) b' k"
        by blast+
      have "stuffed b ?n b' k" using less.prems(1) by (intro stuffed_accept [OF t free st]) simp
      moreover have "bitstuff_loop a t b c nb = Some (b', c + of_nat k)"
        using \<open>a AND _ = 0\<close> False r by (subst bitstuff_loop.simps) (simp add: Let_def)
      ultimately have "\<exists>b' k. bitstuff_loop a t b c nb = Some (b', c + of_nat k) \<and> stuffed b ?n b' k" by blast
      then show ?thesis by blast
    qed
  next
    case False
    then have "0 < ?t" by (cases "?t = 0") (auto simp: low_mask_def)
    then have nb: "nb \<noteq> 0" "0 < ?n" and n1: "unat (nb - 1) = ?n - 1" using t by (auto simp: unat_minus_one word_unat_eq_iff)
    have high: "a AND push_bit (unat (nb - 1)) 1 = 0 \<longleftrightarrow> \<not> run5 b (?n - 1)"
      using nb size less.prems(4) [of "?n - 1"] by (simp only: n1) (subst and_one_bit, simp_all)
    show ?thesis
    proof (cases "run5 b (?n - 1)")
      case True
      let ?b = "insert_stuff b nb"
      have e: "bitstuff_loop a t b c nb =
          (if nb \<le> 4 then Some (?b, c + 1) else bitstuff_loop (equal_runs ?b) (nb - 4) ?b (c + 1) (nb - 4))"
        using False True high by (subst bitstuff_loop.simps) (simp add: Let_def insert_stuff_def)
      show ?thesis
      proof (cases "nb \<le> 4")
        case small: True
        then have s: "?n \<le> 4" by (simp add: word_le_nat_alt)
        have "stuffed ?b (?n - 1 - (?n - 1)) ?b 0" by (rule stuffed_all) simp
        from stuffed_insert [OF nb(1) less.prems(1) True _ _ this] s nb(2)
        have "stuffed b ?n ?b 1" by simp
        with small show ?thesis unfolding e by (intro exI [of _ ?b] exI [of _ 1]) simp
      next
        case large: False
        then have l: "4 < ?n" "unat (nb - 4) = ?n - 4" by (auto simp: word_le_nat_alt unat_sub)
        have "\<exists>b' k. bitstuff_loop (equal_runs ?b) (nb - 4) ?b (c + 1) (nb - 4) = Some (b', (c + 1) + of_nat k) \<and>
            stuffed ?b (unat (nb - 4)) b' k"
          using l less.prems(1) by (intro less.hyps) (auto simp: word_unat_eq_iff bit_equal_runs)
        then obtain b' k where b': "bitstuff_loop (equal_runs ?b) (nb - 4) ?b (c + 1) (nb - 4) = Some (b', (c + 1) + of_nat k)"
            "stuffed ?b (?n - 1 - 3) b' k" unfolding l by auto
        then have "k + 1 \<le> (?n + 3) div 4" using l(1) by (auto simp: stuffed_def)
        from stuffed_insert [OF nb(1) less.prems(1) True _ _ b'(2) this] l(1)
        have "stuffed b ?n b' (k + 1)" by simp
        with b'(1) large show ?thesis unfolding e by (intro exI [of _ b'] exI [of _ "k + 1"]) (simp add: ac_simps)
      qed
    next
      case nr: False
      have "t \<noteq> 1"
      proof
        assume t1: "t = 1"
        then have "a AND push_bit (unat (nb - 1)) 1 \<noteq> 0" using False by simp
        with high nr show False by simp
      qed
      then have t2: "1 < ?t" using \<open>0 < ?t\<close> by (auto simp: word_unat_eq_iff)
      have "\<exists>b' k. bitstuff_loop a (t div 2) b c (nb - 1) = Some (b', c + of_nat k) \<and> stuffed b (unat (nb - 1)) b' k"
        using less.prems t2 t n1 nb by (intro less.hyps) (auto simp: word_le_nat_alt word_unat_eq_iff)
      then obtain b' k where b': "bitstuff_loop a (t div 2) b c (nb - 1) = Some (b', c + of_nat k)" "stuffed b (?n - 1) b' k"
        unfolding n1 by blast
      have "\<not> run5 b i" if "?n - 1 \<le> i" "i < ?n" for i
      proof -
        have "i = ?n - 1" using that by linarith
        with nr show ?thesis by simp
      qed
      then have one: "\<forall>i. ?n - 1 \<le> i \<and> i < ?n \<longrightarrow> \<not> run5 b i" by blast
      have "1 \<le> ?n" "?n + (?n + 3) div 4 \<le> 32" using nb(2) less.prems(1) by linarith+
      from stuffed_accept [OF this(1) one b'(2) this(2)] have "stuffed b ?n b' k" .
      moreover have "bitstuff_loop a t b c nb = Some (b', c + of_nat k)"
        using False high nr b'(1) by (subst bitstuff_loop.simps) (simp add: Let_def)
      ultimately show ?thesis by blast
    qed
  qed
qed

lemma bitstuff_stuffs:
  assumes "unat nb + (unat nb + 3) div 4 + 4 \<le> 32"
  shows "\<exists>b' k. bitstuff b nb = Some (b', nb + of_nat k) \<and> stuffed b (unat nb) b' k"
  unfolding bitstuff_def
proof (rule bitstuff_loop_stuffs [OF assms])
  show "bit (equal_runs b) i = run5 b i" if "i < unat nb" for i
    using that assms by (intro bit_equal_runs) linarith
qed auto

end
