(* ===== verification/Can2040Unstuff.thy ===== *)
theory Can2040Unstuff
  imports Can2040Stuff
begin

text \<open>
  Unstuffing in \<open>can2040.c\<close>: \<open>unstuf_pull_bits\<close>, which tries many bits at once, takes the same bits
  as the receiver's rule on lists, and that rule undoes the sender's.
\<close>

section \<open>The rule on lists\<close>

definition all5 :: "bool list \<Rightarrow> bool" where
  "all5 h \<longleftrightarrow> take 5 h = replicate 5 (hd h)"

text \<open>Taking \<open>c\<close> bits: the return code, the bits, and how many raw bits are left.\<close>

fun pull :: "bool list \<Rightarrow> bool list \<Rightarrow> nat \<Rightarrow> int \<times> bool list \<times> nat" where
  "pull h p 0 = (0, [], length p)"
| "pull h [] (Suc c) = (1, [], 0)"
| "pull h (x # p) (Suc c) =
     (if all5 h then if x = hd h then (if x then -1 else -2, [], length p) else pull (x # h) p (Suc c)
      else let (ret, g, n) = pull (x # h) p c in (ret, x # g, n))"

lemma all5_take: "take 5 h = take 5 h' \<Longrightarrow> h \<noteq> [] \<Longrightarrow> h' \<noteq> [] \<Longrightarrow> all5 h = all5 h'"
proof -
  assume a: "take 5 h = take 5 h'" "h \<noteq> []" "h' \<noteq> []"
  then have "hd h = hd h'" by (cases h; cases h') auto
  with a show ?thesis by (simp add: all5_def)
qed

lemma pull_take5: "take 5 h = take 5 h' \<Longrightarrow> h \<noteq> [] \<Longrightarrow> h' \<noteq> [] \<Longrightarrow> pull h p c = pull h' p c"
proof (induction h p c arbitrary: h' rule: pull.induct)
  case (3 h x p c)
  have t: "take 5 (x # h) = take 5 (x # h')"
  proof -
    have "take 4 h = take 4 h'" using arg_cong [OF 3(3), of "take 4"] by simp
    then show ?thesis by (simp add: take_Cons')
  qed
  have a: "all5 h = all5 h'" by (rule all5_take [OF 3(3-5)])
  have d: "hd h = hd h'" using 3(3-5) by (auto simp: neq_Nil_conv)
  show ?case using 3(1) [OF _ _ t] 3(2) [OF _ t] by (simp add: a d)
qed simp_all

section \<open>The unstuffer\<close>

definition bits_val :: "bool list \<Rightarrow> u32" where
  "bits_val g = foldl (\<lambda>w b. push_bit 1 w OR of_bool b) 0 g"

lemma bits_val_Nil [simp]: "bits_val [] = 0"
  by (simp add: bits_val_def)

lemma bits_val_snoc: "bits_val (g @ [b]) = push_bit 1 (bits_val g) OR of_bool b"
  by (simp add: bits_val_def)

lemma bits_val_append: "bits_val (g @ g') = push_bit (length g') (bits_val g) OR bits_val g'"
proof (induction g' rule: rev_induct)
  case (snoc b g')
  have "bits_val (g @ g' @ [b]) = push_bit 1 (push_bit (length g') (bits_val g) OR bits_val g') OR of_bool b"
    using bits_val_snoc [of "g @ g'"] snoc by simp
  also have "\<dots> = push_bit (length (g' @ [b])) (bits_val g) OR (push_bit 1 (bits_val g') OR of_bool b)"
    by (rule bit_word_eqI) (auto simp: bit_or_iff bit_push_bit_iff)
  finally show ?case by (simp only: bits_val_snoc)
qed simp

lemma bits_val_msb_bits: "bits_val (msb_bits n w) = take_bit n w"
proof (induction n)
  case (Suc n)
  have "bits_val (msb_bits (Suc n) w) = push_bit n (of_bool (bit w n)) OR take_bit n w"
    using bits_val_append [of "[bit w n]" "msb_bits n w"] Suc by (simp add: msb_bits_Suc bits_val_def)
  also have "\<dots> = take_bit (Suc n) w"
    by (rule bit_word_eqI) (auto simp: bit_simps less_Suc_eq)
  finally show ?case .
qed simp

text \<open>The unstuffer after taking bits: their values put below what it had.\<close>

definition took :: "bitunstuffer \<Rightarrow> nat \<Rightarrow> bool list \<Rightarrow> nat \<Rightarrow> bitunstuffer" where
  "took bu cu g n = bu\<lparr>count_stuff := of_nat n, count_unstuff := of_nat (cu - length g),
     unstuffed_bits := unstuffed_bits bu OR push_bit (cu - length g) (bits_val g)\<rparr>"

lemma pull_length: "pull h p c = (ret, g, n) \<Longrightarrow> length g \<le> c \<and> n \<le> length p"
  by (induction h p c arbitrary: ret g n rule: pull.induct) (fastforce split: if_splits prod.splits)+

text \<open>The next bit is a stuff bit, or a violation, when the five before it are equal.\<close>

lemma run5_all5: "k \<ge> 5 \<Longrightarrow> run5 b i \<longleftrightarrow> all5 (above k b i)"
proof -
  assume "5 \<le> k"
  then obtain j where k: "k = Suc j" "4 \<le> j" by (cases k) auto
  have "take 5 (above k b i) = bit b i # above 4 b (Suc i)"
    using k above_Suc [of 4 b i] by (simp add: take_above min_def)
  then show ?thesis by (simp add: all5_def run5_def k above_Suc numeral_eq_Suc)
qed

text \<open>Bits with no run before them are all taken.\<close>

lemma pull_accept:
  "t \<le> cs \<Longrightarrow> t \<le> c \<Longrightarrow> (\<forall>i. cs - t < i \<and> i \<le> cs \<longrightarrow> \<not> run5 sb i) \<Longrightarrow>
   pull (above 5 sb cs) (msb_bits cs sb) c =
     (let (ret, g, n) = pull (above 5 sb (cs - t)) (msb_bits (cs - t) sb) (c - t) in (ret, take t (msb_bits cs sb) @ g, n))"
proof (induction t arbitrary: cs c)
  case 0
  then show ?case by (simp split: prod.split)
next
  case (Suc t)
  then obtain cs' c' where s: "cs = Suc cs'" "c = Suc c'" by (metis Suc_le_D)
  have "\<not> run5 sb cs" using Suc.prems by simp
  then have "\<not> all5 (above 5 sb cs)" using run5_all5 [of 5 sb cs] by simp
  then have "pull (above 5 sb cs) (msb_bits cs sb) c =
      (let (ret, g, n) = pull (bit sb cs' # above 5 sb cs) (msb_bits cs' sb) c' in (ret, bit sb cs' # g, n))"
    by (simp add: s msb_bits_Suc)
  also have "pull (bit sb cs' # above 5 sb cs) (msb_bits cs' sb) c' = pull (above 5 sb cs') (msb_bits cs' sb) c'"
  proof (rule pull_take5)
    have "above 5 sb cs' = bit sb cs' # above 4 sb cs" using above_Suc [of 4 sb cs'] s by simp
    then show "take 5 (bit sb cs' # above 5 sb cs) = take 5 (above 5 sb cs')" by (simp add: take_Cons' take_above)
    show "above 5 sb cs' \<noteq> []" by (metis length_above list.size(3) zero_neq_numeral)
  qed simp
  also have "\<dots> = (let (ret, g, n) = pull (above 5 sb (cs' - t)) (msb_bits (cs' - t) sb) (c' - t) in (ret, take t (msb_bits cs' sb) @ g, n))"
    using Suc.prems s by (intro Suc.IH) auto
  finally show ?case by (simp add: s msb_bits_Suc split: prod.splits)
qed

lemma took_took:
  "length g + length g' \<le> cu \<Longrightarrow> took (took bu cu g n) (cu - length g) g' n' = took bu cu (g @ g') n'"
proof -
  assume a: "length g + length g' \<le> cu"
  then have "push_bit (cu - length g) (bits_val g) = push_bit (cu - length g - length g') (push_bit (length g') (bits_val g))"
    by (simp add: push_bit_push_bit)
  with a show ?thesis by (simp add: took_def bits_val_append push_bit_or or.assoc)
qed

lemma took_Nil: "count_unstuff bu = of_nat cu \<Longrightarrow> took bu cu [] n = bu\<lparr>count_stuff := of_nat n\<rparr>"
  by (simp add: took_def)

lemma low_mask_take: "unat n \<le> 32 \<Longrightarrow> w AND low_mask n = take_bit (unat n) w"
  by (rule bit_word_eqI) (auto simp: bit_and_iff bit_low_mask bit_take_bit_iff)

lemma unstuf_loop_takes:
  "\<lbrakk> count_stuff bu = cs; count_unstuff bu = cu; t \<noteq> 0; t \<le> cs; t \<le> cu; unat cs \<le> 26; unat cu \<le> 32;
     pull (above 5 sb (unat cs)) (msb_bits (unat cs) sb) (unat cu) = (ret, g, n) \<rbrakk> \<Longrightarrow>
   unstuf_loop sb (equal_runs sb) t cs cu bu = Some (ret, took bu (unat cu) g n)"
proof (induction "unat cs" arbitrary: bu cs cu t ret g n rule: less_induct)
  case less
  let ?cs = "unat cs" and ?cu = "unat cu" and ?t = "unat t"
  have t: "?t \<le> ?cs" "?t \<le> ?cu" "0 < ?t" using less.prems(3-5) by (auto simp: word_le_nat_alt word_unat_eq_iff)
  have sub: "unat (cs - t) = ?cs - ?t" "unat (cu - t) = ?cu - ?t" using less.prems(4,5) by (simp_all add: unat_sub)
  have one: "unat (cs - 1) = ?cs - 1" "unat (cu - 1) = ?cu - 1" and nz: "cs \<noteq> 0" "cu \<noteq> 0"
    using t by (auto simp: unat_minus_one word_unat_eq_iff)
  have again: "unstuf_loop sb (equal_runs sb) (if cs' > cu' then cu' else cs') cs' cu' b = Some (ret', took b (unat cu') g' n')"
    if "unat cs' < ?cs" "unat cu' \<le> ?cu" "cs' \<noteq> 0" "cu' \<noteq> 0" "count_stuff b = cs'" "count_unstuff b = cu'"
      "pull (above 5 sb (unat cs')) (msb_bits (unat cs') sb) (unat cu') = (ret', g', n')" for cs' cu' b ret' g' n'
    by (rule less.hyps) (use that less.prems(6,7) in \<open>auto simp: word_less_nat_alt word_le_nat_alt\<close>)
  have rb: "bit (equal_runs sb) i = run5 sb i" if "i \<le> ?cs" for i using that less.prems(6) by (intro bit_equal_runs) linarith
  have win: "equal_runs sb AND push_bit (unat (cs + 1 - t)) (low_mask t) = 0 \<longleftrightarrow> (\<forall>i. ?cs - ?t < i \<and> i \<le> ?cs \<longrightarrow> \<not> run5 sb i)"
  proof -
    have "unat (cs + 1) = ?cs + 1" using less.prems(6) by (simp add: unat_word_ariths)
    then have "unat (cs + 1 - t) = ?cs + 1 - ?t" using t by (subst unat_sub) (auto simp: word_le_nat_alt)
    then show ?thesis using no_runs_window [of "?cs + 1" t "equal_runs sb" sb] less.prems(6) t rb by auto
  qed
  show ?case
  proof (cases "equal_runs sb AND push_bit (unat (cs + 1 - t)) (low_mask t) = 0")
    case True
    let ?bu = "bu\<lparr>count_unstuff := cu - t, count_stuff := cs - t,
       unstuffed_bits := unstuffed_bits bu OR push_bit (unat (cu - t)) (drop_bit (unat (cs - t)) sb AND low_mask t)\<rparr>"
    have e: "unstuf_loop sb (equal_runs sb) t cs cu bu =
        (if cu - t = 0 then Some (0, ?bu) else if cs - t = 0 then Some (1, ?bu)
         else unstuf_loop sb (equal_runs sb) (if cs - t > cu - t then cu - t else cs - t) (cs - t) (cu - t) ?bu)"
      by (subst unstuf_loop.simps) (simp add: True Let_def)
    let ?g = "take ?t (msb_bits ?cs sb)"
    have lg: "length ?g = ?t" using t by simp
    have bu: "?bu = took bu ?cu ?g (?cs - ?t)"
    proof -
      have "bits_val ?g = drop_bit (?cs - ?t) sb AND low_mask t"
        using less.prems(7) t by (simp add: take_msb_bits bits_val_msb_bits low_mask_take)
      moreover have "of_nat (?cs - ?t) = cs - t" "of_nat (?cu - ?t) = cu - t"
        by (simp_all add: sub [symmetric])
      moreover have "min ?cs ?t = ?t" using t by simp
      ultimately show ?thesis by (simp add: took_def sub)
    qed
    obtain r' g' n' where p': "pull (above 5 sb (?cs - ?t)) (msb_bits (?cs - ?t) sb) (?cu - ?t) = (r', g', n')"
      by (metis surj_pair)
    have g: "ret = r'" "g = ?g @ g'" "n = n'"
      using pull_accept [of ?t ?cs ?cu sb] t True win less.prems(8) p' by auto
    show ?thesis
    proof (cases "cu - t = 0 \<or> cs - t = 0")
      case True
      then have z: "?cu - ?t = 0 \<or> ?cs - ?t = 0" by (auto simp: sub [symmetric])
      show ?thesis
      proof (cases "?cu - ?t = 0")
        case True
        then have "r' = 0" "g' = []" "n' = ?cs - ?t" using p' by simp_all
        with True show ?thesis unfolding e bu using g by (simp add: word_unat_eq_iff sub)
      next
        case False
        with z have "r' = 1" "g' = []" "n' = ?cs - ?t" using p' by (cases "?cu - ?t"; simp)+
        with z False show ?thesis unfolding e bu using g by (simp add: word_unat_eq_iff sub)
      qed
    next
      case False
      have "unstuf_loop sb (equal_runs sb) (if cs - t > cu - t then cu - t else cs - t) (cs - t) (cu - t) ?bu =
          Some (r', took ?bu (unat (cu - t)) g' n')"
        using False t p' by (intro again) (simp_all add: sub)
      moreover have "length ?g + length g' \<le> ?cu" using pull_length [OF p'] t lg by linarith
      from took_took [OF this, of bu "?cs - ?t" n', unfolded lg]
      have "took ?bu (unat (cu - t)) g' n' = took bu ?cu (?g @ g') n'" unfolding bu unfolding sub .
      ultimately show ?thesis unfolding e using False g by simp
    qed
  next
    case False
    let ?x = "bit sb (?cs - 1)" and ?b = "bu\<lparr>count_stuff := cs - 1\<rparr>"
    have rcs: "equal_runs sb AND push_bit ?cs 1 = 0 \<longleftrightarrow> \<not> run5 sb ?cs"
      using and_one_bit [of ?cs "equal_runs sb"] rb [of ?cs] less.prems(6) by simp
    have rcs1: "equal_runs sb AND push_bit (unat (cs - 1)) 1 = 0 \<longleftrightarrow> \<not> run5 sb (?cs - 1)"
      using and_one_bit [of "?cs - 1" "equal_runs sb"] rb [of "?cs - 1"] less.prems(6) by (simp add: one)
    have xbit: "sb AND push_bit (unat (cs - 1)) 1 = 0 \<longleftrightarrow> \<not> ?x"
      using and_one_bit [of "?cs - 1" sb] less.prems(6) by (simp add: one)
    have e: "unstuf_loop sb (equal_runs sb) t cs cu bu =
        (if equal_runs sb AND push_bit ?cs 1 \<noteq> 0 then
           if equal_runs sb AND push_bit (unat (cs - 1)) 1 \<noteq> 0
           then Some (if sb AND push_bit (unat (cs - 1)) 1 \<noteq> 0 then -1 else -2, ?b)
           else if cs - 1 = 0 then Some (1, ?b)
           else unstuf_loop sb (equal_runs sb) (if cs - 1 > cu then cu else cs - 1) (cs - 1) cu ?b
         else unstuf_loop sb (equal_runs sb) (t div 2) (cs - 1) (cu - 1)
           (?b\<lparr>count_unstuff := cu - 1,
              unstuffed_bits := unstuffed_bits ?b OR push_bit (unat (cu - 1)) (drop_bit (unat (cs - 1)) sb AND 1)\<rparr>))"
      by (subst unstuf_loop.simps) (simp add: False Let_def)
    obtain cs' cu' where s: "?cs = Suc cs'" "?cu = Suc cu'" using t by (metis Suc_le_D Suc_leI le_trans)
    have on: "of_nat (?cs - 1) = cs - 1" "of_nat (?cu - 1) = cu - 1" by (simp_all only: one [symmetric]) simp_all
    have bT: "?b = took bu ?cu [] (?cs - 1)"
      using less.prems(2) by (simp add: took_def on [simplified])
    show ?thesis
    proof (cases "run5 sb ?cs")
      case True
      then have a5: "all5 (above 5 sb ?cs)" using run5_all5 [of 5 sb ?cs] by simp
      have top: "hd (above 5 sb ?cs) = bit sb ?cs" using above_Suc [of 4 sb ?cs] by simp
      have viol: "run5 sb (?cs - 1) \<longleftrightarrow> ?x = bit sb ?cs"
        using True s by (auto simp: run5_def above_Suc numeral_eq_Suc)
      have p: "pull (above 5 sb ?cs) (msb_bits ?cs sb) ?cu =
          (if ?x = bit sb ?cs then (if ?x then -1 else -2, [], cs') else pull (above 5 sb cs') (msb_bits cs' sb) ?cu)"
      proof -
        have "pull (?x # above 5 sb ?cs) (msb_bits cs' sb) (Suc cu') = pull (above 5 sb cs') (msb_bits cs' sb) (Suc cu')"
        proof (rule pull_take5)
          have "above 5 sb cs' = bit sb cs' # above 4 sb ?cs" using above_Suc [of 4 sb cs'] s by simp
          then show "take 5 (?x # above 5 sb ?cs) = take 5 (above 5 sb cs')" using s by (simp add: take_Cons' take_above)
          show "above 5 sb cs' \<noteq> []" by (metis length_above list.size(3) zero_neq_numeral)
        qed simp
        then show ?thesis using a5 top
          by (simp only: s diff_Suc_1 msb_bits_Suc append_Cons append_Nil pull.simps if_True length_msb_bits)
      qed
      show ?thesis
      proof (cases "?x = bit sb ?cs")
        case viol': True
        then have "ret = (if ?x then -1 else -2)" "g = []" "n = cs'" using p less.prems(8) by auto
        then show ?thesis unfolding e using True viol viol' rcs rcs1 xbit s bT by simp
      next
        case False
        then have p': "pull (above 5 sb cs') (msb_bits cs' sb) ?cu = (ret, g, n)" using p less.prems(8) by simp
        show ?thesis
        proof (cases "cs - 1 = 0")
          case True
          then have "cs' = 0" using one(1) s by simp
          then have "ret = 1" "g = []" "n = 0" using p' s by simp_all
          then show ?thesis unfolding e using True False viol rcs rcs1 \<open>run5 sb ?cs\<close> bT s \<open>cs' = 0\<close> by simp
        next
          case ncs: False
          have "unstuf_loop sb (equal_runs sb) (if cs - 1 > cu then cu else cs - 1) (cs - 1) cu ?b = Some (ret, took ?b ?cu g n)"
            using ncs nz s p' less.prems(2) by (intro again) (simp_all add: one)
          moreover have "took ?b ?cu g n = took bu ?cu g n"
            unfolding bT using took_took [of "[]" g ?cu bu "?cs - 1" n] pull_length [OF p'] by simp
          ultimately show ?thesis unfolding e using ncs False viol rcs rcs1 \<open>run5 sb ?cs\<close> by simp
        qed
      qed
    next
      case nr: False
      have "t \<noteq> 1"
      proof
        assume "t = 1"
        with False have "equal_runs sb AND push_bit ?cs 1 \<noteq> 0" by simp
        with rcs nr show False by simp
      qed
      then have t2: "1 < ?t" using t(3) by (auto simp: word_unat_eq_iff)
      let ?b2 = "?b\<lparr>count_unstuff := cu - 1,
              unstuffed_bits := unstuffed_bits ?b OR push_bit (unat (cu - 1)) (drop_bit (unat (cs - 1)) sb AND 1)\<rparr>"
      have b2: "?b2 = took bu ?cu [?x] (?cs - 1)"
      proof -
        have "drop_bit (unat (cs - 1)) sb AND 1 = bits_val [?x]"
          by (rule bit_word_eqI) (auto simp: one bits_val_def bit_simps)
        then show ?thesis using on by (simp add: took_def one)
      qed
      obtain r' g' n' where p': "pull (above 5 sb (?cs - 1)) (msb_bits (?cs - 1) sb) (?cu - 1) = (r', g', n')"
        by (metis surj_pair)
      have "take 1 (msb_bits ?cs sb) = [?x]" using s by (simp add: msb_bits_Suc)
      moreover have "\<forall>i. ?cs - 1 < i \<and> i \<le> ?cs \<longrightarrow> \<not> run5 sb i"
      proof (intro allI impI)
        fix i assume "?cs - 1 < i \<and> i \<le> ?cs"
        then have "i = ?cs" by linarith
        with nr show "\<not> run5 sb i" by simp
      qed
      ultimately have g: "ret = r'" "g = ?x # g'" "n = n'"
        using pull_accept [of 1 ?cs ?cu sb] t less.prems(8) p' by auto
      have "unstuf_loop sb (equal_runs sb) (t div 2) (cs - 1) (cu - 1) ?b2 = Some (r', took ?b2 (unat (cu - 1)) g' n')"
        by (rule less.hyps) (use t2 t p' less.prems(6,7) in \<open>auto simp: one word_le_nat_alt word_unat_eq_iff\<close>)
      moreover have "length [?x] + length g' \<le> ?cu" using pull_length [OF p'] t by (simp, linarith)
      from took_took [OF this, of bu "?cs - 1" n']
      have "took ?b2 (unat (cu - 1)) g' n' = took bu ?cu (?x # g') n'" unfolding b2 unfolding one by simp
      ultimately show ?thesis unfolding e using nr rcs g by simp
    qed
  qed
qed

lemma unstuf_pull_takes:
  assumes "unat (count_stuff bu) \<le> 26" "count_unstuff bu \<noteq> 0" "unat (count_unstuff bu) \<le> 32"
    and "pull (above 5 (stuffed_bits bu) (unat (count_stuff bu))) (msb_bits (unat (count_stuff bu)) (stuffed_bits bu))
      (unat (count_unstuff bu)) = (ret, g, n)"
  shows "unstuf_pull_bits bu = Some (ret, took bu (unat (count_unstuff bu)) g n)"
proof (cases "count_stuff bu = 0")
  case True
  obtain c where "unat (count_unstuff bu) = Suc c" using assms(2) by (cases "unat (count_unstuff bu)") (auto simp: word_unat_eq_iff)
  with assms(4) True have "ret = 1" "g = []" "n = 0" by simp_all
  with True show ?thesis by (simp add: unstuf_pull_bits_def took_def)
next
  case False
  have "unstuf_loop (stuffed_bits bu) (equal_runs (stuffed_bits bu))
      (if count_stuff bu > count_unstuff bu then count_unstuff bu else count_stuff bu) (count_stuff bu) (count_unstuff bu) bu =
      Some (ret, took bu (unat (count_unstuff bu)) g n)"
    using assms False by (intro unstuf_loop_takes) auto
  with False show ?thesis by (simp add: unstuf_pull_bits_def Let_def)
qed

section \<open>Taking from a stream\<close>

lemma pull_append:
  "pull h p c = (ret, g, n) \<Longrightarrow>
   pull h (p @ q) c =
     (if ret = 1 then let (ret', g', n') = pull (rev p @ h) q (c - length g) in (ret', g @ g', n')
      else (ret, g, n + length q))"
proof (induction h p c arbitrary: ret g n rule: pull.induct)
  case (2 h c)
  then show ?case by (auto split: prod.split)
next
  case (3 h x p c)
  show ?case
  proof (cases "all5 h")
    case True
    with 3 show ?thesis by (auto split: if_splits)
  next
    case False
    obtain r g1 n1 where p: "pull (x # h) p c = (r, g1, n1)" by (metis surj_pair)
    with False 3 show ?thesis by (auto split: prod.splits)
  qed
qed simp

text \<open>What a sender that stuffs sends after the history \<open>h\<close>: the bit it owes, then the rest.\<close>

definition owed :: "bool list \<Rightarrow> bool list \<Rightarrow> bool list" where
  "owed h s = (if all5 h then (\<not> hd h) # stuff_bits ((\<not> hd h) # h) s else stuff_bits h s)"

lemma all5_Cons: "all5 (x # h) \<longleftrightarrow> take 4 h = replicate 4 x"
  by (auto simp: all5_def numeral_eq_Suc)

lemma not_all5_stuff: "all5 h \<Longrightarrow> \<not> all5 ((\<not> hd h) # h)"
proof -
  assume "all5 h"
  then obtain a t where h: "h = a # t" by (cases h) (auto simp: all5_def)
  show "\<not> all5 ((\<not> hd h) # h)" unfolding all5_Cons h by (simp add: numeral_eq_Suc)
qed

lemma owed_all5: "all5 h \<Longrightarrow> owed h s = (\<not> hd h) # owed ((\<not> hd h) # h) s"
  using not_all5_stuff [of h] by (simp add: owed_def)

lemma owed_Nil: "\<not> all5 h \<Longrightarrow> owed h [] = []"
  by (simp add: owed_def)

lemma owed_Cons: "\<not> all5 h \<Longrightarrow> owed h (x # s) = x # owed (x # h) s"
  by (simp add: owed_def all5_Cons)

lemma pull_owed:
  "\<exists>u. owed h (xs @ ys) = u @ owed (rev u @ h) ys \<and>
     (\<forall>r. pull h (owed h (xs @ ys) @ r) (length xs) = (0, xs, length (owed (rev u @ h) ys @ r)))"
proof (induction xs arbitrary: h)
  case Nil
  show ?case by (rule exI [of _ "[]"]) simp
next
  case (Cons x xs)
  have step: "\<exists>u. owed h (x # xs @ ys) = u @ owed (rev u @ h) ys \<and>
     (\<forall>r. pull h (owed h (x # xs @ ys) @ r) (Suc (length xs)) = (0, x # xs, length (owed (rev u @ h) ys @ r)))"
    if "\<not> all5 h" for h
  proof -
    obtain u where "owed (x # h) (xs @ ys) = u @ owed (rev u @ x # h) ys"
        "\<And>r. pull (x # h) (owed (x # h) (xs @ ys) @ r) (length xs) = (0, xs, length (owed (rev u @ x # h) ys @ r))"
      using Cons [of "x # h"] by blast
    then show ?thesis by (intro exI [of _ "x # u"]) (simp add: owed_Cons [OF that] that)
  qed
  show ?case
  proof (cases "all5 h")
    case True
    from step [OF not_all5_stuff [OF True]] obtain u where
      "owed ((\<not> hd h) # h) (x # xs @ ys) = u @ owed (rev u @ (\<not> hd h) # h) ys"
      "\<And>r. pull ((\<not> hd h) # h) (owed ((\<not> hd h) # h) (x # xs @ ys) @ r) (Suc (length xs)) =
         (0, x # xs, length (owed (rev u @ (\<not> hd h) # h) ys @ r))" by blast
    then show ?thesis by (intro exI [of _ "(\<not> hd h) # u"]) (simp add: owed_all5 [OF True] True)
  next
    case False
    from step [OF this] show ?thesis by simp
  qed
qed

text \<open>After the last stuffed bit comes the delimiter, which is not stuffed.\<close>

lemma pull_delim:
  "\<exists>u. owed h xs @ [True] = u \<and> (\<forall>r. pull h (u @ r) (Suc (length xs)) = (0, xs @ [True], length r))"
proof (induction xs arbitrary: h)
  case Nil
  show ?case
    by (cases "all5 h") (use not_all5_stuff [of h] in \<open>simp_all add: owed_all5 owed_Nil\<close>)
next
  case (Cons x xs)
  show ?case
  proof (cases "all5 h")
    case True
    then show ?thesis using not_all5_stuff [OF True] Cons by (auto simp: owed_all5 owed_Cons)
  next
    case False
    then show ?thesis using Cons by (auto simp: owed_Cons)
  qed
qed

end
