(* ===== verification/Can2040Tx.thy ===== *)
theory Can2040Tx
  imports Can2040Stuff StmCanProps
begin

text \<open>
  What \<open>can2040_transmit\<close> queues is the frame of the CAN standard: start of frame, header, data and CRC,
  stuffed by the rule on lists, then the CRC delimiter, padded with recessive bits.
\<close>

section \<open>The frame on the wire\<close>

definition frame_data_len :: "can_frame \<Rightarrow> nat" where
  "frame_data_len f = (if fr_rtr f then 0 else min 8 (unat (fr_dlc f)))"

definition frame_head :: "can_frame \<Rightarrow> bool list" where
  "frame_head f =
     (if fr_ide f then False # msb_bits 11 (drop_bit 18 (fr_id f)) @ [True, True] @ msb_bits 18 (fr_id f)
      else False # msb_bits 11 (fr_id f)) @
     [fr_rtr f, False, False] @ msb_bits 4 (fr_dlc f)"

definition byte_bits :: "u8 \<Rightarrow> bool list" where
  "byte_bits v = msb_bits 8 (ucast v)"

definition frame_payload :: "can_frame \<Rightarrow> bool list" where
  "frame_payload f = frame_head f @ concat (map byte_bits (take (frame_data_len f) (fr_data f)))"

definition frame_bits :: "can_frame \<Rightarrow> bool list" where
  "frame_bits f = frame_payload f @ msb_bits 15 (crc15_bits 0 (frame_payload f))"

definition wire_bits :: "can_frame \<Rightarrow> bool list" where
  "wire_bits f = stuff_bits [] (frame_bits f) @ [True]"

section \<open>The bit buffer\<close>

text \<open>Bit \<open>j\<close> of the stream in the words, the highest bit of a word first.\<close>

definition buf_bit :: "u32 list \<Rightarrow> nat \<Rightarrow> bool" where
  "buf_bit buf j = bit (buf ! (j div 32)) (31 - j mod 32)"

text \<open>The history the transmitter starts with, \<open>prev_stuffed = 1\<close>.\<close>

definition start_hist :: "bool list" where
  "start_hist = [True, False, False, False]"

definition buf_holds :: "u32 list \<Rightarrow> bool list \<Rightarrow> bool" where
  "buf_holds buf S \<longleftrightarrow> length buf = 5 \<and> length S \<le> 160 \<and> (\<forall>j < 160. buf_bit buf j \<longleftrightarrow> j < length S \<and> S ! j)"

text \<open>A word whose bits above the low \<open>n\<close> are bits of the stream already, or its beginning.\<close>

definition follows :: "u32 \<Rightarrow> nat \<Rightarrow> bool list \<Rightarrow> bool" where
  "follows w n S \<longleftrightarrow> (\<forall>i. n + i < 32 \<longrightarrow> bit w (n + i) \<longrightarrow> i \<le> length S \<and> (i < length S \<longrightarrow> S ! (length S - 1 - i)))"

definition bs_inv :: "bitstuffer \<Rightarrow> bool list \<Rightarrow> bool" where
  "bs_inv bs S \<longleftrightarrow> buf_holds (bs_buf bs) S \<and> bitpos bs = of_nat (length S) \<and> follows (prev_stuffed bs) 0 S \<and>
     above 4 (prev_stuffed bs) 0 = take 4 (rev S @ start_hist)"

lemma nth_msb_bits: "i < n \<Longrightarrow> msb_bits n w ! i = bit w (n - 1 - i)"
  by (simp add: msb_bits_def rev_nth)

text \<open>Words that the data are written to: where bit \<open>j\<close> of the stream comes from.\<close>

lemma pushraw_bits:
  assumes S: "buf_holds buf S" and n: "n \<le> 32" "length S + n \<le> 160" and f: "follows d n S"
    and new: "\<And>j. j < 160 \<Longrightarrow> buf_bit buf' j \<longleftrightarrow> buf_bit buf j \<or>
      (32 * (length S div 32) \<le> j \<and> j < length S + n \<and> length S + n - 1 - j < 32 \<and> bit d (length S + n - 1 - j))"
    and len: "length buf' = 5"
  shows "buf_holds buf' (S @ msb_bits n d)"
proof -
  have "buf_bit buf' j \<longleftrightarrow> j < length (S @ msb_bits n d) \<and> (S @ msb_bits n d) ! j" if j: "j < 160" for j
  proof -
    consider "j < length S" | "length S \<le> j" "j < length S + n" | "length S + n \<le> j" by linarith
    then show ?thesis
    proof cases
      case 1
      let ?i = "length S - 1 - j"
      have "bit d (length S + n - 1 - j) \<Longrightarrow> length S + n - 1 - j < 32 \<Longrightarrow> S ! j"
        using f [unfolded follows_def, rule_format, of ?i] 1 by (simp add: algebra_simps)
      with 1 S j show ?thesis by (auto simp: new buf_holds_def nth_append)
    next
      case 2
      have "32 * (length S div 32) \<le> j" using 2(1) by (meson div_times_less_eq_dividend le_trans mult.commute times_div_less_eq_dividend)
      with 2 S j n show ?thesis by (auto simp: new buf_holds_def nth_append nth_msb_bits add.commute [of n])
    next
      case 3
      with S j show ?thesis by (auto simp: new buf_holds_def)
    qed
  qed
  with len n S show ?thesis by (simp add: buf_holds_def)
qed

lemma one_word_pos:
  fixes j p q r u n :: nat
  assumes "j = 32 * q + r" "p = 32 * q + u" "r < 32" "u < 32" "n \<le> 32 - u" "0 < n"
  shows "32 - u - n \<le> 31 - r \<longleftrightarrow> j < p + n" "j < p + n \<Longrightarrow> 31 - r - (32 - u - n) = p + n - 1 - j"
    "32 * q \<le> j" "j < p + n \<Longrightarrow> p + n - 1 - j < 32"
  using assms(3-) unfolding assms(1,2) by (simp_all; arith)+

lemma first_word_pos:
  fixes j p q r u n :: nat
  assumes "j = 32 * q + r" "p = 32 * q + u" "r < 32" "u < 32" "32 - u < n" "n \<le> 32"
  shows "n - (32 - u) + (31 - r) = p + n - 1 - j" "j < p + n" "32 * q \<le> j"
  using assms(3-) unfolding assms(1,2) by (simp_all; arith)+

lemma second_word_pos:
  fixes j p q r u n :: nat
  assumes "j = 32 * (q + 1) + r" "p = 32 * q + u" "r < 32" "u < 32" "32 - u < n" "n \<le> 32"
  shows "32 - (n - (32 - u)) \<le> 31 - r \<longleftrightarrow> j < p + n" "j < p + n \<Longrightarrow> 31 - r - (32 - (n - (32 - u))) = p + n - 1 - j"
    "32 * q \<le> j" "j < p + n \<Longrightarrow> p + n - 1 - j < 32"
  using assms(3-) unfolding assms(1,2) by (simp_all; arith)+

lemma last_word_pos:
  fixes j p r n :: nat
  assumes "j = 32 * (n - 1) + r" "r < 32" "0 < n" "p \<le> n * 32" "n * 32 - p < 32"
  shows "31 - r < n * 32 - p \<longleftrightarrow> p \<le> j"
  using assms by (cases n) (simp, simp, arith)

lemma word_of_pos: "(j :: nat) div 32 = q \<Longrightarrow> j = 32 * q + j mod 32"
  using mult_div_mod_eq [of 32 j] by simp

lemma bs_pushraw_holds:
  assumes S: "buf_holds (bs_buf bs) S" and p: "bitpos bs = of_nat (length S)"
    and n: "0 < n" "n \<le> 32" "length S + n \<le> 160" and f: "follows d n S"
  shows "buf_holds (bs_buf (bs_pushraw d (of_nat n) bs)) (S @ msb_bits n d)"
    and "bitpos (bs_pushraw d (of_nat n) bs) = of_nat (length S + n)"
    and "prev_stuffed (bs_pushraw d (of_nat n) bs) = prev_stuffed bs"
proof -
  let ?p = "length S" and ?buf = "bs_buf bs"
  let ?wp = "?p div 32" and ?u = "?p mod 32"
  have len: "length ?buf = 5" using S by (simp add: buf_holds_def)
  have w: "unat (of_nat ?p :: u32) = ?p" using n by (simp add: unat_of_nat_u32)
  have wp: "unat (of_nat ?p div 32 :: u32) = ?wp" by (simp add: unat_div w)
  have u: "unat (of_nat ?p mod 32 :: u32) = ?u" by (simp add: unat_mod w)
  have u32: "?u < 32" by simp
  have av: "unat (32 - of_nat ?p mod 32 :: u32) = 32 - ?u"
    using u u32 by (subst unat_sub) (auto simp: word_le_nat_alt)
  have nn: "unat (of_nat n :: u32) = n" using n by (simp add: unat_of_nat_u32)
  have le: "(32 - of_nat ?p mod 32 :: u32) \<ge> of_nat n \<longleftrightarrow> n \<le> 32 - ?u" by (simp add: word_le_nat_alt av nn)
  have b31: "31 - x < (32 :: nat)" for x by simp
  have wp5: "?wp < 5" using n by (simp add: less_mult_imp_div_less)
  show "bitpos (bs_pushraw d (of_nat n) bs) = of_nat (length S + n)" by (simp add: bs_pushraw_def Let_def p)
  show "prev_stuffed (bs_pushraw d (of_nat n) bs) = prev_stuffed bs" by (simp add: bs_pushraw_def Let_def)
  show "buf_holds (bs_buf (bs_pushraw d (of_nat n) bs)) (S @ msb_bits n d)"
  proof (cases "n \<le> 32 - ?u")
    case True
    have b: "bs_buf (bs_pushraw d (of_nat n) bs) = ?buf[?wp := ?buf ! ?wp OR push_bit (32 - ?u - n) d]"
      using True le by (simp add: bs_pushraw_def Let_def p wp unat_sub av nn)
    have "buf_bit (bs_buf (bs_pushraw d (of_nat n) bs)) j \<longleftrightarrow> buf_bit ?buf j \<or>
      (32 * ?wp \<le> j \<and> j < ?p + n \<and> ?p + n - 1 - j < 32 \<and> bit d (?p + n - 1 - j))" if j: "j < 160" for j
    proof (cases "j div 32 = ?wp")
      case same: True
      note pos = one_word_pos [OF word_of_pos [OF same] word_of_pos [OF refl, of ?p] _ u32 True n(1)]
      show ?thesis unfolding b buf_bit_def using same len wp5 pos b31
        by (auto simp: bit_or_iff bit_push_bit_iff)
    next
      case other: False
      have "\<not> (32 * ?wp \<le> j \<and> j < ?p + n)"
      proof
        assume a: "32 * ?wp \<le> j \<and> j < ?p + n"
        have "?p = 32 * ?wp + ?u" using mult_div_mod_eq [of 32 ?p] by simp
        then have "j < 32 * ?wp + 32" using a True u32 by linarith
        then have "j div 32 = ?wp" using a by (intro div_nat_eqI) (simp_all add: mult.commute)
        with other show False by simp
      qed
      then show ?thesis unfolding b buf_bit_def using other by auto
    qed
    from pushraw_bits [OF S n(2,3) f this] show ?thesis by (simp add: b len)
  next
    case False
    then have x: "unat (of_nat n - (32 - of_nat ?p mod 32) :: u32) = n - (32 - ?u)" "unat (32 - (of_nat n - (32 - of_nat ?p mod 32)) :: u32) = 32 - (n - (32 - ?u))"
      using n u32 by (subst unat_sub; simp add: word_le_nat_alt nn av unat_sub)+
    have b: "bs_buf (bs_pushraw d (of_nat n) bs) =
        ?buf[?wp := ?buf ! ?wp OR drop_bit (n - (32 - ?u)) d,
             ?wp + 1 := ?buf ! (?wp + 1) OR push_bit (32 - (n - (32 - ?u))) d]"
      using False le x by (simp add: bs_pushraw_def Let_def p wp)
    have wp4: "?wp + 1 < 5"
    proof -
      have "?p = 32 * ?wp + ?u" using mult_div_mod_eq [of 32 ?p] by simp
      then show ?thesis using False n(3) by linarith
    qed
    have u': "32 - ?u < n" using False by simp
    have "buf_bit (bs_buf (bs_pushraw d (of_nat n) bs)) j \<longleftrightarrow> buf_bit ?buf j \<or>
      (32 * ?wp \<le> j \<and> j < ?p + n \<and> ?p + n - 1 - j < 32 \<and> bit d (?p + n - 1 - j))" if j: "j < 160" for j
    proof -
      consider "j div 32 = ?wp" | "j div 32 = ?wp + 1" | "j div 32 \<noteq> ?wp" "j div 32 \<noteq> ?wp + 1" by blast
      then show ?thesis
      proof cases
        case 1
        note pos = first_word_pos [OF word_of_pos [OF 1] word_of_pos [OF refl, of ?p] _ u32 u' n(2)]
        have "buf_bit (bs_buf (bs_pushraw d (of_nat n) bs)) j \<longleftrightarrow>
            buf_bit ?buf j \<or> bit d (n - (32 - ?u) + (31 - j mod 32))"
          unfolding b buf_bit_def using 1 len wp4 by (simp add: bit_or_iff bit_drop_bit_eq)
        moreover have "bit d i \<Longrightarrow> i < 32" for i by (auto dest: bit_imp_le_length)
        ultimately show ?thesis using pos(2,3) by (simp only: pos(1)) blast
      next
        case 2
        have "j mod 32 < 32" by simp
        note pos = second_word_pos [OF word_of_pos [OF 2] word_of_pos [OF refl, of ?p] this u32 u' n(2)]
        have "buf_bit (bs_buf (bs_pushraw d (of_nat n) bs)) j \<longleftrightarrow> buf_bit ?buf j \<or>
            (32 - (n - (32 - ?u)) \<le> 31 - j mod 32 \<and> bit d (31 - j mod 32 - (32 - (n - (32 - ?u)))))"
          unfolding b buf_bit_def using 2 len wp4 b31 by (simp add: bit_or_iff bit_push_bit_iff)
        then show ?thesis unfolding pos(1) using pos(2-4) by (cases "j < ?p + n") (simp_all only: simp_thms)
      next
        case 3
        have "\<not> (32 * ?wp \<le> j \<and> j < ?p + n)"
        proof
          assume a: "32 * ?wp \<le> j \<and> j < ?p + n"
          have "?p = 32 * ?wp + ?u" by (rule word_of_pos) simp
          then have "j < (?wp + 2) * 32" using a n(2) u32 unfolding distrib_right by linarith
          then have "j div 32 < ?wp + 2" by (rule less_mult_imp_div_less)
          moreover have "?wp \<le> j div 32" using div_le_mono [of "32 * ?wp" j 32] a by simp
          ultimately show False using 3 by linarith
        qed
        with 3 show ?thesis unfolding b buf_bit_def by auto
      qed
    qed
    from pushraw_bits [OF S n(2,3) f this] show ?thesis by (simp add: b len)
  qed
qed

lemma follows_stuffed:
  assumes "follows w n S" "\<forall>i. n + k + i < 32 \<longrightarrow> bit b' (n + k + i) = bit w (n + i)"
  shows "follows b' (n + k) S"
  using assms by (auto simp: follows_def)

lemma follows_next:
  assumes "follows b m S" "length S + m \<le> 160"
  shows "follows b 0 (S @ msb_bits m b)"
proof -
  have "i \<le> length S + m \<and> (i < length S + m \<longrightarrow> (S @ msb_bits m b) ! (length S + m - 1 - i))"
    if i: "i < 32" "bit b i" for i
  proof (cases "i < m")
    case True
    then have "length S + m - 1 - i = length S + (m - 1 - i)" by linarith
    then have "(S @ msb_bits m b) ! (length S + m - 1 - i) = bit b i"
      using True by (simp only: nth_append_length_plus) (simp add: nth_msb_bits)
    with True i show ?thesis by simp
  next
    case False
    then have "i - m \<le> length S \<and> (i - m < length S \<longrightarrow> S ! (length S - 1 - (i - m)))"
      using assms(1) [unfolded follows_def, rule_format, of "i - m"] i by simp
    moreover have "length S + m - 1 - i < length S" if "i < length S + m" using that False by linarith
    moreover have "length S + m - 1 - i = length S - 1 - (i - m)" using False by linarith
    ultimately show ?thesis using False by (auto simp: nth_append)
  qed
  then show ?thesis by (simp add: follows_def)
qed

lemma rev_msb_bits: "rev (msb_bits n w) = map (bit w) [0..<n]"
  by (simp add: msb_bits_def rev_map)

text \<open>\<open>bs_push\<close> appends its bits, stuffed in the context of everything before them.\<close>

lemma bs_push_stuffs:
  assumes inv: "bs_inv bs S" and n: "4 \<le> n" "n \<le> 20" "length S + n + (n + 3) div 4 \<le> 160"
  shows "\<exists>bs'. bs_push data (of_nat n) bs = Some bs' \<and>
    bs_inv bs' (S @ stuff_bits (rev S @ start_hist) (msb_bits n data)) \<and>
    length (stuff_bits (rev S @ start_hist) (msb_bits n data)) \<le> n + (n + 3) div 4"
proof -
  let ?w = "push_bit n (prev_stuffed bs) OR (data AND low_mask (of_nat n))"
  have un: "unat (of_nat n :: u32) = n" using n by (simp add: unat_of_nat_u32)
  have low: "bit ?w i = bit data i" if "i < n" for i
    using that n(2) by (auto simp: bit_or_iff bit_push_bit_iff bit_and_iff bit_low_mask un dest: bit_imp_le_length)
  have high: "bit ?w (n + i) = bit (prev_stuffed bs) i" if "n + i < 32" for i
    using that by (auto simp: bit_or_iff bit_push_bit_iff bit_and_iff bit_low_mask un)
  have "n + (n + 3) div 4 + 4 \<le> 32"
    using n(2) by linarith
  then obtain b' k where b': "bitstuff ?w (of_nat n) = Some (b', of_nat n + of_nat k)" and st: "stuffed ?w n b' k"
    using bitstuff_stuffs [of "of_nat n" ?w] unfolding un by blast
  have k: "k \<le> (n + 3) div 4" using st by (simp add: stuffed_def)
  have k32: "n + k + 4 \<le> 32" using k n(2) by linarith
  have "above 4 ?w n = above 4 (prev_stuffed bs) 0"
    using high n(2) by (simp add: above_def)
  then have h: "take 4 (above 4 ?w n) = take 4 (rev S @ start_hist)"
    using inv unfolding bs_inv_def take_above min.idem by metis
  have "msb_bits n ?w = msb_bits n data" by (rule msb_bits_cong) (rule low)
  then have bits: "msb_bits (n + k) b' = stuff_bits (rev S @ start_hist) (msb_bits n data)"
    using st stuff_bits_take4 [OF h] by (simp add: stuffed_def)
  have "follows ?w n S"
  proof -
    have "follows (prev_stuffed bs) 0 S" using inv by (simp add: bs_inv_def)
    then show ?thesis unfolding follows_def using high by (metis add.left_neutral add_lessD1 add.commute)
  qed
  then have f: "follows b' (n + k) S" using st by (intro follows_stuffed) (auto simp: stuffed_def)
  have S: "buf_holds (bs_buf bs) S" "bitpos bs = of_nat (length S)" using inv by (simp_all add: bs_inv_def)
  let ?bs = "bs_pushraw b' (of_nat (n + k)) bs"
  have len: "0 < n + k" "n + k \<le> 32" "length S + (n + k) \<le> 160" using n k k32 by linarith+
  note raw = bs_pushraw_holds [OF S len f]
  have "above 4 b' 0 = take 4 (rev (msb_bits (n + k) b') @ rev S @ start_hist)"
    using n(1) k32 by (simp add: rev_msb_bits above_def take_map take_upt)
  then have "bs_inv (?bs\<lparr>prev_stuffed := b'\<rparr>) (S @ msb_bits (n + k) b')"
    using raw follows_next [OF f len(3)] by (simp add: bs_inv_def)
  moreover have "bs_push data (of_nat n) bs = Some (?bs\<lparr>prev_stuffed := b'\<rparr>)"
    using b' by (simp add: bs_push_def un Let_def)
  moreover have "length (msb_bits (n + k) b') \<le> n + (n + 3) div 4" using k by simp
  ultimately show ?thesis unfolding bits by blast
qed

lemma stuff_bits_append: "stuff_bits h (xs @ ys) = stuff_bits h xs @ stuff_bits (rev (stuff_bits h xs) @ h) ys"
  by (induction h xs rule: stuff_bits.induct) simp_all

section \<open>The message encoder\<close>

definition sb :: "bool list \<Rightarrow> bool list" where
  "sb xs = stuff_bits start_hist xs"

lemma sb_append: "sb (xs @ ys) = sb xs @ stuff_bits (rev (sb xs) @ start_hist) ys"
  by (simp add: sb_def stuff_bits_append)

lemma sb_Nil [simp]: "sb [] = []"
  by (simp add: sb_def)

lemma bs_push_sb:
  assumes "bs_inv bs (sb xs)" "4 \<le> n" "n \<le> 20" "length (sb xs) + n + (n + 3) div 4 \<le> 160"
  shows "\<exists>bs'. bs_push data (of_nat n) bs = Some bs' \<and> bs_inv bs' (sb (xs @ msb_bits n data)) \<and>
    length (sb (xs @ msb_bits n data)) \<le> length (sb xs) + n + (n + 3) div 4"
  using bs_push_stuffs [OF assms, of data] unfolding sb_append by auto

lemma bs_start: "bs_inv \<lparr> prev_stuffed = 1, bitpos = 0, bs_buf = replicate 5 0 \<rparr> []"
  by (auto simp: bs_inv_def buf_holds_def buf_bit_def follows_def start_hist_def above_def upt_rec bit_1_iff nth_replicate
      less_mult_imp_div_less)

lemma msb_bits_numeral:
  "msb_bits (numeral k) w = bit w (pred_numeral k) # msb_bits (pred_numeral k) w"
  by (simp add: numeral_eq_Suc msb_bits_Suc)

lemma msb_bits_one: "msb_bits (Suc 0) w = [bit w 0]"
  by (simp add: msb_bits_Suc)

lemma crc15_zeros: "crc15_bits 0 (False # xs) = crc15_bits 0 xs"
  by (simp add: crc15_bits_def crc15_step_def)

text \<open>A message as the transmitter has copied it.\<close>

definition tx_msg_ok :: "can2040_msg \<Rightarrow> bool" where
  "tx_msg_ok m \<longleftrightarrow> length (msg_data m) = 8 \<and> dlc m = take_bit 4 (dlc m)"

lemma tx_dlc_bits: "tx_msg_ok m \<Longrightarrow> 4 \<le> i \<Longrightarrow> \<not> bit (dlc m) i"
  by (metis bit_take_bit_iff tx_msg_ok_def not_le)

lemma rtr_bit: "w AND CAN2040_ID_RTR = 0 \<longleftrightarrow> \<not> bit w 30"
  using and_one_bit [of 30 w] by (simp add: CAN2040_ID_RTR_def)

lemma eff_bit: "w AND CAN2040_ID_EFF = 0 \<longleftrightarrow> \<not> bit w 31"
  using and_one_bit [of 31 w] by (simp add: CAN2040_ID_EFF_def)

lemma std_header_bits:
  assumes "tx_msg_ok m" "\<not> bit (msg_id m) 31"
  shows "msb_bits 24 (push_bit 7 (msg_id m AND 0x7ff) OR (dlc m OR (if msg_id m AND CAN2040_ID_RTR \<noteq> 0 then 0x40 else 0))) =
    [False, False, False, False, False] @ frame_head (frame_of_msg m)"
  using assms(2) tx_dlc_bits [OF assms(1)]
  by (simp add: frame_head_def frame_of_msg_def msb_bits_numeral msb_bits_one rtr_bit)
     (simp add: bit_simps)

lemma ext_header_bits:
  fixes m
  defines "h1 \<equiv> drop_bit 11 (msg_id m AND 0x1ffc0000) OR 0x60 OR drop_bit 13 (msg_id m AND 0x3e000)"
    and "h2 \<equiv> push_bit 7 (msg_id m AND 0x1fff) OR (dlc m OR (if msg_id m AND CAN2040_ID_RTR \<noteq> 0 then 0x40 else 0))"
  assumes "tx_msg_ok m" "bit (msg_id m) 31"
  shows "msb_bits 19 h1 @ msb_bits 20 h2 = frame_head (frame_of_msg m)"
    "msb_bits 16 (drop_bit 4 h1) @ msb_bits 24 (push_bit 20 (h1 AND 0x0f) OR h2) = False # frame_head (frame_of_msg m)"
  using assms(4) tx_dlc_bits [OF assms(3)] unfolding h1_def h2_def
  by (simp add: frame_head_def frame_of_msg_def msb_bits_numeral msb_bits_one rtr_bit; simp add: bit_simps)+

lemma tx_push_header_frame:
  assumes "tx_msg_ok m"
  shows "\<exists>crc bs. tx_push_header m \<lparr> prev_stuffed = 1, bitpos = 0, bs_buf = replicate 5 0 \<rparr> = Some (crc, bs) \<and>
    bs_inv bs (sb (frame_head (frame_of_msg m))) \<and> length (sb (frame_head (frame_of_msg m))) \<le> 49 \<and>
    take_bit 15 crc = crc15_bits 0 (frame_head (frame_of_msg m))"
proof -
  let ?bs = "\<lparr> prev_stuffed = 1, bitpos = 0, bs_buf = replicate 5 0 \<rparr>" and ?id = "msg_id m" and ?f = "frame_of_msg m"
  let ?edlc = "dlc m OR (if ?id AND CAN2040_ID_RTR \<noteq> 0 then 0x40 else 0)"
  have s0: "bs_inv ?bs (sb [])" using bs_start by simp
  show ?thesis
  proof (cases "bit ?id 31")
    case False
    let ?hdr = "push_bit 7 (?id AND 0x7ff) OR ?edlc"
    note h24 = std_header_bits [OF assms False]
    have h: "msb_bits 19 ?hdr = frame_head ?f"
    proof -
      have "(24 :: nat) = 5 + 19" by simp
      then have "msb_bits 19 ?hdr = drop 5 (msb_bits 24 ?hdr)" by (simp only: msb_bits_add) simp
      then show ?thesis unfolding h24 by simp
    qed
    obtain bs1 where bs1: "bs_push ?hdr 19 ?bs = Some bs1" "bs_inv bs1 (sb (frame_head ?f))" "length (sb (frame_head ?f)) \<le> 24"
      using bs_push_sb [OF s0, of 19 ?hdr] unfolding append_Nil h by auto
    have "take_bit 15 (crc_bytes 0 ?hdr 3) = crc15_bits 0 (frame_head ?f)"
      using crc_bytes_serial [of 3 0 ?hdr] h24 by (simp add: crc15_zeros)
    then show ?thesis using bs1 False by (simp add: tx_push_header_def eff_bit Let_def)
  next
    case True
    let ?h1 = "drop_bit 11 (?id AND 0x1ffc0000) OR 0x60 OR drop_bit 13 (?id AND 0x3e000)"
    let ?h2 = "push_bit 7 (?id AND 0x1fff) OR ?edlc"
    note e = ext_header_bits [OF assms True]
    obtain bs1 where bs1: "bs_push ?h1 19 ?bs = Some bs1" "bs_inv bs1 (sb (msb_bits 19 ?h1))" "length (sb (msb_bits 19 ?h1)) \<le> 24"
      using bs_push_sb [OF s0, of 19 ?h1] by auto
    obtain bs2 where bs2: "bs_push ?h2 20 bs1 = Some bs2" "bs_inv bs2 (sb (frame_head ?f))" "length (sb (frame_head ?f)) \<le> 49"
      using bs_push_sb [OF bs1(2), of 20 ?h2] bs1(3) unfolding e(1) by auto
    have "take_bit 15 (crc_bytes (crc_bytes 0 (drop_bit 4 ?h1) 2) (push_bit 20 (?h1 AND 0x0f) OR ?h2) 3) = crc15_bits 0 (frame_head ?f)"
      using crc_bytes_serial [of 3 "crc_bytes 0 (drop_bit 4 ?h1) 2" "push_bit 20 (?h1 AND 0x0f) OR ?h2"]
        crc_bytes_serial [of 2 0 "drop_bit 4 ?h1"] e(2)
      by (simp add: crc15_zeros flip: crc15_bits_append)
    then show ?thesis using bs1(1) bs2 True by (simp add: tx_push_header_def eff_bit Let_def)
  qed
qed

lemma tx_push_data_frame:
  "\<lbrakk> bs_inv bs (sb xs); length (sb xs) + 10 * length vs \<le> 160; take_bit 15 crc = crc15_bits 0 xs \<rbrakk> \<Longrightarrow>
   \<exists>crc' bs'. tx_push_data vs crc bs = Some (crc', bs') \<and> bs_inv bs' (sb (xs @ concat (map byte_bits vs))) \<and>
     length (sb (xs @ concat (map byte_bits vs))) \<le> length (sb xs) + 10 * length vs \<and>
     take_bit 15 crc' = crc15_bits 0 (xs @ concat (map byte_bits vs))"
proof (induction vs arbitrary: bs xs crc)
  case Nil
  then show ?case by simp
next
  case (Cons v vs)
  let ?xs = "xs @ msb_bits 8 (ucast v)"
  obtain bs1 where bs1: "bs_push (ucast v) 8 bs = Some bs1" "bs_inv bs1 (sb ?xs)" "length (sb ?xs) \<le> length (sb xs) + 10"
    using bs_push_sb [OF Cons.prems(1), of 8 "ucast v"] Cons.prems(2) by auto
  have c1: "take_bit 15 (crc_byte crc (ucast v)) = crc15_bits 0 ?xs"
    using Cons.prems(3) by (simp add: crc_byte_serial crc15_bits_append)
  obtain crc' bs' where "tx_push_data vs (crc_byte crc (ucast v)) bs1 = Some (crc', bs')"
      "bs_inv bs' (sb (?xs @ concat (map byte_bits vs)))"
      "length (sb (?xs @ concat (map byte_bits vs))) \<le> length (sb ?xs) + 10 * length vs"
      "take_bit 15 crc' = crc15_bits 0 (?xs @ concat (map byte_bits vs))"
    using Cons.IH [OF bs1(2) _ c1] bs1(3) Cons.prems(2) by fastforce
  with bs1 show ?case by (simp add: byte_bits_def [of v] Let_def)
qed

lemma buf_bits_nth: "j < 32 * length buf \<Longrightarrow> concat (map (msb_bits 32) buf) ! j = buf_bit buf j"
proof (induction buf arbitrary: j)
  case (Cons b buf)
  show ?case
  proof (cases "j < 32")
    case True
    then show ?thesis by (simp add: buf_bit_def nth_append nth_msb_bits)
  next
    case False
    then have "j div 32 = Suc ((j - 32) div 32)" "(j - 32) mod 32 = j mod 32" by (simp_all add: div_if mod_if)
    with False Cons show ?thesis by (simp add: buf_bit_def nth_append)
  qed
qed simp

lemma length_buf_bits: "length (concat (map (msb_bits 32) buf)) = 32 * length buf"
  by (induction buf) simp_all

lemma buf_bit_take: "j < 32 * n \<Longrightarrow> n \<le> length buf \<Longrightarrow> buf_bit (take n buf) j = buf_bit buf j"
  by (simp add: buf_bit_def less_mult_imp_div_less mult.commute)

text \<open>The stream in the words, and the ones it is padded with.\<close>

lemma bs_finalize_stream:
  assumes "buf_holds (bs_buf bs) S" "bitpos bs = of_nat (length S)" "S \<noteq> []" "bs_finalize bs = (words, buf)"
  shows "\<exists>pad < 32. concat (map (msb_bits 32) (take (unat words) buf)) = S @ replicate pad True"
proof -
  let ?p = "length S" and ?n = "(length S + 31) div 32"
  have p: "0 < ?p" "?p \<le> 160" using assms(1,3) by (auto simp: buf_holds_def)
  have n5: "?n \<le> 5" "0 < ?n" using p by presburger+
  let ?pad = "?n * 32 - ?p"
  have pad: "?pad < 32" "?p \<le> ?n * 32" by presburger+
  have up: "unat (of_nat ?p :: u32) = ?p" using p by (simp add: unat_of_nat_u32)
  have "of_nat ?p + 32 - 1 = (of_nat (?p + 31) :: u32)" by simp
  then have "unat (of_nat ?p + 32 - 1 :: u32) = ?p + 31"
    using p by (simp only:) (subst unat_of_nat_u32, simp_all)
  then have wn: "unat words = ?n" using assms(2,4) by (auto simp: bs_finalize_def Let_def unat_div)
  have len: "length (bs_buf bs) = 5" and old: "\<And>j. j < 160 \<Longrightarrow> buf_bit (bs_buf bs) j \<longleftrightarrow> j < ?p \<and> S ! j"
    using assms(1) by (auto simp: buf_holds_def)
  have ex: "unat (words * 32 - bitpos bs) = ?pad"
  proof -
    have "unat (words * 32) = ?n * 32" using wn n5 by (simp add: unat_word_ariths)
    then show ?thesis using pad(2) up assms(2) by (subst unat_sub) (auto simp: word_le_nat_alt)
  qed
  have w1: "unat (words - 1) = ?n - 1" using wn n5(2) by (subst unat_minus_one) (auto simp: word_unat_eq_iff)
  have new: "buf_bit buf j \<longleftrightarrow> buf_bit (bs_buf bs) j \<or> ?p \<le> j" if j: "j < ?n * 32" for j
  proof (cases "?pad = 0")
    case True
    then have "words * 32 - bitpos bs = 0" using ex by (simp add: word_unat_eq_iff)
    then have "buf = bs_buf bs" using assms(4) by (auto simp: bs_finalize_def Let_def wn [symmetric])
    with True j pad(2) show ?thesis by auto
  next
    case False
    then have "words * 32 - bitpos bs \<noteq> 0" using ex by (auto simp: word_unat_eq_iff)
    then have b: "buf = (bs_buf bs)[?n - 1 := bs_buf bs ! (?n - 1) OR low_mask (words * 32 - bitpos bs)]"
      using assms(4) w1 by (auto simp: bs_finalize_def Let_def)
    show ?thesis
    proof (cases "j div 32 = ?n - 1")
      case True
      have "31 - j mod 32 < (32 :: nat)" by simp
      moreover have "31 - j mod 32 < ?pad \<longleftrightarrow> ?p \<le> j"
        using last_word_pos [OF word_of_pos [OF True] _ n5(2) pad(2,1)] by simp
      ultimately show ?thesis using True len n5 by (simp add: b buf_bit_def bit_or_iff bit_low_mask ex)
    next
      case other: False
      have "j div 32 < ?n" using j by (rule less_mult_imp_div_less)
      with other have "j div 32 < ?n - 1" by linarith
      then have "j < (?n - 1) * 32" by (simp add: div_less_iff_less_mult)
      then have "j < ?p" using pad n5 by auto
      then show ?thesis using other by (simp add: b buf_bit_def)
    qed
  qed
  have "concat (map (msb_bits 32) (take ?n buf)) = S @ replicate ?pad True"
  proof (rule nth_equalityI)
    have lb: "length buf = 5" using assms(4) len by (auto simp: bs_finalize_def Let_def split: if_splits)
    show l: "length (concat (map (msb_bits 32) (take ?n buf))) = length (S @ replicate ?pad True)"
      using lb n5 pad by (simp only: length_buf_bits) simp
    fix j assume "j < length (concat (map (msb_bits 32) (take ?n buf)))"
    then have j: "j < ?n * 32" using lb n5 by (simp only: length_buf_bits) simp
    then have "concat (map (msb_bits 32) (take ?n buf)) ! j = buf_bit buf j"
      using lb n5 by (subst buf_bits_nth) (simp_all add: buf_bit_take mult.commute)
    also have "\<dots> = (S @ replicate ?pad True) ! j"
      using j new [OF j] old [of j] n5 pad by (auto simp: nth_append)
    finally show "concat (map (msb_bits 32) (take ?n buf)) ! j = (S @ replicate ?pad True) ! j" .
  qed
  with pad(1) show ?thesis unfolding wn by blast
qed

section \<open>The beginning of a frame\<close>

text \<open>Stuffing starts with the start of frame, whatever the history.\<close>

lemma stuff_mixed:
  "True \<in> set c \<Longrightarrow> False \<in> set c \<Longrightarrow> stuff_bits (c @ h) xs = stuff_bits c xs"
proof (induction xs arbitrary: c)
  case Nil
  then show ?case by simp
next
  case (Cons x xs)
  have mixed: "take 4 (c @ h) = replicate 4 x \<longleftrightarrow> take 4 c = replicate 4 x"
  proof (cases "4 \<le> length c")
    case False
    then have "take 4 (c @ h) \<noteq> replicate 4 x"
      using Cons.prems by (auto simp: append_eq_conv_conj dest!: arg_cong [where f = set])
    moreover have "take 4 c \<noteq> replicate 4 x" using False by (auto dest: arg_cong [where f = length])
    ultimately show ?thesis by simp
  qed simp
  have "stuff_bits ((\<not> x) # x # c @ h) xs = stuff_bits ((\<not> x) # x # c) xs"
    using Cons.IH [of "(\<not> x) # x # c"] Cons.prems by simp
  moreover have "stuff_bits (x # c @ h) xs = stuff_bits (x # c) xs"
    using Cons.IH [of "x # c"] Cons.prems by simp
  ultimately show ?case by (simp only: stuff_bits.simps mixed)
qed

lemma stuff_sof:
  "1 \<le> k \<Longrightarrow> k \<le> 4 \<Longrightarrow> stuff_bits (replicate k False @ True # h) xs = stuff_bits (replicate k False) xs"
proof (induction xs arbitrary: k)
  case Nil
  then show ?case by simp
next
  case (Cons x xs)
  show ?case
  proof (cases "k = 4")
    case True
    then show ?thesis by (intro stuff_bits_take4) simp
  next
    case False
    then have k: "k < 4" using Cons.prems by simp
    have n: "take 4 (replicate k False @ True # h) \<noteq> replicate 4 x" "take 4 (replicate k False) \<noteq> replicate 4 x"
    proof -
      have "True \<in> set (take 4 (replicate k False @ True # h))" "False \<in> set (take 4 (replicate k False @ True # h))"
        using k Cons.prems by (simp_all add: take_Cons')
      then show "take 4 (replicate k False @ True # h) \<noteq> replicate 4 x" by (metis in_set_replicate)
      show "take 4 (replicate k False) \<noteq> replicate 4 x" using k by (auto dest: arg_cong [where f = length])
    qed
    have "stuff_bits (x # replicate k False @ True # h) xs = stuff_bits (x # replicate k False) xs"
    proof (cases x)
      case True
      then show ?thesis using stuff_mixed [of "True # replicate k False" "True # h" xs] Cons.prems by simp
    next
      case False
      then show ?thesis using Cons.IH [of "Suc k"] k by simp
    qed
    with n show ?thesis by (simp only: stuff_bits.simps if_False)
  qed
qed

lemma sb_sof: "sb (False # xs) = stuff_bits [] (False # xs)"
proof -
  have "take 4 start_hist \<noteq> replicate 4 False" "take 4 [] \<noteq> replicate 4 False"
    by (simp_all add: start_hist_def numeral_eq_Suc)
  moreover have "stuff_bits (False # start_hist) xs = stuff_bits [False] xs"
    using stuff_sof [of 1 "[False, False, False]" xs] by (simp add: start_hist_def)
  ultimately show ?thesis unfolding sb_def by (simp only: stuff_bits.simps if_False)
qed

section \<open>Properties\<close>

lemma frame_head_sof: "\<exists>xs. frame_head f = False # xs"
  by (simp add: frame_head_def)

text \<open>The bits that a queue slot holds, word by word, the highest bit first.\<close>

definition slot_bits :: "can2040_tx \<Rightarrow> bool list" where
  "slot_bits qt = concat (map (msb_bits 32) (take (unat (stuffed_words qt)) (stuffed_data qt)))"

lemma tx_data_len_frame: "unat (tx_data_len m) = frame_data_len (frame_of_msg m)" if "tx_msg_ok m"
proof -
  have "take_bit 4 (dlc m) = dlc m" using that by (simp add: tx_msg_ok_def)
  then show ?thesis
    by (auto simp: tx_data_len_def frame_data_len_def frame_of_msg_def rtr_bit word_less_nat_alt)
qed

lemma tx_encode_frame:
  assumes "tx_msg_ok m"
  shows "\<exists>qt pad. tx_encode m = Some qt \<and> qt_msg qt = m \<and> qt_crc qt = crc15_bits 0 (frame_payload (frame_of_msg m)) \<and>
    slot_bits qt = wire_bits (frame_of_msg m) @ replicate pad True \<and> pad < 32"
proof -
  let ?f = "frame_of_msg m" and ?vs = "take (unat (tx_data_len m)) (msg_data m)"
  obtain crc1 bs1 where h: "tx_push_header m \<lparr> prev_stuffed = 1, bitpos = 0, bs_buf = replicate 5 0 \<rparr> = Some (crc1, bs1)"
      "bs_inv bs1 (sb (frame_head ?f))" "length (sb (frame_head ?f)) \<le> 49" "take_bit 15 crc1 = crc15_bits 0 (frame_head ?f)"
    using tx_push_header_frame [OF assms] by blast
  have vs: "length ?vs \<le> 8" using assms by (simp add: tx_msg_ok_def)
  have pl: "frame_head ?f @ concat (map byte_bits ?vs) = frame_payload ?f"
    by (simp add: frame_payload_def tx_data_len_frame [OF assms]) (simp add: frame_of_msg_def)
  obtain crc2 bs2 where d: "tx_push_data ?vs crc1 bs1 = Some (crc2, bs2)" "bs_inv bs2 (sb (frame_payload ?f))"
      "length (sb (frame_payload ?f)) \<le> 129" "take_bit 15 crc2 = crc15_bits 0 (frame_payload ?f)"
    using tx_push_data_frame [OF h(2) _ h(4), of ?vs] h(3) vs unfolding pl by fastforce
  let ?crc = "crc2 AND 0x7fff"
  have crc: "?crc = crc15_bits 0 (frame_payload ?f)" using d(4) by (simp add: take_bit_eq_mask mask_eq_exp_minus_1)
  obtain bs3 where c: "bs_push ?crc 15 bs2 = Some bs3" "bs_inv bs3 (sb (frame_bits ?f))" "length (sb (frame_bits ?f)) \<le> 148"
    using bs_push_sb [OF d(2), of 15 ?crc] d(3) unfolding crc frame_bits_def by fastforce
  let ?S = "sb (frame_bits ?f)" and ?bs = "bs_pushraw 1 1 bs3"
  have S: "buf_holds (bs_buf bs3) ?S" "bitpos bs3 = of_nat (length ?S)" using c(2) by (simp_all add: bs_inv_def)
  have "follows 1 1 ?S" by (simp add: follows_def bit_1_iff)
  from bs_pushraw_holds [OF S _ _ _ this] c(3)
  have r: "buf_holds (bs_buf ?bs) (?S @ [True])" "bitpos ?bs = of_nat (length (?S @ [True]))"
    by (simp_all add: msb_bits_one)
  obtain words buf where f: "bs_finalize ?bs = (words, buf)" by fastforce
  from bs_finalize_stream [OF r _ f] obtain pad where pad: "pad < 32"
      "concat (map (msb_bits 32) (take (unat words) buf)) = ?S @ True # replicate pad True" by auto
  obtain xs where "frame_bits ?f = False # xs" using frame_head_sof [of ?f] by (auto simp: frame_bits_def frame_payload_def)
  then have "?S = stuff_bits [] (frame_bits ?f)" by (simp add: sb_sof del: stuff_bits.simps)
  with pad have "slot_bits \<lparr> qt_msg = m, qt_crc = ?crc, stuffed_words = words, stuffed_data = buf \<rparr> =
      wire_bits ?f @ replicate pad True"
    by (simp add: slot_bits_def wire_bits_def)
  moreover have "tx_encode m = Some \<lparr> qt_msg = m, qt_crc = ?crc, stuffed_words = words, stuffed_data = buf \<rparr>"
    using h(1) d(1) c(1) f by (simp add: tx_encode_def Let_def)
  ultimately show ?thesis using crc pad(1) by auto
qed

lemma tx_copy_ok: "length (msg_data msg) = 8 \<Longrightarrow> tx_msg_ok (tx_copy_msg msg)"
  by (auto simp: tx_msg_ok_def tx_copy_msg_def Let_def take_bit_eq_mask mask_eq_exp_minus_1 min_def and.assoc)

lemma wire_bits_cong:
  assumes "fr_ide f = fr_ide g" "fr_rtr f = fr_rtr g" "fr_id f = fr_id g" "fr_dlc f = fr_dlc g"
    "take (frame_data_len f) (fr_data f) = take (frame_data_len f) (fr_data g)"
  shows "frame_payload f = frame_payload g" "wire_bits f = wire_bits g"
proof -
  have "frame_data_len f = frame_data_len g" using assms by (simp add: frame_data_len_def)
  then show "frame_payload f = frame_payload g" using assms by (simp add: frame_payload_def frame_head_def)
  then show "wire_bits f = wire_bits g" by (simp add: wire_bits_def frame_bits_def)
qed

text \<open>The copy stands for the same frame.\<close>

lemma tx_copy_frame:
  assumes "length (msg_data msg) = 8"
  shows "frame_payload (frame_of_msg (tx_copy_msg msg)) = frame_payload (frame_of_msg msg)"
    "wire_bits (frame_of_msg (tx_copy_msg msg)) = wire_bits (frame_of_msg msg)"
proof -
  let ?m = "tx_copy_msg msg" and ?id = "msg_id msg"
  have mid: "msg_id ?m = tx_msg_id ?id" by (simp add: tx_copy_msg_def Let_def)
  have b: "bit (tx_msg_id ?id) 31 = bit ?id 31" "bit (tx_msg_id ?id) 30 = bit ?id 30"
    by (simp_all add: tx_msg_id_def eff_bit CAN2040_ID_RTR_def bit_simps)
  have i29: "take_bit 29 (tx_msg_id ?id) = take_bit 29 ?id" if "bit ?id 31"
  proof (rule bit_word_eqI)
    fix n
    have "bit (0x20000000 :: u32) n \<longleftrightarrow> n = 29" using bit_exp_iff [of 29 n, where ?'a = "32 word"] by auto
    with that show "bit (take_bit 29 (tx_msg_id ?id)) n = bit (take_bit 29 ?id) n"
      unfolding tx_msg_id_def eff_bit by (auto simp only: bit_take_bit_iff bit_and_iff bit_not_iff possible_bit_word split: if_splits) simp
  qed
  have i11: "take_bit 11 (tx_msg_id ?id) = take_bit 11 ?id" if "\<not> bit ?id 31"
  proof (rule bit_word_eqI)
    fix n
    have m: "(0x7ff :: u32) = mask 11" by (simp add: mask_eq_exp_minus_1)
    from that show "bit (take_bit 11 (tx_msg_id ?id)) n = bit (take_bit 11 ?id) n"
      unfolding tx_msg_id_def eff_bit m
      by (auto simp only: bit_take_bit_iff bit_and_iff bit_or_iff bit_mask_iff possible_bit_word split: if_splits) simp
  qed
  have d: "take_bit 4 (dlc ?m) = take_bit 4 (dlc msg)"
    by (simp add: tx_copy_msg_def Let_def take_bit_eq_mask mask_eq_exp_minus_1 and.assoc)
  have len: "unat (tx_data_len ?m) = frame_data_len (frame_of_msg ?m)" by (rule tx_data_len_frame [OF tx_copy_ok [OF assms]])
  have "take (frame_data_len (frame_of_msg ?m)) (msg_data ?m) = take (frame_data_len (frame_of_msg ?m)) (msg_data msg)"
  proof -
    let ?k = "unat (tx_data_len ?m)"
    have "unat (tx_data_len ?m) \<le> 8" by (simp add: len frame_data_len_def)
    moreover have "msg_data ?m = take ?k (msg_data msg) @ drop (length (take ?k (msg_data msg))) (replicate 8 0)"
      by (simp add: tx_copy_msg_def Let_def blit_def tx_data_len_def)
    ultimately show ?thesis unfolding len [symmetric] using assms by (simp only: take_append) simp
  qed
  then show "frame_payload (frame_of_msg ?m) = frame_payload (frame_of_msg msg)" "wire_bits (frame_of_msg ?m) = wire_bits (frame_of_msg msg)"
    using b i29 i11 d by (intro wire_bits_cong; auto simp: frame_of_msg_def mid)+
qed

text \<open>C32: What the software controller queues is the frame of the CAN standard. For every message, standard or
  extended, data or remote, if the queue has room then \<open>can2040_transmit\<close> accepts it and fills the
  next slot with words that hold, highest bit first, exactly the bits the standard puts on the wire:
  start of frame, identifier, control bits, length, data and the bit-serial CRC, with a complement
  inserted after every five equal bits, then the recessive CRC delimiter, and nothing but recessive
  bits up to the end of the last word. A full queue refuses it and keeps its slots.\<close>

theorem can2040_sends_frame:
  assumes "length (msg_data msg) = 8" and "length (tx_queue c2) = 4"
  shows "if tx_push_pos c2 - tx_pull_pos c2 < 4 then
      \<exists>c2' qt pad. can2040_transmit msg c2 = Some (0, c2') \<and> tx_push_pos c2' = tx_push_pos c2 + 1 \<and>
        tx_queue c2' = (tx_queue c2)[unat (tx_push_pos c2 mod 4) := qt] \<and>
        slot_bits qt = wire_bits (frame_of_msg msg) @ replicate pad True \<and> pad < 32
    else can2040_transmit msg c2 = Some (-1, c2)"
proof (cases "tx_push_pos c2 - tx_pull_pos c2 < 4")
  case True
  obtain qt pad where "tx_encode (tx_copy_msg msg) = Some qt"
      "slot_bits qt = wire_bits (frame_of_msg msg) @ replicate pad True" "pad < 32"
    using tx_encode_frame [OF tx_copy_ok [OF assms(1)]] tx_copy_frame(2) [OF assms(1)] by auto
  with True show ?thesis by (simp add: can2040_transmit_def Let_def tx_qpos_def not_le on_pio_def) blast
next
  case False
  then show ?thesis by (simp add: can2040_transmit_def Let_def not_less)
qed

theorem can2040_sends_frame_witness:
  "\<exists>c2' qt pad. can2040_transmit \<lparr> msg_id = 0x3f0, dlc = 2, msg_data = [0x11, 0, 0, 0, 0, 0, 0, 0] \<rparr> (can2040_setup 0 pio_zero) =
       Some (0, c2') \<and> tx_queue c2' ! 0 = qt \<and>
     slot_bits qt = wire_bits (frame_of_msg \<lparr> msg_id = 0x3f0, dlc = 2, msg_data = [0x11, 0, 0, 0, 0, 0, 0, 0] \<rparr>) @ replicate pad True"
  using can2040_sends_frame [of "\<lparr> msg_id = 0x3f0, dlc = 2, msg_data = [0x11, 0, 0, 0, 0, 0, 0, 0] \<rparr>" "can2040_setup 0 pio_zero"]
  by (auto simp: can2040_setup_def)

end
