(* ===== verification/Can2040Recv.thy ===== *)
theory Can2040Recv
  imports Can2040Unstuff Can2040Tx
begin

text \<open>
  The parser of \<open>can2040.c\<close> takes the frame of the standard from the raw bits that the PIO pushes, ten
  at a time: it reports the message that the frame carries, once.
\<close>

section \<open>What the unstuffer holds\<close>

text \<open>\<open>h\<close> are the raw bits already seen, the latest first; \<open>p\<close> the ones still to be looked at; \<open>c\<close> more
  bits of the field are wanted after \<open>g\<close>.\<close>

definition rx_has :: "bitunstuffer \<Rightarrow> bool list \<Rightarrow> bool list \<Rightarrow> nat \<Rightarrow> bool list \<Rightarrow> bool" where
  "rx_has bu h p c g \<longleftrightarrow> unat (count_stuff bu) = length p \<and> length p \<le> 10 \<and>
     msb_bits (length p) (stuffed_bits bu) = p \<and> above 5 (stuffed_bits bu) (length p) = take 5 h \<and>
     unat (count_unstuff bu) = c \<and> c + length g \<le> 32 \<and> unstuffed_bits bu = push_bit c (bits_val g)"

lemma above_add: "above (a + b) w n = above a w n @ above b w (n + a)"
  by (rule nth_equalityI) (auto simp: above_def nth_append add.assoc)

lemma rev_take_msb: "n \<le> m \<Longrightarrow> rev (take (m - n) (msb_bits m w)) = above (m - n) w n"
  by (rule nth_equalityI) (auto simp: above_def rev_nth nth_msb_bits)

lemma above_after:
  assumes "n \<le> m"
  shows "take 5 (rev (take (m - n) (msb_bits m w)) @ above 5 w m) = above 5 w n"
proof -
  have "rev (take (m - n) (msb_bits m w)) @ above 5 w m = above (m - n + 5) w n"
    using assms by (simp only: rev_take_msb above_add) simp
  then show ?thesis by (simp only: take_above) (simp add: min_def)
qed

lemma drop_msb_bits: "t \<le> n \<Longrightarrow> drop t (msb_bits n w) = msb_bits (n - t) w"
  by (rule nth_equalityI) (simp_all add: nth_msb_bits)

lemma rx_pull:
  assumes has: "rx_has bu h p c g" and "c \<noteq> 0" "pull h p c = (ret, g', n)"
  shows "\<exists>bu'. unstuf_pull_bits bu = Some (ret, bu') \<and> stuffed_bits bu' = stuffed_bits bu \<and> n \<le> length p \<and>
    rx_has bu' (rev (take (length p - n) p) @ h) (drop (length p - n) p) (c - length g') (g @ g')"
proof (intro exI conjI)
  let ?sb = "stuffed_bits bu"
  have cs: "unat (count_stuff bu) = length p" "length p \<le> 10" "msb_bits (length p) ?sb = p"
    and ab: "above 5 ?sb (length p) = take 5 h" and cu: "unat (count_unstuff bu) = c" "c + length g \<le> 32"
    and ub: "unstuffed_bits bu = push_bit c (bits_val g)"
    using has by (auto simp: rx_has_def)
  have h5: "length (take 5 h) = 5" using ab length_above by metis
  then have "pull (above 5 ?sb (length p)) p c = pull h p c"
    unfolding ab by (intro pull_take5) auto
  then show "unstuf_pull_bits bu = Some (ret, took bu c g' n)"
    using unstuf_pull_takes [of bu ret g' n] assms(2,3) cs cu by (auto simp: word_unat_eq_iff)
  show "stuffed_bits (took bu c g' n) = ?sb" by (simp add: took_def)
  have len: "length g' \<le> c" "n \<le> length p" using pull_length [OF assms(3)] by auto
  then show "n \<le> length p" by simp
  have s: "drop (length p - n) p = msb_bits n ?sb"
    using len cs(3) drop_msb_bits [of "length p - n" "length p" ?sb] by simp
  have "above 5 ?sb n = take 5 (rev (take (length p - n) p) @ take 5 h)"
    using above_after [OF len(2), of ?sb] cs(3) ab by simp
  also have "\<dots> = take 5 (rev (take (length p - n) p) @ h)" by simp
  finally have a: "above 5 ?sb n = take 5 (rev (take (length p - n) p) @ h)" .
  have "push_bit c (bits_val g) OR push_bit (c - length g') (bits_val g') = push_bit (c - length g') (bits_val (g @ g'))"
    using len(1) by (simp add: bits_val_append push_bit_or push_bit_push_bit)
  then show "rx_has (took bu c g' n) (rev (take (length p - n) p) @ h) (drop (length p - n) p) (c - length g') (g @ g')"
    using len cs(2) cu(2) a by (simp add: rx_has_def took_def s ub unat_of_nat_u32 del: of_nat_diff)
qed

lemma rx_add:
  assumes "rx_has bu h [] c g"
  shows "rx_has (unstuf_add_bits d PIO_RX_WAKE_BITS bu) h (msb_bits 10 d) c g"
proof -
  let ?w = "push_bit 10 (stuffed_bits bu) OR (d AND low_mask 10)"
  have "msb_bits 10 ?w = msb_bits 10 d"
    by (rule msb_bits_cong) (auto simp: bit_or_iff bit_push_bit_iff bit_and_iff bit_low_mask dest: bit_imp_le_length)
  moreover have "above 5 ?w 10 = above 5 (stuffed_bits bu) 0"
    by (auto simp: above_def bit_or_iff bit_push_bit_iff bit_and_iff bit_low_mask)
  ultimately show ?thesis using assms by (simp add: rx_has_def unstuf_add_bits_def)
qed

lemma rx_set_count:
  assumes "rx_has bu h p c g" "unat n \<le> 32"
  shows "rx_has (unstuf_set_count n bu) h p (unat n) []"
  using assms by (simp add: rx_has_def unstuf_set_count_def)

lemma rx_clear:
  assumes "rx_has bu h p c g"
  shows "rx_has (unstuf_clear_state bu) [False, True, False, False, False] p c g"
proof -
  let ?n = "length p" and ?w = "stuffed_bits (unstuf_clear_state bu)"
  have n: "?n \<le> 10" "unat (count_stuff bu) = ?n" using assms by (auto simp: rx_has_def)
  have w: "?w = (stuffed_bits bu AND (push_bit ?n 1 - 1)) OR push_bit 1 (push_bit ?n 1)"
    by (simp add: unstuf_clear_state_def Let_def n)
  have b: "bit ?w i \<longleftrightarrow> (i < ?n \<and> bit (stuffed_bits bu) i) \<or> i = Suc ?n" for i
  proof -
    have m: "push_bit ?n 1 - 1 = (mask ?n :: u32)" by (simp add: mask_eq_exp_minus_1 push_bit_eq_mult)
    have e: "push_bit 1 (push_bit ?n 1) = (2 ^ Suc ?n :: u32)" by (simp add: push_bit_eq_mult)
    show ?thesis unfolding w m e bit_or_iff bit_and_iff bit_mask_iff bit_exp_iff using n(1) by auto
  qed
  have "msb_bits ?n ?w = msb_bits ?n (stuffed_bits bu)" by (rule msb_bits_cong) (simp add: b)
  moreover have "above 5 ?w ?n = [False, True, False, False, False]"
    by (simp add: above_def b upt_rec)
  ultimately show ?thesis using assms
    by (simp add: rx_has_def) (simp add: unstuf_clear_state_def Let_def)
qed

section \<open>Words from the PIO\<close>

text \<open>The words that the interrupt handler takes from the FIFO, one after the other.\<close>

fun process_rx_words :: "u32 list \<Rightarrow> can2040 \<Rightarrow> can2040 option" where
  "process_rx_words [] c2 = Some c2"
| "process_rx_words (d # ds) c2 = process_rx d c2 \<bind> process_rx_words ds"

definition rx_run :: "can2040 \<Rightarrow> u32 list \<Rightarrow> can2040 option" where
  "rx_run c2 ds = process_rx_loop c2 \<bind> process_rx_words ds"

definition rx_word :: "u32 \<Rightarrow> can2040 \<Rightarrow> can2040" where
  "rx_word d c2 = c2\<lparr>unstuf := unstuf_add_bits d PIO_RX_WAKE_BITS (unstuf c2), raw_bit_count := raw_bit_count c2 + PIO_RX_WAKE_BITS\<rparr>"

lemma process_rx_words_Cons: "process_rx_words (d # ds) c2 = rx_run (rx_word d c2) ds"
  by (simp add: process_rx_def rx_word_def rx_run_def)

definition rx_at :: "can2040 \<Rightarrow> u32 list \<Rightarrow> bool list \<Rightarrow> bool list \<Rightarrow> nat \<Rightarrow> bool list \<Rightarrow> bool" where
  "rx_at c2 ds h R c g \<longleftrightarrow> (\<exists>p. rx_has (unstuf c2) h p c g \<and> R = p @ concat (map (msb_bits 10) ds))"

lemma rx_at_same_unstuf: "unstuf c3 = unstuf c2 \<Longrightarrow> rx_at c3 ds h R c g = rx_at c2 ds h R c g"
  by (simp add: rx_at_def)

lemma pull_return:
  "pull h p c = (ret, g, n) \<Longrightarrow> (ret = 0 \<longrightarrow> length g = c) \<and> (ret = 1 \<longrightarrow> n = 0 \<and> length g < c)"
  by (induction h p c arbitrary: ret g n rule: pull.induct) (fastforce split: if_splits prod.splits)+

text \<open>The field is complete with the bits at hand, or they are used up and the next word is taken.\<close>

lemma rx_complete:
  assumes has: "rx_has (unstuf c2) h p c g" and "c \<noteq> 0" and pull: "pull h p c = (0, g', n)"
  shows "\<exists>bu. rx_run c2 ds = data_state_update (bits_val (g @ g')) (c2\<lparr>unstuf := bu\<rparr>) \<bind> (\<lambda>c3. rx_run c3 ds) \<and>
     rx_has bu (rev (take (length p - n) p) @ h) (drop (length p - n) p) 0 (g @ g') \<and> n \<le> length p"
proof -
  have len: "length g' = c" using pull_return [OF pull] by simp
  obtain bu where bu: "unstuf_pull_bits (unstuf c2) = Some (0, bu)" "n \<le> length p"
      "rx_has bu (rev (take (length p - n) p) @ h) (drop (length p - n) p) 0 (g @ g')"
    using rx_pull [OF assms] len by auto
  then have ub: "unstuffed_bits bu = bits_val (g @ g')" by (simp add: rx_has_def)
  have "process_rx_loop c2 = data_state_update (bits_val (g @ g')) (c2\<lparr>unstuf := bu\<rparr>) \<bind> process_rx_loop"
    by (subst process_rx_loop.simps) (simp add: bu(1) ub)
  then have "rx_run c2 ds = data_state_update (bits_val (g @ g')) (c2\<lparr>unstuf := bu\<rparr>) \<bind> (\<lambda>c3. rx_run c3 ds)"
    by (simp add: rx_run_def)
  with bu show ?thesis by blast
qed

lemma rx_used_up:
  assumes has: "rx_has (unstuf c2) h p c g" and "c \<noteq> 0" and pull: "pull h p c = (1, g', n)"
  shows "\<exists>bu. process_rx_loop c2 = Some (c2\<lparr>unstuf := bu\<rparr>) \<and> rx_has bu (rev p @ h) [] (c - length g') (g @ g')"
proof -
  have n: "n = 0" using pull_return [OF pull] by simp
  obtain bu where bu: "unstuf_pull_bits (unstuf c2) = Some (1, bu)" "rx_has bu (rev p @ h) [] (c - length g') (g @ g')"
    using rx_pull [OF assms] n by auto
  have "process_rx_loop c2 = Some (c2\<lparr>unstuf := bu\<rparr>)"
    by (subst process_rx_loop.simps) (simp add: bu(1))
  with bu show ?thesis by blast
qed

lemma rx_field:
  "\<lbrakk> rx_at c2 ds h (u @ R) c g; c \<noteq> 0; pull h (u @ R) c = (0, g', length R) \<rbrakk> \<Longrightarrow>
   \<exists>bu r ds'. rx_run c2 ds = data_state_update (bits_val (g @ g')) (c2\<lparr>unstuf := bu, raw_bit_count := r\<rparr>) \<bind> (\<lambda>c3. rx_run c3 ds') \<and>
     rx_at (c2\<lparr>unstuf := bu, raw_bit_count := r\<rparr>) ds' (rev u @ h) R 0 (g @ g')"
proof (induction ds arbitrary: c2 h u c g g')
  case Nil
  then obtain bu where bu: "rx_run c2 [] = data_state_update (bits_val (g @ g')) (c2\<lparr>unstuf := bu\<rparr>) \<bind> (\<lambda>c3. rx_run c3 [])"
      "rx_has bu (rev u @ h) R 0 (g @ g')"
    using rx_complete [of c2 h "u @ R" c g g' "length R" "[]"] by (auto simp: rx_at_def)
  then show ?case
    by (intro exI [of _ bu] exI [of _ "raw_bit_count c2"] exI [of _ "[]"]) (simp add: rx_at_def)
next
  case (Cons d ds)
  let ?q = "concat (map (msb_bits 10) (d # ds))"
  obtain p where has: "rx_has (unstuf c2) h p c g" and R: "u @ R = p @ ?q"
    using Cons.prems(1) by (auto simp: rx_at_def)
  obtain ret g1 n where pull: "pull h p c = (ret, g1, n)" by (metis surj_pair)
  note app = pull_append [OF pull, of ?q, folded R, unfolded Cons.prems(3)]
  show ?case
  proof (cases "ret = 1")
    case False
    with app have eq: "ret = 0" "g1 = g'" "length R = n + length ?q" by auto
    from rx_complete [OF has Cons.prems(2) pull [unfolded eq], of "d # ds"] obtain bu where
      bu: "rx_run c2 (d # ds) = data_state_update (bits_val (g @ g')) (c2\<lparr>unstuf := bu\<rparr>) \<bind> (\<lambda>c3. rx_run c3 (d # ds))"
        "rx_has bu (rev (take (length p - n) p) @ h) (drop (length p - n) p) 0 (g @ g')" "n \<le> length p" by blast
    have "length u = length p - n" using arg_cong [OF R, of length] eq(3) by simp
    then have "u = take (length p - n) p" "R = drop (length p - n) p @ ?q"
      using arg_cong [OF R, of "take (length u)"] arg_cong [OF R, of "drop (length u)"] by simp_all
    with bu show ?thesis
      by (intro exI [of _ bu] exI [of _ "raw_bit_count c2"] exI [of _ "d # ds"]) (auto simp: rx_at_def)
  next
    case True
    from rx_used_up [OF has Cons.prems(2) pull [unfolded True]] obtain bu where
      bu: "process_rx_loop c2 = Some (c2\<lparr>unstuf := bu\<rparr>)" "rx_has bu (rev p @ h) [] (c - length g1) (g @ g1)" by blast
    obtain g2 where g2: "pull (rev p @ h) ?q (c - length g1) = (0, g2, length R)" "g' = g1 @ g2"
      using app True by (auto split: prod.splits)
    have "length R \<le> length ?q" using pull_length [OF g2(1)] by simp
    then obtain u' where u': "u = p @ u'" "?q = u' @ R"
    proof -
      have "length p \<le> length u" using arg_cong [OF R, of length] \<open>length R \<le> length ?q\<close> by simp
      then have "take (length p) u = p" using arg_cong [OF R, of "take (length p)"] by simp
      then have "u = p @ drop (length p) u" by (metis append_take_drop_id)
      with R that show ?thesis by (metis append.assoc same_append_eq)
    qed
    let ?c = "rx_word d (c2\<lparr>unstuf := bu\<rparr>)"
    have "rx_has (unstuf ?c) (rev p @ h) (msb_bits 10 d) (c - length g1) (g @ g1)"
      using rx_add [OF bu(2), of d] by (simp add: rx_word_def)
    then have at: "rx_at ?c ds (rev p @ h) (u' @ R) (c - length g1) (g @ g1)"
      using u'(2) by (auto simp: rx_at_def)
    have "c - length g1 \<noteq> 0" using pull_return [OF pull] True by simp
    from Cons.IH [OF at this g2(1) [unfolded u'(2)]] obtain bu' r ds' where
      "rx_run ?c ds = data_state_update (bits_val ((g @ g1) @ g2)) (?c\<lparr>unstuf := bu', raw_bit_count := r\<rparr>) \<bind> (\<lambda>c3. rx_run c3 ds')"
      "rx_at (?c\<lparr>unstuf := bu', raw_bit_count := r\<rparr>) ds' (rev u' @ rev p @ h) R 0 ((g @ g1) @ g2)" by blast
    moreover have "rx_run c2 (d # ds) = rx_run ?c ds"
      by (simp add: rx_run_def [of c2] bu(1) process_rx_words_Cons del: process_rx_words.simps)
    ultimately show ?thesis
      by (intro exI [of _ bu'] exI [of _ r] exI [of _ ds']) (simp add: rx_word_def u'(1) g2(2))
  qed
qed

section \<open>The parser's steps\<close>

lemma stall_bit: "pio_rx_check_stall p \<longleftrightarrow> bit (pio_fdebug p) 1"
  using and_one_bit [of 1 "pio_fdebug p"] by (simp add: pio_rx_check_stall_def)

lemma io_write_no_stall: "\<not> pio_rx_check_stall p \<Longrightarrow> \<not> pio_rx_check_stall (io_write r v p)"
  by (cases r) (simp_all add: stall_bit io_write_def io_effect_def bit_and_iff)

lemma io_writes_no_stall: "\<not> pio_rx_check_stall p \<Longrightarrow> \<not> pio_rx_check_stall (io_writes ws p)"
  by (induction ws p rule: io_writes.induct) (simp_all add: io_write_no_stall)

lemma pio_no_stall:
  "\<not> pio_rx_check_stall p \<Longrightarrow> \<not> pio_rx_check_stall (pio_irq_set v p)"
  "\<not> pio_rx_check_stall p \<Longrightarrow> \<not> pio_rx_check_stall (pio_signal_set_txpending p)"
  "\<not> pio_rx_check_stall p \<Longrightarrow> \<not> pio_rx_check_stall (pio_match_check v p)"
  "\<not> pio_rx_check_stall p \<Longrightarrow> \<not> pio_rx_check_stall (pio_match_clear p)"
  "\<not> pio_rx_check_stall p \<Longrightarrow> \<not> pio_rx_check_stall (pio_sync_normal_start_signal p)"
  "\<not> pio_rx_check_stall p \<Longrightarrow> \<not> pio_rx_check_stall (pio_sync_slow_start_signal p)"
  "\<not> pio_rx_check_stall p \<Longrightarrow> \<not> pio_rx_check_stall (pio_sm_setup a b p)"
  by (simp_all add: pio_irq_set_def pio_signal_set_txpending_def pio_match_check_def pio_match_clear_def
      pio_sync_normal_start_signal_def pio_sync_slow_start_signal_def pio_sm_setup_def pio_load_program_def
      pio_sync_setup_def pio_rx_setup_def pio_match_setup_def pio_tx_setup_def Let_def
      io_write_no_stall io_writes_no_stall del: io_writes.simps)

text \<open>The calls of the callback so far, no transmission of its own, no error counted, no stall.\<close>

definition quiet :: "(u32 \<times> can2040_msg) list \<Rightarrow> u32 \<Rightarrow> can2040 \<Rightarrow> bool" where
  "quiet L e c2 \<longleftrightarrow> rx_calls c2 = L \<and> tx_state c2 \<noteq> TS_QUEUED \<and> parse_error (c_stats c2) = e \<and>
     \<not> pio_rx_check_stall (c_pio c2)"

lemma quiet_pio:
  assumes "quiet L e c2"
  shows "quiet L e (on_pio (pio_irq_set v) c2)" "quiet L e (on_pio pio_signal_set_txpending c2)"
    "quiet L e (on_pio (pio_match_check v) c2)" "quiet L e (on_pio pio_match_clear c2)"
    "quiet L e (on_pio pio_sync_normal_start_signal c2)" "quiet L e (on_pio pio_sync_slow_start_signal c2)"
    "quiet L e (on_pio (pio_sm_setup a b) c2)"
  using assms by (simp_all add: quiet_def on_pio_def pio_no_stall)

lemma quiet_go_next [simp]: "quiet L e (data_state_go_next st n c2) = quiet L e c2"
  by (simp add: quiet_def data_state_go_next_def)

lemma go_next_sel [simp]:
  "parse_state (data_state_go_next st n c2) = st" "unstuf (data_state_go_next st n c2) = unstuf_set_count n (unstuf c2)"
  "parse_msg (data_state_go_next st n c2) = parse_msg c2" "parse_crc (data_state_go_next st n c2) = parse_crc c2"
  "report_state (data_state_go_next st n c2) = report_state c2" "c_pio (data_state_go_next st n c2) = c_pio c2"
  by (simp_all add: data_state_go_next_def)

lemma quiet_sel [simp]:
  "quiet L e (c2\<lparr>parse_msg := m\<rparr>) = quiet L e c2" "quiet L e (c2\<lparr>parse_crc := v\<rparr>) = quiet L e c2"
  "quiet L e (c2\<lparr>parse_crc_bits := v\<rparr>) = quiet L e c2" "quiet L e (c2\<lparr>parse_crc_pos := v\<rparr>) = quiet L e c2"
  "quiet L e (c2\<lparr>report_state := v\<rparr>) = quiet L e c2" "quiet L e (c2\<lparr>unstuf := bu\<rparr>) = quiet L e c2"
  "quiet L e (c2\<lparr>raw_bit_count := v\<rparr>) = quiet L e c2"
  by (simp_all add: quiet_def)

lemma go_discard_quiet:
  assumes "quiet L e c2" "report_state c2 = RS_IDLE"
  shows "quiet L e (data_state_go_discard c2)" "parse_state (data_state_go_discard c2) = MS_DISCARD"
    "unstuf (data_state_go_discard c2) = unstuf_set_count 32 (unstuf c2)" "report_state (data_state_go_discard c2) = RS_IDLE"
  using assms
  by (auto simp: data_state_go_discard_def report_note_discarding_def Let_def quiet_pio) (simp_all add: quiet_def)

lemma go_crc_step:
  assumes "quiet L e c2"
  shows "\<exists>c3. data_state_go_crc c2 = Some c3 \<and> quiet L e c3 \<and> parse_state c3 = MS_CRC \<and> unstuf c3 = unstuf_set_count 16 (unstuf c2) \<and>
    parse_msg c3 = parse_msg c2 \<and> parse_crc c3 = parse_crc c2 AND 0x7fff \<and> report_state c3 = RS_NEED_RX_ACK"
proof -
  obtain b n where b: "bitstuff (push_bit 15 (unstuf_get_raw (unstuf c2)) OR (parse_crc c2 AND 0x7fff)) (15 + 1) = Some (b, n)"
    using bitstuff_returns by blast
  have "tx_state c2 \<noteq> TS_QUEUED" using assms by (simp add: quiet_def)
  with b assms show ?thesis
    by (simp add: data_state_go_crc_def report_note_crc_start_def tx_check_local_message_def Let_def quiet_pio)
qed

text \<open>The fields after the CRC.\<close>

lemma update_crc_step:
  assumes "quiet L e c2" "parse_state c2 = MS_CRC" "report_state c2 = RS_NEED_RX_ACK" "data = push_bit 1 (parse_crc c2) OR 1"
  shows "\<exists>c3. data_state_update data c2 = Some c3 \<and> quiet L e c3 \<and> parse_state c3 = MS_ACK \<and>
    unstuf c3 = unstuf_set_count 2 (unstuf_clear_state (unstuf c2)) \<and> parse_msg c3 = parse_msg c2 \<and> report_state c3 = RS_NEED_RX_ACK"
  using assms by (simp add: data_state_update_def data_state_update_crc_def report_note_crc_success_def Let_def RS_defs)

lemma update_ack_step:
  assumes "quiet L e c2" "parse_state c2 = MS_ACK" "report_state c2 = RS_NEED_RX_ACK"
  shows "\<exists>c3. data_state_update 1 c2 = Some c3 \<and> quiet L e c3 \<and> parse_state c3 = MS_EOF0 \<and>
    unstuf c3 = unstuf_set_count 4 (unstuf c2) \<and> parse_msg c3 = parse_msg c2 \<and> report_state c3 = RS_NEED_RX_ACK OR RS_NEED_EOF_FLAG"
  using assms by (simp add: data_state_update_def data_state_update_ack_def report_note_ack_success_def Let_def RS_defs)

lemma update_eof0_step:
  assumes "quiet L e c2" "parse_state c2 = MS_EOF0"
  shows "\<exists>c3. data_state_update 0x0f c2 = Some c3 \<and> quiet L e c3 \<and> parse_state c3 = MS_EOF1 \<and>
    unstuf c3 = unstuf_set_count 5 (unstuf_clear_state (unstuf c2)) \<and> parse_msg c3 = parse_msg c2 \<and> report_state c3 = report_state c2"
  using assms by (simp add: data_state_update_def data_state_update_eof0_def Let_def) (simp add: quiet_def)

lemma quiet_call: "quiet L e c2 \<Longrightarrow> quiet (L @ [x]) e (rx_cb n m c2) \<longleftrightarrow> (n, m) = x"
  by (auto simp: quiet_def rx_cb_def)

lemma update_eof1_step:
  assumes "quiet L e c2" "parse_state c2 = MS_EOF1" "report_state c2 = RS_NEED_RX_ACK OR RS_NEED_EOF_FLAG"
  shows "\<exists>c3. data_state_update 0x1f c2 = Some c3 \<and> quiet (L @ [(CAN2040_NOTIFY_RX, parse_msg c2)]) e c3 \<and> parse_state c3 = MS_START \<and>
    unstuf c3 = unstuf_set_count 1 (unstuf c2) \<and> report_state c3 = RS_IDLE"
proof -
  let ?c = "on_pio pio_sync_normal_start_signal c2"
  let ?c' = "?c\<lparr>c_stats := (c_stats ?c)\<lparr>rx_total := rx_total (c_stats ?c) + 1\<rparr>\<rparr>"
  have q: "quiet L e ?c'" using quiet_pio(5) [OF assms(1)] by (simp add: quiet_def)
  have r: "report_state c2 \<noteq> RS_IDLE" "report_state c2 AND RS_NEED_EOF_FLAG \<noteq> 0" "report_state c2 \<noteq> RS_NEED_TX_EOF"
    using assms(3) by (simp_all add: RS_defs)
  have h: "report_handle_eof c2 = on_pio pio_match_clear ((rx_cb CAN2040_NOTIFY_RX (parse_msg c2) ?c')\<lparr>report_state := RS_IDLE\<rparr>)"
    using r by (simp add: report_handle_eof_def report_callback_rx_msg_def Let_def)
  have "quiet (L @ [(CAN2040_NOTIFY_RX, parse_msg c2)]) e (rx_cb CAN2040_NOTIFY_RX (parse_msg c2) ?c')"
    using quiet_call [OF q] by simp
  then have "quiet (L @ [(CAN2040_NOTIFY_RX, parse_msg c2)]) e (on_pio (pio_irq_set SI_TXPENDING) (report_handle_eof c2))"
    unfolding h by (intro quiet_pio) simp
  then show ?thesis
    using assms(2) r by (simp add: data_state_update_def data_state_update_eof1_def report_note_eof_success_def h)
qed

section \<open>The end of the frame\<close>

lemma rx_at_next:
  "rx_at c2 ds h R c g \<Longrightarrow> unstuf c3 = unstuf_set_count n (unstuf c2) \<Longrightarrow> unat n \<le> 32 \<Longrightarrow> rx_at c3 ds h R (unat n) []"
  using rx_set_count by (fastforce simp: rx_at_def)

lemma rx_at_clear:
  "rx_at c2 ds h R c g \<Longrightarrow> unstuf c3 = unstuf_set_count n (unstuf_clear_state (unstuf c2)) \<Longrightarrow> unat n \<le> 32 \<Longrightarrow>
   rx_at c3 ds [False, True, False, False, False] R (unat n) []"
  using rx_set_count [OF rx_clear] by (fastforce simp: rx_at_def)

text \<open>One field, forwards.\<close>

lemma rx_fieldI:
  assumes "rx_at c2 ds h (u @ R) n []" "n \<noteq> 0" "pull h (u @ R) n = (0, xs, length R)"
    and "\<And>bu r ds'. rx_at (c2\<lparr>unstuf := bu, raw_bit_count := r\<rparr>) ds' (rev u @ h) R 0 xs \<Longrightarrow>
      \<exists>c3. data_state_update (bits_val xs) (c2\<lparr>unstuf := bu, raw_bit_count := r\<rparr>) = Some c3 \<and> Q (rx_run c3 ds')"
  shows "Q (rx_run c2 ds)"
proof -
  obtain bu r ds' where "rx_run c2 ds = data_state_update (bits_val xs) (c2\<lparr>unstuf := bu, raw_bit_count := r\<rparr>) \<bind> (\<lambda>c3. rx_run c3 ds')"
    "rx_at (c2\<lparr>unstuf := bu, raw_bit_count := r\<rparr>) ds' (rev u @ h) R 0 xs"
    using rx_field [OF assms(1-3)] by auto
  with assms(4) show ?thesis by (metis bind.bind_lunit)
qed

text \<open>Recessive bits after the frame are violations of the stuffing rule, which only set the parser back.\<close>

lemma process_rx_loop_empty: "count_stuff (unstuf c2) = 0 \<Longrightarrow> process_rx_loop c2 = Some c2"
  by (subst process_rx_loop.simps) (simp add: unstuf_pull_bits_def Let_def)

lemma line_passive_step:
  assumes "rx_has (unstuf c2) h p c g" "quiet L e c2" "report_state c2 = RS_IDLE" "parse_state c2 = MS_START \<or> parse_state c2 = MS_DISCARD"
  shows "quiet L e (data_state_line_passive c2)" "report_state (data_state_line_passive c2) = RS_IDLE"
    "parse_state (data_state_line_passive c2) = MS_START \<or> parse_state (data_state_line_passive c2) = MS_DISCARD"
    "count_stuff (unstuf (data_state_line_passive c2)) = 0 \<or>
       (\<exists>n. n \<noteq> 0 \<and> rx_has (unstuf (data_state_line_passive c2)) h p n [])"
proof -
  let ?r = "sm_setup (data_state_clear_bits c2)"
  have r: "quiet L e ?r" "report_state ?r = RS_IDLE" "count_stuff (unstuf ?r) = 0"
    using assms quiet_pio(7) [of L e "data_state_clear_bits c2"]
    by (simp_all add: sm_setup_def data_state_clear_bits_def)
  note d = go_discard_quiet [OF r(1,2)] go_discard_quiet [OF assms(2,3)]
  have n: "\<exists>m. m \<noteq> 0 \<and> rx_has (unstuf_set_count n (unstuf c2)) h p m []" if "n \<le> 32" "n \<noteq> 0" for n
    using rx_set_count [OF assms(1), of n] that by (intro exI [of _ "unat n"]) (simp add: word_le_nat_alt word_unat_eq_iff)
  have cs: "count_stuff (unstuf_set_count n b) = count_stuff b" for n b by (simp add: unstuf_set_count_def)
  show "quiet L e (data_state_line_passive c2)" "report_state (data_state_line_passive c2) = RS_IDLE"
    "parse_state (data_state_line_passive c2) = MS_START \<or> parse_state (data_state_line_passive c2) = MS_DISCARD"
    using assms d by (auto simp: data_state_line_passive_def Let_def)
  show "count_stuff (unstuf (data_state_line_passive c2)) = 0 \<or>
       (\<exists>n. n \<noteq> 0 \<and> rx_has (unstuf (data_state_line_passive c2)) h p n [])"
    using assms(4) d(3,7) r(3) n [of 1] n [of 32]
    by (auto simp: data_state_line_passive_def Let_def cs)
qed

lemma rx_violation:
  assumes "rx_has (unstuf c2) h (True # p) c g" "c \<noteq> 0" "take 5 h = replicate 5 True"
  shows "\<exists>bu. process_rx_loop c2 = process_rx_loop (data_state_line_passive (c2\<lparr>unstuf := bu\<rparr>)) \<and>
    rx_has bu (True # h) p c g \<and> stuffed_bits bu = stuffed_bits (unstuf c2)"
proof -
  have "all5 h" "hd h" using assms(3) by (auto simp: all5_def dest!: arg_cong [where f = hd])
  then have pull: "pull h (True # p) c = (-1, [], length p)" using assms(2) by (cases c) auto
  from rx_pull [OF assms(1,2) pull] obtain bu where
    bu: "unstuf_pull_bits (unstuf c2) = Some (-1, bu)" "stuffed_bits bu = stuffed_bits (unstuf c2)" "rx_has bu (True # h) p c g"
    by auto
  have "process_rx_loop c2 = process_rx_loop (data_state_line_passive (c2\<lparr>unstuf := bu\<rparr>))"
    by (subst process_rx_loop.simps) (simp add: bu(1))
  with bu show ?thesis by blast
qed

lemma rx_trailing:
  "\<lbrakk> rx_has (unstuf c2) h (replicate k True) c g; c \<noteq> 0; take 5 h = replicate 5 True; quiet L e c2; report_state c2 = RS_IDLE;
     parse_state c2 = MS_START \<or> parse_state c2 = MS_DISCARD \<rbrakk> \<Longrightarrow>
   \<exists>c3. process_rx_loop c2 = Some c3 \<and> quiet L e c3"
proof (induction k arbitrary: c2 h c g)
  case 0
  then have "count_stuff (unstuf c2) = 0" by (simp add: rx_has_def word_unat_eq_iff)
  with 0 show ?case by (simp add: process_rx_loop_empty)
next
  case (Suc k)
  obtain bu where bu: "process_rx_loop c2 = process_rx_loop (data_state_line_passive (c2\<lparr>unstuf := bu\<rparr>))"
      "rx_has bu (True # h) (replicate k True) c g"
    using rx_violation [of c2 h "replicate k True" c g] Suc.prems by auto
  let ?c = "data_state_line_passive (c2\<lparr>unstuf := bu\<rparr>)"
  have "rx_has (unstuf (c2\<lparr>unstuf := bu\<rparr>)) (True # h) (replicate k True) c g" "quiet L e (c2\<lparr>unstuf := bu\<rparr>)"
    "report_state (c2\<lparr>unstuf := bu\<rparr>) = RS_IDLE" "parse_state (c2\<lparr>unstuf := bu\<rparr>) = MS_START \<or> parse_state (c2\<lparr>unstuf := bu\<rparr>) = MS_DISCARD"
    using bu(2) Suc.prems by simp_all
  note s = line_passive_step [OF this]
  have h: "take 5 (True # h) = replicate 5 True"
    using arg_cong [OF Suc.prems(3), of "take 4"] by (simp add: numeral_eq_Suc)
  show ?case
  proof (cases "count_stuff (unstuf ?c) = 0")
    case True
    with s(1) show ?thesis by (simp add: bu(1) process_rx_loop_empty)
  next
    case False
    with s(4) obtain n where n: "n \<noteq> 0" "rx_has (unstuf ?c) (True # h) (replicate k True) n []" by blast
    from Suc.IH [OF n(2,1) h s(1-3)] show ?thesis unfolding bu(1) .
  qed
qed

lemma rx_end_of_frame_1:
  assumes at: "rx_at c2 ds [False, True, False, False, False] (replicate 5 True @ replicate k True) 5 []" and "k < 10"
    and q: "quiet L e c2" and st: "parse_state c2 = MS_EOF1" "report_state c2 = RS_NEED_RX_ACK OR RS_NEED_EOF_FLAG"
  shows "\<exists>c'. rx_run c2 ds = Some c' \<and> quiet (L @ [(CAN2040_NOTIFY_RX, parse_msg c2)]) e c'"
proof (rule rx_fieldI [OF at, where Q = "\<lambda>r. \<exists>c'. r = Some c' \<and> quiet (L @ [(CAN2040_NOTIFY_RX, parse_msg c2)]) e c'"])
  show "pull [False, True, False, False, False] (replicate 5 True @ replicate k True) 5 = (0, replicate 5 True, length (replicate k True))"
    by (simp add: numeral_eq_Suc all5_def)
next
  fix bu r ds'
  let ?c = "c2\<lparr>unstuf := bu, raw_bit_count := r\<rparr>"
  let ?h = "rev (replicate 5 True) @ [False, True, False, False, False]"
  assume at': "rx_at ?c ds' ?h (replicate k True) 0 (replicate 5 True)"
  obtain c3 where c3: "data_state_update 0x1f ?c = Some c3" "quiet (L @ [(CAN2040_NOTIFY_RX, parse_msg c2)]) e c3"
      "parse_state c3 = MS_START" "unstuf c3 = unstuf_set_count 1 (unstuf ?c)" "report_state c3 = RS_IDLE"
    using update_eof1_step [of L e ?c] q st by auto
  have v: "bits_val (replicate 5 True) = 0x1f" by (simp add: numeral_eq_Suc bits_val_def)
  from rx_at_next [OF at' c3(4)] have "rx_at c3 ds' ?h (replicate k True) 1 []" by simp
  then obtain p where p: "rx_has (unstuf c3) ?h p 1 []" "replicate k True = p @ concat (map (msb_bits 10) ds')"
    by (auto simp: rx_at_def)
  have "ds' = []"
    using assms(2) arg_cong [OF p(2), of length] by (cases ds') auto
  with p have "rx_has (unstuf c3) ?h (replicate k True) 1 []" by simp
  from rx_trailing [OF this _ _ c3(2,5)] c3(3) obtain c4 where
    "process_rx_loop c3 = Some c4" "quiet (L @ [(CAN2040_NOTIFY_RX, parse_msg c2)]) e c4" by auto
  with c3(1) v \<open>ds' = []\<close> show "\<exists>c3. data_state_update (bits_val (replicate 5 True)) ?c = Some c3 \<and>
      (\<exists>c'. rx_run c3 ds' = Some c' \<and> quiet (L @ [(CAN2040_NOTIFY_RX, parse_msg c2)]) e c')"
    by (simp add: rx_run_def)
qed simp

lemma rx_end_of_frame_0:
  assumes at: "rx_at c2 ds (True # False # False # h) (replicate 4 True @ replicate 5 True @ replicate k True) 4 []" and "k < 10"
    and q: "quiet L e c2" and st: "parse_state c2 = MS_EOF0" "report_state c2 = RS_NEED_RX_ACK OR RS_NEED_EOF_FLAG"
  shows "\<exists>c'. rx_run c2 ds = Some c' \<and> quiet (L @ [(CAN2040_NOTIFY_RX, parse_msg c2)]) e c'"
proof (rule rx_fieldI [OF at, where Q = "\<lambda>r. \<exists>c'. r = Some c' \<and> quiet (L @ [(CAN2040_NOTIFY_RX, parse_msg c2)]) e c'"])
  show "pull (True # False # False # h) (replicate 4 True @ replicate 5 True @ replicate k True) 4 =
      (0, replicate 4 True, length (replicate 5 True @ replicate k True))"
    by (simp add: numeral_eq_Suc all5_def)
next
  fix bu r ds'
  let ?c = "c2\<lparr>unstuf := bu, raw_bit_count := r\<rparr>"
  assume at': "rx_at ?c ds' (rev (replicate 4 True) @ True # False # False # h) (replicate 5 True @ replicate k True) 0 (replicate 4 True)"
  obtain c3 where c3: "data_state_update 0x0f ?c = Some c3" "quiet L e c3" "parse_state c3 = MS_EOF1"
      "unstuf c3 = unstuf_set_count 5 (unstuf_clear_state (unstuf ?c))" "parse_msg c3 = parse_msg ?c" "report_state c3 = report_state ?c"
    using update_eof0_step [of L e ?c] q st by auto
  have v: "bits_val (replicate 4 True) = 0x0f" by (simp add: numeral_eq_Suc bits_val_def)
  from rx_at_clear [OF at' c3(4)] have "rx_at c3 ds' [False, True, False, False, False] (replicate 5 True @ replicate k True) 5 []" by simp
  from rx_end_of_frame_1 [OF this assms(2) c3(2,3)] c3 st v show
    "\<exists>c3. data_state_update (bits_val (replicate 4 True)) ?c = Some c3 \<and>
      (\<exists>c'. rx_run c3 ds' = Some c' \<and> quiet (L @ [(CAN2040_NOTIFY_RX, parse_msg c2)]) e c')" by simp
qed simp

text \<open>What follows the stuffed part of an acknowledged frame: the CRC delimiter, the acknowledgement, its
  delimiter, the end of frame and the first bits of the intermission, and \<open>k\<close> more.\<close>

definition after_crc :: "nat \<Rightarrow> bool list" where
  "after_crc k = True # [False, True] @ replicate 4 True @ replicate 5 True @ replicate k True"

lemma rx_acknowledged:
  assumes at: "rx_at c2 ds [False, True, False, False, False] (tl (after_crc k)) 2 []" and "k < 10"
    and q: "quiet L e c2" and st: "parse_state c2 = MS_ACK" "report_state c2 = RS_NEED_RX_ACK"
  shows "\<exists>c'. rx_run c2 ds = Some c' \<and> quiet (L @ [(CAN2040_NOTIFY_RX, parse_msg c2)]) e c'"
proof -
  let ?R = "replicate 4 True @ replicate 5 True @ replicate k True"
  have "rx_at c2 ds [False, True, False, False, False] ([False, True] @ ?R) 2 []"
    using at by (simp add: after_crc_def)
  then show ?thesis
  proof (rule rx_fieldI [where Q = "\<lambda>r. \<exists>c'. r = Some c' \<and> quiet (L @ [(CAN2040_NOTIFY_RX, parse_msg c2)]) e c'"])
    show "pull [False, True, False, False, False] ([False, True] @ ?R) 2 = (0, [False, True], length ?R)"
      by (simp add: numeral_eq_Suc all5_def)
  next
    fix bu r ds'
    let ?c = "c2\<lparr>unstuf := bu, raw_bit_count := r\<rparr>"
    assume at': "rx_at ?c ds' (rev [False, True] @ [False, True, False, False, False]) ?R 0 [False, True]"
    obtain c3 where c3: "data_state_update 1 ?c = Some c3" "quiet L e c3" "parse_state c3 = MS_EOF0"
        "unstuf c3 = unstuf_set_count 4 (unstuf ?c)" "parse_msg c3 = parse_msg ?c" "report_state c3 = RS_NEED_RX_ACK OR RS_NEED_EOF_FLAG"
      using update_ack_step [of L e ?c] q st by auto
    have v: "bits_val [False, True] = 1" by (simp add: bits_val_def)
    from rx_at_next [OF at' c3(4)] have "rx_at c3 ds' (True # False # False # [True, False, False, False]) ?R 4 []" by simp
    from rx_end_of_frame_0 [OF this assms(2) c3(2,3,6)] c3 v show
      "\<exists>c3. data_state_update (bits_val [False, True]) ?c = Some c3 \<and>
        (\<exists>c'. rx_run c3 ds' = Some c' \<and> quiet (L @ [(CAN2040_NOTIFY_RX, parse_msg c2)]) e c')" by simp
  qed simp
qed

lemma rx_crc:
  assumes at: "rx_at c2 ds h (owed h (msb_bits 15 crc) @ after_crc k) 16 []" and "k < 10"
    and q: "quiet L e c2" and st: "parse_state c2 = MS_CRC" "report_state c2 = RS_NEED_RX_ACK"
    and crc: "parse_crc c2 = take_bit 15 crc"
  shows "\<exists>c'. rx_run c2 ds = Some c' \<and> quiet (L @ [(CAN2040_NOTIFY_RX, parse_msg c2)]) e c'"
proof -
  let ?R = "tl (after_crc k)" and ?u = "owed h (msb_bits 15 crc) @ [True]"
  have "rx_at c2 ds h (?u @ ?R) 16 []" using at by (simp add: after_crc_def)
  then show ?thesis
  proof (rule rx_fieldI [where Q = "\<lambda>r. \<exists>c'. r = Some c' \<and> quiet (L @ [(CAN2040_NOTIFY_RX, parse_msg c2)]) e c'"])
    show "pull h (?u @ ?R) 16 = (0, msb_bits 15 crc @ [True], length ?R)"
      using pull_delim [of h "msb_bits 15 crc"] by auto
  next
    fix bu r ds'
    let ?c = "c2\<lparr>unstuf := bu, raw_bit_count := r\<rparr>"
    assume at': "rx_at ?c ds' (rev ?u @ h) ?R 0 (msb_bits 15 crc @ [True])"
    have v: "bits_val (msb_bits 15 crc @ [True]) = push_bit 1 (parse_crc ?c) OR 1"
      by (simp add: bits_val_snoc bits_val_msb_bits crc)
    obtain c3 where c3: "data_state_update (push_bit 1 (parse_crc ?c) OR 1) ?c = Some c3" "quiet L e c3" "parse_state c3 = MS_ACK"
        "unstuf c3 = unstuf_set_count 2 (unstuf_clear_state (unstuf ?c))" "parse_msg c3 = parse_msg ?c" "report_state c3 = RS_NEED_RX_ACK"
      using update_crc_step [of L e ?c] q st by auto
    from rx_at_clear [OF at' c3(4)] have "rx_at c3 ds' [False, True, False, False, False] ?R 2 []" by simp
    from rx_acknowledged [OF this assms(2) c3(2,3,6)] c3 v show
      "\<exists>c3. data_state_update (bits_val (msb_bits 15 crc @ [True])) ?c = Some c3 \<and>
        (\<exists>c'. rx_run c3 ds' = Some c' \<and> quiet (L @ [(CAN2040_NOTIFY_RX, parse_msg c2)]) e c')" by simp
  qed simp
qed

text \<open>A field of the stuffed part.\<close>

lemma rx_stuffed_field:
  assumes "rx_at c2 ds h (owed h (xs @ ys) @ T) (length xs) []" "xs \<noteq> []"
    and "\<And>bu r ds' h'. rx_at (c2\<lparr>unstuf := bu, raw_bit_count := r\<rparr>) ds' h' (owed h' ys @ T) 0 xs \<Longrightarrow>
      \<exists>c3. data_state_update (bits_val xs) (c2\<lparr>unstuf := bu, raw_bit_count := r\<rparr>) = Some c3 \<and> Q (rx_run c3 ds')"
  shows "Q (rx_run c2 ds)"
proof -
  obtain u where u: "owed h (xs @ ys) = u @ owed (rev u @ h) ys"
      "\<And>r. pull h (owed h (xs @ ys) @ r) (length xs) = (0, xs, length (owed (rev u @ h) ys @ r))"
    using pull_owed by blast
  have "rx_at c2 ds h (u @ owed (rev u @ h) ys @ T) (length xs) []" using assms(1) u(1) by simp
  then show ?thesis
  proof (rule rx_fieldI)
    show "pull h (u @ owed (rev u @ h) ys @ T) (length xs) = (0, xs, length (owed (rev u @ h) ys @ T))"
      using u(2) [of T] u(1) by simp
  qed (use assms(2,3) in auto)
qed

section \<open>Data and CRC\<close>

definition rx_done :: "(u32 \<times> can2040_msg) list \<Rightarrow> u32 \<Rightarrow> can2040_msg \<Rightarrow> can2040 option \<Rightarrow> bool" where
  "rx_done L e m r \<longleftrightarrow> (\<exists>c'. r = Some c' \<and> quiet (L @ [(CAN2040_NOTIFY_RX, m)]) e c')"

lemma rx_go_crc:
  assumes "rx_at c2 ds h (owed h (msb_bits 15 crc) @ after_crc k) 0 g" "k < 10" "quiet L e c2" "take_bit 15 (parse_crc c2) = take_bit 15 crc"
  shows "\<exists>c3. data_state_go_crc c2 = Some c3 \<and> rx_done L e (parse_msg c2) (rx_run c3 ds)"
proof -
  obtain c3 where c3: "data_state_go_crc c2 = Some c3" "quiet L e c3" "parse_state c3 = MS_CRC" "unstuf c3 = unstuf_set_count 16 (unstuf c2)"
      "parse_msg c3 = parse_msg c2" "parse_crc c3 = parse_crc c2 AND 0x7fff" "report_state c3 = RS_NEED_RX_ACK"
    using go_crc_step [OF assms(3)] by blast
  have "parse_crc c3 = take_bit 15 crc" using c3(6) assms(4) by (simp add: take_bit_eq_mask mask_eq_exp_minus_1)
  moreover have "rx_at c3 ds h (owed h (msb_bits 15 crc) @ after_crc k) 16 []"
    using rx_at_next [OF assms(1) c3(4)] by simp
  ultimately show ?thesis using rx_crc [OF _ assms(2) c3(2,3,7)] c3(1,5) by (auto simp: rx_done_def)
qed

lemma bit_bits_val: "length g \<le> 32 \<Longrightarrow> bit (bits_val g) i \<longleftrightarrow> i < length g \<and> g ! (length g - 1 - i)"
proof (induction g arbitrary: i rule: rev_induct)
  case (snoc b g)
  have e: "bit (bits_val (g @ [b])) i \<longleftrightarrow> (1 \<le> i \<and> i < 32 \<and> bit (bits_val g) (i - 1)) \<or> (i = 0 \<and> b)"
    unfolding bits_val_snoc bit_or_iff bit_push_bit_iff bit_of_bool_iff possible_bit_word by simp
  show ?case
  proof (cases i)
    case 0
    then show ?thesis unfolding e by (simp add: nth_append)
  next
    case (Suc j)
    have IH: "bit (bits_val g) j \<longleftrightarrow> j < length g \<and> g ! (length g - 1 - j)" using snoc by simp
    show ?thesis
    proof (cases "j < length g")
      case True
      then have "length g - Suc j < length g" by linarith
      then have "(g @ [b]) ! (length (g @ [b]) - 1 - i) = g ! (length g - 1 - j)"
        using Suc by (simp add: nth_append)
      then show ?thesis unfolding e using True Suc IH snoc.prems by simp
    next
      case False
      then show ?thesis unfolding e using Suc IH by simp
    qed
  qed
qed simp

lemma msb_bits_val: "length g \<le> 32 \<Longrightarrow> msb_bits (length g) (bits_val g) = g"
proof (rule nth_equalityI)
  fix i assume i: "length g \<le> 32" "i < length (msb_bits (length g) (bits_val g))"
  then have "length g - Suc i < length g" by (cases g) auto
  with i show "msb_bits (length g) (bits_val g) ! i = g ! i" by (simp add: nth_msb_bits bit_bits_val)
qed simp

lemma length_byte_bits [simp]: "length (byte_bits v) = 8"
  by (simp add: byte_bits_def)

lemma length_bytes_bits [simp]: "length (concat (map byte_bits vs)) = 8 * length vs"
  by (induction vs) simp_all

lemma bits_val_byte: "bits_val (byte_bits v) = ucast v"
proof -
  have "take_bit 8 (ucast v :: u32) = ucast v" by (rule bit_word_eqI) (auto simp: bit_simps dest: bit_imp_le_length)
  then show ?thesis by (simp add: byte_bits_def bits_val_msb_bits)
qed

lemma ucast_byte [simp]: "ucast (ucast v :: u32) = (v :: u8)"
  by (rule bit_word_eqI) (auto simp: bit_simps)

lemma replicate_few: "replicate 3 x = [x, x, x]" "replicate 2 x = [x, x]"
  by (simp_all add: numeral_eq_Suc)

lemma bytes_of_bits:
  assumes "vs \<noteq> []" "length vs \<le> 4"
  shows "bswap32 (push_bit (32 - 8 * length vs) (bits_val (concat (map byte_bits vs)))) = vs @ replicate (4 - length vs) 0"
proof -
  obtain a b c d where "vs = [a] \<or> vs = [a, b] \<or> vs = [a, b, c] \<or> vs = [a, b, c, d]"
  proof -
    from assms obtain a vs1 where 1: "vs = a # vs1" by (cases vs) auto
    show ?thesis
    proof (cases vs1)
      case (Cons b vs2)
      show ?thesis
      proof (cases vs2)
        case (Cons c vs3)
        then show ?thesis using 1 \<open>vs1 = b # vs2\<close> assms(2) that by (cases vs3) auto
      qed (use 1 \<open>vs1 = b # vs2\<close> that in auto)
    qed (use 1 that in auto)
  qed
  then show ?thesis
    by (elim disjE; simp add: replicate_few bswap32_def bytes_of_u32_def bits_val_append bits_val_byte; intro conjI bit_word_eqI;
        auto simp: bit_simps dest: bit_imp_le_length)
qed

lemma crc_payload:
  assumes "vs \<noteq> []" "length vs \<le> 4" "unat num = length vs \<or> 4 \<le> unat num \<and> length vs = 4"
  shows "take_bit 15 (crc_bytes crc (bits_val (concat (map byte_bits vs))) num) = crc15_bits (take_bit 15 crc) (concat (map byte_bits vs))"
proof -
  let ?n = "of_nat (length vs) :: u32" and ?g = "concat (map byte_bits vs)"
  have un: "unat ?n = length vs" using assms(2) by (simp add: unat_of_nat_u32)
  have n: "?n = 1 \<or> ?n = 2 \<or> ?n = 3 \<or> ?n = 4"
  proof -
    have "0 < length vs" using assms(1) by simp
    then have "length vs = 1 \<or> length vs = 2 \<or> length vs = 3 \<or> length vs = 4" using assms(2) by linarith
    then show ?thesis by auto
  qed
  have "crc_bytes crc (bits_val ?g) num = crc_bytes crc (bits_val ?g) ?n"
  proof (cases "unat num = length vs")
    case True
    then have "num = ?n" using un by (simp add: word_unat_eq_iff)
    then show ?thesis by simp
  next
    case False
    then have "4 \<le> unat num" "?n = 4" using assms(3) by auto
    then have "num \<noteq> 1" "num \<noteq> 2" "num \<noteq> 3" by auto
    with \<open>?n = 4\<close> show ?thesis by (simp add: crc_bytes_def Let_def)
  qed
  also have "take_bit 15 \<dots> = crc15_bits (take_bit 15 crc) (msb_bits (8 * length vs) (bits_val ?g))"
    using crc_bytes_serial [OF n] un by simp
  also have "msb_bits (8 * length vs) (bits_val ?g) = ?g" using msb_bits_val [of ?g] assms(2) by simp
  finally show ?thesis .
qed

lemma byte_bits_not_Nil [simp]: "byte_bits v \<noteq> []"
  using length_byte_bits [of v] by (metis list.size(3) zero_neq_numeral)

lemma rx_data1:
  assumes at: "rx_at c2 ds h (owed h (concat (map byte_bits vs) @ msb_bits 15 crc) @ after_crc k) (8 * length vs) []" and k: "k < 10"
    and q: "quiet L e c2" and st: "parse_state c2 = MS_DATA1"
    and vs: "vs \<noteq> []" "length vs \<le> 4" and n: "4 < n" "min 8 (unat n) = 4 + length vs" "dlc (parse_msg c2) = n"
    and m: "length first = 4" "msg_data (parse_msg c2) = first @ replicate 4 0"
    and crc: "take_bit 15 crc = crc15_bits (take_bit 15 (parse_crc c2)) (concat (map byte_bits vs))"
  shows "rx_done L e ((parse_msg c2)\<lparr>msg_data := first @ vs @ replicate (4 - length vs) 0\<rparr>) (rx_run c2 ds)"
proof (rule rx_stuffed_field [where xs = "concat (map byte_bits vs)"])
  let ?xs = "concat (map byte_bits vs)"
  show "rx_at c2 ds h (owed h (?xs @ msb_bits 15 crc) @ after_crc k) (length ?xs) []" using at by simp
  show "?xs \<noteq> []" using vs(1) by (cases vs) auto
  fix bu r ds' h'
  let ?c = "c2\<lparr>unstuf := bu, raw_bit_count := r\<rparr>"
  let ?c' = "?c\<lparr>parse_crc := crc_bytes (parse_crc c2) (bits_val ?xs) (n - 4),
     parse_msg := (parse_msg c2)\<lparr>msg_data := first @ vs @ replicate (4 - length vs) 0\<rparr>\<rparr>"
  assume "rx_at ?c ds' h' (owed h' (msb_bits 15 crc) @ after_crc k) 0 ?xs"
  then have at': "rx_at ?c' ds' h' (owed h' (msb_bits 15 crc) @ after_crc k) 0 ?xs" by (simp add: rx_at_def)
  have n4: "unat (n - 4) = unat n - 4" using n(1) by (subst unat_sub) (auto simp: word_le_nat_alt word_less_nat_alt)
  have num: "unat (n - 4) = length vs \<or> 4 \<le> unat (n - 4) \<and> length vs = 4" using n(2) vs(2) unfolding n4 by linarith
  have bits: "unat (32 - (if n \<ge> 8 then 32 else (n - 4) * 8)) = 32 - 8 * length vs"
  proof (cases "n \<ge> 8")
    case True
    then show ?thesis using n(2) by (simp add: word_le_nat_alt)
  next
    case False
    then have l: "length vs = unat n - 4" "unat n < 8" using n(2) by (auto simp: word_le_nat_alt)
    then have "unat ((n - 4) * 8) = 8 * length vs" by (subst unat_word_ariths(2)) (simp add: n4)
    with False l show ?thesis by (subst unat_sub) (auto simp: word_le_nat_alt)
  qed
  have upd: "data_state_update (bits_val ?xs) ?c = data_state_go_crc ?c'"
  proof -
    have "take 4 (msg_data (parse_msg c2)) @ bswap32 (push_bit (unat (32 - (if n \<ge> 8 then 32 else (n - 4) * 8))) (bits_val ?xs)) =
        first @ vs @ replicate (4 - length vs) 0"
      unfolding bits by (subst bytes_of_bits [OF vs]) (simp add: m)
    then show ?thesis using st n(3) by (simp add: data_state_update_def data_state_update_data1_def Let_def)
  qed
  have "quiet L e ?c'" using q by simp
  moreover have "take_bit 15 (parse_crc ?c') = take_bit 15 crc"
    using crc_payload [OF vs num, of "parse_crc c2"] crc by simp
  ultimately show "\<exists>c3. data_state_update (bits_val ?xs) ?c = Some c3 \<and>
      rx_done L e ((parse_msg c2)\<lparr>msg_data := first @ vs @ replicate (4 - length vs) 0\<rparr>) (rx_run c3 ds')"
    unfolding upd using rx_go_crc [OF at' k, of L e] by simp
qed

lemma map_bits_take: "concat (map byte_bits vs) = concat (map byte_bits (take 4 vs)) @ concat (map byte_bits (drop 4 vs))"
  by (metis append_take_drop_id concat_append map_append)

lemma rx_data0:
  assumes at: "rx_at c2 ds h (owed h (concat (map byte_bits vs) @ msb_bits 15 crc) @ after_crc k) (8 * min 4 (length vs)) []" and k: "k < 10"
    and q: "quiet L e c2" and st: "parse_state c2 = MS_DATA0"
    and vs: "vs \<noteq> []" "length vs = min 8 (unat n)" and n: "dlc (parse_msg c2) = n"
    and m: "msg_data (parse_msg c2) = replicate 8 0"
    and crc: "take_bit 15 crc = crc15_bits (take_bit 15 (parse_crc c2)) (concat (map byte_bits vs))"
  shows "rx_done L e ((parse_msg c2)\<lparr>msg_data := vs @ replicate (8 - length vs) 0\<rparr>) (rx_run c2 ds)"
proof (rule rx_stuffed_field [where xs = "concat (map byte_bits (take 4 vs))" and ys = "concat (map byte_bits (drop 4 vs)) @ msb_bits 15 crc"])
  let ?w = "take 4 vs" and ?v = "drop 4 vs"
  let ?xs = "concat (map byte_bits ?w)" and ?m = "(parse_msg c2)\<lparr>msg_data := vs @ replicate (8 - length vs) 0\<rparr>"
  show "rx_at c2 ds h (owed h (?xs @ concat (map byte_bits ?v) @ msb_bits 15 crc) @ after_crc k) (length ?xs) []"
    using at map_bits_take [of vs] by (simp add: min.commute)
  show "?xs \<noteq> []" using vs(1) by (cases vs) auto
  fix bu r ds' h'
  let ?c = "c2\<lparr>unstuf := bu, raw_bit_count := r\<rparr>"
  let ?f = "?w @ replicate (4 - length ?w) 0 @ replicate 4 0"
  let ?B = "bswap32 (push_bit (unat (32 - (if n \<ge> 4 then 32 else n * 8))) (bits_val ?xs)) @ drop 4 (msg_data (parse_msg c2))"
  let ?c' = "?c\<lparr>parse_crc := crc_bytes (parse_crc c2) (bits_val ?xs) n, parse_msg := (parse_msg c2)\<lparr>msg_data := ?B\<rparr>\<rparr>"
  assume at': "rx_at ?c ds' h' (owed h' (concat (map byte_bits ?v) @ msb_bits 15 crc) @ after_crc k) 0 ?xs"
  have w: "?w \<noteq> []" "length ?w \<le> 4" using vs(1) by simp_all
  have num: "unat n = length ?w \<or> 4 \<le> unat n \<and> length ?w = 4" using vs(2) by auto
  have bits: "unat (32 - (if n \<ge> 4 then 32 else n * 8)) = 32 - 8 * length ?w"
  proof (cases "n \<ge> 4")
    case True
    then show ?thesis using vs(2) by (simp add: word_le_nat_alt)
  next
    case False
    then have l: "length ?w = unat n" "unat n < 4" using vs(2) by (auto simp: word_le_nat_alt)
    then have "unat (n * 8) = 8 * length ?w" by (simp add: unat_word_ariths)
    with False l show ?thesis by (subst unat_sub) (auto simp: word_le_nat_alt)
  qed
  have data: "?B = ?f"
    unfolding bits by (subst bytes_of_bits [OF w]) (simp add: m)
  have upd: "data_state_update (bits_val ?xs) ?c =
      (if n > 4 then Some (data_state_go_next MS_DATA1 (if n \<ge> 8 then 32 else (n - 4) * 8) ?c') else data_state_go_crc ?c')"
    using st n by (simp add: data_state_update_def data_state_update_data0_def Let_def)
  have q': "quiet L e ?c'" using q by simp
  have crc': "take_bit 15 (parse_crc ?c') = crc15_bits (take_bit 15 (parse_crc c2)) ?xs"
    using crc_payload [OF w num, of "parse_crc c2"] by simp
  show "\<exists>c3. data_state_update (bits_val ?xs) ?c = Some c3 \<and> rx_done L e ?m (rx_run c3 ds')"
  proof (cases "n > 4")
    case True
    then have v: "?v \<noteq> []" "length ?v \<le> 4" "min 8 (unat n) = 4 + length ?v" "length ?w = 4"
      using vs(2) by (auto simp: word_less_nat_alt)
    let ?c3 = "data_state_go_next MS_DATA1 (if n \<ge> 8 then 32 else (n - 4) * 8) ?c'"
    have cnt: "unat (if n \<ge> 8 then 32 else (n - 4) * 8) = 8 * length ?v"
    proof (cases "n \<ge> 8")
      case False
      then have "length ?v = unat n - 4" "unat n < 8" using v(3) by (auto simp: word_le_nat_alt)
      moreover have "unat (n - 4) = unat n - 4" using True by (subst unat_sub) (auto simp: word_le_nat_alt word_less_nat_alt)
      ultimately show ?thesis using False by (simp only: if_False, subst unat_word_ariths(2)) simp
    qed (use v(3) in \<open>simp add: word_le_nat_alt\<close>)
    have "unstuf ?c3 = unstuf_set_count (if n \<ge> 8 then 32 else (n - 4) * 8) (unstuf ?c)" by simp
    from rx_at_next [OF at' this, unfolded cnt] have
      at3: "rx_at ?c3 ds' h' (owed h' (concat (map byte_bits ?v) @ msb_bits 15 crc) @ after_crc k) (8 * length ?v) []" using v(2) by simp
    have "rx_done L e ((parse_msg ?c3)\<lparr>msg_data := ?w @ ?v @ replicate (4 - length ?v) 0\<rparr>) (rx_run ?c3 ds')"
    proof (rule rx_data1 [OF at3 k _ _ v(1,2) True v(3)])
      show "take_bit 15 crc = crc15_bits (take_bit 15 (parse_crc ?c3)) (concat (map byte_bits ?v))"
        using crc crc' by (simp add: map_bits_take [of vs] crc15_bits_append)
    qed (use q' n v(4) data in simp_all)
    moreover have "?w @ ?v @ replicate (4 - length ?v) 0 = vs @ replicate (8 - length vs) 0" using v(4) by (simp flip: append_assoc)
    ultimately show ?thesis unfolding upd using True by simp
  next
    case False
    then have v: "?v = []" "?w = vs" using vs(2) by (simp_all add: word_less_nat_alt)
    have at3: "rx_at ?c' ds' h' (owed h' (msb_bits 15 crc) @ after_crc k) 0 ?xs" using at' by (simp add: v rx_at_def)
    have "?f = vs @ replicate (8 - length vs) 0"
    proof -
      have "length vs \<le> 4" using w(2) v(2) by simp
      then have "replicate (4 - length vs) 0 @ replicate 4 (0 :: u8) = replicate (8 - length vs) 0" by (simp flip: replicate_add)
      then show ?thesis unfolding v(2) by simp
    qed
    then have "parse_msg ?c' = ?m" using data by simp
    moreover have "take_bit 15 (parse_crc ?c') = take_bit 15 crc" using crc crc' v by simp
    ultimately show ?thesis unfolding upd using False rx_go_crc [OF at3 k q'] by simp
  qed
qed

section \<open>The header\<close>

text \<open>A message as \<open>tx_copy_msg\<close> leaves it, with the bytes that are sent.\<close>

definition rx_msg :: "can2040_msg \<Rightarrow> u8 list \<Rightarrow> bool" where
  "rx_msg m vs \<longleftrightarrow> tx_msg_ok m \<and> length vs = unat (tx_data_len m) \<and> msg_data m = vs @ replicate (8 - length vs) 0 \<and>
     (if bit (msg_id m) 31 then \<not> bit (msg_id m) 29 else \<forall>i \<in> {11..<30}. \<not> bit (msg_id m) i)"

lemma rx_go_data:
  assumes at: "rx_at c2 ds h (owed h (concat (map byte_bits vs) @ msb_bits 15 crc) @ after_crc k) 0 g" and k: "k < 10"
    and q: "quiet L e c2" and m: "rx_msg m vs"
    and d: "data AND push_bit 4 0x03 = 0" "data AND 0x0f = dlc m" "data AND push_bit 6 1 \<noteq> 0 \<longleftrightarrow> bit (msg_id m) 30"
    and i: "(if bit (msg_id m) 30 then mid OR CAN2040_ID_RTR else mid) = msg_id m"
    and crc: "take_bit 15 crc = crc15_bits (take_bit 15 (parse_crc c2)) (concat (map byte_bits vs))"
  shows "\<exists>c3. data_state_go_data mid data c2 = Some c3 \<and> rx_done L e m (rx_run c3 ds)"
proof -
  let ?n = "if bit (msg_id m) 30 then 0 else dlc m"
  let ?c = "c2\<lparr>parse_msg := \<lparr> msg_id = msg_id m, dlc = dlc m, msg_data = replicate 8 0 \<rparr>\<rparr>"
  have go: "data_state_go_data mid data c2 =
      (if ?n \<noteq> 0 then Some (data_state_go_next MS_DATA0 (if ?n \<ge> 4 then 32 else ?n * 8) ?c) else data_state_go_crc ?c)"
    using d i by (simp add: data_state_go_data_def Let_def split: if_splits)
  have len: "length vs = min 8 (unat ?n)"
    using m by (auto simp: rx_msg_def tx_data_len_def rtr_bit word_less_nat_alt)
  have mm: "m = \<lparr> msg_id = msg_id m, dlc = dlc m, msg_data = vs @ replicate (8 - length vs) 0 \<rparr>"
    using m by (simp add: rx_msg_def)
  have q': "quiet L e ?c" using q by simp
  show ?thesis
  proof (cases "?n = 0")
    case True
    then have v: "vs = []" using len by simp
    then have "rx_at ?c ds h (owed h (msb_bits 15 crc) @ after_crc k) 0 g" using at by (simp add: rx_at_def)
    moreover have "take_bit 15 (parse_crc ?c) = take_bit 15 crc" using crc v by (simp add: crc15_bits_def)
    moreover have "parse_msg ?c = m" using v by (subst (3) mm) simp
    ultimately show ?thesis unfolding go using True rx_go_crc [OF _ k q'] by simp
  next
    case False
    let ?c3 = "data_state_go_next MS_DATA0 (if ?n \<ge> 4 then 32 else ?n * 8) ?c"
    have n: "?n = dlc m" using False by (simp split: if_splits)
    have l: "length vs = min 8 (unat (dlc m))" using len unfolding n .
    have cnt: "unat (if ?n \<ge> 4 then 32 else ?n * 8) = 8 * min 4 (length vs)"
    proof (cases "4 \<le> unat (dlc m)")
      case False
      then have "unat (dlc m * 8) = 8 * min 4 (length vs)" by (subst unat_word_ariths(2)) (simp add: l)
      with False show ?thesis unfolding n by (simp add: word_le_nat_alt)
    qed (simp add: n word_le_nat_alt l)
    have "unstuf ?c3 = unstuf_set_count (if ?n \<ge> 4 then 32 else ?n * 8) (unstuf c2)" by simp
    from rx_at_next [OF at this] have
      at3: "rx_at ?c3 ds h (owed h (concat (map byte_bits vs) @ msb_bits 15 crc) @ after_crc k) (8 * min 4 (length vs)) []"
      unfolding cnt by simp
    have "vs \<noteq> []" using l False n by (auto simp: word_unat_eq_iff)
    from rx_data0 [OF at3 k _ _ this l] q' crc
    have "rx_done L e ((parse_msg ?c3)\<lparr>msg_data := vs @ replicate (8 - length vs) 0\<rparr>) (rx_run ?c3 ds)" by simp
    moreover have "(parse_msg ?c3)\<lparr>msg_data := vs @ replicate (8 - length vs) 0\<rparr> = m" by (subst (3) mm) simp
    ultimately show ?thesis unfolding go using False by simp
  qed
qed

text \<open>The header words: what the transmitter pushes is what the parser puts together.\<close>

definition std_header :: "can2040_msg \<Rightarrow> u32" where
  "std_header m = push_bit 7 (msg_id m AND 0x7ff) OR (dlc m OR (if msg_id m AND CAN2040_ID_RTR \<noteq> 0 then 0x40 else 0))"

definition ext_header1 :: "can2040_msg \<Rightarrow> u32" where
  "ext_header1 m = drop_bit 11 (msg_id m AND 0x1ffc0000) OR 0x60 OR drop_bit 13 (msg_id m AND 0x3e000)"

definition ext_header2 :: "can2040_msg \<Rightarrow> u32" where
  "ext_header2 m = push_bit 7 (msg_id m AND 0x1fff) OR (dlc m OR (if msg_id m AND CAN2040_ID_RTR \<noteq> 0 then 0x40 else 0))"

lemma msb_bits_32_eqI: "msb_bits 32 a = msb_bits 32 b \<Longrightarrow> a = b"
proof (rule bit_word_eqI)
  fix n assume "msb_bits 32 a = msb_bits 32 b" "n < LENGTH(32)"
  then have "msb_bits 32 a ! (31 - n) = msb_bits 32 b ! (31 - n)" "n < 32" by simp_all
  then show "bit a n = bit b n" by (simp add: nth_msb_bits)
qed

lemma join_bit: "n < 31 \<Longrightarrow> take_bit n w OR push_bit n (take_bit 1 (drop_bit n w)) = take_bit (Suc n) (w :: u32)"
proof (rule bit_word_eqI)
  fix i assume "n < 31" "i < LENGTH(32)"
  then show "bit (take_bit n w OR push_bit n (take_bit 1 (drop_bit n w))) i = bit (take_bit (Suc n) w) i"
    unfolding bit_or_iff bit_push_bit_iff bit_take_bit_iff bit_drop_bit_eq possible_bit_word by (auto simp: less_Suc_eq)
qed

lemma std_header_words:
  assumes m: "rx_msg m vs" and s: "\<not> bit (msg_id m) 31"
  shows "take_bit 18 (std_header m) = std_header m" "std_header m AND 0x60 \<noteq> 0x60" "std_header m AND push_bit 4 0x03 = 0"
    "std_header m AND 0x0f = dlc m" "std_header m AND push_bit 6 1 \<noteq> 0 \<longleftrightarrow> bit (msg_id m) 30"
    "(if bit (msg_id m) 30 then (drop_bit 7 (std_header m) AND 0x7ff) OR CAN2040_ID_RTR else drop_bit 7 (std_header m) AND 0x7ff) = msg_id m"
proof -
  have ok: "tx_msg_ok m" using m by (simp add: rx_msg_def)
  note dl = tx_dlc_bits [OF ok]
  have id: "\<not> bit (msg_id m) i" if "11 \<le> i" "i < 30" for i using m s that by (simp add: rx_msg_def)
  show "take_bit 18 (std_header m) = std_header m"
    by (rule msb_bits_32_eqI, simp add: msb_bits_numeral msb_bits_one) (simp add: std_header_def bit_simps dl)
  show "std_header m AND push_bit 4 0x03 = 0"
    by (rule msb_bits_32_eqI, simp add: msb_bits_numeral msb_bits_one) (simp add: std_header_def bit_simps dl)
  show "std_header m AND 0x0f = dlc m"
    by (rule msb_bits_32_eqI, simp add: msb_bits_numeral msb_bits_one) (simp add: std_header_def bit_simps dl)
  show "std_header m AND push_bit 6 1 \<noteq> 0 \<longleftrightarrow> bit (msg_id m) 30"
  proof -
    have "bit (std_header m) 6 \<longleftrightarrow> bit (msg_id m) 30" by (simp add: std_header_def bit_simps dl rtr_bit)
    then show ?thesis using and_one_bit [of 6 "std_header m"] by simp
  qed
  show "(if bit (msg_id m) 30 then (drop_bit 7 (std_header m) AND 0x7ff) OR CAN2040_ID_RTR else drop_bit 7 (std_header m) AND 0x7ff) = msg_id m"
    by (rule msb_bits_32_eqI, simp add: msb_bits_numeral msb_bits_one) (simp add: std_header_def bit_simps dl CAN2040_ID_RTR_def s id)
  have "\<not> bit (std_header m AND 0x60) 5" by (simp add: std_header_def bit_simps dl)
  moreover have "bit (0x60 :: u32) 5" by (simp add: bit_simps)
  ultimately show "std_header m AND 0x60 \<noteq> 0x60" by metis
qed

lemma ext_header_words:
  assumes m: "rx_msg m vs" and s: "bit (msg_id m) 31"
  shows "take_bit 18 (ext_header1 m) = ext_header1 m" "ext_header1 m AND 0x60 = 0x60" "take_bit 20 (ext_header2 m) = ext_header2 m"
    "ext_header2 m AND push_bit 4 0x03 = 0"
    "ext_header2 m AND 0x0f = dlc m" "ext_header2 m AND push_bit 6 1 \<noteq> 0 \<longleftrightarrow> bit (msg_id m) 30"
    "(let mid = (push_bit 11 (ext_header1 m) AND 0x1ffc0000) OR (push_bit 13 (ext_header1 m) AND 0x3e000) OR drop_bit 7 (ext_header2 m) OR
       CAN2040_ID_EFF in if bit (msg_id m) 30 then mid OR CAN2040_ID_RTR else mid) = msg_id m"
proof -
  have ok: "tx_msg_ok m" and id: "\<not> bit (msg_id m) 29" using m s by (simp_all add: rx_msg_def)
  note dl = tx_dlc_bits [OF ok]
  show "take_bit 18 (ext_header1 m) = ext_header1 m"
    by (rule msb_bits_32_eqI, simp add: msb_bits_numeral msb_bits_one) (simp add: ext_header1_def bit_simps)
  show "ext_header1 m AND 0x60 = 0x60"
    by (rule msb_bits_32_eqI, simp add: msb_bits_numeral msb_bits_one) (simp add: ext_header1_def bit_simps)
  show "take_bit 20 (ext_header2 m) = ext_header2 m"
    by (rule msb_bits_32_eqI, simp add: msb_bits_numeral msb_bits_one) (simp add: ext_header2_def bit_simps dl)
  show "ext_header2 m AND push_bit 4 0x03 = 0"
    by (rule msb_bits_32_eqI, simp add: msb_bits_numeral msb_bits_one) (simp add: ext_header2_def bit_simps dl)
  show "ext_header2 m AND 0x0f = dlc m"
    by (rule msb_bits_32_eqI, simp add: msb_bits_numeral msb_bits_one) (simp add: ext_header2_def bit_simps dl)
  show "ext_header2 m AND push_bit 6 1 \<noteq> 0 \<longleftrightarrow> bit (msg_id m) 30"
  proof -
    have "bit (ext_header2 m) 6 \<longleftrightarrow> bit (msg_id m) 30" by (simp add: ext_header2_def bit_simps dl rtr_bit)
    then show ?thesis using and_one_bit [of 6 "ext_header2 m"] by simp
  qed
  show "(let mid = (push_bit 11 (ext_header1 m) AND 0x1ffc0000) OR (push_bit 13 (ext_header1 m) AND 0x3e000) OR drop_bit 7 (ext_header2 m) OR
       CAN2040_ID_EFF in if bit (msg_id m) 30 then mid OR CAN2040_ID_RTR else mid) = msg_id m"
    unfolding Let_def
    by (rule msb_bits_32_eqI, simp add: msb_bits_numeral msb_bits_one)
       (simp add: ext_header1_def ext_header2_def bit_simps dl CAN2040_ID_RTR_def CAN2040_ID_EFF_def s id)
qed

text \<open>After the start of frame: one bit, then the rest of the header.\<close>

lemma update_start_step:
  "quiet L e c2 \<Longrightarrow> parse_state c2 = MS_START \<Longrightarrow>
   \<exists>c3. data_state_update data c2 = Some c3 \<and> quiet L e c3 \<and> parse_state c3 = MS_HEADER \<and>
     unstuf c3 = unstuf_set_count 17 (unstuf c2) \<and> msg_id (parse_msg c3) = data"
  by (simp add: data_state_update_def data_state_update_start_def report_note_message_start_def Let_def quiet_pio)

lemma rx_first_bits:
  assumes at: "rx_at c2 ds h (owed h (msb_bits 18 w @ rest) @ T) 1 []" and q: "quiet L e c2" "parse_state c2 = MS_START"
    and cont: "\<And>c3 ds' h'. \<lbrakk> rx_at c3 ds' h' (owed h' (msb_bits 17 w @ rest) @ T) 17 []; quiet L e c3; parse_state c3 = MS_HEADER;
      msg_id (parse_msg c3) = take_bit 1 (drop_bit 17 w) \<rbrakk> \<Longrightarrow> Q (rx_run c3 ds')"
  shows "Q (rx_run c2 ds)"
proof (rule rx_stuffed_field)
  let ?x = "msb_bits 1 (drop_bit 17 w)"
  have "msb_bits 18 w = ?x @ msb_bits 17 w" using msb_bits_add [of 1 17 w] by simp
  then show "rx_at c2 ds h (owed h (?x @ msb_bits 17 w @ rest) @ T) (length ?x) []" using at by simp
  show "?x \<noteq> []" by (simp add: msb_bits_one)
  fix bu r ds' h'
  let ?c = "c2\<lparr>unstuf := bu, raw_bit_count := r\<rparr>"
  assume at': "rx_at ?c ds' h' (owed h' (msb_bits 17 w @ rest) @ T) 0 ?x"
  obtain c3 where c3: "data_state_update (bits_val ?x) ?c = Some c3" "quiet L e c3" "parse_state c3 = MS_HEADER"
      "unstuf c3 = unstuf_set_count 17 (unstuf ?c)" "msg_id (parse_msg c3) = bits_val ?x"
    using update_start_step [of L e ?c "bits_val ?x"] q by auto
  have "rx_at c3 ds' h' (owed h' (msb_bits 17 w @ rest) @ T) 17 []" using rx_at_next [OF at' c3(4)] by simp
  from cont [OF this c3(2,3)] c3(1,5) show "\<exists>c3. data_state_update (bits_val ?x) ?c = Some c3 \<and> Q (rx_run c3 ds')"
    by (simp add: bits_val_msb_bits)
qed

lemma rx_std_frame:
  assumes at: "rx_at c2 ds h (owed h (msb_bits 18 (std_header m) @ concat (map byte_bits vs) @ msb_bits 15 crc) @ after_crc k) 1 []"
    and k: "k < 10" and q: "quiet L e c2" "parse_state c2 = MS_START" and m: "rx_msg m vs" "\<not> bit (msg_id m) 31"
    and crc: "take_bit 15 crc = crc15_bits 0 (frame_head (frame_of_msg m) @ concat (map byte_bits vs))"
  shows "rx_done L e m (rx_run c2 ds)"
proof (rule rx_first_bits [OF at q])
  let ?w = "std_header m" and ?xs = "msb_bits 17 (std_header m)"
  note w = std_header_words [OF m]
  fix c3 ds' h'
  assume c3: "rx_at c3 ds' h' (owed h' (?xs @ concat (map byte_bits vs) @ msb_bits 15 crc) @ after_crc k) 17 []"
    "quiet L e c3" "parse_state c3 = MS_HEADER" "msg_id (parse_msg c3) = take_bit 1 (drop_bit 17 ?w)"
  show "rx_done L e m (rx_run c3 ds')"
  proof (rule rx_stuffed_field [where xs = ?xs])
    show "rx_at c3 ds' h' (owed h' (?xs @ concat (map byte_bits vs) @ msb_bits 15 crc) @ after_crc k) (length ?xs) []" using c3(1) by simp
    show "?xs \<noteq> []" by (simp add: msb_bits_numeral)
    fix bu r ds1 h1
    let ?c = "c3\<lparr>unstuf := bu, raw_bit_count := r\<rparr>"
    let ?c' = "?c\<lparr>parse_crc := crc_bytes 0 ?w 3\<rparr>"
    assume "rx_at ?c ds1 h1 (owed h1 (concat (map byte_bits vs) @ msb_bits 15 crc) @ after_crc k) 0 ?xs"
    then have at': "rx_at ?c' ds1 h1 (owed h1 (concat (map byte_bits vs) @ msb_bits 15 crc) @ after_crc k) 0 ?xs" by (simp add: rx_at_def)
    have "bits_val ?xs OR push_bit 17 (msg_id (parse_msg ?c)) = ?w"
      using join_bit [of 17 ?w] w(1) c3(4) by (simp add: bits_val_msb_bits)
    then have upd: "data_state_update (bits_val ?xs) ?c = data_state_go_data (drop_bit 7 ?w AND 0x7ff) ?w ?c'"
      using c3(3) w(2) by (simp add: data_state_update_def data_state_update_header_def Let_def)
    have "take_bit 15 (crc_bytes 0 ?w 3) = crc15_bits 0 (msb_bits 24 ?w)" using crc_bytes_serial [of 3 0 ?w] by simp
    also have "\<dots> = crc15_bits 0 (frame_head (frame_of_msg m))"
      using std_header_bits [of m] m by (simp add: rx_msg_def std_header_def crc15_zeros)
    finally have "take_bit 15 crc = crc15_bits (take_bit 15 (parse_crc ?c')) (concat (map byte_bits vs))"
      using crc by (simp add: crc15_bits_append)
    from rx_go_data [OF at' k _ m(1) w(3,4,5,6) this] c3(2)
    show "\<exists>c4. data_state_update (bits_val ?xs) ?c = Some c4 \<and> rx_done L e m (rx_run c4 ds1)" unfolding upd by simp
  qed
qed

lemma rx_ext_frame:
  assumes at: "rx_at c2 ds h (owed h (msb_bits 18 (ext_header1 m) @ msb_bits 20 (ext_header2 m) @ concat (map byte_bits vs) @ msb_bits 15 crc) @
      after_crc k) 1 []"
    and k: "k < 10" and q: "quiet L e c2" "parse_state c2 = MS_START" and m: "rx_msg m vs" "bit (msg_id m) 31"
    and crc: "take_bit 15 crc = crc15_bits 0 (frame_head (frame_of_msg m) @ concat (map byte_bits vs))"
  shows "rx_done L e m (rx_run c2 ds)"
proof (rule rx_first_bits [OF at q])
  let ?w = "ext_header1 m" and ?v = "ext_header2 m" and ?rest = "concat (map byte_bits vs) @ msb_bits 15 crc"
  let ?xs = "msb_bits 17 (ext_header1 m)" and ?ys = "msb_bits 20 (ext_header2 m)"
  note w = ext_header_words [OF m]
  fix c3 ds' h'
  assume c3: "rx_at c3 ds' h' (owed h' (?xs @ ?ys @ ?rest) @ after_crc k) 17 []"
    "quiet L e c3" "parse_state c3 = MS_HEADER" "msg_id (parse_msg c3) = take_bit 1 (drop_bit 17 ?w)"
  show "rx_done L e m (rx_run c3 ds')"
  proof (rule rx_stuffed_field [where xs = ?xs])
    show "rx_at c3 ds' h' (owed h' (?xs @ ?ys @ ?rest) @ after_crc k) (length ?xs) []" using c3(1) by simp
    show "?xs \<noteq> []" by (simp add: msb_bits_numeral)
    fix bu r ds1 h1
    let ?c = "c3\<lparr>unstuf := bu, raw_bit_count := r\<rparr>"
    let ?c4 = "data_state_go_next MS_EXT_HEADER 20 (?c\<lparr>parse_msg := (parse_msg c3)\<lparr>msg_id := ?w\<rparr>\<rparr>)"
    assume at1: "rx_at ?c ds1 h1 (owed h1 (?ys @ ?rest) @ after_crc k) 0 ?xs"
    have "bits_val ?xs OR push_bit 17 (msg_id (parse_msg ?c)) = ?w"
      using join_bit [of 17 ?w] w(1) c3(4) by (simp add: bits_val_msb_bits)
    then have upd: "data_state_update (bits_val ?xs) ?c = Some ?c4"
      using c3(3) w(2) by (simp add: data_state_update_def data_state_update_header_def Let_def)
    have at4: "rx_at ?c4 ds1 h1 (owed h1 (?ys @ ?rest) @ after_crc k) (length ?ys) []"
      using rx_at_next [OF at1, of ?c4 20] by simp
    have "rx_done L e m (rx_run ?c4 ds1)"
    proof (rule rx_stuffed_field [OF at4])
      show "?ys \<noteq> []" by (simp add: msb_bits_numeral)
      fix bu' r' ds2 h2
      let ?d = "?c4\<lparr>unstuf := bu', raw_bit_count := r'\<rparr>"
      let ?crc = "crc_bytes (crc_bytes 0 (drop_bit 4 ?w) 2) (push_bit 20 (?w AND 0x0f) OR ?v) 3"
      let ?d' = "?d\<lparr>parse_crc := ?crc\<rparr>"
      let ?mid = "(push_bit 11 ?w AND 0x1ffc0000) OR (push_bit 13 ?w AND 0x3e000) OR drop_bit 7 ?v OR CAN2040_ID_EFF"
      assume "rx_at ?d ds2 h2 (owed h2 ?rest @ after_crc k) 0 ?ys"
      then have at': "rx_at ?d' ds2 h2 (owed h2 ?rest @ after_crc k) 0 ?ys" by (simp add: rx_at_def)
      have v: "bits_val ?ys = ?v" using w(3) by (simp add: bits_val_msb_bits)
      have upd': "data_state_update (bits_val ?ys) ?d = data_state_go_data ?mid ?v ?d'"
        unfolding v by (simp add: data_state_update_def data_state_update_ext_header_def Let_def)
      have "take_bit 15 ?crc = crc15_bits 0 (frame_head (frame_of_msg m))"
        using crc_bytes_serial [of 3 "crc_bytes 0 (drop_bit 4 ?w) 2" "push_bit 20 (?w AND 0x0f) OR ?v"]
          crc_bytes_serial [of 2 0 "drop_bit 4 ?w"] ext_header_bits(2) [of m] m
        by (simp add: rx_msg_def ext_header1_def ext_header2_def crc15_zeros flip: crc15_bits_append)
      then have "take_bit 15 crc = crc15_bits (take_bit 15 (parse_crc ?d')) (concat (map byte_bits vs))"
        using crc by (simp add: crc15_bits_append)
      from rx_go_data [OF at' k _ m(1) w(4-6) _ this] w(7) c3(2)
      show "\<exists>c5. data_state_update (bits_val ?ys) ?d = Some c5 \<and> rx_done L e m (rx_run c5 ds2)" unfolding upd' by (simp add: Let_def)
    qed
    with upd show "\<exists>c4. data_state_update (bits_val ?xs) ?c = Some c4 \<and> rx_done L e m (rx_run c4 ds1)" by simp
  qed
qed

lemma crc15_bits_small: "take_bit 15 (crc15_bits 0 xs) = crc15_bits 0 xs"
proof (induction xs rule: rev_induct)
  case (snoc b xs)
  have "take_bit 15 (crc15_step c b) = crc15_step c b" for c
    by (simp add: crc15_step_def Let_def take_bit_xor)
  then show ?case by (simp add: crc15_bits_def)
qed (simp add: crc15_bits_def)

lemma rx_frame:
  assumes at: "rx_at c2 ds h (owed h s @ after_crc k) 1 []" and s: "frame_bits (frame_of_msg m) = False # s"
    and k: "k < 10" and q: "quiet L e c2" "parse_state c2 = MS_START" and m: "rx_msg m vs"
  shows "rx_done L e m (rx_run c2 ds)"
proof -
  let ?f = "frame_of_msg m" and ?d = "concat (map byte_bits vs)"
  let ?crc = "crc15_bits 0 (frame_head ?f @ ?d)"
  have ok: "tx_msg_ok m" and len: "length vs = unat (tx_data_len m)" "msg_data m = vs @ replicate (8 - length vs) 0"
    using m by (simp_all add: rx_msg_def)
  have "take (frame_data_len ?f) (fr_data ?f) = vs"
    using len tx_data_len_frame [OF ok] by (simp add: frame_of_msg_def)
  then have p: "frame_payload ?f = frame_head ?f @ ?d" by (simp add: frame_payload_def)
  define C where "C = ?crc"
  have c: "take_bit 15 C = crc15_bits 0 (frame_head ?f @ ?d)" unfolding C_def by (rule crc15_bits_small)
  have fb: "False # s = frame_head ?f @ ?d @ msb_bits 15 C" using s by (simp only: frame_bits_def p append_assoc C_def)
  show ?thesis
  proof (cases "bit (msg_id m) 31")
    case False
    let ?w = "std_header m"
    have "(24 :: nat) = 5 + 19" by simp
    then have "msb_bits 19 ?w = drop 5 (msb_bits 24 ?w)" by (simp only: msb_bits_add) simp
    also have "\<dots> = frame_head ?f" unfolding std_header_def std_header_bits [OF ok False] by simp
    finally have "frame_head ?f = bit ?w 18 # msb_bits 18 ?w" by (simp add: msb_bits_numeral)
    then have "s = msb_bits 18 ?w @ ?d @ msb_bits 15 C" using fb by simp
    with at have "rx_at c2 ds h (owed h (msb_bits 18 ?w @ ?d @ msb_bits 15 C) @ after_crc k) 1 []" by simp
    from rx_std_frame [OF this k q m False c] show ?thesis .
  next
    case True
    let ?w = "ext_header1 m" and ?v = "ext_header2 m"
    have "frame_head ?f = msb_bits 19 ?w @ msb_bits 20 ?v"
      unfolding ext_header1_def ext_header2_def by (rule ext_header_bits(1) [OF ok True, symmetric])
    then have "frame_head ?f = bit ?w 18 # msb_bits 18 ?w @ msb_bits 20 ?v" by (simp add: msb_bits_numeral)
    then have "s = msb_bits 18 ?w @ msb_bits 20 ?v @ ?d @ msb_bits 15 C" using fb by simp
    with at have "rx_at c2 ds h (owed h (msb_bits 18 ?w @ msb_bits 20 ?v @ ?d @ msb_bits 15 C) @ after_crc k) 1 []" by simp
    from rx_ext_frame [OF this k q m True c] show ?thesis .
  qed
qed

section \<open>Between frames\<close>

text \<open>The parser waits for a frame: the last ten bits were recessive, and no reset of the machines is due.\<close>

definition rx_idle :: "can2040 \<Rightarrow> bool" where
  "rx_idle c2 \<longleftrightarrow> parse_state c2 = MS_START \<and> count_stuff (unstuf c2) = 0 \<and> count_unstuff (unstuf c2) = 1 \<and>
     unstuffed_bits (unstuf c2) = 0 \<and> list_all (bit (stuffed_bits (unstuf c2))) [0..<10] \<and>
     \<not> list_all (bit (stuffed_bits (unstuf c2))) [10..<22]"

lemma passive_waits:
  assumes "parse_state c2 = MS_START" "unat (count_stuff (unstuf c2)) = n" "\<And>i. i < 10 \<Longrightarrow> bit (stuffed_bits (unstuf c2)) (n + i)"
    and "\<not> bit (stuffed_bits (unstuf c2)) z" "n \<le> z" "z < 32"
  shows "data_state_line_passive c2 = c2\<lparr>unstuf := unstuf_set_count 1 (unstuf c2)\<rparr>"
proof -
  let ?raw = "unstuf_get_raw (unstuf c2)"
  have b: "bit ?raw i \<longleftrightarrow> bit (stuffed_bits (unstuf c2)) (n + i)" for i
    by (simp add: unstuf_get_raw_def assms(2) bit_drop_bit_eq)
  have "bit (NOT ?raw) (z - n)" using assms(4-6) by (simp add: bit_not_iff b)
  then have "NOT ?raw \<noteq> 0" by (metis bit_0_eq bot_apply bot_bool_def)
  moreover have "NOT ?raw AND 0x3ff = 0"
  proof (rule bit_word_eqI)
    fix i
    have "(0x3ff :: u32) = mask 10" by (simp add: mask_eq_exp_minus_1)
    then show "bit (NOT ?raw AND 0x3ff) i = bit 0 i"
      using assms(3) by (simp only: bit_and_iff bit_not_iff b bit_mask_iff bit_0_eq bot_apply bot_bool_def) auto
  qed
  ultimately show ?thesis using assms(1) by (simp add: data_state_line_passive_def Let_def data_state_go_next_def)
qed

lemma rx_leading:
  "\<lbrakk> rx_has (unstuf c2) h (replicate j True @ p) 1 []; take 5 h = replicate 5 True; parse_state c2 = MS_START;
     \<And>i. i < 10 \<Longrightarrow> bit (stuffed_bits (unstuf c2)) (j + length p + i);
     \<not> bit (stuffed_bits (unstuf c2)) z; j + length p \<le> z; z < 32 \<rbrakk> \<Longrightarrow>
   \<exists>bu h'. rx_run c2 ds = rx_run (c2\<lparr>unstuf := bu\<rparr>) ds \<and> rx_has bu h' p 1 [] \<and> take 5 h' = replicate 5 True"
proof (induction j arbitrary: c2 h)
  case 0
  then show ?case by (intro exI [of _ "unstuf c2"] exI [of _ h]) simp
next
  case (Suc j)
  obtain bu where bu: "process_rx_loop c2 = process_rx_loop (data_state_line_passive (c2\<lparr>unstuf := bu\<rparr>))"
      "rx_has bu (True # h) (replicate j True @ p) 1 []" "stuffed_bits bu = stuffed_bits (unstuf c2)"
    using rx_violation [of c2 h "replicate j True @ p" 1 "[]"] Suc.prems(1,2) by auto
  have h: "take 5 (True # h) = replicate 5 True"
    using arg_cong [OF Suc.prems(2), of "take 4"] by (simp add: numeral_eq_Suc)
  have n: "unat (count_stuff bu) = j + length p" using bu(2) by (simp add: rx_has_def)
  have top: "bit (stuffed_bits (unstuf c2)) (j + length p)"
  proof -
    have "msb_bits (Suc j + length p) (stuffed_bits (unstuf c2)) = True # replicate j True @ p"
      using Suc.prems(1) by (simp add: rx_has_def)
    then show ?thesis by (simp add: msb_bits_Suc)
  qed
  have ones: "bit (stuffed_bits (unstuf c2)) (j + length p + i)" if "i < 10" for i
    using top Suc.prems(4) [of "i - 1"] that by (cases i) auto
  let ?c = "c2\<lparr>unstuf := unstuf_set_count 1 bu\<rparr>"
  have p: "data_state_line_passive (c2\<lparr>unstuf := bu\<rparr>) = ?c"
    using passive_waits [of "c2\<lparr>unstuf := bu\<rparr>" "j + length p" z] Suc.prems(3,5-7) n ones bu(3) by simp
  have "rx_has (unstuf ?c) (True # h) (replicate j True @ p) 1 []" using rx_set_count [OF bu(2), of 1] by simp
  from Suc.IH [OF this h] Suc.prems(3,5-7) ones bu(3) obtain bu' h' where
    "rx_run ?c ds = rx_run (?c\<lparr>unstuf := bu'\<rparr>) ds" "rx_has bu' h' p 1 []" "take 5 h' = replicate 5 True"
    by (auto simp: unstuf_set_count_def)
  moreover have "rx_run c2 ds = rx_run ?c ds" by (simp add: rx_run_def bu(1) p)
  ultimately show ?case by (intro exI [of _ bu'] exI [of _ h']) simp
qed

lemma rx_msg_copy:
  assumes "length (msg_data msg) = 8"
  shows "rx_msg (tx_copy_msg msg) (take (unat (tx_data_len (tx_copy_msg msg))) (msg_data msg))"
proof -
  let ?m = "tx_copy_msg msg" and ?id = "msg_id msg"
  let ?k = "unat (tx_data_len ?m)"
  have "unat (tx_data_len ?m) = frame_data_len (frame_of_msg ?m)" by (rule tx_data_len_frame [OF tx_copy_ok [OF assms]])
  then have k: "?k \<le> 8" by (simp add: frame_data_len_def)
  have d: "msg_data ?m = take ?k (msg_data msg) @ drop (length (take ?k (msg_data msg))) (replicate 8 0)"
    by (simp add: tx_copy_msg_def Let_def blit_def tx_data_len_def)
  have mid: "msg_id ?m = tx_msg_id ?id" by (simp add: tx_copy_msg_def Let_def)
  have ids: "if bit (tx_msg_id ?id) 31 then \<not> bit (tx_msg_id ?id) 29 else \<forall>i \<in> {11..<30}. \<not> bit (tx_msg_id ?id) i"
  proof (cases "bit ?id 31")
    case True
    have "\<not> bit (tx_msg_id ?id) 29" using True by (simp add: tx_msg_id_def eff_bit bit_simps)
    with True show ?thesis by (simp add: tx_msg_id_def eff_bit bit_simps)
  next
    case False
    have m: "(0x7ff :: u32) = mask 11" by (simp add: mask_eq_exp_minus_1)
    have r: "bit CAN2040_ID_RTR i \<longleftrightarrow> i = 30" for i
      using bit_exp_iff [of 30 i, where ?'a = "32 word"] by (auto simp: CAN2040_ID_RTR_def)
    have "bit (tx_msg_id ?id) i \<longleftrightarrow> bit ?id i \<and> (i = 30 \<or> i < 11)" for i
      using False by (auto simp: tx_msg_id_def eff_bit m bit_and_iff bit_or_iff bit_mask_iff r)
    then show ?thesis by auto
  qed
  show ?thesis unfolding rx_msg_def mid using tx_copy_ok [OF assms] k d ids assms by simp
qed

section \<open>Properties\<close>

text \<open>C33: The software controller receives what its peer sends. Let the parser wait for a frame, with
  no transmission of its own under way and no overrun of the FIFO. Whatever message another
  controller was asked to transmit, let the words from the PIO, ten bits each, hold up to nine
  recessive bits, the frame of the standard as \<open>can2040_transmit\<close> queues it, the
  dominant acknowledgement slot and at least ten recessive bits. Then the parser calls the
  callback exactly once, with \<open>CAN2040_NOTIFY_RX\<close> and the message, its identifier, length and data
  as the transmitter copied them, wherever the frame falls in the words and wherever bits had to be stuffed;
  and it counts no error.\<close>

theorem can2040_receives_frame:
  assumes "length (msg_data msg) = 8" and "rx_idle c2" and "tx_state c2 \<noteq> TS_QUEUED" and "\<not> pio_rx_check_stall (c_pio c2)"
    and "concat (map (msb_bits 10) ws) =
      replicate j True @ wire_bits (frame_of_msg msg) @ [False, True] @ replicate r True"
    and "j < 10" and "9 \<le> r" and "r < 19"
  shows "\<exists>c2'. process_rx_words ws c2 = Some c2' \<and>
    rx_calls c2' = rx_calls c2 @ [(CAN2040_NOTIFY_RX, tx_copy_msg msg)] \<and>
    parse_error (c_stats c2') = parse_error (c_stats c2)"
proof -
  let ?m = "tx_copy_msg msg" and ?vs = "take (unat (tx_data_len (tx_copy_msg msg))) (msg_data msg)" and ?sb = "stuffed_bits (unstuf c2)"
  note m = rx_msg_copy [OF assms(1)]
  obtain s where s: "frame_bits (frame_of_msg ?m) = False # s"
    using frame_head_sof [of "frame_of_msg ?m"] by (auto simp: frame_bits_def frame_payload_def)
  define W where "W = False # stuff_bits [False] s"
  have "wire_bits (frame_of_msg msg) = W @ [True]"
    by (subst tx_copy_frame(2) [OF assms(1), symmetric]) (simp add: wire_bits_def s W_def numeral_eq_Suc)
  moreover have "[False, True] @ replicate r True = tl (after_crc (r - 9))"
    using assms(7) by (simp add: after_crc_def flip: replicate_add)
  ultimately have R: "concat (map (msb_bits 10) ws) = replicate j True @ W @ after_crc (r - 9)"
    using assms(5) by (simp add: after_crc_def)
  obtain d ds where ws: "ws = d # ds" using R by (cases ws) (auto simp: W_def)
  have d: "msb_bits 10 d = replicate j True @ drop j (msb_bits 10 d)"
  proof -
    have "take j (msb_bits 10 d) = replicate j True"
      using arg_cong [OF R, of "take j"] assms(6) by (simp add: ws)
    then show ?thesis by (metis append_take_drop_id)
  qed
  let ?p = "drop j (msb_bits 10 d)" and ?c = "rx_word d c2" and ?h = "replicate 5 True"
  have p: "?p @ concat (map (msb_bits 10) ds) = W @ after_crc (r - 9)"
    using arg_cong [OF R, of "drop j"] assms(6) by (simp add: ws)
  have ones: "bit ?sb i" if "i < 10" for i using assms(2) that by (simp add: rx_idle_def list_all_iff)
  have "\<exists>z \<in> set [10..<22]. \<not> bit ?sb z" using assms(2) unfolding rx_idle_def list_all_iff by blast
  then obtain z where z: "z < 22" "\<not> bit ?sb z" unfolding set_upt by auto
  have "above 5 ?sb 0 = ?h" by (simp add: above_def ones upt_rec numeral_eq_Suc)
  then have "rx_has (unstuf c2) ?h [] 1 []" using assms(2) by (simp add: rx_has_def rx_idle_def)
  from rx_add [OF this, of d] d have has: "rx_has (unstuf ?c) ?h (replicate j True @ ?p) 1 []" by (simp add: rx_word_def)
  have sb: "stuffed_bits (unstuf ?c) = push_bit 10 ?sb OR (d AND low_mask 10)"
    by (simp add: rx_word_def unstuf_add_bits_def)
  have hi: "bit (stuffed_bits (unstuf ?c)) (10 + i) \<longleftrightarrow> bit ?sb i" if "10 + i < 32" for i
    unfolding sb using that by (simp only: bit_or_iff bit_push_bit_iff bit_and_iff bit_low_mask possible_bit_word) simp
  have len: "j + length ?p = 10" using assms(6) by simp
  have "\<exists>bu h'. rx_run ?c ds = rx_run (?c\<lparr>unstuf := bu\<rparr>) ds \<and> rx_has bu h' ?p 1 [] \<and> take 5 h' = replicate 5 True"
  proof (rule rx_leading [OF has])
    show "bit (stuffed_bits (unstuf ?c)) (j + length ?p + i)" if "i < 10" for i
      unfolding len using hi [of i] ones [OF that] that by simp
    show "\<not> bit (stuffed_bits (unstuf ?c)) (10 + z)" using hi [of z] z by simp
  qed (use len z assms(2) in \<open>simp_all add: rx_word_def rx_idle_def\<close>)
  then obtain bu h' where bu: "rx_run ?c ds = rx_run (?c\<lparr>unstuf := bu\<rparr>) ds" "rx_has bu h' ?p 1 []" "take 5 h' = replicate 5 True" by blast
  have W: "W = owed h' s"
  proof -
    obtain t where h': "h' = True # t" using bu(3) by (cases h') (auto simp: numeral_eq_Suc)
    have "all5 h'" using bu(3) h' by (simp add: all5_def)
    then show ?thesis using stuff_sof [of 1 t s] by (simp add: owed_def W_def h')
  qed
  have at: "rx_at (?c\<lparr>unstuf := bu\<rparr>) ds h' (owed h' s @ after_crc (r - 9)) 1 []"
    using bu(2) p W by (auto simp: rx_at_def)
  have "quiet (rx_calls c2) (parse_error (c_stats c2)) (?c\<lparr>unstuf := bu\<rparr>)" "parse_state (?c\<lparr>unstuf := bu\<rparr>) = MS_START"
    using assms(2-4) by (simp_all add: quiet_def rx_word_def rx_idle_def)
  from rx_frame [OF at s _ this m] assms(8) have "rx_done (rx_calls c2) (parse_error (c_stats c2)) ?m (process_rx_words ws c2)"
    by (simp add: ws process_rx_words_Cons bu(1) del: process_rx_words.simps)
  then show ?thesis by (auto simp: rx_done_def quiet_def)
qed

theorem can2040_receives_frame_witness:
  "\<exists>c2'. process_rx_words [927, 260, 98, 137, 718, 1023]
      ((can2040_setup 0 pio_zero)\<lparr>unstuf := \<lparr> stuffed_bits = 0x3ff, count_stuff = 0, unstuffed_bits = 0, count_unstuff = 1 \<rparr>\<rparr>) = Some c2' \<and>
    rx_calls c2' = [(CAN2040_NOTIFY_RX, \<lparr> msg_id = 0x3f0, dlc = 1, msg_data = [0x11, 0, 0, 0, 0, 0, 0, 0] \<rparr>)]"
proof -
  let ?c = "(can2040_setup 0 pio_zero)\<lparr>unstuf := \<lparr> stuffed_bits = 0x3ff, count_stuff = 0, unstuffed_bits = 0, count_unstuff = 1 \<rparr>\<rparr>"
  let ?m = "\<lparr> msg_id = 0x3f0, dlc = 1, msg_data = [0x11, 0xff, 0, 0, 0, 0, 0, 0] \<rparr>"
  have "rx_idle ?c" by (code_simp)
  moreover have "concat (map (msb_bits 10) [927, 260, 98, 137, 718, 1023]) =
      replicate 3 True @ wire_bits (frame_of_msg ?m) @ [False, True] @ replicate 9 True" by code_simp
  moreover have "tx_copy_msg ?m = \<lparr> msg_id = 0x3f0, dlc = 1, msg_data = [0x11, 0, 0, 0, 0, 0, 0, 0] \<rparr>" by code_simp
  moreover have "\<not> pio_rx_check_stall (c_pio ?c)" "tx_state ?c \<noteq> TS_QUEUED" "rx_calls ?c = []"
    by (simp_all add: can2040_setup_def pio_zero_def pio_rx_check_stall_def)
  ultimately show ?thesis using can2040_receives_frame [of ?m ?c "[927, 260, 98, 137, 718, 1023]" 3 9] by auto
qed

end
