(* ===== verification/Deployer.thy ===== *)
theory Deployer
  imports FlashStm32Part BootProps
begin

text \<open>
  The deployer application, \<open>src/deployer.c\<close>: an application that carries the bootloader's binary
  and writes it to the beginning of the flash through the board's \<open>flash_write_block\<close>, then resets
  into it with a request to stay. The binary is a parameter; flash and RAM are the memory of the
  flash interface. A halt is an outcome.
\<close>

datatype 'f deploy_exit =
    Deploy_Reset memory 'f
  | Deploy_Halt 'f

text \<open>The loop of \<open>sched_main\<close>: \<open>p\<close> is the part of the binary still to be written. \<open>Inl\<close> is a block that failed.\<close>

partial_function (option) deploy_blocks :: "'f flash_api \<Rightarrow> config \<Rightarrow> u32 \<Rightarrow> u8 list \<Rightarrow> 'f \<Rightarrow> ('f + 'f) option" where
  "deploy_blocks api c fstart p f =
     (if p = [] then Some (Inr f)
      else let size = unat (CONFIG_BLOCK_SIZE c); n = min size (length p);
               data = words_of_bytes (take n p @ replicate (size - n) 0xff)
        in do {
          (ret, f) \<leftarrow> flash_write_block api fstart data f;
          if ret < 0 then Some (Inl f) else deploy_blocks api c (fstart + of_nat n) (drop n p) f
        })"

definition deployer_sched_main :: "'f flash_api \<Rightarrow> config \<Rightarrow> u8 list \<Rightarrow> (nat \<Rightarrow> u32) \<Rightarrow> 'f \<Rightarrow> 'f deploy_exit option" where
  "deployer_sched_main api c deployer_canboot_binary rd f =
     (let fstart = CONFIG_FLASH_START c; cbsize = length deployer_canboot_binary in
      if mem_read (flash_memory api f) fstart cbsize = deployer_canboot_binary
      then Some (Deploy_Reset (try_request_canboot c (flash_memory api f)) f)
      else do {
        _ \<leftarrow> udelay c rd 100000;
        r \<leftarrow> deploy_blocks api c fstart deployer_canboot_binary f;
        case r of
          Inl f \<Rightarrow> Some (Deploy_Halt f)
        | Inr f \<Rightarrow> do {
            (_, f) \<leftarrow> flash_complete api f;
            Some (Deploy_Reset (try_request_canboot c (flash_memory api f)) f)
          }
      })"

section \<open>The blocks are an upload to the beginning of the flash\<close>

definition at_flash_start :: "config \<Rightarrow> config" where
  "at_flash_start c = c\<lparr>CONFIG_LAUNCH_APP_ADDRESS := CONFIG_FLASH_START c\<rparr>"

lemma at_flash_start_sel [simp]:
  "CONFIG_LAUNCH_APP_ADDRESS (at_flash_start c) = CONFIG_FLASH_START c"
  "CONFIG_BLOCK_SIZE (at_flash_start c) = CONFIG_BLOCK_SIZE c" "CONFIG_FLASH_START (at_flash_start c) = CONFIG_FLASH_START c"
  "CONFIG_FLASH_SIZE (at_flash_start c) = CONFIG_FLASH_SIZE c"
  by (simp_all add: at_flash_start_def)

lemma deploy_blocks_upload:
  assumes bs: "CONFIG_BLOCK_SIZE c = 64"
  shows "deploy_blocks api c (upload_address (at_flash_start c) k) (drop (64 * k) bin) f1 = Some (Inr f2) \<Longrightarrow>
    acked_upload api (at_flash_start c) bin f k f1 \<Longrightarrow> 64 * k \<le> length bin + 63 \<Longrightarrow>
    \<exists>k'. acked_upload api (at_flash_start c) bin f k' f2 \<and> length bin \<le> 64 * k' \<and> 64 * k' \<le> length bin + 63"
proof (induction "length bin - 64 * k" arbitrary: k f1 rule: less_induct)
  case less
  show ?case
  proof (cases "length bin \<le> 64 * k")
    case True
    with less.prems show ?thesis by (auto simp: deploy_blocks.simps)
  next
    case False
    let ?n = "min 64 (length bin - 64 * k)"
    have blk: "take ?n (drop (64 * k) bin) @ replicate (64 - ?n) 0xff = image_block bin k"
      by (cases "64 \<le> length bin - 64 * k") (simp_all add: image_block_def min_def)
    obtain r f' where w: "flash_write_block api (upload_address (at_flash_start c) k) (words_of_bytes (image_block bin k)) f1 = Some (r, f')"
        "\<not> r < 0" and rest: "deploy_blocks api c (upload_address (at_flash_start c) k + of_nat ?n) (drop ?n (drop (64 * k) bin)) f' = Some (Inr f2)"
      using less.prems(1) False
      by (subst (asm) deploy_blocks.simps) (auto simp: bs blk Let_def bind_eq_Some_conv split: if_splits)
    have up: "acked_upload api (at_flash_start c) bin f (Suc k) f'"
      using w by (intro acked_upload.forward [OF less.prems(2)]) auto
    show ?thesis
    proof (cases "64 \<le> length bin - 64 * k")
      case True
      then have "?n = 64" by simp
      then have "deploy_blocks api c (upload_address (at_flash_start c) (Suc k)) (drop (64 * Suc k) bin) f' = Some (Inr f2)"
        using rest by (simp add: upload_address_def algebra_simps)
      from less.hyps [OF _ this up] True False show ?thesis by simp
    next
      case short: False
      then have "drop ?n (drop (64 * k) bin) = []" by simp
      then have "f2 = f'" using rest by (simp add: deploy_blocks.simps)
      with up short False show ?thesis by (intro exI [of _ "Suc k"]) simp
    qed
  qed
qed

lemma stm32_api_at_flash_start: "stm32_flash_api m (at_flash_start c) hw = stm32_flash_api m c hw"
proof -
  have "write_block m (at_flash_start c) hw = write_block m c hw" by (intro ext) (simp only: write_block_def at_flash_start_sel)
  then have "stm32_program m (at_flash_start c) hw = stm32_program m c hw" by (intro ext) (simp only: stm32_program_def at_flash_start_sel)
  then have "stm32_flash_write_block m (at_flash_start c) hw = stm32_flash_write_block m c hw"
    by (intro ext) (simp only: stm32_flash_write_block_def at_flash_start_sel)
  then show ?thesis by (simp only: stm32_flash_api_def)
qed

lemma stm32_deploy_stored:
  assumes inv: "stm32_inv m (at_flash_start c) hw ar pend f" and room: "unat (CONFIG_FLASH_START c) + length bin + 63 \<le> unat (flash_end c)"
    and d: "deploy_blocks (stm32_flash_api m c hw) c (CONFIG_FLASH_START c) bin f = Some (Inr f1)"
    and fin: "flash_complete (stm32_flash_api m c hw) f1 = Some (r, f2)"
  shows "holds_at (flash_memory (stm32_flash_api m c hw) f2) (CONFIG_FLASH_START c) bin"
proof -
  let ?api = "stm32_flash_api m c hw" and ?c = "at_flash_start c"
  have bs: "CONFIG_BLOCK_SIZE c = 64"
    using inv config_ok_block_size [of ?c] by (simp add: stm32_inv_def)
  obtain k where k: "acked_upload ?api ?c bin f k f1" "length bin \<le> 64 * k" "64 * k \<le> length bin + 63"
    using deploy_blocks_upload [OF bs, of ?api 0 bin f f1 f] d by (auto simp: upload_address_def intro: acked_upload.start)
  have "unat (CONFIG_LAUNCH_APP_ADDRESS ?c) + 64 * k \<le> unat (CONFIG_FLASH_START ?c + CONFIG_FLASH_SIZE ?c)"
    using room k(3) by simp
  from flash_progress.upload_stored [OF stm32.flash_progress_axioms [of m ?c hw ar pend], unfolded stm32_api_at_flash_start,
      OF k(1) inv this k(2) fin] show ?thesis by simp
qed

text \<open>The request goes where the first word of the new bootloader's vector table points.\<close>

lemma holds_at_nth: "holds_at mem a bs \<Longrightarrow> i < length bs \<Longrightarrow> mem (a + of_nat i) = bs ! i"
  by (simp add: holds_at_def mem_read_eq_iff)

lemma holds_at_u32:
  assumes "holds_at mem a bs" "4 \<le> length bs"
  shows "mem_u32 mem a = u32_of_bytes (bs ! 0) (bs ! 1) (bs ! 2) (bs ! 3)"
proof -
  have "0 < length bs" "1 < length bs" "2 < length bs" "3 < length bs" using assms(2) by linarith+
  then show ?thesis
    using holds_at_nth [OF assms(1), of 0] holds_at_nth [OF assms(1), of 1] holds_at_nth [OF assms(1), of 2]
      holds_at_nth [OF assms(1), of 3] by (simp add: mem_u32_def)
qed

section \<open>Properties\<close>

text \<open>C34: The deployer puts the bootloader in place. On an STM32 of any register layout, whose hardware follows its
  manual, if the deployer resets at all, then the flash holds the bootloader's binary, whatever it
  held before, and the boot code after the reset finds the request to stay in the bootloader, at the
  place where the new bootloader looks for it. A binary that was in place already is not written again; if a
  block cannot be written the deployer halts and does not reset into what is there.\<close>

theorem deployer_installs_bootloader:
  assumes "stm32_inv m (at_flash_start c) hw ar pend f" and "CONFIG_FLASH_BOOT_ADDRESS c = CONFIG_FLASH_START c"
    and "unat (CONFIG_FLASH_START c) + length bin + 63 \<le> unat (flash_end c)"
    and "4 \<le> length bin" and "stack_end l = u32_of_bytes (bin ! 0) (bin ! 1) (bin ! 2) (bin ! 3)"
    and "deployer_sched_main (stm32_flash_api m c hw) c bin rd f = Some r"
  shows "case r of
      Deploy_Reset mem f' \<Rightarrow> holds_at (hw_memory hw (fl_dev f')) (CONFIG_FLASH_START c) bin \<and>
        bootentry_check c l i mem = (True, True, [Set_Code 0]) \<and>
        (holds_at (hw_memory hw (fl_dev f)) (CONFIG_FLASH_START c) bin \<longrightarrow> f' = f)
    | Deploy_Halt f' \<Rightarrow> \<not> holds_at (hw_memory hw (fl_dev f)) (CONFIG_FLASH_START c) bin"
proof -
  let ?api = "stm32_flash_api m c hw" and ?a = "CONFIG_FLASH_START c"
  have entry: "bootentry_check c l i (try_request_canboot c mem) = (True, True, [Set_Code 0])" if "holds_at mem ?a bin" for mem
  proof -
    have "try_request_canboot c mem = set_bootup_code l REQUEST_CANBOOT mem"
      using holds_at_u32 [OF that assms(4)] assms(2,5)
      by (simp add: try_request_canboot_def set_bootup_code_def boot_set_bootup_code_def)
    then show ?thesis by (simp add: bootentry_check_def)
  qed
  show ?thesis
  proof (cases "holds_at (hw_memory hw (fl_dev f)) ?a bin")
    case True
    then have "r = Deploy_Reset (try_request_canboot c (hw_memory hw (fl_dev f))) f"
      using assms(6) by (simp add: deployer_sched_main_def holds_at_def stm32_flash_api_def)
    with True entry show ?thesis by simp
  next
    case False
    then obtain x where x: "deploy_blocks ?api c ?a bin f = Some x"
        "(case x of Inl f \<Rightarrow> Some (Deploy_Halt f)
          | Inr f \<Rightarrow> Some (Deploy_Reset (try_request_canboot c (hw_memory hw (fl_dev f))) f)) = Some r"
      using assms(6) by (auto simp: deployer_sched_main_def holds_at_def Let_def bind_eq_Some_conv)
    show ?thesis
    proof (cases x)
      case (Inl f1)
      with x(2) False show ?thesis by auto
    next
      case (Inr f1)
      then have r: "r = Deploy_Reset (try_request_canboot c (hw_memory hw (fl_dev f1))) f1" using x(2) by simp
      have "flash_complete ?api f1 = Some (sint (fl_page_write_count f1), f1)"
        by (simp add: stm32_flash_api_def stm32_flash_complete_def)
      from stm32_deploy_stored [OF assms(1,3) x(1) [unfolded Inr] this]
      have "holds_at (hw_memory hw (fl_dev f1)) ?a bin" by (simp add: stm32_flash_api_def)
      with entry [OF this] r False show ?thesis by simp
    qed
  qed
qed

definition demo_bootloader :: "u8 list" where
  "demo_bootloader = [0x00, 0x50, 0x00, 0x20, 0x41, 0x01, 0x00, 0x08]"

lemma demo_bootloader_written:
  assumes "fl_dev f = d" "part_memory d = (\<lambda>_. 0xff)"
  shows "\<exists>f'. stm32_flash_write_block STM32F103 steinzeit f103_hw 0x8000000 (words_of_bytes (demo_bootloader @ replicate 56 0xff)) f = Some (0, f')"
proof -
  let ?d = "words_of_bytes (demo_bootloader @ replicate 56 0xff)"
  have er: "erased_from (part_memory (fl_dev f)) 0x8000000 n" for n using assms by (simp add: erased_from_def)
  obtain d' where "stm32_program STM32F103 steinzeit f103_hw 0x8000000 0x8000000 ?d False (fl_dev f) = Some (0, d')"
    using f103_program [OF _ _ er, of ?d "0x8000000"] by (auto simp: demo_bootloader_def)
  moreover have "check_erased (part_memory (fl_dev f)) 0x8000000 1024"
    by (intro check_erased_all [OF er]) auto
  moreover have "ALIGN_DOWN 0x8000000 1024 = 0x8000000" by (simp add: ALIGN_DOWN_def)
  ultimately show ?thesis by (simp add: stm32_flash_write_block_def Let_def)
qed

theorem deployer_installs_bootloader_witness:
  "\<exists>mem f'. deployer_sched_main (stm32_flash_api STM32F103 steinzeit f103_hw) steinzeit demo_bootloader
      (\<lambda>k. if k = 0 then 0 else 7200000) blank_f103 = Some (Deploy_Reset mem f') \<and>
    holds_at (part_memory (fl_dev f')) 0x8000000 demo_bootloader"
proof -
  let ?api = "stm32_flash_api STM32F103 steinzeit f103_hw" and ?bin = demo_bootloader
  let ?rd = "\<lambda>k :: nat. if k = 0 then 0 else 7200000 :: u32"
  define l where "l = \<lparr> data_start = 0x20000000, data_end = 0x20000000, data_flash = 0x8001000, bss_start = 0x20000000,
    bss_end = 0x20000000, stack_end = 0x20005000 \<rparr>"
  have inv: "stm32_inv STM32F103 (at_flash_start steinzeit) f103_hw part_AR (\<lambda>_. {}) blank_f103"
    using f103_inv [of blank_f103]
    by (simp add: stm32_inv_def stm32_supported_def config_ok_def at_flash_start_def steinzeit_def stm32_limit_def)
  obtain f' where f': "stm32_flash_write_block STM32F103 steinzeit f103_hw 0x8000000 (words_of_bytes (?bin @ replicate 56 0xff)) blank_f103 = Some (0, f')"
    using demo_bootloader_written [of blank_f103] by (auto simp: blank_f103_def)
  have "deploy_blocks ?api steinzeit 0x8000000 ?bin blank_f103 = Some (Inr f')"
    using f' by (subst deploy_blocks.simps) (simp add: steinzeit_def demo_bootloader_def deploy_blocks.simps)
  moreover have "udelay steinzeit ?rd 100000 = Some 1"
    by (simp add: udelay_def udelay_wait.simps timer_from_us_def steinzeit_def)
  moreover have "mem_read (part_memory (fl_dev blank_f103)) 0x8000000 (length ?bin) \<noteq> ?bin"
    by (simp add: blank_f103_def demo_bootloader_def mem_read_def upt_rec)
  ultimately have main: "deployer_sched_main ?api steinzeit ?bin ?rd blank_f103 =
      Some (Deploy_Reset (try_request_canboot steinzeit (part_memory (fl_dev f'))) f')"
    by (simp add: deployer_sched_main_def stm32_flash_complete_def stm32_flash_api_def steinzeit_def)
  have "case Deploy_Reset (try_request_canboot steinzeit (part_memory (fl_dev f'))) f' of
      Deploy_Reset mem f' \<Rightarrow> holds_at (hw_memory f103_hw (fl_dev f')) (CONFIG_FLASH_START steinzeit) ?bin \<and>
        bootentry_check steinzeit l undefined mem = (True, True, [Set_Code 0]) \<and>
        (holds_at (hw_memory f103_hw (fl_dev blank_f103)) (CONFIG_FLASH_START steinzeit) ?bin \<longrightarrow> f' = blank_f103)
    | Deploy_Halt f' \<Rightarrow> \<not> holds_at (hw_memory f103_hw (fl_dev blank_f103)) (CONFIG_FLASH_START steinzeit) ?bin"
    by (rule deployer_installs_bootloader [OF inv _ _ _ _ main])
      (simp_all add: steinzeit_def l_def demo_bootloader_def u32_of_bytes_def)
  with main show ?thesis by (auto simp: steinzeit_def)
qed

end
