(* ===== verification/StmTimer.thy ===== *)
theory StmTimer
  imports Timer
begin

text \<open>
  The timer of the STM32F0 and G0 boards, \<open>stm32/stm32f0_timer.c\<close>. Where the part has no 32-bit
  timer, the code extends a 16-bit counter: an interrupt every \<open>0x8000\<close> ticks counts half rounds
  in \<open>timer_high\<close>, and \<open>timer_read_time\<close> combines it with the counter. The registers are a
  record; what the timer itself does in a tick and when its interrupt is taken are the steps of
  \<open>tim_step\<close>, which also counts the ticks since the start and how long an interrupt has
  been waiting.
\<close>

definition TIM_SR_CC1IF :: u32 where "TIM_SR_CC1IF = 2"
definition TIM_DIER_CC1IE :: u32 where "TIM_DIER_CC1IE = 2"
definition TIM_CCER_CC1E :: u32 where "TIM_CCER_CC1E = 1"
definition TIM_CR1_CEN :: u32 where "TIM_CR1_CEN = 1"

lemmas tim_consts = TIM_SR_CC1IF_def TIM_DIER_CC1IE_def TIM_CCER_CC1E_def TIM_CR1_CEN_def

record stm_timer =
  TIM_CNT :: u32
  TIM_CCR1 :: u32
  TIM_SR :: u32
  TIM_DIER :: u32
  TIM_CCER :: u32
  TIM_CR1 :: u32
  timer_high :: u32

definition timer_set :: "u32 \<Rightarrow> stm_timer \<Rightarrow> stm_timer" where
  "timer_set nxt s = s\<lparr>TIM_CCR1 := nxt, TIM_SR := 0\<rparr>"

text \<open>\<open>timer_read_time\<close> reads \<open>timer_high\<close> first and the counter after it: both readings are
  arguments, since an interrupt may fall between them.\<close>

definition stm_timer_read_time :: "bool \<Rightarrow> u32 \<Rightarrow> u32 \<Rightarrow> u32" where
  "stm_timer_read_time have_timer_32bit th cur =
     (if have_timer_32bit then cur else (th XOR cur) + (th AND 0xffff))"

definition TIMx_IRQHandler :: "stm_timer \<Rightarrow> stm_timer" where
  "TIMx_IRQHandler s =
     (let s = s\<lparr>timer_high := timer_high s + 0x8000\<rparr> in timer_set (timer_high s + 0x8000) s)"

definition stm_timer_setup :: "bool \<Rightarrow> stm_timer \<Rightarrow> stm_timer" where
  "stm_timer_setup have_timer_32bit s =
     (let s = s\<lparr>TIM_CNT := 0\<rparr>;
          s = (if have_timer_32bit then s
               else timer_set 0x8000 (s\<lparr>TIM_DIER := TIM_DIER_CC1IE, TIM_CCER := TIM_CCER_CC1E\<rparr>))
      in s\<lparr>TIM_CR1 := TIM_CR1_CEN\<rparr>)"

text \<open>On the other boards the counter is 32 bits wide and \<open>timer_setup\<close> only starts it:
  the cycle counter of \<open>generic/armcm_timer.c\<close> and the microsecond timer of \<open>rp2040/timer.c\<close>.\<close>

record cycle_counter =
  CoreDebug_DEMCR :: u32
  DWT_CTRL :: u32

definition armcm_timer_setup :: "cycle_counter \<Rightarrow> cycle_counter" where
  "armcm_timer_setup s = s\<lparr>CoreDebug_DEMCR := CoreDebug_DEMCR s OR 0x1000000, DWT_CTRL := DWT_CTRL s OR 1\<rparr>"

record rp_timer =
  timer_timelw :: u32
  timer_timehw :: u32

definition rp2040_timer_setup :: "rp_timer \<Rightarrow> rp_timer" where
  "rp2040_timer_setup s = s\<lparr>timer_timelw := 0, timer_timehw := 0\<rparr>"

section \<open>The timer runs\<close>

text \<open>One tick of a 16-bit timer: the counter wraps, and the flag of channel 1 is set when it
  reaches the lower half of \<open>CCR1\<close>.\<close>

definition tim_tick :: "stm_timer \<Rightarrow> stm_timer" where
  "tim_tick s =
     (if TIM_CR1 s AND TIM_CR1_CEN = 0 then s
      else let cnt = (TIM_CNT s + 1) AND 0xffff
           in s\<lparr>TIM_CNT := cnt,
                TIM_SR := (if cnt = TIM_CCR1 s AND 0xffff then TIM_SR s OR TIM_SR_CC1IF else TIM_SR s)\<rparr>)"

definition tim_irq :: "stm_timer \<Rightarrow> bool" where
  "tim_irq s \<longleftrightarrow> TIM_SR s AND TIM_DIER s AND TIM_DIER_CC1IE \<noteq> 0"

text \<open>\<open>(n, age, s)\<close>: \<open>n\<close> ticks have passed since \<open>timer_setup\<close>, and an interrupt that is waiting has
  waited for \<open>age\<close> of them. It is taken after at most \<open>latency\<close> ticks.\<close>

inductive tim_step :: "nat \<Rightarrow> nat \<times> nat \<times> stm_timer \<Rightarrow> nat \<times> nat \<times> stm_timer \<Rightarrow> bool" for latency where
  tick: "tim_irq s \<longrightarrow> age < latency \<Longrightarrow>
    tim_step latency (n, age, s) (Suc n, if tim_irq s then Suc age else 0, tim_tick s)"
| irq: "tim_irq s \<Longrightarrow> tim_step latency (n, age, s) (n, 0, TIMx_IRQHandler s)"

inductive_cases tim_stepE: "tim_step latency x y"

section \<open>The invariant\<close>

text \<open>\<open>h\<close> interrupts have been served after \<open>n\<close> ticks.\<close>

definition tim_inv :: "nat \<Rightarrow> nat \<times> nat \<times> stm_timer \<Rightarrow> nat \<Rightarrow> bool" where
  "tim_inv latency = (\<lambda>(n, age, s) h.
     TIM_CR1 s = TIM_CR1_CEN \<and> TIM_DIER s = TIM_DIER_CC1IE \<and> TIM_CNT s = of_nat (n mod 0x10000) \<and>
     timer_high s = of_nat (0x8000 * h) \<and> TIM_CCR1 s = of_nat (0x8000 * Suc h) \<and>
     TIM_SR s = (if 0x8000 * Suc h \<le> n then TIM_SR_CC1IF else 0) \<and>
     0x8000 * h \<le> n \<and> (0x8000 * Suc h \<le> n \<longrightarrow> n = 0x8000 * Suc h + age \<and> age \<le> latency))"

lemma of_nat_low: "of_nat n AND 0xffff = (of_nat (n mod 0x10000) :: u32)"
proof -
  have "of_nat n AND 0xffff = (take_bit 16 (of_nat n) :: u32)"
    using take_bit_eq_mask [of 16 "of_nat n :: u32"] by (simp add: mask_eq_exp_minus_1)
  also have "\<dots> = of_nat (take_bit 16 n)" by (rule take_bit_of_nat)
  also have "take_bit 16 n = n mod 0x10000" by (simp add: take_bit_eq_mod)
  finally show ?thesis .
qed

lemma mod_eq_close:
  assumes "a mod m = b mod m" and "a < b + m" and "b < a + m"
  shows "a = (b :: nat)"
proof -
  obtain q where "a = b + m * q \<or> b = a + m * q" using assms(1) by (metis mod_eq_nat1E linear)
  with assms(2,3) show ?thesis by (cases q) auto
qed

lemma tim_inv_irq: "tim_inv latency (n, age, s) h \<Longrightarrow> tim_irq s \<longleftrightarrow> 0x8000 * Suc h \<le> n"
  by (simp add: tim_inv_def tim_irq_def tim_consts)

lemma low_half_eq:
  assumes "h * 0x8000 \<le> n" "n < 0x8000 * h + 0x10000"
  shows "Suc n mod 0x10000 = 0x8000 * Suc h mod 0x10000 \<longleftrightarrow> Suc n = 0x8000 * Suc h"
  using assms mod_eq_close [of "Suc n" "0x10000" "0x8000 * Suc h"] by auto

lemma tim_inv_tick:
  assumes inv: "tim_inv latency (n, age, s) h" and "tim_irq s \<longrightarrow> age < latency" and lat: "latency < 0x8000"
  shows "tim_inv latency (Suc n, if tim_irq s then Suc age else 0, tim_tick s) h"
proof -
  have n: "h * 0x8000 \<le> n" "n < 0x8000 * h + 0x10000"
    using inv lat by (auto simp: tim_inv_def)
  have "(TIM_CNT s + 1) AND 0xffff = of_nat (Suc n) AND 0xffff"
    using inv mod_Suc_eq [of n "0x10000"] of_nat_low [of "Suc (n mod 0x10000)"] of_nat_low [of "Suc n"]
    by (simp add: tim_inv_def add.commute)
  then have cnt: "(TIM_CNT s + 1) AND 0xffff = of_nat (Suc n mod 0x10000)" by (simp only: of_nat_low)
  have "of_nat (Suc n mod 0x10000) = (of_nat (0x8000 * Suc h mod 0x10000) :: u32) \<longleftrightarrow>
      Suc n mod 0x10000 = 0x8000 * Suc h mod 0x10000"
    by (intro iffI arg_cong [where f = of_nat]) (auto dest!: arg_cong [where f = unat] simp: unat_of_nat_u32)
  then have hit: "(TIM_CNT s + 1) AND 0xffff = TIM_CCR1 s AND 0xffff \<longleftrightarrow> Suc n = 0x8000 * Suc h"
  proof -
    have "TIM_CCR1 s = of_nat (0x8000 * Suc h)" using inv by (simp add: tim_inv_def)
    then have "TIM_CCR1 s AND 0xffff = of_nat (0x8000 * Suc h mod 0x10000)" by (simp only: of_nat_low)
    with \<open>(of_nat _ = of_nat _) \<longleftrightarrow> _\<close> show ?thesis using low_half_eq [OF n] cnt by simp
  qed
  have "TIM_CR1 s AND TIM_CR1_CEN \<noteq> 0" using inv by (simp add: tim_inv_def tim_consts)
  then have "tim_tick s = s\<lparr>TIM_CNT := of_nat (Suc n mod 0x10000),
      TIM_SR := (if Suc n = 0x8000 * Suc h then TIM_SR s OR TIM_SR_CC1IF else TIM_SR s)\<rparr>"
    unfolding tim_tick_def cnt [symmetric] Let_def using hit by simp
  then show ?thesis
    using assms tim_inv_irq [OF inv] by (auto simp: tim_inv_def simp del: mod_Suc_eq)
qed

lemma tim_inv_handler:
  assumes "tim_inv latency (n, age, s) h" and "tim_irq s" and "latency < 0x8000"
  shows "tim_inv latency (n, 0, TIMx_IRQHandler s) (Suc h)"
  using assms by (auto simp: tim_inv_def TIMx_IRQHandler_def timer_set_def tim_irq_def Let_def tim_consts algebra_simps
      split: if_splits)

lemma tim_inv_steps:
  assumes "(tim_step latency)\<^sup>*\<^sup>* x y" and "tim_inv latency x h" and "latency < 0x8000"
  shows "\<exists>h'. h \<le> h' \<and> tim_inv latency y h' \<and> fst x \<le> fst y"
  using assms
proof (induction rule: rtranclp_induct)
  case base
  then show ?case by auto
next
  case (step y z)
  then obtain h' where h': "h \<le> h'" "tim_inv latency y h'" "fst x \<le> fst y" by auto
  from step.hyps(2) show ?case
  proof (cases rule: tim_step.cases)
    case (tick s age n)
    with h' tim_inv_tick [of latency n age s h'] step.prems(2) show ?thesis by auto
  next
    case (irq s n age)
    with h' tim_inv_handler [of latency n age s h'] step.prems(2) show ?thesis by (intro exI [of _ "Suc h'"]) auto
  qed
qed

lemma tim_inv_setup:
  "timer_high s = 0 \<Longrightarrow> tim_inv latency (0, 0, stm_timer_setup False s) 0"
  by (simp add: tim_inv_def stm_timer_setup_def timer_set_def Let_def)

section \<open>Combining the two halves\<close>

lemma high_low_disjoint:
  assumes "x < 2 ^ k"
  shows "of_nat (2 ^ k * y) XOR of_nat x = (of_nat (2 ^ k * y) + of_nat x :: u32)"
proof -
  have "push_bit k y AND take_bit k x = 0" by (rule bit_eqI) (auto simp: bit_simps)
  then have disj: "2 ^ k * y AND x = 0"
    using assms by (simp add: push_bit_eq_mult take_bit_nat_eq_self mult.commute)
  have "of_nat (2 ^ k * y) AND of_nat x = (of_nat (2 ^ k * y AND x) :: u32)" by (rule of_nat_and_eq [symmetric])
  also have "\<dots> = of_nat 0" by (rule arg_cong [OF disj])
  also have "\<dots> = 0" by (rule semiring_1_class.of_nat_0)
  finally show ?thesis by (rule disjunctive_add_eq_xor [symmetric])
qed

lemma flip_bit_15:
  assumes "c < 0x8000"
  shows "of_nat c XOR 0x8000 = (of_nat (c + 0x8000) :: u32)" "of_nat (c + 0x8000) XOR 0x8000 = (of_nat c :: u32)"
proof -
  show eq: "of_nat c XOR 0x8000 = (of_nat (c + 0x8000) :: u32)"
    using high_low_disjoint [of c 15 1] assms by (simp add: xor.commute add.commute)
  show "of_nat (c + 0x8000) XOR 0x8000 = (of_nat c :: u32)" unfolding eq [symmetric] by (simp add: xor.assoc)
qed

lemma read_time_exact:
  assumes "0x8000 * h \<le> n" and "n < 0x8000 * h + 0x10000"
  shows "stm_timer_read_time False (of_nat (0x8000 * h)) (of_nat (n mod 0x10000)) = of_nat n"
proof (cases "even h")
  case True
  then obtain k where h: "h = 2 * k" by blast
  then have th: "0x8000 * h = 2 ^ 16 * k" by simp
  obtain c where n: "n = 2 ^ 16 * k + c" "c < 2 ^ 16"
    using assms h le_Suc_ex [of "0x8000 * h" n] by auto
  have low: "of_nat (2 ^ 16 * k) AND 0xffff = (0 :: u32)"
    using of_nat_low [of "2 ^ 16 * k"] by simp
  have "n mod 0x10000 = c" using n by simp
  then show ?thesis
    unfolding stm_timer_read_time_def th using n low high_low_disjoint [of c 16 k] by simp
next
  case False
  then obtain k where h: "h = Suc (2 * k)" by (metis oddE Suc_eq_plus1)
  then have th: "0x8000 * h = 2 ^ 16 * k + 0x8000" by simp
  have T: "of_nat (0x8000 * h) = (of_nat (2 ^ 16 * k) XOR 0x8000 :: u32)"
    using high_low_disjoint [of "0x8000" 16 k] unfolding th by simp
  have low: "of_nat (0x8000 * h) AND 0xffff = (0x8000 :: u32)"
    using of_nat_low [of "0x8000 * h"] unfolding th by simp
  obtain d where n: "n = 2 ^ 16 * k + 0x8000 + d" "d < 2 ^ 16"
    using assms th le_Suc_ex [of "0x8000 * h" n] by auto
  have "of_nat (n mod 0x10000) XOR 0x8000 = (of_nat d :: u32)"
  proof (cases "d < 0x8000")
    case True
    then have "n = 2 ^ 16 * k + (d + 0x8000)" "d + 0x8000 < 2 ^ 16" using n by simp_all
    then have "n mod 0x10000 = d + 0x8000" by simp
    with flip_bit_15(2) [OF True] show ?thesis by simp
  next
    case False
    then obtain c where c: "d = c + 0x8000" by (metis le_Suc_ex not_less add.commute)
    then have "n = c + Suc k * 0x10000" "c < 0x8000" using n by simp_all
    then have "n mod 0x10000 = c" by (simp only: mod_mult_self1) simp
    with flip_bit_15(1) [OF \<open>c < 0x8000\<close>] c show ?thesis by simp
  qed
  then have "of_nat (0x8000 * h) XOR of_nat (n mod 0x10000) = (of_nat (2 ^ 16 * k) XOR of_nat d :: u32)"
    unfolding T by (simp only: xor.assoc xor.commute [of "0x8000"])
  then show ?thesis
    unfolding stm_timer_read_time_def low using high_low_disjoint [OF n(2), of k] n(1)
    by (simp add: algebra_simps)
qed

text \<open>With interrupts that are taken at once, the state after any number of ticks is known.\<close>

lemma tim_run_exists: "\<exists>age s. (tim_step 1)\<^sup>*\<^sup>* (0, 0, stm_timer_setup False s0) (n, age, s)"
proof (induction n)
  case 0
  then show ?case by blast
next
  case (Suc n)
  then obtain age s where s: "(tim_step 1)\<^sup>*\<^sup>* (0, 0, stm_timer_setup False s0) (n, age, s)" by blast
  show ?case
  proof (cases "tim_irq s \<and> \<not> age < 1")
    case True
    then have "tim_step 1 (n, age, s) (n, 0, TIMx_IRQHandler s)" by (auto intro: tim_step.irq)
    moreover have "tim_step 1 (n, 0, TIMx_IRQHandler s)
        (Suc n, if tim_irq (TIMx_IRQHandler s) then Suc 0 else 0, tim_tick (TIMx_IRQHandler s))"
      by (rule tim_step.tick) simp
    ultimately show ?thesis using s by (blast intro: rtranclp.rtrancl_into_rtrancl)
  next
    case False
    then have "tim_step 1 (n, age, s) (Suc n, if tim_irq s then Suc age else 0, tim_tick s)"
      by (intro tim_step.tick) auto
    with s show ?thesis by (blast intro: rtranclp.rtrancl_into_rtrancl)
  qed
qed

section \<open>Properties\<close>

text \<open>C35: On the parts with a 16-bit counter, \<open>timer_read_time\<close> returns the number of ticks since
  \<open>timer_setup\<close>, modulo \<open>2^32\<close>, at every moment: also between a half round of the counter and
  its interrupt, and also when interrupts and ticks fall between its two readings, as long as the
  latency of the interrupt and the time between the readings together stay below \<open>0x8000\<close> ticks.\<close>

theorem timer_read_time_counts_ticks:
  assumes "timer_high s0 = 0"
    and "(tim_step latency)\<^sup>*\<^sup>* (0, 0, stm_timer_setup False s0) (n1, age1, s1)"
    and "(tim_step latency)\<^sup>*\<^sup>* (n1, age1, s1) (n2, age2, s2)"
    and "latency + (n2 - n1) < 0x8000"
  shows "stm_timer_read_time False (timer_high s1) (TIM_CNT s2) = of_nat n2"
proof -
  have lat: "latency < 0x8000" using assms(4) by simp
  obtain h where h: "tim_inv latency (n1, age1, s1) h"
    using tim_inv_steps [OF assms(2) tim_inv_setup [OF assms(1)] lat] by auto
  then obtain h' where "tim_inv latency (n2, age2, s2) h'" "n1 \<le> n2"
    using tim_inv_steps [OF assms(3) h lat] by auto
  moreover have "0x8000 * h \<le> n1" "n1 < 0x8000 * Suc h + Suc latency"
    using h by (auto simp: tim_inv_def)
  ultimately show ?thesis
    using h read_time_exact [of h n2] assms(4) by (simp add: tim_inv_def del: of_nat_mult)
qed

theorem timer_read_time_counts_ticks_witness:
  "\<exists>age s. (tim_step 1)\<^sup>*\<^sup>* (0, 0, stm_timer_setup False (undefined\<lparr>timer_high := 0\<rparr>)) (70000, age, s) \<and>
    stm_timer_read_time False (timer_high s) (TIM_CNT s) = 70000"
proof -
  let ?s0 = "undefined\<lparr>timer_high := 0\<rparr> :: stm_timer"
  obtain age s where "(tim_step 1)\<^sup>*\<^sup>* (0, 0, stm_timer_setup False ?s0) (70000, age, s)"
    using tim_run_exists by blast
  then show ?thesis
    using timer_read_time_counts_ticks [of ?s0 1 70000 age s 70000 age s] by auto
qed

end
