(* ===== verification/UsbFs.thy ===== *)
theory UsbFs
  imports UsbCdc
begin

text \<open>
  The full-speed USB controller of the STM32 boards, \<open>stm32/usbfs.c\<close>: the functions that
  \<open>generic/usb_cdc.h\<close> asks of a board. The state holds the controller's packet memory, its registers
  and the driver's static variables. \<open>ws\<close> is \<open>WSIZE\<close>, the bytes in a word of packet memory: 2, or 4
  on the STM32G0.

  What happens on the bus comes in groups of events, and every point at which the driver touches
  something that the controller or the interrupt handler changes takes the next group. An event is a whole transaction:
  what the controller does, as the reference manual says, and the interrupt, which is taken when the
  transaction completes. Calls of \<open>usb_cdc.c\<close> from the interrupt handler are logged; they only
  set wake-up flags.
\<close>

section \<open>Registers\<close>

definition USB_EP_CTR_RX :: u32 where "USB_EP_CTR_RX = 0x8000"
definition USB_EP_DTOG_RX :: u32 where "USB_EP_DTOG_RX = 0x4000"
definition USB_EPRX_STAT :: u32 where "USB_EPRX_STAT = 0x3000"
definition USB_EP_SETUP :: u32 where "USB_EP_SETUP = 0x800"
definition USB_EP_TYPE_MASK :: u32 where "USB_EP_TYPE_MASK = 0x600"
definition USB_EP_KIND :: u32 where "USB_EP_KIND = 0x100"
definition USB_EP_CTR_TX :: u32 where "USB_EP_CTR_TX = 0x80"
definition USB_EP_DTOG_TX :: u32 where "USB_EP_DTOG_TX = 0x40"
definition USB_EPTX_STAT :: u32 where "USB_EPTX_STAT = 0x30"
definition USB_EPADDR_FIELD :: u32 where "USB_EPADDR_FIELD = 0xf"
definition USB_EP_BULK :: u32 where "USB_EP_BULK = 0"
definition USB_EP_CONTROL :: u32 where "USB_EP_CONTROL = 0x200"
definition USB_EP_INTERRUPT :: u32 where "USB_EP_INTERRUPT = 0x600"
definition USB_EP_RX_STALL :: u32 where "USB_EP_RX_STALL = 0x1000"
definition USB_EP_RX_NAK :: u32 where "USB_EP_RX_NAK = 0x2000"
definition USB_EP_RX_VALID :: u32 where "USB_EP_RX_VALID = 0x3000"
definition USB_EP_TX_STALL :: u32 where "USB_EP_TX_STALL = 0x10"
definition USB_EP_TX_NAK :: u32 where "USB_EP_TX_NAK = 0x20"
definition USB_EP_TX_VALID :: u32 where "USB_EP_TX_VALID = 0x30"
definition USB_ISTR_CTR :: u32 where "USB_ISTR_CTR = 0x8000"
definition USB_ISTR_RESET :: u32 where "USB_ISTR_RESET = 0x400"
definition USB_ISTR_EP_ID :: u32 where "USB_ISTR_EP_ID = 0xf"
definition USB_CNTR_CTRM :: u32 where "USB_CNTR_CTRM = 0x8000"
definition USB_CNTR_RESETM :: u32 where "USB_CNTR_RESETM = 0x400"
definition USB_CNTR_FRES :: u32 where "USB_CNTR_FRES = 1"
definition USB_DADDR_EF :: u32 where "USB_DADDR_EF = 0x80"
definition USB_BCDR_DPPU :: u32 where "USB_BCDR_DPPU = 0x8000"

lemmas fs_consts = USB_EP_CTR_RX_def USB_EP_DTOG_RX_def USB_EPRX_STAT_def USB_EP_SETUP_def USB_EP_TYPE_MASK_def
  USB_EP_KIND_def USB_EP_CTR_TX_def USB_EP_DTOG_TX_def USB_EPTX_STAT_def USB_EPADDR_FIELD_def USB_EP_BULK_def
  USB_EP_CONTROL_def USB_EP_INTERRUPT_def USB_EP_RX_STALL_def USB_EP_RX_NAK_def USB_EP_RX_VALID_def
  USB_EP_TX_STALL_def USB_EP_TX_NAK_def USB_EP_TX_VALID_def USB_ISTR_CTR_def USB_ISTR_RESET_def USB_ISTR_EP_ID_def
  USB_CNTR_CTRM_def USB_CNTR_RESETM_def USB_CNTR_FRES_def USB_DADDR_EF_def USB_BCDR_DPPU_def

definition EPR_TBITS :: u32 where
  "EPR_TBITS = USB_EP_DTOG_RX OR USB_EPRX_STAT OR USB_EP_DTOG_TX OR USB_EPTX_STAT"

definition EPR_RWBITS :: u32 where
  "EPR_RWBITS = USB_EPADDR_FIELD OR USB_EP_KIND OR USB_EP_TYPE_MASK"

definition EPR_RWCBITS :: u32 where
  "EPR_RWCBITS = USB_EP_CTR_RX OR USB_EP_CTR_TX"

definition calc_epr_bits :: "u32 \<Rightarrow> u32 \<Rightarrow> u32 \<Rightarrow> u32" where
  "calc_epr_bits epr msk value =
     (let tmask = msk AND EPR_TBITS; tvalue = value AND tmask;
          rwmask = msk AND EPR_RWBITS; rwbits = value AND rwmask;
          cbits = EPR_RWCBITS AND NOT msk
      in (((epr AND (EPR_RWBITS OR tmask)) XOR tvalue) AND NOT rwmask) OR rwbits OR cbits)"

definition epr_is_dbuf_blocking :: "u32 \<Rightarrow> bool" where
  "epr_is_dbuf_blocking epr \<longleftrightarrow> (drop_bit (14 - 6) epr XOR epr) AND USB_EP_DTOG_TX = 0"

text \<open>What a write does to an endpoint register: some bits are toggled by a one, some take the value
  written, the two completion flags are cleared by a zero, and \<open>SETUP\<close> is read-only.\<close>

definition epr_write :: "u32 \<Rightarrow> u32 \<Rightarrow> u32" where
  "epr_write old v = ((old XOR v) AND EPR_TBITS) OR (v AND EPR_RWBITS) OR (old AND v AND EPR_RWCBITS) OR (old AND USB_EP_SETUP)"

section \<open>State\<close>

abbreviation (input) EP_BULK_IN :: nat where "EP_BULK_IN \<equiv> 1"
abbreviation (input) EP_BULK_OUT :: nat where "EP_BULK_OUT \<equiv> 2"
abbreviation (input) EP_ACM :: nat where "EP_ACM \<equiv> 3"
abbreviation (input) BUFTX :: nat where "BUFTX \<equiv> 0"
abbreviation (input) BUFRX :: nat where "BUFRX \<equiv> 1"
abbreviation (input) BI_START :: u32 where "BI_START \<equiv> 2"

datatype usb_note = Notify_Bulk_Out | Notify_Bulk_In | Notify_Ep0

datatype bus_event =
    Bus_Out "u8 list"
  | Bus_In
  | Bus_Setup "u8 list"
  | Bus_Ep0_Out "u8 list"
  | Bus_Ep0_In
  | Bus_Reset

text \<open>The last six fields are not the program's: whether the bulk IN endpoint was made valid and has
  not sent since, the calls of \<open>usb_cdc.c\<close>, what went over the bus, and the events to come.\<close>

record usbfs =
  EPM :: "nat \<Rightarrow> u32"
  USB_EPR :: "nat \<Rightarrow> u32"
  USB_CNTR :: u32
  USB_DADDR :: u32
  USB_ISTR :: u32
  USB_BCDR :: u32
  bulk_out_pop_count :: u32
  bulk_out_push_flag :: u32
  bulk_in_push_pos :: u32
  bulk_in_pop_flag :: u32
  fs_set_address :: u8
  fs_fresh :: bool
  fs_notes :: "usb_note list"
  fs_acked :: "u8 list list"
  fs_sent :: "u8 list list"
  fs_ep0_sent :: "u8 list list"
  fs_bus :: "bus_event list list"

definition set_epr :: "nat \<Rightarrow> u32 \<Rightarrow> usbfs \<Rightarrow> usbfs" where
  "set_epr ep v d =
     (let new = epr_write (USB_EPR d ep) v
      in d\<lparr>USB_EPR := (USB_EPR d)(ep := new),
           fs_fresh := (if ep = EP_BULK_IN \<and> USB_EPR d ep AND USB_EPTX_STAT \<noteq> USB_EP_TX_VALID \<and>
                           new AND USB_EPTX_STAT = USB_EP_TX_VALID then True else fs_fresh d)\<rparr>)"

section \<open>Packet memory\<close>

definition EPM_EP_DESC :: "nat \<Rightarrow> nat \<Rightarrow> nat \<Rightarrow> nat" where
  "EPM_EP_DESC ws ep bufnum = (ep * 2 + bufnum) * (4 div ws)"

definition EPM_EP_BUF :: "nat \<Rightarrow> nat \<Rightarrow> nat \<Rightarrow> nat" where
  "EPM_EP_BUF ws ep bufnum = 0x10 + (ep * 2 + bufnum) * (64 div ws + 1)"

definition epm_ep_desc_setup :: "nat \<Rightarrow> nat \<Rightarrow> nat \<Rightarrow> nat \<Rightarrow> usbfs \<Rightarrow> usbfs" where
  "epm_ep_desc_setup ws ep bufnum rx_size d =
     (let addr = of_nat (EPM_EP_BUF ws ep bufnum * ws) :: u32;
          count_rx = (if rx_size \<le> 30 then push_bit 10 (of_nat ((rx_size + 1) div 2))
                      else push_bit 10 (of_nat ((rx_size + 31) div 32 - 1)) OR 0x8000) :: u32;
          desc = EPM_EP_DESC ws ep bufnum
      in if ws = 2 then d\<lparr>EPM := (EPM d)(desc := addr, desc + 1 := count_rx)\<rparr>
         else d\<lparr>EPM := (EPM d)(desc := addr OR push_bit 16 count_rx)\<rparr>)"

definition epm_get_ep_count_rx :: "nat \<Rightarrow> nat \<Rightarrow> nat \<Rightarrow> usbfs \<Rightarrow> u32" where
  "epm_get_ep_count_rx ws ep bufnum d =
     (let desc = EPM_EP_DESC ws ep bufnum
      in if ws = 2 then EPM d (desc + 1) AND 0x3ff else drop_bit 16 (EPM d desc) AND 0x3ff)"

definition epm_set_ep_count_tx :: "nat \<Rightarrow> nat \<Rightarrow> nat \<Rightarrow> u32 \<Rightarrow> usbfs \<Rightarrow> usbfs" where
  "epm_set_ep_count_tx ws ep bufnum count d =
     (let desc = EPM_EP_DESC ws ep bufnum
      in if ws = 2 then d\<lparr>EPM := (EPM d)(desc + 1 := count)\<rparr>
         else d\<lparr>EPM := (EPM d)(desc := of_nat (EPM_EP_BUF ws ep bufnum * ws) OR push_bit 16 count)\<rparr>)"

definition btable_configure :: "nat \<Rightarrow> usbfs \<Rightarrow> usbfs" where
  "btable_configure ws =
     epm_ep_desc_setup ws EP_BULK_IN 1 0 \<circ>
     epm_ep_desc_setup ws EP_BULK_IN 0 0 \<circ>
     epm_ep_desc_setup ws EP_BULK_OUT 1 USB_CDC_EP_BULK_OUT_SIZE \<circ>
     epm_ep_desc_setup ws EP_BULK_OUT 0 USB_CDC_EP_BULK_OUT_SIZE \<circ>
     epm_ep_desc_setup ws EP_ACM BUFRX 0 \<circ>
     epm_ep_desc_setup ws EP_ACM BUFTX 0 \<circ>
     epm_ep_desc_setup ws 0 BUFRX USB_CDC_EP0_SIZE \<circ>
     epm_ep_desc_setup ws 0 BUFTX 0"

text \<open>The loop of \<open>btable_read_packet\<close> and, below it, of \<open>btable_write_packet\<close>: whole words, then the
  one to three bytes that are left.\<close>

fun epm_get :: "nat \<Rightarrow> (nat \<Rightarrow> u32) \<Rightarrow> nat \<Rightarrow> nat \<Rightarrow> u8 list" where
  "epm_get ws mem src count =
     (if count = 0 then []
      else if ws = 0 \<or> count < ws then take count (bytes_of_u32 (mem src))
      else take ws (bytes_of_u32 (mem src)) @ epm_get ws mem (src + 1) (count - ws))"

declare epm_get.simps [simp del]

definition btable_read_packet :: "nat \<Rightarrow> nat \<Rightarrow> nat \<Rightarrow> nat \<Rightarrow> usbfs \<Rightarrow> u8 list" where
  "btable_read_packet ws ep bufnum max_len d =
     (let count = unat (epm_get_ep_count_rx ws ep bufnum d);
          count = (if count > max_len then max_len else count)
      in epm_get ws (EPM d) (EPM_EP_BUF ws ep bufnum) count)"

definition epm_word :: "u8 list \<Rightarrow> u32" where
  "epm_word bs = (let p = bs @ [0, 0, 0, 0] in u32_of_bytes (p ! 0) (p ! 1) (p ! 2) (p ! 3))"

fun epm_put :: "nat \<Rightarrow> nat \<Rightarrow> u8 list \<Rightarrow> (nat \<Rightarrow> u32) \<Rightarrow> nat \<Rightarrow> u32" where
  "epm_put ws dest bs mem =
     (if bs = [] then mem
      else if ws = 0 \<or> length bs < ws then mem(dest := epm_word bs)
      else epm_put ws (dest + 1) (drop ws bs) (mem(dest := epm_word (take ws bs))))"

declare epm_put.simps [simp del]

definition btable_write_packet :: "nat \<Rightarrow> nat \<Rightarrow> nat \<Rightarrow> u8 list \<Rightarrow> usbfs \<Rightarrow> usbfs" where
  "btable_write_packet ws ep bufnum bs d =
     epm_set_ep_count_tx ws ep bufnum (of_nat (length bs))
       (d\<lparr>EPM := epm_put ws (EPM_EP_BUF ws ep bufnum) bs (EPM d)\<rparr>)"

section \<open>The interrupt handler\<close>

definition usb_reset :: "usbfs \<Rightarrow> usbfs" where
  "usb_reset d =
     (let d = set_epr 0 (USB_EP_CONTROL OR USB_EP_RX_VALID OR USB_EP_TX_NAK) d;
          d = set_epr EP_ACM (of_nat EP_ACM OR USB_EP_INTERRUPT OR USB_EP_RX_NAK OR USB_EP_TX_NAK) d;
          d = set_epr EP_BULK_OUT (of_nat EP_BULK_OUT OR USB_EP_BULK OR USB_EP_KIND OR USB_EP_RX_NAK OR USB_EP_DTOG_TX) d;
          d = d\<lparr>bulk_out_push_flag := USB_EP_DTOG_TX\<rparr>;
          d = set_epr EP_BULK_IN (of_nat EP_BULK_IN OR USB_EP_BULK OR USB_EP_KIND OR USB_EP_TX_NAK) d;
          d = d\<lparr>bulk_in_pop_flag := USB_EP_DTOG_RX\<rparr>
      in d\<lparr>USB_CNTR := USB_CNTR_CTRM OR USB_CNTR_RESETM, USB_DADDR := USB_DADDR_EF\<rparr>)"

definition USB_IRQHandler :: "u32 \<Rightarrow> usbfs \<Rightarrow> usbfs" where
  "USB_IRQHandler istr d =
     (let d =
        (if istr AND USB_ISTR_CTR \<noteq> 0 then
           let ep = unat (istr AND USB_ISTR_EP_ID); epr = USB_EPR d ep;
               clear = calc_epr_bits epr (USB_EP_CTR_RX OR USB_EP_CTR_TX) 0
           in if ep = EP_BULK_OUT then
                (set_epr ep (clear OR bulk_out_push_flag d) d)
                  \<lparr>bulk_out_push_flag := 0, fs_notes := fs_notes d @ [Notify_Bulk_Out]\<rparr>
              else if ep = EP_BULK_IN then
                (set_epr ep (clear OR bulk_in_pop_flag d) d)
                  \<lparr>bulk_in_pop_flag := 0, fs_notes := fs_notes d @ [Notify_Bulk_In]\<rparr>
              else if ep = 0 then
                let d = (set_epr ep clear d)\<lparr>fs_notes := fs_notes d @ [Notify_Ep0]\<rparr>
                in if epr AND USB_EP_CTR_TX \<noteq> 0 \<and> fs_set_address d \<noteq> 0
                   then d\<lparr>USB_DADDR := ucast (fs_set_address d), fs_set_address := 0\<rparr> else d
              else d
         else d)
      in if istr AND USB_ISTR_RESET \<noteq> 0 then usb_reset (d\<lparr>USB_ISTR := 0xfbff\<rparr>) else d)"

section \<open>What happens on the bus\<close>

text \<open>The controller finds the buffer of an endpoint through its descriptor.\<close>

definition hw_buf :: "nat \<Rightarrow> nat \<Rightarrow> nat \<Rightarrow> usbfs \<Rightarrow> nat" where
  "hw_buf ws ep b d =
     (let e = EPM d (EPM_EP_DESC ws ep b) in unat (if ws = 2 then e else e AND 0xffff) div ws)"

definition hw_store :: "nat \<Rightarrow> nat \<Rightarrow> nat \<Rightarrow> u8 list \<Rightarrow> usbfs \<Rightarrow> usbfs" where
  "hw_store ws ep b p d =
     (let mem = epm_put ws (hw_buf ws ep b d) p (EPM d); desc = EPM_EP_DESC ws ep b
      in d\<lparr>EPM := (if ws = 2 then mem(desc + 1 := (mem (desc + 1) AND 0xfc00) OR of_nat (length p))
                   else mem(desc := (mem desc AND 0xfc00ffff) OR push_bit 16 (of_nat (length p))))\<rparr>)"

definition hw_fetch :: "nat \<Rightarrow> nat \<Rightarrow> nat \<Rightarrow> usbfs \<Rightarrow> u8 list" where
  "hw_fetch ws ep b d = epm_get ws (EPM d) (hw_buf ws ep b d) (unat (epm_get_ep_count_rx ws ep b d))"

definition fs_irq :: "u32 \<Rightarrow> usbfs \<Rightarrow> usbfs" where
  "fs_irq istr d = (if istr AND USB_CNTR d AND (USB_ISTR_CTR OR USB_ISTR_RESET) \<noteq> 0 then USB_IRQHandler istr d else d)"

fun bus_step :: "nat \<Rightarrow> bus_event \<Rightarrow> usbfs \<Rightarrow> usbfs" where
  "bus_step ws (Bus_Out p) d =
     (let epr = USB_EPR d EP_BULK_OUT
      in if length p \<le> USB_CDC_EP_BULK_OUT_SIZE \<and> epr AND USB_EPRX_STAT = USB_EP_RX_VALID \<and> \<not> epr_is_dbuf_blocking epr
         then fs_irq (USB_ISTR_CTR OR 0x10 OR of_nat EP_BULK_OUT)
                ((hw_store ws EP_BULK_OUT (of_bool (bit epr 14)) p d)
                   \<lparr>USB_EPR := (USB_EPR d)(EP_BULK_OUT := (epr XOR USB_EP_DTOG_RX) OR USB_EP_CTR_RX),
                    fs_acked := fs_acked d @ [p]\<rparr>)
         else d)"
| "bus_step ws Bus_In d =
     (let epr = USB_EPR d EP_BULK_IN
      in if epr AND USB_EPTX_STAT = USB_EP_TX_VALID \<and> (fs_fresh d \<or> \<not> epr_is_dbuf_blocking epr)
         then fs_irq (USB_ISTR_CTR OR of_nat EP_BULK_IN)
                (d\<lparr>USB_EPR := (USB_EPR d)(EP_BULK_IN := (epr XOR USB_EP_DTOG_TX) OR USB_EP_CTR_TX), fs_fresh := False,
                   fs_sent := fs_sent d @ [hw_fetch ws EP_BULK_IN (of_bool (bit epr 6)) d]\<rparr>)
         else d)"
| "bus_step ws (Bus_Setup p) d =
     (let epr = USB_EPR d 0
      in if length p = 8 \<and> epr AND USB_EPRX_STAT \<noteq> 0
         then fs_irq (USB_ISTR_CTR OR 0x10)
                ((hw_store ws 0 BUFRX p d)
                   \<lparr>USB_EPR := (USB_EPR d)(0 := (epr AND (EPR_RWBITS OR EPR_RWCBITS)) OR USB_EP_RX_NAK OR USB_EP_TX_NAK OR
                      USB_EP_DTOG_RX OR USB_EP_DTOG_TX OR USB_EP_SETUP OR USB_EP_CTR_RX)\<rparr>)
         else d)"
| "bus_step ws (Bus_Ep0_Out p) d =
     (let epr = USB_EPR d 0
      in if length p \<le> USB_CDC_EP0_SIZE \<and> epr AND USB_EPRX_STAT = USB_EP_RX_VALID
         then fs_irq (USB_ISTR_CTR OR 0x10)
                ((hw_store ws 0 BUFRX p d)
                   \<lparr>USB_EPR := (USB_EPR d)(0 := (((epr XOR USB_EP_DTOG_RX) AND NOT (USB_EPRX_STAT OR USB_EP_SETUP)) OR
                      USB_EP_RX_NAK OR USB_EP_CTR_RX))\<rparr>)
         else d)"
| "bus_step ws Bus_Ep0_In d =
     (let epr = USB_EPR d 0
      in if epr AND USB_EPTX_STAT = USB_EP_TX_VALID
         then fs_irq USB_ISTR_CTR
                (d\<lparr>USB_EPR := (USB_EPR d)(0 := (((epr XOR USB_EP_DTOG_TX) AND NOT USB_EPTX_STAT) OR USB_EP_TX_NAK OR USB_EP_CTR_TX)),
                   fs_ep0_sent := fs_ep0_sent d @ [hw_fetch ws 0 BUFTX d]\<rparr>)
         else d)"
| "bus_step ws Bus_Reset d = fs_irq USB_ISTR_RESET (d\<lparr>USB_EPR := (\<lambda>_. 0), USB_DADDR := 0, fs_fresh := False\<rparr>)"

text \<open>A point at which the driver touches what the bus changes: the next group of events happens first.\<close>

definition fs_point :: "nat \<Rightarrow> usbfs \<Rightarrow> usbfs" where
  "fs_point ws d =
     (case fs_bus d of [] \<Rightarrow> d | evs # rest \<Rightarrow> fold (bus_step ws) evs (d\<lparr>fs_bus := rest\<rparr>))"

section \<open>The functions of the board\<close>

definition fs_read_bulk_out :: "nat \<Rightarrow> nat \<Rightarrow> usbfs \<Rightarrow> (int \<times> u8 list) \<times> usbfs" where
  "fs_read_bulk_out ws max_len d =
     (let d = fs_point ws d in
      if bulk_out_push_flag d \<noteq> 0 then ((-1, []), d)
      else
        let bufnum = unat (bulk_out_pop_count d AND 1);
            d = d\<lparr>bulk_out_pop_count := bulk_out_pop_count d + 1\<rparr>;
            d = fs_point ws d;
            bs = btable_read_packet ws EP_BULK_OUT bufnum max_len d;
            d = fs_point ws d;
            d = d\<lparr>bulk_out_push_flag := USB_EP_DTOG_TX\<rparr>;
            d = fs_point ws d;
            epr = USB_EPR d EP_BULK_OUT;
            d = fs_point ws d;
            d = (if epr_is_dbuf_blocking epr \<and> bulk_out_push_flag d \<noteq> 0 then
                   let d = fs_point ws d;
                       d = d\<lparr>bulk_out_push_flag := 0\<rparr>;
                       d = fs_point ws d
                   in set_epr EP_BULK_OUT (calc_epr_bits epr 0 0 OR USB_EP_DTOG_TX) d
                 else d)
        in ((int (length bs), bs), d))"

definition fs_send_bulk_in :: "nat \<Rightarrow> u8 list \<Rightarrow> usbfs \<Rightarrow> int \<times> usbfs" where
  "fs_send_bulk_in ws bs d =
     (let d = fs_point ws d in
      if bulk_in_pop_flag d \<noteq> 0 then (-1, d)
      else
        let bipp = bulk_in_push_pos d; bufnum = unat (bipp AND 1);
            d = d\<lparr>bulk_in_push_pos := bipp XOR 1\<rparr>;
            d = fs_point ws d;
            d = btable_write_packet ws EP_BULK_IN bufnum bs d;
            d = fs_point ws d;
            d = d\<lparr>bulk_in_pop_flag := USB_EP_DTOG_RX\<rparr>;
            d = fs_point ws d;
            epr = USB_EPR d EP_BULK_IN;
            d = fs_point ws d;
            d = (if epr_is_dbuf_blocking epr \<and> bulk_in_pop_flag d \<noteq> 0 then
                   let d = fs_point ws d;
                       d = d\<lparr>bulk_in_pop_flag := 0\<rparr>;
                       d = fs_point ws d
                   in if bipp AND BI_START \<noteq> 0 then
                        if bipp = BI_START OR 1 then
                          let d = d\<lparr>bulk_in_push_pos := 0\<rparr>;
                              d = fs_point ws d;
                              d = d\<lparr>bulk_in_pop_flag := USB_EP_KIND\<rparr>;
                              d = fs_point ws d
                          in set_epr EP_BULK_IN (calc_epr_bits epr USB_EPTX_STAT USB_EP_TX_VALID) d
                        else d
                      else set_epr EP_BULK_IN (calc_epr_bits epr 0 0 OR USB_EP_DTOG_RX) d
                 else d)
        in (int (length bs), d))"

definition fs_read_ep0 :: "nat \<Rightarrow> nat \<Rightarrow> usbfs \<Rightarrow> (int \<times> u8 list) \<times> usbfs" where
  "fs_read_ep0 ws max_len d =
     (let d = fs_point ws d; epr = USB_EPR d 0 in
      if epr AND USB_EPRX_STAT \<noteq> USB_EP_RX_NAK then ((-1, []), d)
      else
        let d = fs_point ws d;
            bs = btable_read_packet ws 0 BUFRX max_len d;
            d = fs_point ws d;
            d = set_epr 0 (calc_epr_bits epr (USB_EPRX_STAT OR USB_EPTX_STAT) (USB_EP_RX_VALID OR USB_EP_TX_NAK)) d
        in ((int (length bs), bs), d))"

definition fs_read_ep0_setup :: "nat \<Rightarrow> nat \<Rightarrow> usbfs \<Rightarrow> (int \<times> u8 list) \<times> usbfs" where
  "fs_read_ep0_setup ws max_len d = fs_read_ep0 ws max_len d"

definition fs_send_ep0 :: "nat \<Rightarrow> u8 list \<Rightarrow> usbfs \<Rightarrow> int \<times> usbfs" where
  "fs_send_ep0 ws bs d =
     (let d = fs_point ws d; epr = USB_EPR d 0 in
      if epr AND USB_EPRX_STAT \<noteq> USB_EP_RX_VALID then (-2, d)
      else if epr AND USB_EPTX_STAT \<noteq> USB_EP_TX_NAK then (-1, d)
      else
        let d = fs_point ws d;
            d = btable_write_packet ws 0 BUFTX bs d;
            d = fs_point ws d
        in (int (length bs), set_epr 0 (calc_epr_bits epr USB_EPTX_STAT USB_EP_TX_VALID) d))"

definition fs_stall_ep0 :: "nat \<Rightarrow> usbfs \<Rightarrow> usbfs" where
  "fs_stall_ep0 ws d =
     (let d = fs_point ws d; epr = USB_EPR d 0; d = fs_point ws d
      in set_epr 0 (calc_epr_bits epr (USB_EPRX_STAT OR USB_EPTX_STAT) (USB_EP_RX_STALL OR USB_EP_TX_STALL)) d)"

definition fs_usb_set_address :: "nat \<Rightarrow> u16 \<Rightarrow> usbfs \<Rightarrow> usbfs" where
  "fs_usb_set_address ws addr d =
     (let d = fs_point ws d; d = d\<lparr>fs_set_address := ucast addr OR ucast USB_DADDR_EF\<rparr>
      in snd (fs_send_ep0 ws [] d))"

definition fs_set_configure :: "nat \<Rightarrow> usbfs \<Rightarrow> usbfs" where
  "fs_set_configure ws d =
     (let d = fs_point ws d;
          d = d\<lparr>bulk_out_pop_count := 0\<rparr>;
          epr = USB_EPR d EP_BULK_OUT;
          d = fs_point ws d;
          d = set_epr EP_BULK_OUT (calc_epr_bits epr USB_EPRX_STAT USB_EP_RX_VALID) d;
          d = fs_point ws d;
          d = d\<lparr>bulk_in_push_pos := BI_START\<rparr>;
          d = fs_point ws d
      in d\<lparr>bulk_in_pop_flag := 0\<rparr>)"

text \<open>\<open>usb_init\<close> after the pulse on the D+ pin that an STM32F1 gives; \<open>bcdr\<close> says whether the part
  has the register for the pull-up.\<close>

definition fs_usb_init :: "nat \<Rightarrow> bool \<Rightarrow> usbfs \<Rightarrow> usbfs" where
  "fs_usb_init ws bcdr d =
     (let d = btable_configure ws d;
          d = (if bcdr then d\<lparr>USB_BCDR := USB_BCDR_DPPU\<rparr> else d);
          d = d\<lparr>USB_CNTR := USB_CNTR_FRES\<rparr>;
          d = d\<lparr>USB_DADDR := 0\<rparr>;
          d = d\<lparr>USB_CNTR := USB_CNTR_RESETM\<rparr>
      in d\<lparr>USB_ISTR := 0\<rparr>)"

definition usbfs_hw :: "nat \<Rightarrow> u8 list \<Rightarrow> usbfs usb_hw" where
  "usbfs_hw ws serialid = \<lparr>
     usb_read_bulk_out = fs_read_bulk_out ws,
     usb_send_bulk_in = fs_send_bulk_in ws,
     usb_read_ep0 = fs_read_ep0 ws,
     usb_read_ep0_setup = fs_read_ep0_setup ws,
     usb_send_ep0 = fs_send_ep0 ws,
     usb_stall_ep0 = fs_stall_ep0 ws,
     usb_set_address = fs_usb_set_address ws,
     usb_set_configure = fs_set_configure ws,
     usbserial_get_serialid = serialid \<rparr>"

end
