(* ===== verification/UsbFsProps.thy ===== *)
theory UsbFsProps
  imports UsbFs
begin

text \<open>
  The bulk endpoints of \<open>stm32/usbfs.c\<close> are queues: with two buffers per endpoint shared between the
  controller and the driver, and interrupts at every point, no packet is lost, repeated or reordered.
\<close>

declare bus_step.simps [simp del]

section \<open>Endpoint registers\<close>

lemma u32_eq_bits: "x = y \<longleftrightarrow> (\<forall>n. bit (x :: u32) n = bit y n)"
  by (auto intro: bit_word_eqI)

lemma two_bits_mask:
  "(e :: u32) AND 0x3000 = 0x3000 \<longleftrightarrow> bit e 12 \<and> bit e 13" "(e :: u32) AND 0x30 = 0x30 \<longleftrightarrow> bit e 4 \<and> bit e 5"
proof -
  have rx: "bit (0x3000 :: u32) n \<longleftrightarrow> n = 12 \<or> n = 13" for n
  proof -
    have eq: "(0x3000 :: u32) = 2 ^ 12 OR 2 ^ 13" by simp
    show ?thesis unfolding eq bit_or_iff bit_exp_iff by auto
  qed
  have tx: "bit (0x30 :: u32) n \<longleftrightarrow> n = 4 \<or> n = 5" for n
  proof -
    have eq: "(0x30 :: u32) = 2 ^ 4 OR 2 ^ 5" by simp
    show ?thesis unfolding eq bit_or_iff bit_exp_iff by auto
  qed
  show "(e :: u32) AND 0x3000 = 0x3000 \<longleftrightarrow> bit e 12 \<and> bit e 13"
    unfolding u32_eq_bits bit_and_iff rx by auto
  show "(e :: u32) AND 0x30 = 0x30 \<longleftrightarrow> bit e 4 \<and> bit e 5"
    unfolding u32_eq_bits bit_and_iff tx by auto
qed

lemma stat_valid_iff:
  "e AND USB_EPRX_STAT = USB_EP_RX_VALID \<longleftrightarrow> bit e 12 \<and> bit e 13"
  "e AND USB_EPTX_STAT = USB_EP_TX_VALID \<longleftrightarrow> bit e 4 \<and> bit e 5"
  by (simp_all add: fs_consts two_bits_mask)

lemma blocking_iff: "epr_is_dbuf_blocking e \<longleftrightarrow> bit e 14 = bit e 6"
proof -
  have "w AND 0x40 = 0 \<longleftrightarrow> \<not> bit w 6" for w :: u32
    using bit_iff_and_push_bit_not_eq_0 [of w 6] by simp
  then show ?thesis by (simp add: epr_is_dbuf_blocking_def USB_EP_DTOG_TX_def bit_simps)
qed

text \<open>Writing what \<open>calc_epr_bits\<close> computed gives the bits in the mask their value and leaves the
  other ones alone; the extra bits \<open>x\<close> toggle.\<close>

definition epr_toggle_bit :: "nat \<Rightarrow> bool" where
  "epr_toggle_bit n \<longleftrightarrow> n \<in> {4, 5, 6, 12, 13, 14}"

lemma epr_masks:
  "bit EPR_TBITS n \<longleftrightarrow> epr_toggle_bit n"
  "epr_toggle_bit n \<Longrightarrow> \<not> bit EPR_RWBITS n" "epr_toggle_bit n \<Longrightarrow> \<not> bit EPR_RWCBITS n"
  "epr_toggle_bit n \<Longrightarrow> \<not> bit USB_EP_SETUP n"
proof -
  have eq: "EPR_TBITS = 2 ^ 4 OR 2 ^ 5 OR 2 ^ 6 OR 2 ^ 12 OR 2 ^ 13 OR 2 ^ 14" by (simp add: EPR_TBITS_def fs_consts)
  show "bit EPR_TBITS n \<longleftrightarrow> epr_toggle_bit n"
    unfolding eq bit_or_iff bit_exp_iff by (auto simp: epr_toggle_bit_def)
qed (auto simp: epr_toggle_bit_def EPR_RWBITS_def EPR_RWCBITS_def fs_consts)

lemma calc_epr_bits_sets:
  assumes "epr_toggle_bit n" and "\<not> (bit m n \<and> bit x n)"
  shows "bit (epr_write e (calc_epr_bits e m v OR x)) n \<longleftrightarrow> (if bit m n then bit v n else bit e n) \<noteq> bit x n"
proof -
  have "n < 32" using assms(1) by (auto simp: epr_toggle_bit_def)
  then show ?thesis
    using assms epr_masks(1) [of n] epr_masks(2-4) [OF assms(1)]
    by (auto simp: epr_write_def calc_epr_bits_def Let_def bit_simps)
qed

lemma calc_epr_bits_sets_only:
  assumes "epr_toggle_bit n"
  shows "bit (epr_write e (calc_epr_bits e m v)) n \<longleftrightarrow> (if bit m n then bit v n else bit e n)"
  using calc_epr_bits_sets [OF assms, of m 0 e v] by simp

lemma epr_toggle_bits [simp]:
  "epr_toggle_bit 4" "epr_toggle_bit 5" "epr_toggle_bit 6" "epr_toggle_bit 12" "epr_toggle_bit 13" "epr_toggle_bit 14"
  by (simp_all add: epr_toggle_bit_def)

section \<open>Packet memory\<close>

definition epm_words :: "nat \<Rightarrow> nat \<Rightarrow> nat" where
  "epm_words ws n = (n + ws - 1) div ws"

lemma epm_words_0 [simp]: "0 < ws \<Longrightarrow> epm_words ws 0 = 0"
  by (simp add: epm_words_def)

lemma epm_words_small: "0 < n \<Longrightarrow> n \<le> ws \<Longrightarrow> epm_words ws n = 1"
  by (auto simp: epm_words_def intro!: div_nat_eqI)

lemma epm_words_step:
  assumes "ws \<le> n" and "0 < ws"
  shows "epm_words ws n = Suc (epm_words ws (n - ws))"
proof -
  obtain k where "n = ws + k" using assms(1) le_Suc_ex by blast
  then have "n + ws - 1 = (k + ws - 1) + ws" using assms(2) by simp
  with \<open>n = ws + k\<close> assms(2) div_add_self2 [of ws "k + ws - 1"] show ?thesis unfolding epm_words_def by simp
qed

lemma epm_words_pos: "0 < n \<Longrightarrow> 0 < ws \<Longrightarrow> epm_words ws n = Suc (epm_words ws (n - ws))"
  using epm_words_step [of ws n] epm_words_small [of n ws] by (cases "ws \<le> n") auto

lemma epm_put_other:
  assumes "0 < ws"
  shows "j < i \<or> i + epm_words ws (length bs) \<le> j \<Longrightarrow> epm_put ws i bs mem j = mem j"
proof (induction "length bs" arbitrary: i bs mem rule: less_induct)
  case less
  show ?case
  proof (cases "bs = [] \<or> length bs < ws")
    case True
    then have "epm_words ws (length bs) = (if bs = [] then 0 else 1)"
      using assms epm_words_small [of "length bs" ws] by auto
    with less.prems True show ?thesis by (auto simp: epm_put.simps [of ws i bs])
  next
    case False
    then have w: "epm_words ws (length bs) = Suc (epm_words ws (length (drop ws bs)))"
      using assms epm_words_step [of ws "length bs"] by simp
    have "epm_put ws (i + 1) (drop ws bs) (mem(i := epm_word (take ws bs))) j = (mem(i := epm_word (take ws bs))) j"
      using False assms less.prems w by (intro less.hyps) auto
    moreover have "j \<noteq> i" using less.prems w by auto
    ultimately show ?thesis using False assms by (simp add: epm_put.simps [of ws i bs])
  qed
qed

lemma epm_get_cong:
  assumes "0 < ws"
  shows "(\<And>j. i \<le> j \<Longrightarrow> j < i + epm_words ws n \<Longrightarrow> mem j = mem' j) \<Longrightarrow> epm_get ws mem i n = epm_get ws mem' i n"
proof (induction n arbitrary: i rule: less_induct)
  case (less n)
  show ?case
  proof (cases "n = 0")
    case True
    then show ?thesis by (simp add: epm_get.simps)
  next
    case False
    then have w: "epm_words ws n = Suc (epm_words ws (n - ws))" using assms by (intro epm_words_pos) auto
    have "mem i = mem' i" using less.prems [of i] w by simp
    moreover have "epm_get ws mem (i + 1) (n - ws) = epm_get ws mem' (i + 1) (n - ws)"
      using False assms less.prems w by (intro less.IH) auto
    ultimately show ?thesis by (simp add: epm_get.simps [of ws _ i])
  qed
qed

lemma take_epm_word:
  assumes "length bs \<le> 4"
  shows "take (length bs) (bytes_of_u32 (epm_word bs)) = bs"
proof -
  have "bytes_of_u32 (epm_word bs) = take 4 (bs @ [0, 0, 0, 0])"
    by (cases bs rule: list.exhaust; (cases "tl bs"; (cases "tl (tl bs)"; cases "tl (tl (tl bs))")?)?)
      (auto simp: epm_word_def)
  then show ?thesis using assms by simp
qed

lemma epm_get_put:
  assumes "0 < ws" "ws \<le> 4"
  shows "epm_get ws (epm_put ws i bs mem) i (length bs) = bs"
proof (induction "length bs" arbitrary: i bs mem rule: less_induct)
  case less
  show ?case
  proof (cases "bs = [] \<or> length bs < ws")
    case True
    then show ?thesis
      using assms take_epm_word [of bs] by (auto simp: epm_put.simps [of ws i bs] epm_get.simps [of ws _ i])
  next
    case False
    let ?mem = "mem(i := epm_word (take ws bs))"
    have "epm_put ws (i + 1) (drop ws bs) ?mem i = epm_word (take ws bs)"
      using assms(1) epm_put_other [OF assms(1), of i "i + 1"] by simp
    moreover have "epm_get ws (epm_put ws (i + 1) (drop ws bs) ?mem) (i + 1) (length (drop ws bs)) = drop ws bs"
      using False assms by (intro less.hyps) auto
    moreover have "take ws (bytes_of_u32 (epm_word (take ws bs))) = take ws bs"
      using take_epm_word [of "take ws bs"] False assms by simp
    ultimately show ?thesis
      using False assms by (simp add: epm_put.simps [of ws i bs] epm_get.simps [of ws _ i])
  qed
qed

text \<open>The words of a descriptor.\<close>

lemma desc_word_masks: "(0xfc00ffff :: u32) = NOT (push_bit 16 (mask 10))" "(0xffff :: u32) = mask 16" "(0x3ff :: u32) = mask 10"
  "(0xfc00 :: u32) = push_bit 10 (mask 6)"
  by (simp_all add: mask_eq_exp_minus_1 push_bit_eq_mult)

lemma desc_word_addr: "((m AND 0xfc00ffff) OR push_bit 16 c) AND 0xffff = m AND (0xffff :: u32)"
  unfolding desc_word_masks by (rule bit_word_eqI) (auto simp: bit_simps)

lemma take_bit_count: "n < 1024 \<Longrightarrow> take_bit 10 (of_nat n :: u32) = of_nat n"
  by (simp add: take_bit_of_nat take_bit_nat_eq_self)

lemma desc_word_count_take:
  "drop_bit 16 ((m AND 0xfc00ffff) OR push_bit 16 (take_bit 10 c)) AND 0x3ff = take_bit 10 (c :: u32)"
  "((m AND 0xfc00) OR take_bit 10 c) AND 0x3ff = take_bit 10 c" "take_bit 10 c AND 0x3ff = take_bit 10 c"
  "(take_bit 16 a OR push_bit 16 (take_bit 10 c)) AND 0xffff = take_bit 16 a"
  "drop_bit 16 (take_bit 16 a OR push_bit 16 (take_bit 10 c)) AND 0x3ff = take_bit 10 c"
  unfolding desc_word_masks by (auto intro!: bit_word_eqI simp: bit_simps)

lemma desc_word_count:
  assumes "take_bit 10 c = (c :: u32)"
  shows "drop_bit 16 ((m AND 0xfc00ffff) OR push_bit 16 c) AND 0x3ff = c" "((m AND 0xfc00) OR c) AND 0x3ff = c" "c AND 0x3ff = c"
    "take_bit 16 a = a \<Longrightarrow> (a OR push_bit 16 c) AND 0xffff = a" "take_bit 16 a = a \<Longrightarrow> drop_bit 16 (a OR push_bit 16 c) AND 0x3ff = c"
  using desc_word_count_take(1-3) [where c = c] desc_word_count_take(4,5) [of a c] by (simp_all only: assms)

text \<open>A buffer is named by its endpoint and its number; \<open>epm_updated\<close> says that memory changed as
  storing a packet in one buffer changes it.\<close>

definition buf_ok :: "nat \<Rightarrow> nat \<Rightarrow> bool" where
  "buf_ok ep b \<longleftrightarrow> ep \<le> 3 \<and> b \<le> 1"

definition pkt :: "nat \<Rightarrow> usbfs \<Rightarrow> nat \<Rightarrow> nat \<Rightarrow> u8 list" where
  "pkt ws d ep b = epm_get ws (EPM d) (EPM_EP_BUF ws ep b) (unat (epm_get_ep_count_rx ws ep b d))"

definition desc_ok :: "nat \<Rightarrow> usbfs \<Rightarrow> bool" where
  "desc_ok ws d \<longleftrightarrow> (\<forall>ep b. buf_ok ep b \<longrightarrow> hw_buf ws ep b d = EPM_EP_BUF ws ep b)"

definition in_desc :: "nat \<Rightarrow> nat \<Rightarrow> nat \<Rightarrow> nat \<Rightarrow> bool" where
  "in_desc ws ep b j \<longleftrightarrow> EPM_EP_DESC ws ep b \<le> j \<and> j < EPM_EP_DESC ws ep b + 4 div ws"

definition in_buf :: "nat \<Rightarrow> nat \<Rightarrow> nat \<Rightarrow> nat \<Rightarrow> bool" where
  "in_buf ws ep b j \<longleftrightarrow> EPM_EP_BUF ws ep b \<le> j \<and> j < EPM_EP_BUF ws ep b + 64 div ws"

definition wsize :: "nat \<Rightarrow> bool" where "wsize ws \<longleftrightarrow> ws = 2 \<or> ws = 4"

lemma wsize_pos [simp]: "wsize ws \<Longrightarrow> 0 < ws" "wsize ws \<Longrightarrow> ws \<le> 4"
  by (auto simp: wsize_def)

lemma regions_disjoint:
  assumes "wsize ws" "buf_ok ep b" "buf_ok ep' b'"
  shows "in_desc ws ep b j \<Longrightarrow> \<not> in_buf ws ep' b' j"
    "(ep', b') \<noteq> (ep, b) \<Longrightarrow> in_desc ws ep b j \<Longrightarrow> \<not> in_desc ws ep' b' j"
    "(ep', b') \<noteq> (ep, b) \<Longrightarrow> in_buf ws ep b j \<Longrightarrow> \<not> in_buf ws ep' b' j"
proof -
  have k: "ep * 2 + b \<le> 7" using assms(2) by (simp add: buf_ok_def)
  have ne: "(ep', b') \<noteq> (ep, b) \<Longrightarrow> ep' * 2 + b' < ep * 2 + b \<or> ep * 2 + b < ep' * 2 + b'"
  proof (rule ccontr)
    assume "(ep', b') \<noteq> (ep, b)" "\<not> (ep' * 2 + b' < ep * 2 + b \<or> ep * 2 + b < ep' * 2 + b')"
    moreover have "b \<le> 1" "b' \<le> 1" using assms(2,3) by (simp_all add: buf_ok_def)
    ultimately show False by simp presburger
  qed
  from assms(1) show "in_desc ws ep b j \<Longrightarrow> \<not> in_buf ws ep' b' j"
    using k by (auto simp: wsize_def in_desc_def in_buf_def EPM_EP_DESC_def EPM_EP_BUF_def)
  from assms(1) show "(ep', b') \<noteq> (ep, b) \<Longrightarrow> in_desc ws ep b j \<Longrightarrow> \<not> in_desc ws ep' b' j"
    using ne by (auto simp: wsize_def in_desc_def EPM_EP_DESC_def)
  from assms(1) show "(ep', b') \<noteq> (ep, b) \<Longrightarrow> in_buf ws ep b j \<Longrightarrow> \<not> in_buf ws ep' b' j"
    using ne by (auto simp: wsize_def in_buf_def EPM_EP_BUF_def)
qed

lemma epm_words_64: "wsize ws \<Longrightarrow> n \<le> 64 \<Longrightarrow> epm_words ws n \<le> 64 div ws"
  by (auto simp: wsize_def epm_words_def)

definition epm_updated :: "nat \<Rightarrow> nat \<Rightarrow> nat \<Rightarrow> u8 list \<Rightarrow> usbfs \<Rightarrow> usbfs \<Rightarrow> bool" where
  "epm_updated ws ep b p d d' \<longleftrightarrow>
     (\<forall>j. \<not> in_desc ws ep b j \<and> \<not> in_buf ws ep b j \<longrightarrow> EPM d' j = EPM d j) \<and>
     hw_buf ws ep b d' = EPM_EP_BUF ws ep b \<and> epm_get_ep_count_rx ws ep b d' = of_nat (length p) \<and>
     (\<forall>j. in_buf ws ep b j \<longrightarrow> EPM d' j = epm_put ws (EPM_EP_BUF ws ep b) p (EPM d) j)"

lemma pkt_updated:
  assumes up: "epm_updated ws ep b p d d'" and ok: "wsize ws" "buf_ok ep b" "length p \<le> 64"
  shows "pkt ws d' ep b = p"
proof -
  have "unat (of_nat (length p) :: u32) = length p" using ok(3) by (intro unat_of_nat_u32) simp
  then have "pkt ws d' ep b = epm_get ws (EPM d') (EPM_EP_BUF ws ep b) (length p)"
    using up by (simp add: pkt_def epm_updated_def)
  also have "\<dots> = epm_get ws (epm_put ws (EPM_EP_BUF ws ep b) p (EPM d)) (EPM_EP_BUF ws ep b) (length p)"
    using up ok epm_words_64 [OF ok(1,3)] by (intro epm_get_cong) (auto simp: epm_updated_def in_buf_def)
  also have "\<dots> = p" using ok(1) by (intro epm_get_put) auto
  finally show ?thesis .
qed

lemma desc_unchanged:
  assumes "\<And>j. in_desc ws ep b j \<Longrightarrow> EPM d' j = EPM d j" "wsize ws"
  shows "hw_buf ws ep b d' = hw_buf ws ep b d" "epm_get_ep_count_rx ws ep b d' = epm_get_ep_count_rx ws ep b d"
  using assms by (auto simp: wsize_def hw_buf_def epm_get_ep_count_rx_def Let_def in_desc_def)

definition holds_pkt :: "nat \<Rightarrow> usbfs \<Rightarrow> nat \<Rightarrow> nat \<Rightarrow> u8 list \<Rightarrow> bool" where
  "holds_pkt ws d ep b p \<longleftrightarrow> length p \<le> 64 \<and> epm_get_ep_count_rx ws ep b d = of_nat (length p) \<and> pkt ws d ep b = p"

lemma holds_pkt_unchanged:
  assumes "holds_pkt ws d ep b p" "wsize ws" "\<And>j. in_desc ws ep b j \<or> in_buf ws ep b j \<Longrightarrow> EPM d' j = EPM d j"
  shows "holds_pkt ws d' ep b p"
proof -
  have c: "epm_get_ep_count_rx ws ep b d' = epm_get_ep_count_rx ws ep b d"
    using assms(2,3) by (intro desc_unchanged) auto
  have n: "unat (epm_get_ep_count_rx ws ep b d) \<le> 64"
    using assms(1) unat_of_nat_u32 [of "length p"] by (simp add: holds_pkt_def)
  have "pkt ws d' ep b = pkt ws d ep b"
    unfolding pkt_def c using n assms(2,3) epm_words_64 [OF assms(2) n] by (intro epm_get_cong) (auto simp: in_buf_def)
  with c assms(1) show ?thesis by (simp add: holds_pkt_def)
qed

text \<open>Storing a packet leaves the descriptors and the other buffers alone.\<close>

lemma epm_updated_holds:
  assumes up: "epm_updated ws ep b p d d'" and ok: "wsize ws" "buf_ok ep b" "length p \<le> 64"
  shows "holds_pkt ws d' ep b p"
    "desc_ok ws d \<Longrightarrow> desc_ok ws d'"
    "holds_pkt ws d ep' b' q \<Longrightarrow> buf_ok ep' b' \<Longrightarrow> (ep', b') \<noteq> (ep, b) \<Longrightarrow> holds_pkt ws d' ep' b' q"
proof -
  show "holds_pkt ws d' ep b p"
    using pkt_updated [OF up ok] up ok(3) by (simp add: holds_pkt_def epm_updated_def)
  have same: "EPM d' j = EPM d j"
    if "buf_ok ep' b'" "(ep', b') \<noteq> (ep, b)" "in_desc ws ep' b' j \<or> in_buf ws ep' b' j" for ep' b' j
  proof -
    have "\<not> in_desc ws ep b j" "\<not> in_buf ws ep b j"
      using that(2,3) regions_disjoint [OF ok(1) that(1) ok(2), of j] regions_disjoint [OF ok(1) ok(2) that(1), of j] by metis+
    with up show ?thesis by (simp add: epm_updated_def)
  qed
  show "holds_pkt ws d' ep' b' q" if "holds_pkt ws d ep' b' q" "buf_ok ep' b'" "(ep', b') \<noteq> (ep, b)"
    by (rule holds_pkt_unchanged [OF that(1) ok(1)]) (rule same [OF that(2,3)])
  show "desc_ok ws d'" if "desc_ok ws d"
    unfolding desc_ok_def
  proof (intro allI impI)
    fix ep' b' assume b': "buf_ok ep' b'"
    show "hw_buf ws ep' b' d' = EPM_EP_BUF ws ep' b'"
    proof (cases "(ep', b') = (ep, b)")
      case True
      then show ?thesis using up by (simp add: epm_updated_def)
    next
      case False
      have "hw_buf ws ep' b' d' = hw_buf ws ep' b' d" by (rule desc_unchanged(1) [OF _ ok(1)]) (rule same [OF b' False], simp)
      with that b' show ?thesis by (simp add: desc_ok_def)
    qed
  qed
qed

lemma epm_put_outside:
  assumes "wsize ws" "length p \<le> 64" "\<not> in_buf ws ep b j"
  shows "epm_put ws (EPM_EP_BUF ws ep b) p mem j = mem j"
  using assms epm_words_64 [OF assms(1,2)] by (intro epm_put_other) (auto simp: in_buf_def)

lemma desc_not_in_buf:
  assumes "wsize ws" "buf_ok ep b"
  shows "\<not> in_buf ws ep' b' (EPM_EP_DESC ws ep b)" "ws = 2 \<Longrightarrow> \<not> in_buf ws ep' b' (Suc (EPM_EP_DESC ws ep b))"
  using assms by (auto simp: wsize_def buf_ok_def in_buf_def EPM_EP_DESC_def EPM_EP_BUF_def)

lemma hw_store_updated:
  assumes "wsize ws" "buf_ok ep b" "length p \<le> 64" "desc_ok ws d"
  shows "epm_updated ws ep b p d (hw_store ws ep b p d)"
proof -
  have buf: "hw_buf ws ep b d = EPM_EP_BUF ws ep b" using assms(2,4) by (simp add: desc_ok_def)
  have c: "take_bit 10 (of_nat (length p) :: u32) = of_nat (length p)" using assms(3) by (intro take_bit_count) simp
  note out = epm_put_outside [OF assms(1,3)] and nb = desc_not_in_buf [OF assms(1,2)]
  from assms(1) consider "ws = 2" | "ws = 4" by (auto simp: wsize_def)
  then show ?thesis
  proof cases
    case 1
    then show ?thesis
      using out nb buf desc_word_count(2) [OF c]
      by (auto simp: epm_updated_def hw_store_def Let_def in_desc_def hw_buf_def epm_get_ep_count_rx_def)
  next
    case 2
    then show ?thesis
      using out nb buf desc_word_count(1) [OF c]
      by (auto simp: epm_updated_def hw_store_def Let_def in_desc_def hw_buf_def epm_get_ep_count_rx_def desc_word_addr)
  qed
qed

lemma epm_addr_div: "wsize ws \<Longrightarrow> buf_ok ep b \<Longrightarrow>
    take_bit 16 (of_nat (EPM_EP_BUF ws ep b * ws) :: u32) = of_nat (EPM_EP_BUF ws ep b * ws) \<and>
    unat (of_nat (EPM_EP_BUF ws ep b * ws) :: u32) div ws = EPM_EP_BUF ws ep b"
proof -
  assume a: "wsize ws" "buf_ok ep b"
  then have "EPM_EP_BUF ws ep b * ws < 0x10000" by (auto simp: wsize_def buf_ok_def EPM_EP_BUF_def)
  then show ?thesis using a(1)
    by (simp add: take_bit_of_nat take_bit_nat_eq_self unat_of_nat_u32 del: of_nat_mult)
qed

lemma btable_write_updated:
  assumes "wsize ws" "buf_ok ep b" "length p \<le> 64" "desc_ok ws d"
  shows "epm_updated ws ep b p d (btable_write_packet ws ep b p d)"
proof -
  have buf: "hw_buf ws ep b d = EPM_EP_BUF ws ep b" using assms(2,4) by (simp add: desc_ok_def)
  have c: "take_bit 10 (of_nat (length p) :: u32) = of_nat (length p)" using assms(3) by (intro take_bit_count) simp
  note out = epm_put_outside [OF assms(1,3)] and nb = desc_not_in_buf [OF assms(1,2)]
    and addr = epm_addr_div [OF assms(1,2)]
  from assms(1) consider "ws = 2" | "ws = 4" by (auto simp: wsize_def)
  then show ?thesis
  proof cases
    case 1
    then show ?thesis
      using out nb buf desc_word_count(3) [OF c]
      by (auto simp: epm_updated_def btable_write_packet_def epm_set_ep_count_tx_def Let_def in_desc_def hw_buf_def
          epm_get_ep_count_rx_def)
  next
    case 2
    then show ?thesis
      using out nb buf desc_word_count(4,5) [OF c, of "of_nat (EPM_EP_BUF ws ep b * ws)"] addr
      by (auto simp: epm_updated_def btable_write_packet_def epm_set_ep_count_tx_def Let_def in_desc_def hw_buf_def
          epm_get_ep_count_rx_def simp del: of_nat_mult)
  qed
qed

lemma all_bufs:
  "(\<forall>ep b. buf_ok ep b \<longrightarrow> P ep b) \<longleftrightarrow> P 0 0 \<and> P 0 1 \<and> P 1 0 \<and> P 1 1 \<and> P 2 0 \<and> P 2 1 \<and> P 3 0 \<and> P 3 1"
proof -
  have "ep \<le> 3 \<longleftrightarrow> ep = 0 \<or> ep = 1 \<or> ep = 2 \<or> ep = 3" "b \<le> 1 \<longleftrightarrow> b = 0 \<or> b = 1" for ep b :: nat by auto
  then show ?thesis unfolding buf_ok_def by metis
qed

lemma btable_configure_desc_ok:
  assumes "wsize ws"
  shows "desc_ok ws (btable_configure ws d)"
proof -
  from assms consider "ws = 2" | "ws = 4" by (auto simp: wsize_def)
  then show ?thesis
  proof cases
    case 1
    then show ?thesis
      unfolding desc_ok_def all_bufs
      by (simp add: btable_configure_def epm_ep_desc_setup_def Let_def hw_buf_def EPM_EP_DESC_def EPM_EP_BUF_def)
  next
    case 2
    then show ?thesis
      unfolding desc_ok_def all_bufs
      by (simp add: btable_configure_def epm_ep_desc_setup_def Let_def hw_buf_def EPM_EP_DESC_def EPM_EP_BUF_def)
  qed
qed

section \<open>The two bulk endpoints\<close>

text \<open>What an endpoint's part of the state looks like: the two toggle bits of its register, the
  position of the driver, its flag, and the packets in the two buffers, \<open>q\<close>, in the order in which
  they will be read or sent.\<close>

definition out_run :: "nat \<Rightarrow> usbfs \<Rightarrow> bool \<Rightarrow> bool \<Rightarrow> bool \<Rightarrow> u32 \<Rightarrow> u8 list list \<Rightarrow> bool" where
  "out_run ws d c R T f q \<longleftrightarrow>
     bit (bulk_out_pop_count d) 0 = c \<and> bit (USB_EPR d EP_BULK_OUT) 14 = R \<and> bit (USB_EPR d EP_BULK_OUT) 6 = T \<and>
     bulk_out_push_flag d = f \<and> length q \<le> 2 \<and>
     (\<forall>i < length q. holds_pkt ws d EP_BULK_OUT (of_bool (c = (i = 0))) (q ! i))"

definition in_run :: "nat \<Rightarrow> usbfs \<Rightarrow> u32 \<Rightarrow> bool \<Rightarrow> bool \<Rightarrow> u32 \<Rightarrow> bool \<Rightarrow> u8 list list \<Rightarrow> bool" where
  "in_run ws d pos H W f fr q \<longleftrightarrow>
     bulk_in_push_pos d = pos \<and> bit (USB_EPR d EP_BULK_IN) 6 = H \<and> bit (USB_EPR d EP_BULK_IN) 14 = W \<and>
     bulk_in_pop_flag d = f \<and> fs_fresh d = fr \<and> length q \<le> 2 \<and>
     (\<forall>i < length q. holds_pkt ws d EP_BULK_IN (of_bool (H = (i = 0))) (q ! i))"

definition out_valid :: "usbfs \<Rightarrow> bool" where
  "out_valid d \<longleftrightarrow> bit (USB_EPR d EP_BULK_OUT) 12 \<and> bit (USB_EPR d EP_BULK_OUT) 13"

definition in_valid :: "usbfs \<Rightarrow> bool" where
  "in_valid d \<longleftrightarrow> bit (USB_EPR d EP_BULK_IN) 4 \<and> bit (USB_EPR d EP_BULK_IN) 5"

definition fs_base :: "nat \<Rightarrow> usbfs \<Rightarrow> bool" where
  "fs_base ws d \<longleftrightarrow> wsize ws \<and> desc_ok ws d \<and> USB_CNTR d = USB_CNTR_CTRM OR USB_CNTR_RESETM \<and>
     (\<forall>evs \<in> set (fs_bus d). Bus_Reset \<notin> set evs)"

text \<open>Frames: what a step must not touch to leave an endpoint alone.\<close>

definition same_out :: "nat \<Rightarrow> usbfs \<Rightarrow> usbfs \<Rightarrow> bool" where
  "same_out ws d d' \<longleftrightarrow> USB_EPR d' EP_BULK_OUT = USB_EPR d EP_BULK_OUT \<and> bulk_out_pop_count d' = bulk_out_pop_count d \<and>
     bulk_out_push_flag d' = bulk_out_push_flag d \<and> fs_acked d' = fs_acked d \<and>
     (\<forall>b p. b \<le> 1 \<longrightarrow> holds_pkt ws d EP_BULK_OUT b p \<longrightarrow> holds_pkt ws d' EP_BULK_OUT b p)"

definition same_in :: "nat \<Rightarrow> usbfs \<Rightarrow> usbfs \<Rightarrow> bool" where
  "same_in ws d d' \<longleftrightarrow> USB_EPR d' EP_BULK_IN = USB_EPR d EP_BULK_IN \<and> bulk_in_push_pos d' = bulk_in_push_pos d \<and>
     bulk_in_pop_flag d' = bulk_in_pop_flag d \<and> fs_sent d' = fs_sent d \<and> fs_fresh d' = fs_fresh d \<and>
     (\<forall>b p. b \<le> 1 \<longrightarrow> holds_pkt ws d EP_BULK_IN b p \<longrightarrow> holds_pkt ws d' EP_BULK_IN b p)"

lemma same_out_run:
  "same_out ws d d' \<Longrightarrow> out_run ws d c R T f q \<Longrightarrow> out_run ws d' c R T f q"
  "same_out ws d d' \<Longrightarrow> out_valid d' = out_valid d"
  "same_out ws d d' \<Longrightarrow> b \<le> 1 \<Longrightarrow> holds_pkt ws d EP_BULK_OUT b p \<Longrightarrow> holds_pkt ws d' EP_BULK_OUT b p"
  by (simp_all add: same_out_def out_run_def out_valid_def)

lemma same_in_run:
  "same_in ws d d' \<Longrightarrow> in_run ws d pos H W f fr q \<Longrightarrow> in_run ws d' pos H W f fr q"
  "same_in ws d d' \<Longrightarrow> in_valid d' = in_valid d"
  by (simp_all add: same_in_def in_run_def in_valid_def)

lemma holds_pkt_EPM: "EPM d' = EPM d \<Longrightarrow> holds_pkt ws d' = holds_pkt ws d"
  by (intro ext) (simp add: holds_pkt_def pkt_def epm_get_ep_count_rx_def Let_def)

lemma desc_ok_EPM: "EPM d' = EPM d \<Longrightarrow> desc_ok ws d' = desc_ok ws d"
  by (simp add: desc_ok_def hw_buf_def)

lemma holds_pkt_upd [simp]:
  "holds_pkt ws (d\<lparr>USB_EPR := a\<rparr>) = holds_pkt ws d" "holds_pkt ws (d\<lparr>bulk_out_pop_count := b\<rparr>) = holds_pkt ws d"
  "holds_pkt ws (d\<lparr>bulk_out_push_flag := b\<rparr>) = holds_pkt ws d" "holds_pkt ws (d\<lparr>bulk_in_push_pos := b\<rparr>) = holds_pkt ws d"
  "holds_pkt ws (d\<lparr>bulk_in_pop_flag := b\<rparr>) = holds_pkt ws d" "holds_pkt ws (d\<lparr>fs_fresh := e\<rparr>) = holds_pkt ws d"
  "holds_pkt ws (d\<lparr>fs_notes := g\<rparr>) = holds_pkt ws d" "holds_pkt ws (d\<lparr>fs_acked := h\<rparr>) = holds_pkt ws d"
  "holds_pkt ws (d\<lparr>fs_sent := h\<rparr>) = holds_pkt ws d" "holds_pkt ws (d\<lparr>fs_ep0_sent := h\<rparr>) = holds_pkt ws d"
  "holds_pkt ws (d\<lparr>fs_bus := k\<rparr>) = holds_pkt ws d" "holds_pkt ws (d\<lparr>fs_set_address := l\<rparr>) = holds_pkt ws d"
  "holds_pkt ws (d\<lparr>USB_DADDR := b\<rparr>) = holds_pkt ws d" "holds_pkt ws (set_epr ep v d) = holds_pkt ws d"
  by (rule holds_pkt_EPM, simp add: set_epr_def Let_def)+

lemma desc_ok_upd [simp]:
  "desc_ok ws (d\<lparr>USB_EPR := a\<rparr>) = desc_ok ws d" "desc_ok ws (d\<lparr>bulk_out_pop_count := b\<rparr>) = desc_ok ws d"
  "desc_ok ws (d\<lparr>bulk_out_push_flag := b\<rparr>) = desc_ok ws d" "desc_ok ws (d\<lparr>bulk_in_push_pos := b\<rparr>) = desc_ok ws d"
  "desc_ok ws (d\<lparr>bulk_in_pop_flag := b\<rparr>) = desc_ok ws d" "desc_ok ws (d\<lparr>fs_fresh := e\<rparr>) = desc_ok ws d"
  "desc_ok ws (d\<lparr>fs_notes := g\<rparr>) = desc_ok ws d" "desc_ok ws (d\<lparr>fs_acked := h\<rparr>) = desc_ok ws d"
  "desc_ok ws (d\<lparr>fs_sent := h\<rparr>) = desc_ok ws d" "desc_ok ws (d\<lparr>fs_ep0_sent := h\<rparr>) = desc_ok ws d"
  "desc_ok ws (d\<lparr>fs_bus := k\<rparr>) = desc_ok ws d" "desc_ok ws (d\<lparr>fs_set_address := l\<rparr>) = desc_ok ws d"
  "desc_ok ws (d\<lparr>USB_DADDR := b\<rparr>) = desc_ok ws d" "desc_ok ws (set_epr ep v d) = desc_ok ws d"
  by (rule desc_ok_EPM, simp add: set_epr_def Let_def)+

lemma set_epr_sel [simp]:
  "USB_EPR (set_epr ep v d) = (USB_EPR d)(ep := epr_write (USB_EPR d ep) v)"
  "EPM (set_epr ep v d) = EPM d" "USB_CNTR (set_epr ep v d) = USB_CNTR d" "fs_bus (set_epr ep v d) = fs_bus d"
  "bulk_out_pop_count (set_epr ep v d) = bulk_out_pop_count d" "bulk_out_push_flag (set_epr ep v d) = bulk_out_push_flag d"
  "bulk_in_push_pos (set_epr ep v d) = bulk_in_push_pos d" "bulk_in_pop_flag (set_epr ep v d) = bulk_in_pop_flag d"
  "fs_acked (set_epr ep v d) = fs_acked d" "fs_sent (set_epr ep v d) = fs_sent d" "fs_notes (set_epr ep v d) = fs_notes d"
  "ep \<noteq> EP_BULK_IN \<Longrightarrow> fs_fresh (set_epr ep v d) = fs_fresh d"
  by (simp_all add: set_epr_def Let_def)

lemma hw_store_sel [simp]:
  "USB_EPR (hw_store ws ep b p d) = USB_EPR d"
  "USB_CNTR (hw_store ws ep b p d) = USB_CNTR d" "fs_bus (hw_store ws ep b p d) = fs_bus d"
  "bulk_out_pop_count (hw_store ws ep b p d) = bulk_out_pop_count d" "bulk_out_push_flag (hw_store ws ep b p d) = bulk_out_push_flag d"
  "bulk_in_push_pos (hw_store ws ep b p d) = bulk_in_push_pos d" "bulk_in_pop_flag (hw_store ws ep b p d) = bulk_in_pop_flag d"
  "fs_acked (hw_store ws ep b p d) = fs_acked d" "fs_sent (hw_store ws ep b p d) = fs_sent d" "fs_fresh (hw_store ws ep b p d) = fs_fresh d"
  by (simp_all add: hw_store_def Let_def)

text \<open>The register after the interrupt handler: the completion flag is clear, the driver's flag has
  toggled its bit.\<close>

lemma handled_bits:
  assumes "epr_toggle_bit n"
  shows "bit (epr_write e (calc_epr_bits e (USB_EP_CTR_RX OR USB_EP_CTR_TX) 0 OR x)) n \<longleftrightarrow> bit e n \<noteq> bit x n"
proof -
  have "\<not> bit (USB_EP_CTR_RX OR USB_EP_CTR_TX) n"
    using epr_masks(3) [OF assms] by (simp add: EPR_RWCBITS_def)
  with calc_epr_bits_sets [OF assms, of "USB_EP_CTR_RX OR USB_EP_CTR_TX" x e 0] show ?thesis by simp
qed

text \<open>Both flags are zero or one of the two bits that the handler then writes.\<close>

lemma flag_bit_14_6:
  "bit (0 :: u32) n = False" "bit USB_EP_DTOG_TX 6" "\<not> bit USB_EP_DTOG_TX 14" "bit USB_EP_DTOG_RX 14" "\<not> bit USB_EP_DTOG_RX 6"
  "\<not> bit USB_EP_KIND 6" "\<not> bit USB_EP_KIND 14" "\<not> bit USB_EP_CTR_RX 14" "\<not> bit USB_EP_CTR_RX 6"
  "\<not> bit USB_EP_CTR_TX 14" "\<not> bit USB_EP_CTR_TX 6"
  by (simp_all add: fs_consts)

lemma stat_bits_of_flags:
  "n \<in> {4, 5, 12, 13} \<Longrightarrow> \<not> bit USB_EP_DTOG_TX n \<and> \<not> bit USB_EP_DTOG_RX n \<and> \<not> bit USB_EP_KIND n \<and>
     \<not> bit USB_EP_CTR_RX n \<and> \<not> bit USB_EP_CTR_TX n"
  by (auto simp: fs_consts)

lemma fs_irq_enabled:
  "USB_CNTR d = USB_CNTR_CTRM OR USB_CNTR_RESETM \<Longrightarrow> istr AND USB_ISTR_CTR = USB_ISTR_CTR \<Longrightarrow>
   fs_irq istr d = USB_IRQHandler istr d"
proof -
  assume a: "USB_CNTR d = USB_CNTR_CTRM OR USB_CNTR_RESETM" "istr AND USB_ISTR_CTR = USB_ISTR_CTR"
  have "bit istr 15" using arg_cong [OF a(2), of "\<lambda>w. bit w 15"] by (simp add: bit_and_iff fs_consts)
  then have "bit (istr AND USB_CNTR d AND (USB_ISTR_CTR OR USB_ISTR_RESET)) 15"
    unfolding a(1) by (simp add: bit_and_iff bit_or_iff fs_consts)
  then have "istr AND USB_CNTR d AND (USB_ISTR_CTR OR USB_ISTR_RESET) \<noteq> 0" by (metis bit_0_eq bot_apply bot_bool_def)
  then show ?thesis by (simp add: fs_irq_def)
qed

lemma irq_bulk_out:
  "USB_IRQHandler (USB_ISTR_CTR OR 0x10 OR of_nat EP_BULK_OUT) d =
     (set_epr EP_BULK_OUT (calc_epr_bits (USB_EPR d EP_BULK_OUT) (USB_EP_CTR_RX OR USB_EP_CTR_TX) 0 OR bulk_out_push_flag d) d)
       \<lparr>bulk_out_push_flag := 0, fs_notes := fs_notes d @ [Notify_Bulk_Out]\<rparr>"
  by (simp add: USB_IRQHandler_def Let_def USB_ISTR_CTR_def USB_ISTR_RESET_def USB_ISTR_EP_ID_def)

lemma irq_bulk_in:
  "USB_IRQHandler (USB_ISTR_CTR OR of_nat EP_BULK_IN) d =
     (set_epr EP_BULK_IN (calc_epr_bits (USB_EPR d EP_BULK_IN) (USB_EP_CTR_RX OR USB_EP_CTR_TX) 0 OR bulk_in_pop_flag d) d)
       \<lparr>bulk_in_pop_flag := 0, fs_notes := fs_notes d @ [Notify_Bulk_In]\<rparr>"
  by (simp add: USB_IRQHandler_def Let_def USB_ISTR_CTR_def USB_ISTR_RESET_def USB_ISTR_EP_ID_def)

lemma buf_ok_bulk [simp]: "buf_ok (Suc 0) (of_bool b)" "buf_ok 2 (of_bool b)" "buf_ok 0 0" "buf_ok 0 (Suc 0)"
  by (simp_all add: buf_ok_def)

lemma buf_ok_in: "buf_ok EP_BULK_IN (of_bool b)"
  by simp

text \<open>A packet on the bulk OUT endpoint is taken when a buffer is free, and goes to the end of the queue.\<close>

lemma bus_out_refused:
  "epr_is_dbuf_blocking (USB_EPR d EP_BULK_OUT) \<or> \<not> out_valid d \<Longrightarrow> bus_step ws (Bus_Out p) d = d"
  by (auto simp: bus_step.simps stat_valid_iff out_valid_def Let_def)

lemma bus_out_taken:
  assumes base: "fs_base ws d" and run: "out_run ws d c R T f q" and fl: "f = 0 \<or> f = USB_EP_DTOG_TX"
    and free: "length q \<le> 1" "R = (c = (q = []))" and len: "length p \<le> 64" and nb: "R \<noteq> T" and v: "out_valid d"
  shows "fs_base ws (bus_step ws (Bus_Out p) d) \<and>
    out_run ws (bus_step ws (Bus_Out p) d) c (\<not> R) (T \<noteq> (f \<noteq> 0)) 0 (q @ [p]) \<and> out_valid (bus_step ws (Bus_Out p) d) \<and>
    fs_acked (bus_step ws (Bus_Out p) d) = fs_acked d @ [p] \<and> same_in ws d (bus_step ws (Bus_Out p) d) \<and>
    bulk_out_pop_count (bus_step ws (Bus_Out p) d) = bulk_out_pop_count d \<and>
    (\<forall>b x. b \<le> 1 \<longrightarrow> b \<noteq> of_bool R \<longrightarrow> holds_pkt ws d EP_BULK_OUT b x \<longrightarrow> holds_pkt ws (bus_step ws (Bus_Out p) d) EP_BULK_OUT b x)"
proof -
  let ?e = "USB_EPR d EP_BULK_OUT" and ?b = "of_bool R :: nat"
  let ?s = "hw_store ws EP_BULK_OUT ?b p d"
  define d1 where "d1 = ?s\<lparr>USB_EPR := (USB_EPR d)(EP_BULK_OUT := (?e XOR USB_EP_DTOG_RX) OR USB_EP_CTR_RX),
    fs_acked := fs_acked d @ [p]\<rparr>"
  have R: "bit ?e 14 = R" "bit ?e 6 = T" using run by (simp_all add: out_run_def)
  have ws: "wsize ws" "desc_ok ws d" using base by (simp_all add: fs_base_def)
  note up = hw_store_updated [OF ws(1) buf_ok_bulk(2) len ws(2), of R]
  note st = epm_updated_holds [OF up ws(1) buf_ok_bulk(2) len]
  have cntr: "USB_CNTR d1 = USB_CNTR_CTRM OR USB_CNTR_RESETM" using base by (simp add: d1_def fs_base_def)
  have "bus_step ws (Bus_Out p) d = fs_irq (USB_ISTR_CTR OR 0x10 OR of_nat EP_BULK_OUT) d1"
    using v nb len R by (simp add: bus_step.simps d1_def Let_def stat_valid_iff out_valid_def blocking_iff)
  also have "\<dots> = USB_IRQHandler (USB_ISTR_CTR OR 0x10 OR of_nat EP_BULK_OUT) d1"
    using cntr by (intro fs_irq_enabled) (simp_all add: USB_ISTR_CTR_def)
  finally have eq: "bus_step ws (Bus_Out p) d = (set_epr EP_BULK_OUT (calc_epr_bits (USB_EPR d1 EP_BULK_OUT)
      (USB_EP_CTR_RX OR USB_EP_CTR_TX) 0 OR bulk_out_push_flag d1) d1)
      \<lparr>bulk_out_push_flag := 0, fs_notes := fs_notes d1 @ [Notify_Bulk_Out]\<rparr>"
    by (simp only: irq_bulk_out)
  have f: "bulk_out_push_flag d = f" "\<not> bit f 14" "bit f 6 = (f \<noteq> 0)" using run fl by (auto simp: out_run_def flag_bit_14_6)
  have sb: "\<not> bit f 12" "\<not> bit f 13" "\<not> bit USB_EP_DTOG_RX 12" "\<not> bit USB_EP_DTOG_RX 13"
    using fl stat_bits_of_flags [of 12] stat_bits_of_flags [of 13] by auto
  have old: "holds_pkt ws ?s EP_BULK_OUT (of_bool (c = (i = 0))) (q ! i)" if "i < length q" for i
    using that run free nb st(3) [of 2 "of_bool (c = (i = 0))" "q ! i"] by (cases q) (auto simp: out_run_def)
  show ?thesis
  proof (intro conjI)
    let ?d = "bus_step ws (Bus_Out p) d"
    show "fs_base ws ?d" using base st(2) [OF ws(2)] unfolding eq by (simp add: fs_base_def d1_def)
    show "out_run ws ?d c (\<not> R) (T \<noteq> (f \<noteq> 0)) 0 (q @ [p])"
      unfolding out_run_def
    proof (intro conjI allI impI)
      fix i assume "i < length (q @ [p])"
      then show "holds_pkt ws ?d EP_BULK_OUT (of_bool (c = (i = 0))) ((q @ [p]) ! i)"
        using old [of i] st(1) free by (cases "i < length q") (auto simp: eq d1_def nth_append less_Suc_eq)
    qed (use run free R f in \<open>simp_all add: eq d1_def handled_bits bit_simps out_run_def flag_bit_14_6\<close>)
    show "out_valid ?d" using v sb f(1) by (simp add: out_valid_def eq d1_def handled_bits bit_simps)
    show "fs_acked ?d = fs_acked d @ [p]" "bulk_out_pop_count ?d = bulk_out_pop_count d"
      by (simp_all add: eq d1_def)
    show "same_in ws d ?d" using st(3) [of 1] by (simp add: same_in_def eq d1_def buf_ok_def)
    show "\<forall>b x. b \<le> 1 \<longrightarrow> b \<noteq> ?b \<longrightarrow> holds_pkt ws d EP_BULK_OUT b x \<longrightarrow> holds_pkt ws ?d EP_BULK_OUT b x"
      using st(3) [of 2] by (auto simp: eq d1_def buf_ok_def)
  qed
qed

text \<open>A packet on the bulk IN endpoint comes from the front of the queue.\<close>

lemma bus_in_refused:
  "\<not> fs_fresh d \<and> epr_is_dbuf_blocking (USB_EPR d EP_BULK_IN) \<or> \<not> in_valid d \<Longrightarrow> bus_step ws Bus_In d = d"
  by (auto simp: bus_step.simps stat_valid_iff in_valid_def Let_def)

lemma bus_in_sent:
  assumes base: "fs_base ws d" and run: "in_run ws d pos H W f fr (p # q)"
    and fl: "f = 0 \<or> f = USB_EP_DTOG_RX \<or> f = USB_EP_KIND" and nb: "fr \<or> H \<noteq> W" and v: "in_valid d"
  shows "fs_base ws (bus_step ws Bus_In d) \<and>
    in_run ws (bus_step ws Bus_In d) pos (\<not> H) (W \<noteq> (f = USB_EP_DTOG_RX)) 0 False q \<and> in_valid (bus_step ws Bus_In d) \<and>
    fs_sent (bus_step ws Bus_In d) = fs_sent d @ [p] \<and> same_out ws d (bus_step ws Bus_In d)"
proof -
  let ?e = "USB_EPR d EP_BULK_IN"
  have H: "bit ?e 6 = H" "bit ?e 14 = W" "fs_fresh d = fr" "bulk_in_pop_flag d = f" using run by (simp_all add: in_run_def)
  have ws: "wsize ws" "desc_ok ws d" using base by (simp_all add: fs_base_def)
  have "holds_pkt ws d EP_BULK_IN (of_bool H) p" using run by (auto simp: in_run_def)
  then have fetch: "hw_fetch ws EP_BULK_IN (of_bool (bit ?e 6)) d = p"
  proof -
    have "hw_buf ws EP_BULK_IN (of_bool H) d = EPM_EP_BUF ws EP_BULK_IN (of_bool H)"
      using ws(2) by (simp add: desc_ok_def del: of_bool_eq)
    moreover have "pkt ws d EP_BULK_IN (of_bool H) = p"
      using \<open>holds_pkt ws d EP_BULK_IN (of_bool H) p\<close> by (simp add: holds_pkt_def)
    ultimately show ?thesis by (simp only: hw_fetch_def pkt_def H(1))
  qed
  define d1 where "d1 = d\<lparr>USB_EPR := (USB_EPR d)(EP_BULK_IN := (?e XOR USB_EP_DTOG_TX) OR USB_EP_CTR_TX), fs_fresh := False,
    fs_sent := fs_sent d @ [p]\<rparr>"
  have cntr: "USB_CNTR d1 = USB_CNTR_CTRM OR USB_CNTR_RESETM" using base by (simp add: d1_def fs_base_def)
  have "bus_step ws Bus_In d = fs_irq (USB_ISTR_CTR OR of_nat EP_BULK_IN) d1"
    using v nb H fetch by (auto simp: bus_step.simps d1_def Let_def stat_valid_iff in_valid_def blocking_iff)
  also have "\<dots> = USB_IRQHandler (USB_ISTR_CTR OR of_nat EP_BULK_IN) d1"
    using cntr by (intro fs_irq_enabled) (simp_all add: USB_ISTR_CTR_def)
  finally have eq: "bus_step ws Bus_In d = (set_epr EP_BULK_IN (calc_epr_bits (USB_EPR d1 EP_BULK_IN)
      (USB_EP_CTR_RX OR USB_EP_CTR_TX) 0 OR bulk_in_pop_flag d1) d1)
      \<lparr>bulk_in_pop_flag := 0, fs_notes := fs_notes d1 @ [Notify_Bulk_In]\<rparr>"
    by (simp only: irq_bulk_in)
  have f: "\<not> bit f 6" "bit f 14 = (f = USB_EP_DTOG_RX)" "\<not> bit f 4" "\<not> bit f 5"
    using fl by (auto simp: fs_consts)
  have sb: "\<not> bit USB_EP_DTOG_TX 4" "\<not> bit USB_EP_DTOG_TX 5" "\<not> bit USB_EP_CTR_TX 4" "\<not> bit USB_EP_CTR_TX 5"
    by (simp_all add: fs_consts)
  have v1: "in_valid d1" using v sb by (simp add: in_valid_def d1_def bit_simps)
  show ?thesis
  proof (intro conjI)
    let ?d = "bus_step ws Bus_In d"
    show "fs_base ws ?d" using base unfolding eq by (simp add: fs_base_def d1_def)
    show "in_valid ?d" using v1 f H by (simp add: in_valid_def eq d1_def handled_bits)
    have fresh: "\<not> fs_fresh ?d"
      using v1 by (simp add: eq set_epr_def Let_def stat_valid_iff in_valid_def) (simp add: d1_def)
    have "of_bool ((\<not> H) = (i = 0)) = (of_bool (H = (Suc i = 0)) :: nat)" if "i < length q" for i
      using that run by (auto simp: in_run_def)
    then show "in_run ws ?d pos (\<not> H) (W \<noteq> (f = USB_EP_DTOG_RX)) 0 False q"
      using run H f fresh unfolding in_run_def
      by (auto simp: eq d1_def handled_bits bit_simps flag_bit_14_6)
    show "fs_sent ?d = fs_sent d @ [p]" by (simp add: eq d1_def)
    show "same_out ws d ?d" by (simp add: same_out_def eq d1_def)
  qed
qed

text \<open>Control transfers leave both alone.\<close>

lemma irq_ep0:
  assumes "istr = USB_ISTR_CTR OR 0x10 \<or> istr = USB_ISTR_CTR"
  shows "same_out ws d (USB_IRQHandler istr d)" "same_in ws d (USB_IRQHandler istr d)"
    "fs_base ws (USB_IRQHandler istr d) = fs_base ws d"
proof -
  have "istr AND USB_ISTR_CTR \<noteq> 0" "unat (istr AND USB_ISTR_EP_ID) = 0" "istr AND USB_ISTR_RESET = 0"
    using assms by (auto simp: USB_ISTR_CTR_def USB_ISTR_RESET_def USB_ISTR_EP_ID_def)
  then show "same_out ws d (USB_IRQHandler istr d)" "same_in ws d (USB_IRQHandler istr d)"
      "fs_base ws (USB_IRQHandler istr d) = fs_base ws d"
    by (simp_all add: USB_IRQHandler_def Let_def same_out_def same_in_def fs_base_def)
qed

lemma same_trans:
  "same_out ws d d' \<Longrightarrow> same_out ws d' d'' \<Longrightarrow> same_out ws d d''"
  "same_in ws d d' \<Longrightarrow> same_in ws d' d'' \<Longrightarrow> same_in ws d d''"
  by (simp_all add: same_out_def same_in_def)

lemma same_refl [simp]: "same_out ws d d" "same_in ws d d"
  by (simp_all add: same_out_def same_in_def)

lemma fs_irq_ep0:
  assumes "fs_base ws d" "istr = USB_ISTR_CTR OR 0x10 \<or> istr = USB_ISTR_CTR"
  shows "same_out ws d (fs_irq istr d) \<and> same_in ws d (fs_irq istr d) \<and> fs_base ws (fs_irq istr d)"
proof -
  have "fs_irq istr d = USB_IRQHandler istr d"
    using assms by (intro fs_irq_enabled) (auto simp: fs_base_def USB_ISTR_CTR_def)
  with irq_ep0 [OF assms(2), of ws d] assms(1) show ?thesis by simp
qed

lemma store_ep0:
  assumes "fs_base ws d" "length p \<le> 64"
  shows "same_out ws d ((hw_store ws 0 (Suc 0) p d)\<lparr>USB_EPR := (USB_EPR d)(0 := x)\<rparr>) \<and>
    same_in ws d ((hw_store ws 0 (Suc 0) p d)\<lparr>USB_EPR := (USB_EPR d)(0 := x)\<rparr>) \<and>
    fs_base ws ((hw_store ws 0 (Suc 0) p d)\<lparr>USB_EPR := (USB_EPR d)(0 := x)\<rparr>)"
proof -
  have ws: "wsize ws" "desc_ok ws d" using assms(1) by (simp_all add: fs_base_def)
  note st = epm_updated_holds [OF hw_store_updated [OF ws(1) buf_ok_bulk(4) assms(2) ws(2)] ws(1) buf_ok_bulk(4) assms(2)]
  show ?thesis using assms(1) st(2) [OF ws(2)] st(3) by (auto simp: same_out_def same_in_def fs_base_def buf_ok_def)
qed

lemma bus_ep0:
  assumes "fs_base ws d" "ev = Bus_Setup p \<or> ev = Bus_Ep0_Out p \<or> ev = Bus_Ep0_In"
  shows "same_out ws d (bus_step ws ev d) \<and> same_in ws d (bus_step ws ev d) \<and> fs_base ws (bus_step ws ev d)"
proof -
  have st: "same_out ws d (fs_irq (USB_ISTR_CTR OR 0x10) ((hw_store ws 0 (Suc 0) p d)\<lparr>USB_EPR := (USB_EPR d)(0 := x)\<rparr>)) \<and>
      same_in ws d (fs_irq (USB_ISTR_CTR OR 0x10) ((hw_store ws 0 (Suc 0) p d)\<lparr>USB_EPR := (USB_EPR d)(0 := x)\<rparr>)) \<and>
      fs_base ws (fs_irq (USB_ISTR_CTR OR 0x10) ((hw_store ws 0 (Suc 0) p d)\<lparr>USB_EPR := (USB_EPR d)(0 := x)\<rparr>))"
    if "length p \<le> 64" for x
  proof -
    let ?s = "(hw_store ws 0 (Suc 0) p d)\<lparr>USB_EPR := (USB_EPR d)(0 := x)\<rparr>"
    have a: "same_out ws d ?s" "same_in ws d ?s" "fs_base ws ?s" using store_ep0 [OF assms(1) that, of x] by simp_all
    have "same_out ws ?s (fs_irq (USB_ISTR_CTR OR 0x10) ?s) \<and> same_in ws ?s (fs_irq (USB_ISTR_CTR OR 0x10) ?s) \<and>
        fs_base ws (fs_irq (USB_ISTR_CTR OR 0x10) ?s)" using a(3) by (intro fs_irq_ep0) simp_all
    with same_trans(1) [OF a(1)] same_trans(2) [OF a(2)] show ?thesis by blast
  qed
  have "fs_base ws (d\<lparr>USB_EPR := (USB_EPR d)(0 := x), fs_ep0_sent := l\<rparr>)" for x l
    using assms(1) by (simp add: fs_base_def)
  then have tx: "same_out ws d (fs_irq USB_ISTR_CTR (d\<lparr>USB_EPR := (USB_EPR d)(0 := x), fs_ep0_sent := l\<rparr>)) \<and>
      same_in ws d (fs_irq USB_ISTR_CTR (d\<lparr>USB_EPR := (USB_EPR d)(0 := x), fs_ep0_sent := l\<rparr>)) \<and>
      fs_base ws (fs_irq USB_ISTR_CTR (d\<lparr>USB_EPR := (USB_EPR d)(0 := x), fs_ep0_sent := l\<rparr>))" for x l
    using fs_irq_ep0 [of ws "d\<lparr>USB_EPR := (USB_EPR d)(0 := x), fs_ep0_sent := l\<rparr>" USB_ISTR_CTR]
    by (simp add: same_out_def same_in_def)
  from assms(2) show ?thesis
    using st tx assms(1) by (auto simp: bus_step.simps Let_def)
qed

section \<open>The phases of the driver\<close>

text \<open>Where the driver is between two points. \<open>rd\<close> and \<open>wr\<close> are the packets read and written so far; the
  rest of what the controller acknowledged, and of what was written, is in the buffers.\<close>

datatype out_phase = Out_Unset bool | Free | Full | Held bool "u8 list" | Late u32

datatype in_phase = In_Unset bool | Off u32 u32 u32 | Run | Idle | Empty | Writing bool | Written | Stuck u32

fun out_phase_ok :: "nat \<Rightarrow> out_phase \<Rightarrow> usbfs \<Rightarrow> bool \<Rightarrow> u8 list list \<Rightarrow> bool" where
  "out_phase_ok ws (Out_Unset z) d c q \<longleftrightarrow> (z \<longrightarrow> \<not> c) \<and> q = [] \<and> \<not> out_valid d \<and> out_run ws d c False True USB_EP_DTOG_TX q"
| "out_phase_ok ws Free d c q \<longleftrightarrow>
     out_run ws d c (c = (length q \<noteq> 1)) (c = (q \<noteq> [])) (if q = [] then USB_EP_DTOG_TX else 0) q"
| "out_phase_ok ws Full d c q \<longleftrightarrow> length q = 2 \<and> out_run ws d c c c 0 q"
| "out_phase_ok ws (Held b p) d c q \<longleftrightarrow>
     c = (\<not> b) \<and> length q \<le> 1 \<and> out_run ws d c (c = (q = [])) (\<not> c) 0 q \<and> holds_pkt ws d EP_BULK_OUT (of_bool (\<not> c)) p"
| "out_phase_ok ws (Late f) d c q \<longleftrightarrow> length q = 1 \<and> out_run ws d c (\<not> c) (\<not> c) f q"

definition out_inv :: "nat \<Rightarrow> out_phase \<Rightarrow> usbfs \<Rightarrow> u8 list list \<Rightarrow> bool" where
  "out_inv ws ph d rd \<longleftrightarrow> (\<exists>q c. fs_acked d = rd @ q \<and> out_phase_ok ws ph d c q)"

definition run_state :: "nat \<Rightarrow> usbfs \<Rightarrow> bool \<Rightarrow> u8 list list \<Rightarrow> bool" where
  "run_state ws d b q \<longleftrightarrow> in_run ws d (of_bool b) (b = (length q \<noteq> 1)) (b = (length q \<noteq> 2))
     (if length q = 2 then USB_EP_DTOG_RX else 0) False q"

fun in_phase_ok :: "nat \<Rightarrow> in_phase \<Rightarrow> usbfs \<Rightarrow> bool \<Rightarrow> u8 list list \<Rightarrow> bool" where
  "in_phase_ok ws (In_Unset z) d b q \<longleftrightarrow> q = [] \<and> \<not> in_valid d \<and> (\<exists>pos. (z \<longrightarrow> pos = BI_START) \<and> in_run ws d pos False False USB_EP_DTOG_RX False q)"
| "in_phase_ok ws (Off pos f e) d b q \<longleftrightarrow> \<not> in_valid d \<and> USB_EPR d EP_BULK_IN = e \<and> in_run ws d pos False False f False q"
| "in_phase_ok ws Run d b q \<longleftrightarrow> in_valid d \<and> run_state ws d b q"
| "in_phase_ok ws Idle d b q \<longleftrightarrow>
     in_valid d \<and> (run_state ws d b q \<or> length q = 2 \<and> in_run ws d 0 False False USB_EP_KIND True q)"
| "in_phase_ok ws Empty d b q \<longleftrightarrow> in_valid d \<and> q = [] \<and> run_state ws d b q"
| "in_phase_ok ws (Writing b') d b q \<longleftrightarrow> b = b' \<and> in_valid d \<and> length q \<le> 1 \<and> in_run ws d (of_bool b) (b = (q \<noteq> [])) (\<not> b) 0 False q"
| "in_phase_ok ws Written d b q \<longleftrightarrow> in_valid d \<and> q \<noteq> [] \<and> in_run ws d (of_bool b) (b = (length q = 2)) (\<not> b) 0 False q"
| "in_phase_ok ws (Stuck f) d b q \<longleftrightarrow> in_valid d \<and> length q = 1 \<and> in_run ws d (of_bool b) (\<not> b) (\<not> b) f False q"

text \<open>Nothing is sent before the endpoint is made valid, and it is made valid by the second packet.\<close>

definition off_phase :: "in_phase \<Rightarrow> bool" where
  "off_phase ph \<longleftrightarrow> (case ph of In_Unset _ \<Rightarrow> True | Off _ _ _ \<Rightarrow> True | _ \<Rightarrow> False)"

lemma off_phase_simps [simp]:
  "off_phase (In_Unset z)" "off_phase (Off pos f e)" "\<not> off_phase Run" "\<not> off_phase Idle" "\<not> off_phase Empty"
  "\<not> off_phase (Writing b)" "\<not> off_phase Written" "\<not> off_phase (Stuck f)"
  by (simp_all add: off_phase_def)

definition in_inv :: "nat \<Rightarrow> in_phase \<Rightarrow> usbfs \<Rightarrow> u8 list list \<Rightarrow> bool" where
  "in_inv ws ph d wr \<longleftrightarrow> (\<exists>q b. wr = fs_sent d @ q \<and> in_phase_ok ws ph d b q \<and>
     (if off_phase ph then fs_sent d = [] else 2 \<le> length wr))"

lemma same_out_inv:
  assumes "same_out ws d d'" "out_inv ws ph d rd"
  shows "out_inv ws ph d' rd"
proof -
  from assms(2) obtain q c where "fs_acked d = rd @ q" "out_phase_ok ws ph d c q" by (auto simp: out_inv_def)
  moreover from this(2) have "out_phase_ok ws ph d' c q"
    by (cases ph) (auto simp: same_out_run(2) [OF assms(1)] intro: same_out_run(1,3) [OF assms(1)])
  ultimately show ?thesis using assms(1) by (auto simp: out_inv_def same_out_def)
qed

lemma same_in_inv:
  assumes "same_in ws d d'" "in_inv ws ph d wr"
  shows "in_inv ws ph d' wr"
proof -
  from assms(2) obtain q b where q: "wr = fs_sent d @ q" "in_phase_ok ws ph d b q"
      "if off_phase ph then fs_sent d = [] else 2 \<le> length wr" by (auto simp: in_inv_def)
  have "USB_EPR d' EP_BULK_IN = USB_EPR d EP_BULK_IN" "fs_sent d' = fs_sent d" using assms(1) by (simp_all add: same_in_def)
  moreover have "in_phase_ok ws ph d' b q"
    using q(2) calculation by (cases ph) (auto simp: run_state_def same_in_run(2) [OF assms(1)] intro: same_in_run(1) [OF assms(1)])
  ultimately show ?thesis using q unfolding in_inv_def by auto
qed

lemma out_run_blocking: "out_run ws d c R T f q \<Longrightarrow> epr_is_dbuf_blocking (USB_EPR d EP_BULK_OUT) \<longleftrightarrow> R = T"
  by (simp add: out_run_def blocking_iff)

lemma in_run_blocking: "in_run ws d pos H W f fr q \<Longrightarrow> epr_is_dbuf_blocking (USB_EPR d EP_BULK_IN) \<longleftrightarrow> H = W"
  by (auto simp: in_run_def blocking_iff)

lemma bus_out_too_long: "64 < length p \<Longrightarrow> bus_step ws (Bus_Out p) d = d"
  by (simp add: bus_step.simps Let_def)

text \<open>A step of the bulk OUT endpoint, for any state of the toggle bits in which the buffer that the
  controller fills next is the right one.\<close>

lemma bus_out_step:
  assumes base: "fs_base ws d" and run: "out_run ws d c R T f q" and fl: "f = 0 \<or> f = USB_EP_DTOG_TX"
    and ok: "R = T \<or> \<not> out_valid d \<or> (length q \<le> 1 \<and> R = (c = (q = [])))" and acked: "fs_acked d = rd @ q"
  obtains (same) "bus_step ws (Bus_Out p) d = d" | (taken) "R \<noteq> T" "out_valid d"
    "fs_base ws (bus_step ws (Bus_Out p) d)" "same_in ws d (bus_step ws (Bus_Out p) d)"
    "out_run ws (bus_step ws (Bus_Out p) d) c (\<not> R) (T \<noteq> (f \<noteq> 0)) 0 (q @ [p])"
    "fs_acked (bus_step ws (Bus_Out p) d) = rd @ q @ [p]" "out_valid (bus_step ws (Bus_Out p) d)"
    "\<And>b x. b \<le> 1 \<Longrightarrow> b \<noteq> of_bool R \<Longrightarrow> holds_pkt ws d EP_BULK_OUT b x \<Longrightarrow> holds_pkt ws (bus_step ws (Bus_Out p) d) EP_BULK_OUT b x"
proof (cases "R = T \<or> \<not> out_valid d \<or> 64 < length p")
  case True
  then have "bus_step ws (Bus_Out p) d = d"
    using out_run_blocking [OF run] bus_out_refused [of d ws p] bus_out_too_long [of p ws d] by blast
  then show ?thesis by (rule same)
next
  case False
  with ok have "length q \<le> 1" "R = (c = (q = []))" "length p \<le> 64" "R \<noteq> T" "out_valid d" by auto
  note step = bus_out_taken [OF base run fl this]
  show ?thesis using step acked \<open>R \<noteq> T\<close> \<open>out_valid d\<close> by (intro taken) auto
qed

lemma bus_out_inv:
  assumes base: "fs_base ws d" and inv: "out_inv ws ph d rd"
  shows "fs_base ws (bus_step ws (Bus_Out p) d) \<and> out_inv ws ph (bus_step ws (Bus_Out p) d) rd \<and> same_in ws d (bus_step ws (Bus_Out p) d)"
proof -
  from inv obtain q c where q: "fs_acked d = rd @ q" and ph: "out_phase_ok ws ph d c q" by (auto simp: out_inv_def)
  let ?d = "bus_step ws (Bus_Out p) d"
  have unchanged: ?thesis if "?d = d" using that base inv by simp
  have refused: ?thesis if "out_run ws d c R T f q" "R = T \<or> \<not> out_valid d" for R T f
    using unchanged bus_out_refused [of d ws p] out_run_blocking [OF that(1)] that(2) by blast
  show ?thesis
  proof (cases ph)
    case (Out_Unset z)
    with ph refused [of False True USB_EP_DTOG_TX] show ?thesis by auto
  next
    case Free
    then have run: "out_run ws d c (c = (length q \<noteq> 1)) (c = (q \<noteq> [])) (if q = [] then USB_EP_DTOG_TX else 0) q" using ph by simp
    then have len: "length q \<le> 2" by (simp add: out_run_def)
    have fl: "(if q = [] then USB_EP_DTOG_TX else 0) = 0 \<or> (if q = [] then USB_EP_DTOG_TX else 0) = USB_EP_DTOG_TX" by simp
    have ok: "(c = (length q \<noteq> 1)) = (c = (q \<noteq> [])) \<or> \<not> out_valid d \<or>
        (length q \<le> 1 \<and> (c = (length q \<noteq> 1)) = (c = (q = [])))" using len by (cases q; cases "tl q") auto
    show ?thesis
    proof (cases rule: bus_out_step [OF base run fl ok q, of p, case_names same taken])
      case same
      then show ?thesis by (rule unchanged)
    next
      case taken
      have "length q = 0 \<or> length q = 1" using taken(1) len by (cases "length q = 2") auto
      then have "out_phase_ok ws Free ?d c (q @ [p])" using taken(5) by (cases q) (auto simp: fs_consts)
      with taken Free show ?thesis unfolding out_inv_def by auto
    qed
  next
    case Full
    with ph refused [of c c 0] show ?thesis by simp
  next
    case (Held b x)
    have run: "out_run ws d c (c = (q = [])) (\<not> c) 0 q" and len: "length q \<le> 1"
        and x: "holds_pkt ws d EP_BULK_OUT (of_bool (\<not> c)) x" and cb: "c = (\<not> b)"
      using ph unfolding Held out_phase_ok.simps by blast+
    have ok: "(c = (q = [])) = (\<not> c) \<or> \<not> out_valid d \<or> (length q \<le> 1 \<and> (c = (q = [])) = (c = (q = [])))" using len by simp
    show ?thesis
    proof (cases rule: bus_out_step [OF base run disjI1 [OF refl] ok q, of p, case_names same taken])
      case same
      then show ?thesis by (rule unchanged)
    next
      case taken
      then have "q = []" by auto
      then have "out_phase_ok ws ph ?d c [p]"
        using taken(5) taken(8) [of "of_bool (\<not> c)" x] x cb Held by auto
      with taken \<open>q = []\<close> show ?thesis unfolding out_inv_def by auto
    qed
  next
    case (Late f)
    with ph refused [of "\<not> c" "\<not> c" f] show ?thesis by simp
  qed
qed

lemma bus_in_inv:
  assumes base: "fs_base ws d" and inv: "in_inv ws ph d wr"
  shows "fs_base ws (bus_step ws Bus_In d) \<and> in_inv ws ph (bus_step ws Bus_In d) wr \<and> same_out ws d (bus_step ws Bus_In d)"
proof -
  from inv obtain q b where q: "wr = fs_sent d @ q" and ok: "in_phase_ok ws ph d b q" and off: "if off_phase ph then fs_sent d = [] else 2 \<le> length wr"
    by (auto simp: in_inv_def)
  let ?d = "bus_step ws Bus_In d"
  have unchanged: ?thesis if "?d = d" using that base inv by simp
  have refused: ?thesis if "in_run ws d pos H W f False q" "H = W \<or> \<not> in_valid d" for pos H W f
  proof (rule unchanged, rule bus_in_refused)
    show "\<not> fs_fresh d \<and> epr_is_dbuf_blocking (USB_EPR d EP_BULK_IN) \<or> \<not> in_valid d"
      using in_run_blocking [OF that(1)] that by (auto simp: in_run_def)
  qed
  have sent: ?thesis
    if run: "in_run ws d pos H W f fr (p # q')" "q = p # q'" and fl: "f = 0 \<or> f = USB_EP_DTOG_RX \<or> f = USB_EP_KIND"
      and nb: "fr \<or> H \<noteq> W" "in_valid d" and no: "\<not> off_phase ph"
      and nxt: "in_run ws ?d pos (\<not> H) (W \<noteq> (f = USB_EP_DTOG_RX)) 0 False q' \<Longrightarrow> in_valid ?d \<Longrightarrow> in_phase_ok ws ph ?d b' q'"
    for pos H W f fr p q' b'
  proof -
    note s = bus_in_sent [OF base run(1) fl nb]
    then have "in_phase_ok ws ph ?d b' q'" by (intro nxt) auto
    with s off no q run(2) show ?thesis unfolding in_inv_def by auto
  qed
  have kd: "USB_EP_KIND \<noteq> USB_EP_DTOG_RX" "USB_EP_DTOG_RX \<noteq> 0" by (simp_all add: fs_consts)
  have running: ?thesis if "run_state ws d b q" "in_valid d" "ph = Run \<or> ph = Idle"
  proof -
    have run: "in_run ws d (of_bool b) (b = (length q \<noteq> 1)) (b = (length q \<noteq> 2)) (if length q = 2 then USB_EP_DTOG_RX else 0) False q"
      using that(1) by (simp add: run_state_def)
    then have "length q \<le> 2" by (simp add: in_run_def)
    then consider "q = []" | p where "q = [p]" | p p' where "q = [p, p']"
      by (cases q rule: list.exhaust) (auto simp: le_Suc_eq length_Suc_conv)
    then show ?thesis
    proof cases
      case 1
      with run refused [of "of_bool b" b b 0] show ?thesis by simp
    next
      case 2
      with run that kd show ?thesis by (intro sent [of "of_bool b" "\<not> b" b 0 False p "[]" b]) (auto simp: run_state_def)
    next
      case 3
      with run that kd show ?thesis
        by (intro sent [of "of_bool b" b "\<not> b" USB_EP_DTOG_RX False p "[p']" b]) (auto simp: run_state_def)
    qed
  qed
  show ?thesis
  proof (cases ph)
    case (In_Unset z)
    with ok obtain pos where "in_run ws d pos False False USB_EP_DTOG_RX False q" "\<not> in_valid d" by auto
    then show ?thesis using refused by blast
  next
    case (Off pos f e)
    with ok refused [of pos False False f] show ?thesis by simp
  next
    case Run
    with ok running show ?thesis by simp
  next
    case Idle
    show ?thesis
    proof (cases "run_state ws d b q")
      case True
      with Idle ok running show ?thesis by simp
    next
      case False
      with Idle ok have start: "length q = 2" "in_run ws d 0 False False USB_EP_KIND True q" "in_valid d" by auto
      then obtain p p' where "q = [p, p']" by (auto simp: numeral_2_eq_2 length_Suc_conv)
      with start Idle kd show ?thesis
        by (intro sent [of 0 False False USB_EP_KIND True p "[p']" False]) (auto simp: run_state_def)
    qed
  next
    case Empty
    with ok refused [of "of_bool b" b b 0] show ?thesis by (auto simp: run_state_def)
  next
    case (Writing b')
    show ?thesis
    proof (cases q)
      case Nil
      with Writing ok refused [of "of_bool b" "\<not> b" "\<not> b" 0] show ?thesis by auto
    next
      case (Cons p q')
      with Writing ok kd show ?thesis
        by (intro sent [of "of_bool b" b "\<not> b" 0 False p q' b]) auto
    qed
  next
    case Written
    then have run: "in_run ws d (of_bool b) (b = (length q = 2)) (\<not> b) 0 False q" "q \<noteq> []" using ok by auto
    then have len: "length q \<le> 2" by (simp add: in_run_def)
    show ?thesis
    proof (cases "length q = 2")
      case True
      then obtain p p' where "q = [p, p']" by (auto simp: numeral_2_eq_2 length_Suc_conv)
      with Written ok kd show ?thesis
        by (intro sent [of "of_bool b" b "\<not> b" 0 False p "[p']" b]) auto
    next
      case False
      with run(1) refused [of "of_bool b" "\<not> b" "\<not> b" 0] show ?thesis by simp
    qed
  next
    case (Stuck f)
    with ok refused [of "of_bool b" "\<not> b" "\<not> b" f] show ?thesis by simp
  qed
qed

text \<open>The invariant of the whole: every event keeps it, and so does every point.\<close>

definition fs_inv :: "nat \<Rightarrow> out_phase \<Rightarrow> in_phase \<Rightarrow> usbfs \<Rightarrow> u8 list list \<Rightarrow> u8 list list \<Rightarrow> bool" where
  "fs_inv ws po pi d rd wr \<longleftrightarrow> fs_base ws d \<and> out_inv ws po d rd \<and> in_inv ws pi d wr"

lemma bus_step_inv:
  assumes "fs_inv ws po pi d rd wr" and "ev \<noteq> Bus_Reset"
  shows "fs_inv ws po pi (bus_step ws ev d) rd wr"
proof (cases ev)
  case (Bus_Out p)
  with assms(1) bus_out_inv [of ws d po rd p] same_in_inv [of ws d "bus_step ws (Bus_Out p) d" pi wr] show ?thesis
    by (simp add: fs_inv_def)
next
  case Bus_In
  with assms(1) bus_in_inv [of ws d pi wr] same_out_inv [of ws d "bus_step ws Bus_In d" po rd] show ?thesis
    by (simp add: fs_inv_def)
next
  case (Bus_Setup p)
  with assms(1) bus_ep0 [of ws d ev p] same_out_inv [of ws d "bus_step ws ev d" po rd] same_in_inv [of ws d "bus_step ws ev d" pi wr]
  show ?thesis by (simp add: fs_inv_def)
next
  case (Bus_Ep0_Out p)
  with assms(1) bus_ep0 [of ws d ev p] same_out_inv [of ws d "bus_step ws ev d" po rd] same_in_inv [of ws d "bus_step ws ev d" pi wr]
  show ?thesis by (simp add: fs_inv_def)
next
  case Bus_Ep0_In
  with assms(1) bus_ep0 [of ws d ev] same_out_inv [of ws d "bus_step ws ev d" po rd] same_in_inv [of ws d "bus_step ws ev d" pi wr]
  show ?thesis by (simp add: fs_inv_def)
qed (use assms(2) in simp)

lemma bus_steps_inv:
  "fs_inv ws po pi d rd wr \<Longrightarrow> Bus_Reset \<notin> set evs \<Longrightarrow> fs_inv ws po pi (fold (bus_step ws) evs d) rd wr"
  by (induction evs arbitrary: d) (auto simp: bus_step_inv)

lemma fs_inv_pop_bus:
  assumes "fs_inv ws po pi d rd wr" "fs_bus d = evs # rest"
  shows "fs_inv ws po pi (d\<lparr>fs_bus := rest\<rparr>) rd wr"
proof -
  have "same_out ws d (d\<lparr>fs_bus := rest\<rparr>)" "same_in ws d (d\<lparr>fs_bus := rest\<rparr>)" by (simp_all add: same_out_def same_in_def)
  moreover have "fs_base ws (d\<lparr>fs_bus := rest\<rparr>)" using assms by (simp add: fs_inv_def fs_base_def)
  ultimately show ?thesis using assms(1) by (auto simp: fs_inv_def intro: same_out_inv same_in_inv)
qed

lemma fs_point_inv:
  assumes "fs_inv ws po pi d rd wr"
  shows "fs_inv ws po pi (fs_point ws d) rd wr"
proof (cases "fs_bus d")
  case Nil
  with assms show ?thesis by (simp add: fs_point_def)
next
  case (Cons evs rest)
  moreover have "Bus_Reset \<notin> set evs" using assms Cons by (simp add: fs_inv_def fs_base_def)
  ultimately show ?thesis using fs_inv_pop_bus [OF assms Cons] by (simp add: fs_point_def bus_steps_inv)
qed

section \<open>Reading a packet\<close>

lemma fs_inv_out_step:
  assumes "fs_inv ws po pi d rd wr" "same_in ws d d'" "fs_base ws d'" "out_inv ws po' d' rd'"
  shows "fs_inv ws po' pi d' rd' wr"
  using assms same_in_inv by (auto simp: fs_inv_def)

lemma fs_inv_in_step:
  assumes "fs_inv ws po pi d rd wr" "same_out ws d d'" "fs_base ws d'" "in_inv ws pi' d' wr'"
  shows "fs_inv ws po pi' d' rd wr'"
  using assms same_out_inv by (auto simp: fs_inv_def)

lemma of_bool_bit_0: "unat (w AND 1 :: u32) = of_bool (bit w 0)"
proof -
  have "w AND 1 = of_bool (bit w 0)" by (simp only: and_one_eq mod_2_eq_odd bit_0)
  then show ?thesis by (cases "bit w 0") simp_all
qed

lemma read_take:
  assumes inv: "fs_inv ws Free pi d rd wr" and "bulk_out_push_flag d = 0"
  obtains p where "fs_inv ws (Held (bit (bulk_out_pop_count d) 0) p) pi (d\<lparr>bulk_out_pop_count := bulk_out_pop_count d + 1\<rparr>) (rd @ [p]) wr"
proof -
  let ?d = "d\<lparr>bulk_out_pop_count := bulk_out_pop_count d + 1\<rparr>"
  from inv obtain q c where q: "fs_acked d = rd @ q"
      and run: "out_run ws d c (c = (length q \<noteq> 1)) (c = (q \<noteq> [])) (if q = [] then USB_EP_DTOG_TX else 0) q"
    by (auto simp: fs_inv_def out_inv_def)
  have ne: "q \<noteq> []" and len: "length q \<le> 2" using run assms(2) by (auto simp: out_run_def fs_consts)
  then obtain p q' where pq: "q = p # q'" by (cases q) auto
  have c: "bit (bulk_out_pop_count d) 0 = c" using run by (simp add: out_run_def)
  have "bit (bulk_out_pop_count d + 1) 0 = (\<not> c)" unfolding c [symmetric] by (simp add: bit_0)
  moreover have "holds_pkt ws d EP_BULK_OUT (of_bool c) p" using run pq by (auto simp: out_run_def)
  moreover have "holds_pkt ws d EP_BULK_OUT (of_bool ((\<not> c) = (i = 0))) (q' ! i)" if "i < length q'" for i
  proof -
    have "i = 0" "Suc i < length q" using that len pq by auto
    moreover have "holds_pkt ws d EP_BULK_OUT (of_bool (c = (Suc i = 0))) (q ! Suc i)"
      using run \<open>Suc i < length q\<close> unfolding out_run_def by blast
    ultimately show ?thesis using pq by simp
  qed
  ultimately have "out_phase_ok ws (Held c p) ?d (\<not> c) q'"
    using run pq len by (cases q') (simp_all add: out_run_def)
  then have "out_inv ws (Held (bit (bulk_out_pop_count d) 0) p) ?d (rd @ [p])"
    using q pq c unfolding out_inv_def by auto
  moreover have "same_in ws d ?d" by (simp add: same_in_def)
  moreover have "fs_base ws ?d" using inv by (simp add: fs_inv_def fs_base_def)
  ultimately show ?thesis using fs_inv_out_step [OF inv] that by blast
qed

lemma read_data:
  assumes "fs_inv ws (Held b p) pi d rd wr" and "64 \<le> max_len"
  shows "btable_read_packet ws EP_BULK_OUT (of_bool b) max_len d = p"
proof -
  have "holds_pkt ws d EP_BULK_OUT (of_bool b) p" using assms(1) by (auto simp: fs_inv_def out_inv_def)
  then have h: "length p \<le> 64" "epm_get_ep_count_rx ws EP_BULK_OUT (of_bool b) d = of_nat (length p)" "pkt ws d EP_BULK_OUT (of_bool b) = p"
    by (simp_all add: holds_pkt_def)
  then have "unat (epm_get_ep_count_rx ws EP_BULK_OUT (of_bool b) d) \<le> 64" using unat_of_nat_u32 [of "length p"] by simp
  then show ?thesis using h(3) assms(2) by (simp only: btable_read_packet_def pkt_def Let_def) simp
qed

lemma read_release:
  assumes inv: "fs_inv ws (Held b p) pi d rd wr"
  shows "fs_inv ws Free pi (d\<lparr>bulk_out_push_flag := USB_EP_DTOG_TX\<rparr>) rd wr \<or>
    fs_inv ws (Late USB_EP_DTOG_TX) pi (d\<lparr>bulk_out_push_flag := USB_EP_DTOG_TX\<rparr>) rd wr"
proof -
  let ?d = "d\<lparr>bulk_out_push_flag := USB_EP_DTOG_TX\<rparr>"
  from inv obtain q c where ok: "fs_acked d = rd @ q" "out_phase_ok ws (Held b p) d c q"
    unfolding fs_inv_def out_inv_def by blast
  then have q: "fs_acked d = rd @ q" "length q \<le> 1" "out_run ws d c (c = (q = [])) (\<not> c) 0 q"
    unfolding out_phase_ok.simps by blast+
  have fr: "same_in ws d ?d" "fs_base ws ?d" using inv by (simp_all add: same_in_def fs_inv_def fs_base_def)
  have "out_phase_ok ws (if q = [] then Free else Late USB_EP_DTOG_TX) ?d c q"
    using q(2,3) by (cases q) (auto simp: out_run_def)
  then have "out_inv ws (if q = [] then Free else Late USB_EP_DTOG_TX) ?d rd" using q(1) unfolding out_inv_def by auto
  then show ?thesis using fs_inv_out_step [OF inv fr] by (auto split: if_splits)
qed

lemma free_blocking:
  assumes "fs_inv ws Free pi d rd wr" "epr_is_dbuf_blocking (USB_EPR d EP_BULK_OUT)"
  shows "fs_inv ws Full pi d rd wr"
proof -
  from assms(1) obtain q c where q: "fs_acked d = rd @ q"
      and run: "out_run ws d c (c = (length q \<noteq> 1)) (c = (q \<noteq> [])) (if q = [] then USB_EP_DTOG_TX else 0) q"
    by (auto simp: fs_inv_def out_inv_def)
  have "length q \<le> 2" using run by (simp add: out_run_def)
  then have "length q = 2" using out_run_blocking [OF run] assms(2) by (cases q; cases "tl q") auto
  with run have "out_phase_ok ws Full d c q" by (cases q; cases "tl q") auto
  with q assms(1) show ?thesis unfolding fs_inv_def out_inv_def by auto
qed

lemma full_free: "fs_inv ws Full pi d rd wr \<Longrightarrow> fs_inv ws Free pi d rd wr \<and> bulk_out_push_flag d = 0"
proof -
  assume inv: "fs_inv ws Full pi d rd wr"
  then obtain q c where q: "fs_acked d = rd @ q" "length q = 2" "out_run ws d c c c 0 q" by (auto simp: fs_inv_def out_inv_def)
  then have "out_phase_ok ws Free d c q" by auto
  with q inv show ?thesis unfolding fs_inv_def out_inv_def by (auto simp: out_run_def)
qed

lemma late_facts: "fs_inv ws (Late f) pi d rd wr \<Longrightarrow>
    epr_is_dbuf_blocking (USB_EPR d EP_BULK_OUT) \<and> bulk_out_push_flag d = f"
  by (auto simp: fs_inv_def out_inv_def out_run_def blocking_iff)

lemma late_clear:
  assumes inv: "fs_inv ws (Late f) pi d rd wr"
  shows "fs_inv ws (Late 0) pi (d\<lparr>bulk_out_push_flag := 0\<rparr>) rd wr"
proof -
  let ?d = "d\<lparr>bulk_out_push_flag := 0\<rparr>"
  have fr: "same_in ws d ?d" "fs_base ws ?d" using inv by (simp_all add: same_in_def fs_inv_def fs_base_def)
  have "out_inv ws (Late 0) ?d rd" using inv by (auto simp: fs_inv_def out_inv_def out_run_def)
  then show ?thesis by (rule fs_inv_out_step [OF inv fr])
qed

lemma toggle_stale:
  "epr_toggle_bit n \<Longrightarrow> bit (epr_write old (calc_epr_bits e 0 0 OR x)) n \<longleftrightarrow> bit old n \<noteq> bit x n"
  using epr_masks [of n] by (auto simp: epr_write_def calc_epr_bits_def Let_def bit_simps)

lemma late_notify:
  assumes inv: "fs_inv ws (Late 0) pi d rd wr"
  shows "fs_inv ws Free pi (set_epr EP_BULK_OUT (calc_epr_bits e 0 0 OR USB_EP_DTOG_TX) d) rd wr"
proof -
  let ?d = "set_epr EP_BULK_OUT (calc_epr_bits e 0 0 OR USB_EP_DTOG_TX) d"
  from inv obtain q c where q: "fs_acked d = rd @ q" "length q = 1" "out_run ws d c (\<not> c) (\<not> c) 0 q"
    by (auto simp: fs_inv_def out_inv_def)
  have "out_phase_ok ws Free ?d c q"
    using q(2,3) by (auto simp: out_run_def toggle_stale flag_bit_14_6)
  then have "out_inv ws Free ?d rd" using q(1) unfolding out_inv_def by auto
  moreover have "same_in ws d ?d" "fs_base ws ?d" using inv by (simp_all add: same_in_def fs_inv_def fs_base_def)
  ultimately show ?thesis using fs_inv_out_step [OF inv] by blast
qed

lemma fs_read_bulk_out_inv:
  assumes inv: "fs_inv ws Free pi d rd wr" and len: "64 \<le> max_len"
    and r: "fs_read_bulk_out ws max_len d = ((r, bs), d')"
  shows "r = -1 \<and> bs = [] \<and> fs_inv ws Free pi d' rd wr \<or> r = int (length bs) \<and> fs_inv ws Free pi d' (rd @ [bs]) wr"
proof -
  define d1 where "d1 = fs_point ws d"
  have i1: "fs_inv ws Free pi d1 rd wr" unfolding d1_def by (rule fs_point_inv [OF inv])
  show ?thesis
  proof (cases "bulk_out_push_flag d1 = 0")
    case False
    with r i1 show ?thesis by (simp add: fs_read_bulk_out_def Let_def d1_def)
  next
    case True
    let ?b = "bit (bulk_out_pop_count d1) 0"
    define d2 where "d2 = fs_point ws (d1\<lparr>bulk_out_pop_count := bulk_out_pop_count d1 + 1\<rparr>)"
    obtain p where "fs_inv ws (Held ?b p) pi (d1\<lparr>bulk_out_pop_count := bulk_out_pop_count d1 + 1\<rparr>) (rd @ [p]) wr"
      using read_take [OF i1 True] by blast
    then have i2: "fs_inv ws (Held ?b p) pi d2 (rd @ [p]) wr" unfolding d2_def by (rule fs_point_inv)
    define d3 where "d3 = fs_point ws d2"
    have i3: "fs_inv ws (Held ?b p) pi d3 (rd @ [p]) wr" unfolding d3_def by (rule fs_point_inv [OF i2])
    define d4 where "d4 = fs_point ws (d3\<lparr>bulk_out_push_flag := USB_EP_DTOG_TX\<rparr>)"
    have i4: "fs_inv ws Free pi d4 (rd @ [p]) wr \<or> fs_inv ws (Late USB_EP_DTOG_TX) pi d4 (rd @ [p]) wr"
      unfolding d4_def using read_release [OF i3] fs_point_inv by blast
    define e where "e = USB_EPR d4 EP_BULK_OUT"
    define d5 where "d5 = fs_point ws d4"
    define d6 where "d6 = fs_point ws ((fs_point ws d5)\<lparr>bulk_out_push_flag := 0\<rparr>)"
    have read: "btable_read_packet ws EP_BULK_OUT (of_bool ?b) max_len d2 = p" by (rule read_data [OF i2 len])
    have res: "r = int (length p)" "bs = p"
        "d' = (if epr_is_dbuf_blocking e \<and> bulk_out_push_flag d5 \<noteq> 0
          then set_epr EP_BULK_OUT (calc_epr_bits e 0 0 OR USB_EP_DTOG_TX) d6 else d5)"
      using r True read by (auto simp: fs_read_bulk_out_def Let_def of_bool_bit_0
          d1_def [symmetric] d2_def [symmetric] d3_def [symmetric] d4_def [symmetric] e_def [symmetric] d5_def [symmetric] d6_def [symmetric]
          simp del: of_bool_eq)
    from i4 have "fs_inv ws Free pi d' (rd @ [p]) wr"
    proof
      assume free: "fs_inv ws Free pi d4 (rd @ [p]) wr"
      have "\<not> (epr_is_dbuf_blocking e \<and> bulk_out_push_flag d5 \<noteq> 0)"
        using free_blocking [OF free] fs_point_inv full_free unfolding e_def d5_def by blast
      then have "d' = d5" using res(3) by presburger
      with fs_point_inv [OF free] show ?thesis by (simp add: d5_def)
    next
      assume late: "fs_inv ws (Late USB_EP_DTOG_TX) pi d4 (rd @ [p]) wr"
      then have i5: "fs_inv ws (Late USB_EP_DTOG_TX) pi d5 (rd @ [p]) wr" unfolding d5_def by (rule fs_point_inv)
      have "fs_inv ws (Late 0) pi d6 (rd @ [p]) wr"
        unfolding d6_def by (intro fs_point_inv late_clear [OF fs_point_inv [OF i5]])
      then have "fs_inv ws Free pi (set_epr EP_BULK_OUT (calc_epr_bits e 0 0 OR USB_EP_DTOG_TX) d6) (rd @ [p]) wr"
        by (rule late_notify)
      moreover have "epr_is_dbuf_blocking e" "bulk_out_push_flag d5 \<noteq> 0"
        using late_facts [OF late] late_facts [OF i5] by (simp_all add: e_def fs_consts)
      ultimately show ?thesis using res(3) by simp
    qed
    with res show ?thesis by simp
  qed
qed

section \<open>Sending a packet\<close>

lemma fs_inv_onE:
  assumes "fs_inv ws po ph d rd wr" "\<not> off_phase ph"
  obtains q b where "wr = fs_sent d @ q" "2 \<le> length wr" "in_phase_ok ws ph d b q"
  using assms unfolding fs_inv_def in_inv_def by (simp only: if_False) blast

lemma in_inv_onI: "in_phase_ok ws ph d b q \<Longrightarrow> wr = fs_sent d @ q \<Longrightarrow> 2 \<le> length wr \<Longrightarrow> \<not> off_phase ph \<Longrightarrow> in_inv ws ph d wr"
  unfolding in_inv_def by (simp only: if_False) blast

lemma stuck_facts: "fs_inv ws po (Stuck f) d rd wr \<Longrightarrow>
    epr_is_dbuf_blocking (USB_EPR d EP_BULK_IN) \<and> bulk_in_pop_flag d = f"
  by (auto simp: fs_inv_def in_inv_def in_run_def blocking_iff)

lemma send_start:
  assumes inv: "fs_inv ws po Idle d rd wr" and "bulk_in_pop_flag d = 0"
  obtains b where "bulk_in_push_pos d = of_bool b"
    "fs_inv ws po (Writing (\<not> b)) (d\<lparr>bulk_in_push_pos := of_bool b XOR 1\<rparr>) rd wr"
proof -
  from inv obtain q b where q: "wr = fs_sent d @ q" "2 \<le> length wr" "in_phase_ok ws Idle d b q"
    by (rule fs_inv_onE) simp
  have v: "in_valid d" and run: "run_state ws d b q"
    using q(3) assms(2) by (auto simp: in_run_def fs_consts)
  let ?d = "d\<lparr>bulk_in_push_pos := of_bool b XOR 1\<rparr>"
  have len: "length q \<noteq> 2" "length q \<le> 2" using run assms(2) by (auto simp: run_state_def in_run_def fs_consts)
  have pos: "of_bool b XOR 1 = (of_bool (\<not> b) :: u32)" by (cases b) simp_all
  have "in_phase_ok ws (Writing (\<not> b)) ?d (\<not> b) q"
    using v run len pos by (cases q; cases "tl q") (auto simp: run_state_def in_run_def in_valid_def)
  then have "in_inv ws (Writing (\<not> b)) ?d wr" by (rule in_inv_onI) (use q(1,2) in simp_all)
  moreover have "same_out ws d ?d" "fs_base ws ?d" using inv by (simp_all add: same_out_def fs_inv_def fs_base_def)
  ultimately have "fs_inv ws po (Writing (\<not> b)) ?d rd wr" using fs_inv_in_step [OF inv] by blast
  moreover have "bulk_in_push_pos d = of_bool b" using run by (simp add: run_state_def in_run_def)
  ultimately show ?thesis by (rule that [rotated])
qed

lemma btable_write_sel [simp]:
  "USB_EPR (btable_write_packet ws ep b p d) = USB_EPR d"
  "USB_CNTR (btable_write_packet ws ep b p d) = USB_CNTR d" "fs_bus (btable_write_packet ws ep b p d) = fs_bus d"
  "bulk_out_pop_count (btable_write_packet ws ep b p d) = bulk_out_pop_count d" "bulk_out_push_flag (btable_write_packet ws ep b p d) = bulk_out_push_flag d"
  "bulk_in_push_pos (btable_write_packet ws ep b p d) = bulk_in_push_pos d" "bulk_in_pop_flag (btable_write_packet ws ep b p d) = bulk_in_pop_flag d"
  "fs_acked (btable_write_packet ws ep b p d) = fs_acked d" "fs_sent (btable_write_packet ws ep b p d) = fs_sent d"
  "fs_fresh (btable_write_packet ws ep b p d) = fs_fresh d"
  by (simp_all add: btable_write_packet_def epm_set_ep_count_tx_def Let_def)

lemma btable_write_frame:
  assumes "fs_base ws d" "buf_ok ep b" "length p \<le> 64"
  shows "fs_base ws (btable_write_packet ws ep b p d)" "holds_pkt ws (btable_write_packet ws ep b p d) ep b p"
    "holds_pkt ws d ep' b' x \<Longrightarrow> buf_ok ep' b' \<Longrightarrow> (ep', b') \<noteq> (ep, b) \<Longrightarrow> holds_pkt ws (btable_write_packet ws ep b p d) ep' b' x"
proof -
  have ws: "wsize ws" "desc_ok ws d" using assms(1) by (simp_all add: fs_base_def)
  note st = epm_updated_holds [OF btable_write_updated [OF ws(1) assms(2,3) ws(2)] ws(1) assms(2,3)]
  show "fs_base ws (btable_write_packet ws ep b p d)" using assms(1) st(2) [OF ws(2)] by (simp add: fs_base_def)
  show "holds_pkt ws (btable_write_packet ws ep b p d) ep b p" by (rule st(1))
  show "holds_pkt ws d ep' b' x \<Longrightarrow> buf_ok ep' b' \<Longrightarrow> (ep', b') \<noteq> (ep, b) \<Longrightarrow> holds_pkt ws (btable_write_packet ws ep b p d) ep' b' x"
    by (rule st(3))
qed

lemma write_in_same_out:
  "fs_base ws d \<Longrightarrow> length p \<le> 64 \<Longrightarrow> same_out ws d (btable_write_packet ws EP_BULK_IN (of_bool b) p d)"
  using btable_write_frame(3) [of ws d EP_BULK_IN "of_bool b" p EP_BULK_OUT] by (simp add: same_out_def buf_ok_def)

lemma send_write:
  assumes inv: "fs_inv ws po (Writing b) d rd wr" and len: "length p \<le> 64"
  shows "fs_inv ws po Written (btable_write_packet ws EP_BULK_IN (of_bool (\<not> b)) p d) rd (wr @ [p])"
proof -
  let ?d = "btable_write_packet ws EP_BULK_IN (of_bool (\<not> b)) p d"
  from inv obtain q b' where q: "wr = fs_sent d @ q" "2 \<le> length wr" and "in_phase_ok ws (Writing b) d b' q"
    by (rule fs_inv_onE) simp
  then have v: "in_valid d" "length q \<le> 1" and run: "in_run ws d (of_bool b) (b = (q \<noteq> [])) (\<not> b) 0 False q"
    unfolding in_phase_ok.simps by blast+
  have base: "fs_base ws d" using inv by (simp add: fs_inv_def)
  note fr = btable_write_frame [OF base buf_ok_in [of "\<not> b"] len]
  have "in_run ws ?d (of_bool b) (b = (length (q @ [p]) = 2)) (\<not> b) 0 False (q @ [p])"
  proof (cases q)
    case Nil
    with run fr(2) show ?thesis by (simp add: in_run_def)
  next
    case (Cons x xs)
    then have "holds_pkt ws d EP_BULK_IN (of_bool b) x" "xs = []" using run v(2) by (auto simp: in_run_def)
    with Cons run fr(2) fr(3) [of EP_BULK_IN "of_bool b" x] show ?thesis
      by (auto simp: in_run_def less_Suc_eq simp del: of_bool_eq split: if_splits)
  qed
  then have "in_phase_ok ws Written ?d b (q @ [p])" using v(1) by (simp add: in_valid_def)
  then have "in_inv ws Written ?d (wr @ [p])" by (rule in_inv_onI) (use q(1,2) in simp_all)
  then show ?thesis
    using fs_inv_in_step [OF inv write_in_same_out [OF base len, of "\<not> b"] fr(1)] by simp
qed

lemma send_flag:
  assumes inv: "fs_inv ws po Written d rd wr"
  shows "fs_inv ws po Run (d\<lparr>bulk_in_pop_flag := USB_EP_DTOG_RX\<rparr>) rd wr \<or>
    fs_inv ws po (Stuck USB_EP_DTOG_RX) (d\<lparr>bulk_in_pop_flag := USB_EP_DTOG_RX\<rparr>) rd wr"
proof -
  let ?d = "d\<lparr>bulk_in_pop_flag := USB_EP_DTOG_RX\<rparr>"
  from inv obtain q b where q: "wr = fs_sent d @ q" "2 \<le> length wr" "in_phase_ok ws Written d b q"
    by (rule fs_inv_onE) simp
  then have v: "in_valid d" "q \<noteq> []" and run: "in_run ws d (of_bool b) (b = (length q = 2)) (\<not> b) 0 False q"
    unfolding in_phase_ok.simps by blast+
  have len: "length q \<le> 2" using run by (simp add: in_run_def)
  let ?ph = "if length q = 2 then Run else Stuck USB_EP_DTOG_RX"
  have "in_phase_ok ws ?ph ?d b q"
    using v len run by (cases q; cases "tl q") (auto simp: in_valid_def in_run_def run_state_def)
  then have "in_inv ws ?ph ?d wr" by (rule in_inv_onI) (use q(1,2) in simp_all)
  moreover have "same_out ws d ?d" "fs_base ws ?d" using inv by (simp_all add: same_out_def fs_inv_def fs_base_def)
  ultimately have "fs_inv ws po ?ph ?d rd wr" using fs_inv_in_step [OF inv] by blast
  then show ?thesis by (auto split: if_splits)
qed

lemma run_blocking:
  assumes "fs_inv ws po Run d rd wr" "epr_is_dbuf_blocking (USB_EPR d EP_BULK_IN)"
  shows "fs_inv ws po Empty d rd wr"
proof -
  from assms(1) obtain q b where "wr = fs_sent d @ q" "2 \<le> length wr" "in_phase_ok ws Run d b q"
    by (rule fs_inv_onE) simp
  then have q: "wr = fs_sent d @ q" "2 \<le> length wr" "in_valid d" "run_state ws d b q" by simp_all
  then have "length q \<le> 2" by (simp add: run_state_def in_run_def)
  then have "q = []"
    using q(4) in_run_blocking [OF q(4) [unfolded run_state_def]] assms(2) by (cases q; cases "tl q") auto
  with q have "in_phase_ok ws Empty d b q" by simp
  then have "in_inv ws Empty d wr" by (rule in_inv_onI) (use q(1,2) in simp_all)
  with assms(1) show ?thesis by (simp add: fs_inv_def)
qed

lemma empty_run: "fs_inv ws po Empty d rd wr \<Longrightarrow> fs_inv ws po Run d rd wr \<and> bulk_in_pop_flag d = 0"
proof -
  assume inv: "fs_inv ws po Empty d rd wr"
  then obtain q b where q: "wr = fs_sent d @ q" "2 \<le> length wr" "in_phase_ok ws Empty d b q"
    by (rule fs_inv_onE) simp
  then have "in_phase_ok ws Run d b q" "bulk_in_pop_flag d = 0" by (auto simp: run_state_def in_run_def)
  moreover from this(1) have "in_inv ws Run d wr" by (rule in_inv_onI) (use q(1,2) in simp_all)
  ultimately show ?thesis using inv by (simp add: fs_inv_def)
qed

lemma run_idle: "fs_inv ws po Run d rd wr \<Longrightarrow> fs_inv ws po Idle d rd wr"
  by (auto simp: fs_inv_def in_inv_def)

lemma stuck_clear:
  assumes inv: "fs_inv ws po (Stuck f) d rd wr"
  shows "fs_inv ws po (Stuck 0) (d\<lparr>bulk_in_pop_flag := 0\<rparr>) rd wr"
proof -
  let ?d = "d\<lparr>bulk_in_pop_flag := 0\<rparr>"
  have fr: "same_out ws d ?d" "fs_base ws ?d" using inv by (simp_all add: same_out_def fs_inv_def fs_base_def)
  have "in_inv ws (Stuck 0) ?d wr" using inv by (auto simp: fs_inv_def in_inv_def in_run_def in_valid_def)
  then show ?thesis by (rule fs_inv_in_step [OF inv fr])
qed

lemma stuck_notify:
  assumes inv: "fs_inv ws po (Stuck 0) d rd wr"
  shows "fs_inv ws po Run (set_epr EP_BULK_IN (calc_epr_bits e 0 0 OR USB_EP_DTOG_RX) d) rd wr"
proof -
  let ?d = "set_epr EP_BULK_IN (calc_epr_bits e 0 0 OR USB_EP_DTOG_RX) d"
  from inv obtain q b where "wr = fs_sent d @ q" "2 \<le> length wr" "in_phase_ok ws (Stuck 0) d b q"
    by (rule fs_inv_onE) simp
  then have q: "wr = fs_sent d @ q" "2 \<le> length wr" "in_valid d" "length q = 1"
      "in_run ws d (of_bool b) (\<not> b) (\<not> b) 0 False q" by simp_all
  have sb: "\<not> bit USB_EP_DTOG_RX 4" "\<not> bit USB_EP_DTOG_RX 5" by (simp_all add: fs_consts)
  have v: "in_valid ?d" using q(3) sb by (simp add: in_valid_def toggle_stale)
  have "fs_fresh ?d = fs_fresh d" using q(3) by (simp add: set_epr_def Let_def stat_valid_iff in_valid_def)
  then have "in_phase_ok ws Run ?d b q"
    using q(4,5) v by (auto simp: run_state_def in_run_def toggle_stale flag_bit_14_6)
  then have "in_inv ws Run ?d wr" by (rule in_inv_onI) (use q(1,2) in simp_all)
  moreover have "same_out ws d ?d" "fs_base ws ?d" using inv by (simp_all add: same_out_def fs_inv_def fs_base_def)
  ultimately show ?thesis using fs_inv_in_step [OF inv] by blast
qed

text \<open>Before the endpoint is valid, nothing moves: the first two packets go to the two buffers.\<close>

lemma off_invD:
  assumes "fs_inv ws po (Off pos f e) d rd wr"
  shows "fs_sent d = []" "\<not> in_valid d" "USB_EPR d EP_BULK_IN = e" "in_run ws d pos False False f False wr"
  using assms unfolding fs_inv_def in_inv_def by auto

lemma off_invI:
  "fs_sent d = [] \<Longrightarrow> \<not> in_valid d \<Longrightarrow> USB_EPR d EP_BULK_IN = e \<Longrightarrow> in_run ws d pos False False f False wr \<Longrightarrow>
   in_inv ws (Off pos f e) d wr"
  unfolding in_inv_def by auto

lemma off_facts:
  assumes "fs_inv ws po (Off pos f e) d rd wr"
  shows "bulk_in_push_pos d = pos" "bulk_in_pop_flag d = f" "USB_EPR d EP_BULK_IN = e" "epr_is_dbuf_blocking e"
proof -
  note off_invD(3,4) [OF assms]
  then show "bulk_in_push_pos d = pos" "bulk_in_pop_flag d = f" "USB_EPR d EP_BULK_IN = e" "epr_is_dbuf_blocking e"
    using in_run_blocking by (auto simp: in_run_def)
qed

lemma off_set:
  assumes inv: "fs_inv ws po (Off pos f e) d rd wr"
  shows "fs_inv ws po (Off pos' f e) (d\<lparr>bulk_in_push_pos := pos'\<rparr>) rd wr"
    "fs_inv ws po (Off pos f' e) (d\<lparr>bulk_in_pop_flag := f'\<rparr>) rd wr"
proof -
  let ?d = "d\<lparr>bulk_in_push_pos := pos'\<rparr>" and ?d' = "d\<lparr>bulk_in_pop_flag := f'\<rparr>"
  have fr: "same_out ws d ?d" "fs_base ws ?d" "same_out ws d ?d'" "fs_base ws ?d'"
    using inv by (simp_all add: same_out_def fs_inv_def fs_base_def)
  have "in_inv ws (Off pos' f e) ?d wr" "in_inv ws (Off pos f' e) ?d' wr"
    using off_invD [OF inv] by (auto intro!: off_invI simp: in_run_def in_valid_def)
  with fr show "fs_inv ws po (Off pos' f e) ?d rd wr" "fs_inv ws po (Off pos f' e) ?d' rd wr"
    using fs_inv_in_step [OF inv] by blast+
qed

lemma off_write:
  assumes inv: "fs_inv ws po (Off pos f e) d rd wr" and n: "length wr \<le> 1" and len: "length p \<le> 64"
  shows "fs_inv ws po (Off pos f e) (btable_write_packet ws EP_BULK_IN (length wr) p d) rd (wr @ [p])"
proof -
  let ?b = "of_bool (wr \<noteq> []) :: nat"
  let ?d = "btable_write_packet ws EP_BULK_IN ?b p d"
  have nb: "length wr = ?b" using n by (cases wr) auto
  have base: "fs_base ws d" using inv by (simp add: fs_inv_def)
  note fr = btable_write_frame [OF base buf_ok_in [of "wr \<noteq> []"] len]
  note r = off_invD [OF inv]
  have "in_run ws ?d pos False False f False (wr @ [p])"
  proof (cases wr)
    case Nil
    with r(4) fr(2) show ?thesis by (simp add: in_run_def)
  next
    case (Cons x xs)
    then have "holds_pkt ws d EP_BULK_IN 0 x" "xs = []" using r(4) n by (auto simp: in_run_def)
    with Cons r(4) fr(2) fr(3) [of EP_BULK_IN 0 x] show ?thesis
      by (auto simp: in_run_def less_Suc_eq buf_ok_def)
  qed
  then have "in_inv ws (Off pos f e) ?d (wr @ [p])"
    using r by (intro off_invI) (simp_all add: in_valid_def)
  then show ?thesis
    unfolding nb using fs_inv_in_step [OF inv write_in_same_out [OF base len, of "wr \<noteq> []"] fr(1)] by blast
qed

lemma off_start:
  assumes inv: "fs_inv ws po (Off 0 USB_EP_KIND e) d rd wr" and n: "length wr = 2"
  shows "fs_inv ws po Idle (set_epr EP_BULK_IN (calc_epr_bits e USB_EPTX_STAT USB_EP_TX_VALID) d) rd wr"
proof -
  let ?d = "set_epr EP_BULK_IN (calc_epr_bits e USB_EPTX_STAT USB_EP_TX_VALID) d"
  note r = off_invD [OF inv]
  have sb: "bit USB_EPTX_STAT 4" "bit USB_EPTX_STAT 5" "bit USB_EP_TX_VALID 4" "bit USB_EP_TX_VALID 5"
    "\<not> bit USB_EPTX_STAT 6" "\<not> bit USB_EPTX_STAT 14" by (simp_all add: fs_consts)
  have v: "in_valid ?d" using r(3) sb by (simp add: in_valid_def calc_epr_bits_sets_only)
  have "fs_fresh ?d" using r(2) v by (simp add: set_epr_def Let_def stat_valid_iff in_valid_def)
  then have "in_run ws ?d 0 False False USB_EP_KIND True wr"
    using r(3,4) sb by (auto simp: in_run_def calc_epr_bits_sets_only)
  with v n have "in_phase_ok ws Idle ?d False wr" by simp
  then have "in_inv ws Idle ?d wr" by (rule in_inv_onI) (use r(1) n in simp_all)
  moreover have "same_out ws d ?d" "fs_base ws ?d" using inv by (simp_all add: same_out_def fs_inv_def fs_base_def)
  ultimately show ?thesis using fs_inv_in_step [OF inv] by blast
qed

lemma send_off:
  assumes inv: "fs_inv ws po (Off (2 + of_nat (length wr)) 0 e) d rd wr" and n: "length wr \<le> 1" and len: "length p \<le> 64"
    and r: "fs_send_bulk_in ws p d = (r, d')"
  shows "r = int (length p) \<and>
    (if wr = [] then fs_inv ws po (Off 3 0 e) d' rd [p] else fs_inv ws po Idle d' rd (wr @ [p]))"
proof -
  let ?pos = "2 + of_nat (length wr) :: u32" and ?off = "\<lambda>pos f. fs_inv ws po (Off pos f e)"
  have pos: "?pos AND 1 = of_nat (length wr)" "?pos XOR 1 = 3 - of_nat (length wr)" "?pos AND BI_START \<noteq> 0"
      "(?pos = BI_START OR 1) = (wr \<noteq> [])"
    using n by (cases wr; simp)+
  have un: "unat (?pos AND 1) = length wr" unfolding pos(1) using n by (intro unat_of_nat_u32) simp
  define d1 where "d1 = fs_point ws d"
  have i1: "?off ?pos 0 d1 rd wr" unfolding d1_def by (rule fs_point_inv [OF inv])
  define d2 where "d2 = fs_point ws (d1\<lparr>bulk_in_push_pos := ?pos XOR 1\<rparr>)"
  have i2: "?off (?pos XOR 1) 0 d2 rd wr" unfolding d2_def by (intro fs_point_inv off_set(1) [OF i1])
  define d3 where "d3 = fs_point ws (btable_write_packet ws EP_BULK_IN (length wr) p d2)"
  have i3: "?off (?pos XOR 1) 0 d3 rd (wr @ [p])" unfolding d3_def by (intro fs_point_inv off_write [OF i2 n len])
  define d4 where "d4 = fs_point ws (d3\<lparr>bulk_in_pop_flag := USB_EP_DTOG_RX\<rparr>)"
  have i4: "?off (?pos XOR 1) USB_EP_DTOG_RX d4 rd (wr @ [p])" unfolding d4_def by (intro fs_point_inv off_set(2) [OF i3])
  define d5 where "d5 = fs_point ws d4"
  have i5: "?off (?pos XOR 1) USB_EP_DTOG_RX d5 rd (wr @ [p])" unfolding d5_def by (rule fs_point_inv [OF i4])
  define d6 where "d6 = fs_point ws ((fs_point ws d5)\<lparr>bulk_in_pop_flag := 0\<rparr>)"
  have i6: "?off (?pos XOR 1) 0 d6 rd (wr @ [p])" unfolding d6_def by (intro fs_point_inv off_set(2) [OF fs_point_inv [OF i5]])
  define d7 where "d7 = fs_point ws ((fs_point ws (d6\<lparr>bulk_in_push_pos := 0\<rparr>))\<lparr>bulk_in_pop_flag := USB_EP_KIND\<rparr>)"
  have i7: "?off 0 USB_EP_KIND d7 rd (wr @ [p])"
    unfolding d7_def by (intro fs_point_inv off_set(2) [OF fs_point_inv [OF off_set(1) [OF i6]]])
  have facts: "bulk_in_pop_flag d1 = 0" "bulk_in_push_pos d1 = ?pos" "USB_EPR d4 EP_BULK_IN = e" "epr_is_dbuf_blocking e"
      "bulk_in_pop_flag d5 \<noteq> 0"
    using off_facts [OF i1] off_facts [OF i4] off_facts [OF i5] by (simp_all add: fs_consts)
  have eq: "r = int (length p)" "d' = (if wr \<noteq> [] then set_epr EP_BULK_IN (calc_epr_bits e USB_EPTX_STAT USB_EP_TX_VALID) d7 else d6)"
    using r facts pos(3,4)
    by (auto simp only: fs_send_bulk_in_def Let_def un d1_def [symmetric] d2_def [symmetric] d3_def [symmetric] d4_def [symmetric]
        d5_def [symmetric] d6_def [symmetric] d7_def [symmetric] if_False if_True prod.inject not_True_eq_False not_False_eq_True simp_thms
        split: if_splits)
  show ?thesis
  proof (cases wr)
    case Nil
    with i6 eq pos(2) show ?thesis by simp
  next
    case (Cons x xs)
    with n have "length (wr @ [p]) = 2" by simp
    from off_start [OF i7 this] eq Cons show ?thesis by simp
  qed
qed

lemma idle_facts:
  assumes "fs_inv ws po Idle d rd wr"
  shows "2 \<le> length wr"
  using assms by (rule fs_inv_onE) simp_all

lemma send_idle:
  assumes inv: "fs_inv ws po Idle d rd wr" and len: "length p \<le> 64" and r: "fs_send_bulk_in ws p d = (r, d')"
  shows "r = -1 \<and> fs_inv ws po Idle d' rd wr \<or> r = int (length p) \<and> fs_inv ws po Idle d' rd (wr @ [p])"
proof -
  define d1 where "d1 = fs_point ws d"
  have i1: "fs_inv ws po Idle d1 rd wr" unfolding d1_def by (rule fs_point_inv [OF inv])
  show ?thesis
  proof (cases "bulk_in_pop_flag d1 = 0")
    case False
    with r i1 show ?thesis by (simp add: fs_send_bulk_in_def Let_def d1_def)
  next
    case True
    obtain b where b: "bulk_in_push_pos d1 = of_bool b"
        and i1': "fs_inv ws po (Writing (\<not> b)) (d1\<lparr>bulk_in_push_pos := of_bool b XOR 1\<rparr>) rd wr"
      using send_start [OF i1 True] by blast
    have pos: "unat (of_bool b AND 1 :: u32) = of_bool b" "of_bool b AND BI_START = (0 :: u32)" by (cases b; simp)+
    define d2 where "d2 = fs_point ws (d1\<lparr>bulk_in_push_pos := of_bool b XOR 1\<rparr>)"
    have i2: "fs_inv ws po (Writing (\<not> b)) d2 rd wr" unfolding d2_def by (rule fs_point_inv [OF i1'])
    define d3 where "d3 = fs_point ws (btable_write_packet ws EP_BULK_IN (of_bool b) p d2)"
    have i3: "fs_inv ws po Written d3 rd (wr @ [p])" unfolding d3_def by (intro fs_point_inv send_write [OF i2 len, unfolded not_not])
    define d4 where "d4 = fs_point ws (d3\<lparr>bulk_in_pop_flag := USB_EP_DTOG_RX\<rparr>)"
    have i4: "fs_inv ws po Run d4 rd (wr @ [p]) \<or> fs_inv ws po (Stuck USB_EP_DTOG_RX) d4 rd (wr @ [p])"
      unfolding d4_def using send_flag [OF i3] fs_point_inv by blast
    define e where "e = USB_EPR d4 EP_BULK_IN"
    define d5 where "d5 = fs_point ws d4"
    define d6 where "d6 = fs_point ws ((fs_point ws d5)\<lparr>bulk_in_pop_flag := 0\<rparr>)"
    have res: "r = int (length p)"
        "d' = (if epr_is_dbuf_blocking e \<and> bulk_in_pop_flag d5 \<noteq> 0
          then set_epr EP_BULK_IN (calc_epr_bits e 0 0 OR USB_EP_DTOG_RX) d6 else d5)"
      using r True
      by (auto simp only: fs_send_bulk_in_def Let_def b pos d1_def [symmetric] d2_def [symmetric] d3_def [symmetric] d4_def [symmetric]
          e_def [symmetric] d5_def [symmetric] d6_def [symmetric] if_False if_True prod.inject not_True_eq_False not_False_eq_True simp_thms)
    from i4 have "fs_inv ws po Run d' rd (wr @ [p])"
    proof
      assume run: "fs_inv ws po Run d4 rd (wr @ [p])"
      have "\<not> (epr_is_dbuf_blocking e \<and> bulk_in_pop_flag d5 \<noteq> 0)"
        using run_blocking [OF run] fs_point_inv empty_run unfolding e_def d5_def by blast
      then have "d' = d5" using res(2) by presburger
      with fs_point_inv [OF run] show ?thesis by (simp add: d5_def)
    next
      assume stuck: "fs_inv ws po (Stuck USB_EP_DTOG_RX) d4 rd (wr @ [p])"
      then have i5: "fs_inv ws po (Stuck USB_EP_DTOG_RX) d5 rd (wr @ [p])" unfolding d5_def by (rule fs_point_inv)
      have "fs_inv ws po (Stuck 0) d6 rd (wr @ [p])"
        unfolding d6_def by (intro fs_point_inv stuck_clear [OF fs_point_inv [OF i5]])
      then have "fs_inv ws po Run (set_epr EP_BULK_IN (calc_epr_bits e 0 0 OR USB_EP_DTOG_RX) d6) rd (wr @ [p])"
        by (rule stuck_notify)
      moreover have "epr_is_dbuf_blocking e" "bulk_in_pop_flag d5 \<noteq> 0"
        using stuck_facts [OF stuck] stuck_facts [OF i5] by (simp_all add: e_def fs_consts)
      ultimately show ?thesis using res(2) by simp
    qed
    with res show ?thesis by (blast intro: run_idle)
  qed
qed

section \<open>Control transfers and configuration\<close>

lemma fs_inv_frame:
  "fs_inv ws po pi d rd wr \<Longrightarrow> same_out ws d d' \<Longrightarrow> same_in ws d d' \<Longrightarrow> fs_base ws d' \<Longrightarrow> fs_inv ws po pi d' rd wr"
  by (auto simp: fs_inv_def intro: same_out_inv same_in_inv)

lemma set_epr_0_inv:
  assumes "fs_inv ws po pi d rd wr"
  shows "fs_inv ws po pi (set_epr 0 v d) rd wr"
  by (rule fs_inv_frame [OF assms]) (use assms in \<open>simp_all add: same_out_def same_in_def fs_inv_def fs_base_def\<close>)

lemma write_ep0_inv:
  assumes inv: "fs_inv ws po pi d rd wr" and "length p \<le> 64"
  shows "fs_inv ws po pi (btable_write_packet ws 0 0 p d) rd wr"
proof -
  have base: "fs_base ws d" using inv by (simp add: fs_inv_def)
  note fr = btable_write_frame [OF base buf_ok_bulk(3) assms(2)]
  show ?thesis
    using fr(1) fr(3) [of EP_BULK_OUT] fr(3) [of EP_BULK_IN] by (intro fs_inv_frame [OF inv]) (simp_all add: same_out_def same_in_def buf_ok_def)
qed

lemma fs_read_ep0_inv: "fs_inv ws po pi d rd wr \<Longrightarrow> fs_inv ws po pi (snd (fs_read_ep0 ws n d)) rd wr"
  by (simp add: fs_read_ep0_def Let_def fs_point_inv set_epr_0_inv)

lemma fs_send_ep0_inv: "fs_inv ws po pi d rd wr \<Longrightarrow> length p \<le> 64 \<Longrightarrow> fs_inv ws po pi (snd (fs_send_ep0 ws p d)) rd wr"
  by (simp add: fs_send_ep0_def Let_def fs_point_inv set_epr_0_inv write_ep0_inv)

lemma fs_stall_ep0_inv: "fs_inv ws po pi d rd wr \<Longrightarrow> fs_inv ws po pi (fs_stall_ep0 ws d) rd wr"
  by (simp add: fs_stall_ep0_def Let_def fs_point_inv set_epr_0_inv)

lemma fs_set_address_inv:
  assumes "fs_inv ws po pi d rd wr"
  shows "fs_inv ws po pi (fs_usb_set_address ws a d) rd wr"
proof -
  have "fs_inv ws po pi (d\<lparr>fs_set_address := x\<rparr>) rd wr" if "fs_inv ws po pi d rd wr" for x d
    using that by (intro fs_inv_frame [OF that]) (simp_all add: same_out_def same_in_def fs_inv_def fs_base_def)
  with assms show ?thesis by (simp add: fs_usb_set_address_def Let_def fs_point_inv fs_send_ep0_inv)
qed

lemma unset_flags:
  assumes "fs_inv ws (Out_Unset z) (In_Unset z') d rd wr"
  shows "bulk_out_push_flag d \<noteq> 0" "bulk_in_pop_flag d \<noteq> 0"
  using assms by (auto simp: fs_inv_def out_inv_def in_inv_def out_run_def in_run_def fs_consts)

lemma fs_set_configure_inv:
  assumes inv: "fs_inv ws (Out_Unset z) (In_Unset z') d [] []"
  shows "\<exists>e. fs_inv ws Free (Off 2 0 e) (fs_set_configure ws d) [] []"
proof -
  define d1 where "d1 = fs_point ws d"
  have i1: "fs_inv ws (Out_Unset z) (In_Unset z') d1 [] []" unfolding d1_def by (rule fs_point_inv [OF inv])
  let ?d2 = "d1\<lparr>bulk_out_pop_count := 0\<rparr>"
  have "out_inv ws (Out_Unset True) ?d2 []"
    using i1 unfolding fs_inv_def out_inv_def by (auto simp: out_run_def out_valid_def)
  then have i2: "fs_inv ws (Out_Unset True) (In_Unset z') ?d2 [] []"
    using i1 by (intro fs_inv_out_step [OF i1]) (simp_all add: same_in_def fs_inv_def fs_base_def)
  define e where "e = USB_EPR ?d2 EP_BULK_OUT"
  define d3 where "d3 = fs_point ws ?d2"
  have i3: "fs_inv ws (Out_Unset True) (In_Unset z') d3 [] []" unfolding d3_def by (rule fs_point_inv [OF i2])
  let ?v = "calc_epr_bits e USB_EPRX_STAT USB_EP_RX_VALID"
  have m: "\<not> bit USB_EPRX_STAT 6" "\<not> bit USB_EPRX_STAT 14" by (simp_all add: fs_consts)
  have keep: "bit (epr_write old ?v) n \<longleftrightarrow> bit old n" if "n = 6 \<or> n = 14" for old n
  proof -
    have "epr_toggle_bit n" "\<not> bit USB_EPRX_STAT n" using that m by auto
    then show ?thesis using epr_masks [of n] by (auto simp: epr_write_def calc_epr_bits_def Let_def bit_simps)
  qed
  have "out_inv ws Free (set_epr EP_BULK_OUT ?v d3) []"
    using i3 keep unfolding fs_inv_def out_inv_def by (auto simp: out_run_def)
  then have "fs_inv ws Free (In_Unset z') (set_epr EP_BULK_OUT ?v d3) [] []"
    using i3 by (intro fs_inv_out_step [OF i3]) (simp_all add: same_in_def fs_inv_def fs_base_def)
  then have i4: "fs_inv ws Free (In_Unset z') (fs_point ws (set_epr EP_BULK_OUT ?v d3)) [] []" by (rule fs_point_inv)
  let ?d5 = "(fs_point ws (set_epr EP_BULK_OUT ?v d3))\<lparr>bulk_in_push_pos := BI_START\<rparr>"
  have "in_inv ws (In_Unset True) ?d5 []"
    using i4 unfolding fs_inv_def in_inv_def by (auto simp: in_run_def in_valid_def)
  then have "fs_inv ws Free (In_Unset True) ?d5 [] []"
    using i4 by (intro fs_inv_in_step [OF i4]) (simp_all add: same_out_def fs_inv_def fs_base_def)
  then have i6: "fs_inv ws Free (In_Unset True) (fs_point ws ?d5) [] []" by (rule fs_point_inv)
  let ?d7 = "(fs_point ws ?d5)\<lparr>bulk_in_pop_flag := 0\<rparr>"
  have "in_inv ws (Off 2 0 (USB_EPR ?d7 EP_BULK_IN)) ?d7 []"
    using i6 unfolding fs_inv_def in_inv_def by (auto simp: in_run_def in_valid_def)
  then have "fs_inv ws Free (Off 2 0 (USB_EPR ?d7 EP_BULK_IN)) ?d7 [] []"
    using i6 by (intro fs_inv_in_step [OF i6]) (simp_all add: same_out_def fs_inv_def fs_base_def)
  moreover have "fs_set_configure ws d = ?d7"
    by (simp add: fs_set_configure_def Let_def d1_def d3_def e_def)
  ultimately show ?thesis by auto
qed

section \<open>The endpoints are queues\<close>

text \<open>The calls that \<open>usb_cdc.c\<close> makes, in any order. \<open>fs_exec\<close> also collects the packets that calls
  returned or took.\<close>

datatype fs_op =
    Op_Read nat
  | Op_Send "u8 list"
  | Op_Read_Ep0 nat
  | Op_Read_Ep0_Setup nat
  | Op_Send_Ep0 "u8 list"
  | Op_Stall
  | Op_Address u16
  | Op_Configure

fun fs_exec :: "usbfs usb_hw \<Rightarrow> fs_op \<Rightarrow> usbfs \<times> u8 list list \<times> u8 list list \<Rightarrow> usbfs \<times> u8 list list \<times> u8 list list" where
  "fs_exec hw (Op_Read n) (d, rd, wr) =
     (let ((r, bs), d) = usb_read_bulk_out hw n d in (d, if r < 0 then rd else rd @ [bs], wr))"
| "fs_exec hw (Op_Send bs) (d, rd, wr) = (let (r, d) = usb_send_bulk_in hw bs d in (d, rd, if r < 0 then wr else wr @ [bs]))"
| "fs_exec hw (Op_Read_Ep0 n) (d, rd, wr) = (snd (usb_read_ep0 hw n d), rd, wr)"
| "fs_exec hw (Op_Read_Ep0_Setup n) (d, rd, wr) = (snd (usb_read_ep0_setup hw n d), rd, wr)"
| "fs_exec hw (Op_Send_Ep0 bs) (d, rd, wr) = (snd (usb_send_ep0 hw bs d), rd, wr)"
| "fs_exec hw Op_Stall (d, rd, wr) = (usb_stall_ep0 hw d, rd, wr)"
| "fs_exec hw (Op_Address a) (d, rd, wr) = (usb_set_address hw a d, rd, wr)"
| "fs_exec hw Op_Configure (d, rd, wr) = (usb_set_configure hw d, rd, wr)"

text \<open>Every buffer that \<open>usb_cdc.c\<close> reads into or sends is as large as the endpoint; the host configures once.\<close>

definition fs_op_ok :: "fs_op \<Rightarrow> bool" where
  "fs_op_ok oper \<longleftrightarrow> (case oper of Op_Read n \<Rightarrow> 64 \<le> n | Op_Send bs \<Rightarrow> length bs \<le> 64 | Op_Send_Ep0 bs \<Rightarrow> length bs \<le> 64
     | Op_Configure \<Rightarrow> False | _ \<Rightarrow> True)"

definition fs_configured :: "nat \<Rightarrow> usbfs \<times> u8 list list \<times> u8 list list \<Rightarrow> bool" where
  "fs_configured ws = (\<lambda>(d, rd, wr).
     \<exists>e. fs_inv ws Free (if wr = [] then Off 2 0 e else if length wr = 1 then Off 3 0 e else Idle) d rd wr)"

lemma usbfs_hw_sel [simp]:
  "usb_read_bulk_out (usbfs_hw ws i) = fs_read_bulk_out ws" "usb_send_bulk_in (usbfs_hw ws i) = fs_send_bulk_in ws"
  "usb_read_ep0 (usbfs_hw ws i) = fs_read_ep0 ws" "usb_read_ep0_setup (usbfs_hw ws i) = fs_read_ep0_setup ws"
  "usb_send_ep0 (usbfs_hw ws i) = fs_send_ep0 ws" "usb_stall_ep0 (usbfs_hw ws i) = fs_stall_ep0 ws"
  "usb_set_address (usbfs_hw ws i) = fs_usb_set_address ws" "usb_set_configure (usbfs_hw ws i) = fs_set_configure ws"
  by (simp_all add: usbfs_hw_def)

lemma fs_exec_ep0:
  assumes "fs_inv ws po pi d rd wr" "fs_op_ok oper" "\<And>n. oper \<noteq> Op_Read n" "\<And>bs. oper \<noteq> Op_Send bs"
  shows "\<exists>d'. fs_exec (usbfs_hw ws i) oper (d, rd, wr) = (d', rd, wr) \<and> fs_inv ws po pi d' rd wr"
  using assms fs_read_ep0_inv [OF assms(1)] fs_send_ep0_inv [OF assms(1)] fs_stall_ep0_inv [OF assms(1)] fs_set_address_inv [OF assms(1)]
  by (cases oper) (auto simp: fs_op_ok_def fs_read_ep0_setup_def)

lemma send_configured:
  assumes cf: "fs_configured ws (d, rd, wr)" and len: "length p \<le> 64"
  shows "fs_configured ws (fs_exec (usbfs_hw ws i) (Op_Send p) (d, rd, wr))"
proof -
  obtain r d' where s: "fs_send_bulk_in ws p d = (r, d')" by fastforce
  obtain e where inv: "fs_inv ws Free (if wr = [] then Off 2 0 e else if length wr = 1 then Off 3 0 e else Idle) d rd wr"
    using cf by (auto simp: fs_configured_def)
  show ?thesis
  proof (cases "length wr \<le> 1")
    case True
    then have "fs_inv ws Free (Off (2 + of_nat (length wr)) 0 e) d rd wr" using inv by (cases wr) simp_all
    from send_off [OF this True len s] True s show ?thesis
      by (cases wr) (auto simp: fs_configured_def)
  next
    case False
    then have "fs_inv ws Free Idle d rd wr" using inv by (auto split: if_splits)
    from send_idle [OF this len s] False s show ?thesis
      by (auto simp: fs_configured_def split: if_splits)
  qed
qed

lemma exec_configured:
  assumes cf: "fs_configured ws st" and ok: "fs_op_ok oper"
  shows "fs_configured ws (fs_exec (usbfs_hw ws i) oper st)"
proof -
  obtain d rd wr where st: "st = (d, rd, wr)" by (cases st)
  obtain e where inv: "fs_inv ws Free (if wr = [] then Off 2 0 e else if length wr = 1 then Off 3 0 e else Idle) d rd wr"
    using cf by (auto simp: fs_configured_def st)
  consider n where "oper = Op_Read n" | p where "oper = Op_Send p" | "\<And>n. oper \<noteq> Op_Read n" "\<And>bs. oper \<noteq> Op_Send bs" by blast
  then show ?thesis
  proof cases
    case (1 n)
    then have n: "64 \<le> n" using ok by (simp add: fs_op_ok_def)
    obtain r bs d' where r: "fs_read_bulk_out ws n d = ((r, bs), d')" by (metis prod.exhaust)
    from fs_read_bulk_out_inv [OF inv n r] show ?thesis
      using 1 r by (auto simp: st fs_configured_def)
  next
    case (2 p)
    with send_configured [of ws d rd wr p] cf ok show ?thesis by (simp add: fs_op_ok_def st)
  next
    case 3
    then obtain d' where "fs_exec (usbfs_hw ws i) oper (d, rd, wr) = (d', rd, wr)"
        "fs_inv ws Free (if wr = [] then Off 2 0 e else if length wr = 1 then Off 3 0 e else Idle) d' rd wr"
      using fs_exec_ep0 [OF inv ok] by blast
    then show ?thesis by (auto simp: st fs_configured_def)
  qed
qed

lemma exec_unset:
  assumes "fs_inv ws (Out_Unset False) (In_Unset False) d [] []" and ok: "fs_op_ok oper"
  shows "\<exists>d'. fs_exec (usbfs_hw ws i) oper (d, [], []) = (d', [], []) \<and> fs_inv ws (Out_Unset False) (In_Unset False) d' [] []"
proof -
  have p: "fs_inv ws (Out_Unset False) (In_Unset False) (fs_point ws d) [] []" by (rule fs_point_inv [OF assms(1)])
  consider n where "oper = Op_Read n" | bs where "oper = Op_Send bs" | "\<And>n. oper \<noteq> Op_Read n" "\<And>bs. oper \<noteq> Op_Send bs" by blast
  then show ?thesis
  proof cases
    case 1
    with p unset_flags(1) [OF p] show ?thesis by (simp add: fs_read_bulk_out_def Let_def)
  next
    case 2
    with p unset_flags(2) [OF p] show ?thesis by (simp add: fs_send_bulk_in_def Let_def)
  next
    case 3
    with fs_exec_ep0 [OF assms(1) ok] show ?thesis by blast
  qed
qed

lemma fold_unset:
  "fs_inv ws (Out_Unset False) (In_Unset False) d [] [] \<Longrightarrow> list_all fs_op_ok opers \<Longrightarrow>
   \<exists>d'. fold (fs_exec (usbfs_hw ws i)) opers (d, [], []) = (d', [], []) \<and> fs_inv ws (Out_Unset False) (In_Unset False) d' [] []"
proof (induction opers arbitrary: d)
  case (Cons oper opers)
  then obtain d' where "fs_exec (usbfs_hw ws i) oper (d, [], []) = (d', [], [])"
      "fs_inv ws (Out_Unset False) (In_Unset False) d' [] []"
    using exec_unset [of ws d oper i] by auto
  with Cons show ?case by simp
qed simp

lemma fold_configured:
  "fs_configured ws st \<Longrightarrow> list_all fs_op_ok opers \<Longrightarrow> fs_configured ws (fold (fs_exec (usbfs_hw ws i)) opers st)"
  by (induction opers arbitrary: st) (simp_all add: exec_configured)

text \<open>After \<open>usb_init\<close> and a bus reset.\<close>

lemma desc_setup_sel [simp]:
  "fs_bus (epm_ep_desc_setup ws ep b n d) = fs_bus d" "fs_acked (epm_ep_desc_setup ws ep b n d) = fs_acked d"
  "fs_sent (epm_ep_desc_setup ws ep b n d) = fs_sent d"
  by (simp_all add: epm_ep_desc_setup_def Let_def)

lemma fs_usb_init_sel:
  "fs_bus (fs_usb_init ws bcdr d) = fs_bus d" "fs_acked (fs_usb_init ws bcdr d) = fs_acked d"
  "fs_sent (fs_usb_init ws bcdr d) = fs_sent d" "USB_CNTR (fs_usb_init ws bcdr d) = USB_CNTR_RESETM"
  "EPM (fs_usb_init ws bcdr d) = EPM (btable_configure ws d)"
  by (simp_all add: fs_usb_init_def btable_configure_def Let_def)

lemma reset_epr_bits:
  "epr_write 0 (of_nat EP_BULK_OUT OR USB_EP_BULK OR USB_EP_KIND OR USB_EP_RX_NAK OR USB_EP_DTOG_TX) = 0x2142"
  "epr_write 0 (of_nat EP_BULK_IN OR USB_EP_BULK OR USB_EP_KIND OR USB_EP_TX_NAK) = 0x121"
  by (simp_all add: epr_write_def EPR_TBITS_def EPR_RWBITS_def EPR_RWCBITS_def fs_consts)

lemma fs_init_reset:
  assumes "wsize ws" "\<forall>evs \<in> set (fs_bus d). Bus_Reset \<notin> set evs" "fs_acked d = []" "fs_sent d = []"
  shows "fs_inv ws (Out_Unset False) (In_Unset False) (bus_step ws Bus_Reset (fs_usb_init ws bcdr d)) [] []"
proof -
  let ?i = "fs_usb_init ws bcdr d"
  define d1 where "d1 = ?i\<lparr>USB_EPR := (\<lambda>_. 0), USB_DADDR := 0, fs_fresh := False, USB_ISTR := 0xfbff\<rparr>"
  have "USB_ISTR_RESET AND USB_CNTR (?i\<lparr>USB_EPR := (\<lambda>_. 0), USB_DADDR := 0, fs_fresh := False\<rparr>) AND (USB_ISTR_CTR OR USB_ISTR_RESET) \<noteq> 0"
    by (simp add: fs_usb_init_sel USB_ISTR_RESET_def USB_ISTR_CTR_def USB_CNTR_RESETM_def)
  then have eq: "bus_step ws Bus_Reset ?i = usb_reset d1"
    by (simp add: bus_step.simps fs_irq_def USB_IRQHandler_def Let_def d1_def USB_ISTR_RESET_def USB_ISTR_CTR_def)
  have epr: "USB_EPR (usb_reset d1) EP_BULK_OUT = 0x2142" "USB_EPR (usb_reset d1) EP_BULK_IN = 0x121"
    using reset_epr_bits by (simp_all add: usb_reset_def Let_def d1_def)
  have fresh: "\<not> fs_fresh (usb_reset d1)"
    using reset_epr_bits(2) by (simp add: usb_reset_def Let_def d1_def set_epr_def fs_consts)
  have rest: "fs_bus (usb_reset d1) = fs_bus d" "fs_acked (usb_reset d1) = []" "fs_sent (usb_reset d1) = []"
      "USB_CNTR (usb_reset d1) = USB_CNTR_CTRM OR USB_CNTR_RESETM" "EPM (usb_reset d1) = EPM (btable_configure ws d)"
      "bulk_out_push_flag (usb_reset d1) = USB_EP_DTOG_TX" "bulk_in_pop_flag (usb_reset d1) = USB_EP_DTOG_RX"
    using assms(3,4) by (simp_all add: usb_reset_def Let_def d1_def fs_usb_init_sel)
  have "desc_ok ws (usb_reset d1)" using desc_ok_EPM [OF rest(5)] btable_configure_desc_ok [OF assms(1)] by simp
  then show ?thesis
    using assms(1,2) epr fresh rest unfolding eq fs_inv_def fs_base_def out_inv_def in_inv_def
    by (simp add: out_run_def in_run_def out_valid_def in_valid_def)
qed

lemma all_points_configured:
  assumes "wsize ws" and "\<forall>evs \<in> set (fs_bus d). Bus_Reset \<notin> set evs" and "fs_acked d = []" and "fs_sent d = []"
    and "list_all fs_op_ok before" and "list_all fs_op_ok after"
  shows "fs_configured ws (fold (fs_exec (usbfs_hw ws i)) (before @ Op_Configure # after)
    (bus_step ws Bus_Reset (fs_usb_init ws bcdr d), [], []))"
proof -
  obtain d1 where d1: "fold (fs_exec (usbfs_hw ws i)) before (bus_step ws Bus_Reset (fs_usb_init ws bcdr d), [], []) = (d1, [], [])"
      "fs_inv ws (Out_Unset False) (In_Unset False) d1 [] []"
    using fold_unset [OF fs_init_reset [OF assms(1-4), of bcdr] assms(5), of i] by blast
  have "fs_configured ws (fs_set_configure ws d1, [], [])"
    using fs_set_configure_inv [OF d1(2)] by (simp add: fs_configured_def)
  then show ?thesis using fold_configured [OF _ assms(6), of ws "(fs_set_configure ws d1, [], [])" i] d1(1) by simp
qed

lemma configured_queues:
  assumes "fs_configured ws (d, rd, wr)"
  shows "\<exists>q. fs_acked d = rd @ q \<and> length q \<le> 2" "\<exists>q. wr = fs_sent d @ q \<and> length q \<le> 2"
    "length wr \<le> 1 \<Longrightarrow> fs_sent d = []"
proof -
  let ?ph = "\<lambda>e. if wr = [] then Off 2 0 e else if length wr = 1 then Off 3 0 e else Idle"
  obtain e where inv: "fs_inv ws Free (?ph e) d rd wr" using assms by (auto simp: fs_configured_def)
  then show "\<exists>q. fs_acked d = rd @ q \<and> length q \<le> 2" by (auto simp: fs_inv_def out_inv_def out_run_def)
  from inv show "\<exists>q. wr = fs_sent d @ q \<and> length q \<le> 2"
    by (auto simp: fs_inv_def in_inv_def in_run_def run_state_def split: if_splits)
  from inv show "length wr \<le> 1 \<Longrightarrow> fs_sent d = []"
    by (auto simp: fs_inv_def in_inv_def split: if_splits)
qed

definition demo_usbfs :: "bus_event list list \<Rightarrow> usbfs" where
  "demo_usbfs bus = \<lparr> EPM = (\<lambda>_. 0), USB_EPR = (\<lambda>_. 0), USB_CNTR = 0, USB_DADDR = 0, USB_ISTR = 0, USB_BCDR = 0,
     bulk_out_pop_count = 0, bulk_out_push_flag = 0, bulk_in_push_pos = 0, bulk_in_pop_flag = 0, fs_set_address = 0,
     fs_fresh = False, fs_notes = [], fs_acked = [], fs_sent = [], fs_ep0_sent = [], fs_bus = bus \<rparr>"

text \<open>Two packets are sent after the configuration, on a bus with traffic.\<close>

definition demo_bus :: "bus_event list list" where
  "demo_bus = [[Bus_In], [], [Bus_Out [1, 2, 3]], [], [Bus_In, Bus_Out [4]]]"

lemma demo_pre:
  "\<forall>evs \<in> set (fs_bus (demo_usbfs demo_bus)). Bus_Reset \<notin> set evs" "fs_acked (demo_usbfs demo_bus) = []" "fs_sent (demo_usbfs demo_bus) = []"
  "list_all fs_op_ok []" "list_all fs_op_ok [Op_Send [5]]" "list_all fs_op_ok [Op_Send [5], Op_Send [6, 7]]"
  by (simp_all add: demo_usbfs_def demo_bus_def fs_op_ok_def)

lemma fs_demo_start: "fs_inv 2 (Out_Unset False) (In_Unset False) (bus_step 2 Bus_Reset (fs_usb_init 2 False (demo_usbfs demo_bus))) [] []"
  by (rule fs_init_reset) (simp_all add: demo_usbfs_def demo_bus_def wsize_def)

lemma demo_sends:
  "\<exists>d1. fold (fs_exec (usbfs_hw 2 [])) ([] @ Op_Configure # [Op_Send [5]])
      (bus_step 2 Bus_Reset (fs_usb_init 2 False (demo_usbfs demo_bus)), [], []) = (d1, [], [[5]])"
  "\<exists>d2. fold (fs_exec (usbfs_hw 2 [])) ([] @ Op_Configure # [Op_Send [5], Op_Send [6, 7]])
      (bus_step 2 Bus_Reset (fs_usb_init 2 False (demo_usbfs demo_bus)), [], []) = (d2, [], [[5], [6, 7]])"
proof -
  let ?d = "fs_set_configure 2 (bus_step 2 Bus_Reset (fs_usb_init 2 False (demo_usbfs demo_bus)))"
  obtain e where c: "fs_inv 2 Free (Off (2 + of_nat (length ([] :: u8 list list))) 0 e) ?d [] []"
    using fs_set_configure_inv [OF fs_demo_start] by auto
  obtain r1 d1 where s1: "fs_send_bulk_in 2 [5] ?d = (r1, d1)" by (cases "fs_send_bulk_in 2 [5] ?d")
  then have i1: "r1 = 1" "fs_inv 2 Free (Off (2 + of_nat (length [[5 :: u8]])) 0 e) d1 [] [[5]]"
    using send_off [OF c _ _ s1] by simp_all
  obtain r2 d2 where s2: "fs_send_bulk_in 2 [6, 7] d1 = (r2, d2)" by (cases "fs_send_bulk_in 2 [6, 7] d1")
  then have "r2 = 2" using send_off [OF i1(2) _ _ s2] by simp
  with s1 s2 i1(1) show
    "\<exists>d1. fold (fs_exec (usbfs_hw 2 [])) ([] @ Op_Configure # [Op_Send [5]])
      (bus_step 2 Bus_Reset (fs_usb_init 2 False (demo_usbfs demo_bus)), [], []) = (d1, [], [[5]])"
    "\<exists>d2. fold (fs_exec (usbfs_hw 2 [])) ([] @ Op_Configure # [Op_Send [5], Op_Send [6, 7]])
      (bus_step 2 Bus_Reset (fs_usb_init 2 False (demo_usbfs demo_bus)), [], []) = (d2, [], [[5], [6, 7]])"
    by simp_all
qed

section \<open>Properties\<close>

text \<open>C36: Both bulk endpoints of the full-speed controller are first-in first-out queues. After
  \<open>usb_init\<close>, a bus reset and one configuration, whatever calls \<open>usb_cdc.c\<close> makes, before and after it,
  and whatever packets the host sends or asks for, at every point between two accesses of the driver:
  the packets that reads returned are those the controller acknowledged to the host, in order and
  unchanged, up to two that are still in its buffers; and the packets the host was sent are those
  that sends accepted, in order and unchanged, up to two.\<close>

theorem usbfs_bulk_queues:
  assumes "ws = 2 \<or> ws = 4" and "\<forall>evs \<in> set (fs_bus d). Bus_Reset \<notin> set evs" and "fs_acked d = []" and "fs_sent d = []"
    and "list_all fs_op_ok before" and "list_all fs_op_ok after"
    and "fold (fs_exec (usbfs_hw ws i)) (before @ Op_Configure # after) (bus_step ws Bus_Reset (fs_usb_init ws bcdr d), [], []) = (d', rd, wr)"
  shows "(\<exists>q. fs_acked d' = rd @ q \<and> length q \<le> 2) \<and> (\<exists>q. wr = fs_sent d' @ q \<and> length q \<le> 2)"
  using all_points_configured [of ws d before after i bcdr] configured_queues [of ws d' rd wr] assms by (simp add: wsize_def)

theorem usbfs_bulk_queues_witness:
  "\<exists>d'. fold (fs_exec (usbfs_hw 2 [])) ([] @ Op_Configure # [Op_Send [5], Op_Send [6, 7]])
      (bus_step 2 Bus_Reset (fs_usb_init 2 False (demo_usbfs demo_bus)), [], []) = (d', [], [[5], [6, 7]]) \<and>
    length (fs_acked d') \<le> 2 \<and> (\<exists>q. [[5], [6, 7]] = fs_sent d' @ q)"
proof -
  obtain d' where d': "fold (fs_exec (usbfs_hw 2 [])) ([] @ Op_Configure # [Op_Send [5], Op_Send [6, 7]])
      (bus_step 2 Bus_Reset (fs_usb_init 2 False (demo_usbfs demo_bus)), [], []) = (d', [], [[5], [6, 7]])"
    using demo_sends(2) by (rule exE)
  have "(\<exists>q. fs_acked d' = [] @ q \<and> length q \<le> 2) \<and> (\<exists>q. [[5], [6, 7]] = fs_sent d' @ q \<and> length q \<le> 2)"
    by (rule usbfs_bulk_queues [OF disjI1 [OF refl] demo_pre(1-4,6) d'])
  then have "length (fs_acked d') \<le> 2 \<and> (\<exists>q. [[5], [6, 7]] = fs_sent d' @ q)" by auto
  from d' this show ?thesis by (intro exI [of _ d'] conjI) simp_all
qed

text \<open>C37: The first packet that the device sends after the configuration is withheld: as long as only one
  packet was accepted, the host gets nothing on the bulk IN endpoint, however often it asks. A reply that
  fits into one packet is sent only when there is another one.\<close>

theorem usbfs_first_packet_withheld:
  assumes "ws = 2 \<or> ws = 4" and "\<forall>evs \<in> set (fs_bus d). Bus_Reset \<notin> set evs" and "fs_acked d = []" and "fs_sent d = []"
    and "list_all fs_op_ok before" and "list_all fs_op_ok after"
    and "fold (fs_exec (usbfs_hw ws i)) (before @ Op_Configure # after) (bus_step ws Bus_Reset (fs_usb_init ws bcdr d), [], []) = (d', rd, [p])"
  shows "fs_sent d' = []"
  using all_points_configured [of ws d before after i bcdr] configured_queues(3) [of ws d' rd "[p]"] assms by (simp add: wsize_def)

theorem usbfs_first_packet_withheld_witness:
  "\<exists>d'. fold (fs_exec (usbfs_hw 2 [])) ([] @ Op_Configure # [Op_Send [5]])
      (bus_step 2 Bus_Reset (fs_usb_init 2 False (demo_usbfs demo_bus)), [], []) = (d', [], [[5]]) \<and> fs_sent d' = []"
proof -
  obtain d' where d': "fold (fs_exec (usbfs_hw 2 [])) ([] @ Op_Configure # [Op_Send [5]])
      (bus_step 2 Bus_Reset (fs_usb_init 2 False (demo_usbfs demo_bus)), [], []) = (d', [], [[5]])"
    using demo_sends(1) by (rule exE)
  have "fs_sent d' = []"
    by (rule usbfs_first_packet_withheld [OF disjI1 [OF refl] demo_pre(1-5) d'])
  with d' show ?thesis by (intro exI conjI)
qed

end
