(* ===== verification/StmClock.thy ===== *)
theory StmClock
  imports StmCan Complex_Main
begin

text \<open>
  The clocks of the STM32 boards: \<open>clock_setup\<close> and \<open>armcm_main\<close> of \<open>stm32/stm32f0.c\<close>, \<open>stm32f1.c\<close>,
  \<open>stm32f4.c\<close> (which the STM32F2 shares), \<open>stm32g0.c\<close>, \<open>stm32g4.c\<close> and \<open>stm32h7.c\<close>, their
  \<open>lookup_clock_line\<close> functions and \<open>stm32/clockline.c\<close>. The registers are a function from their
  names, and every write and every wait is noted in the order in which it happens. A wait reads
  a status register: what it reads at its \<open>k\<close>-th turn is a parameter. Constants of the vendor's headers are
  written out. Kconfig's choice of the part and of the crystal are the two enumerations below.
\<close>

section \<open>Parts and crystals\<close>

datatype stm_mach = F031 | F042 | F070 | F072 | F103 | F207 | F401 | F4x5 | F446 | G0B0 | G0B1 | G431 | H723 | H743

datatype clock_ref = REF_8M | REF_12M | REF_16M | REF_20M | REF_24M | REF_25M | REF_32M | REF_INTERNAL

instantiation stm_mach :: enum
begin
definition enum_stm_mach :: "stm_mach list" where
  "enum_stm_mach = [F031, F042, F070, F072, F103, F207, F401, F4x5, F446, G0B0, G0B1, G431, H723, H743]"
definition enum_all_stm_mach :: "(stm_mach \<Rightarrow> bool) \<Rightarrow> bool" where
  "enum_all_stm_mach P = list_all P enum_class.enum"
definition enum_ex_stm_mach :: "(stm_mach \<Rightarrow> bool) \<Rightarrow> bool" where
  "enum_ex_stm_mach P = list_ex P enum_class.enum"
instance
proof
  show univ: "(UNIV :: stm_mach set) = set enum_class.enum"
    by (auto simp: enum_stm_mach_def intro: stm_mach.exhaust)
  show "distinct (enum_class.enum :: stm_mach list)" by (simp add: enum_stm_mach_def)
  show "enum_class.enum_all P \<longleftrightarrow> Ball UNIV P" for P :: "stm_mach \<Rightarrow> bool"
    unfolding univ enum_all_stm_mach_def list_all_iff ..
  show "enum_class.enum_ex P \<longleftrightarrow> Bex UNIV P" for P :: "stm_mach \<Rightarrow> bool"
    unfolding univ enum_ex_stm_mach_def list_ex_iff ..
qed
end

instantiation clock_ref :: enum
begin
definition enum_clock_ref :: "clock_ref list" where
  "enum_clock_ref = [REF_8M, REF_12M, REF_16M, REF_20M, REF_24M, REF_25M, REF_32M, REF_INTERNAL]"
definition enum_all_clock_ref :: "(clock_ref \<Rightarrow> bool) \<Rightarrow> bool" where
  "enum_all_clock_ref P = list_all P enum_class.enum"
definition enum_ex_clock_ref :: "(clock_ref \<Rightarrow> bool) \<Rightarrow> bool" where
  "enum_ex_clock_ref P = list_ex P enum_class.enum"
instance
proof
  show univ: "(UNIV :: clock_ref set) = set enum_class.enum"
    by (auto simp: enum_clock_ref_def intro: clock_ref.exhaust)
  show "distinct (enum_class.enum :: clock_ref list)" by (simp add: enum_clock_ref_def)
  show "enum_class.enum_all P \<longleftrightarrow> Ball UNIV P" for P :: "clock_ref \<Rightarrow> bool"
    unfolding univ enum_all_clock_ref_def list_all_iff ..
  show "enum_class.enum_ex P \<longleftrightarrow> Bex UNIV P" for P :: "clock_ref \<Rightarrow> bool"
    unfolding univ enum_ex_clock_ref_def list_ex_iff ..
qed
end

text \<open>\<open>CONFIG_CLOCK_REF_FREQ\<close> and \<open>CONFIG_CLOCK_FREQ\<close> as \<open>stm32/Kconfig\<close> derives them.\<close>

fun clock_ref_freq :: "clock_ref \<Rightarrow> u32" where
  "clock_ref_freq REF_8M = 8000000"
| "clock_ref_freq REF_12M = 12000000"
| "clock_ref_freq REF_16M = 16000000"
| "clock_ref_freq REF_20M = 20000000"
| "clock_ref_freq REF_24M = 24000000"
| "clock_ref_freq REF_25M = 25000000"
| "clock_ref_freq REF_32M = 32000000"
| "clock_ref_freq REF_INTERNAL = 1"

fun clock_freq :: "stm_mach \<Rightarrow> clock_ref \<Rightarrow> u32" where
  "clock_freq F103 ref = (if ref = REF_INTERNAL then 64000000 else 72000000)"
| "clock_freq F207 _ = 120000000"
| "clock_freq F401 _ = 84000000"
| "clock_freq F4x5 _ = 168000000"
| "clock_freq F446 _ = 180000000"
| "clock_freq G0B0 _ = 64000000"
| "clock_freq G0B1 _ = 64000000"
| "clock_freq G431 _ = 150000000"
| "clock_freq H723 _ = 400000000"
| "clock_freq H743 _ = 400000000"
| "clock_freq _ _ = 48000000"

record clk_config =
  CONFIG_MACH :: stm_mach
  CONFIG_STM32_CLOCK_REF :: clock_ref
  CONFIG_USB :: bool
  CONFIG_STM32F0_TRIM :: u32
  CONFIG_STM32_PA11_PA12_REMAP :: bool
  CONFIG_ARMCM_RAM_VECTORTABLE :: bool
  CONFIG_STM32F103GD_DISABLE_SWD :: bool

abbreviation CLOCK_REF_FREQ :: "clk_config \<Rightarrow> u32" where
  "CLOCK_REF_FREQ c \<equiv> clock_ref_freq (CONFIG_STM32_CLOCK_REF c)"
abbreviation CLOCK_FREQ :: "clk_config \<Rightarrow> u32" where
  "CLOCK_FREQ c \<equiv> clock_freq (CONFIG_MACH c) (CONFIG_STM32_CLOCK_REF c)"
abbreviation CLOCK_REF_INTERNAL :: "clk_config \<Rightarrow> bool" where
  "CLOCK_REF_INTERNAL c \<equiv> CONFIG_STM32_CLOCK_REF c = REF_INTERNAL"

section \<open>Registers\<close>

text \<open>The enable and reset registers are named by their bus, the number at the end is that of a second register.\<close>

datatype stm_bus = AHB | AHB1 | AHB2 | AHB3 | AHB4 | APB | APB1 | APB2 | APB3 | APB4 | APB1L | APB1H | IOP

datatype stm_reg = ENR stm_bus | RSTR stm_bus
  | RCC_CR | RCC_CFGR | RCC_CFGR2 | RCC_CFGR3 | RCC_CR2 | RCC_PLLCFGR | RCC_CCIPR | RCC_CCIPR2 | RCC_CRRCR
  | RCC_PLLSAICFGR | RCC_DCKCFGR2 | RCC_PLLCKSELR | RCC_PLL1DIVR | RCC_D1CFGR | RCC_D2CFGR | RCC_D3CFGR
  | RCC_D1CCIPR | RCC_D2CCIP1R | RCC_D2CCIP2R | RCC_D3CCIPR
  | PWR_CR | PWR_CSR | PWR_CR3 | PWR_CSR1 | PWR_D3CR | FLASH_ACR | CRS_CR | CRS_CFGR | SYSCFG_CFGR1 | SYSCFG_PWRCR
  | AFIO_MAPR | SCB_VTOR | SCB_ICACHE | SCB_DCACHE

text \<open>\<open>Saw r msk v\<close> notes a wait on \<open>r\<close> that ended because the bits of \<open>msk\<close> read \<open>v\<close>.\<close>

datatype clk_event = Wrote stm_reg u32 | Saw stm_reg u32 u32

record stm_clk =
  regs :: "stm_reg \<Rightarrow> u32"
  clk_mem :: memory
  clk_log :: "clk_event list"

definition wr :: "stm_reg \<Rightarrow> u32 \<Rightarrow> stm_clk \<Rightarrow> stm_clk" where
  "wr r v s = s\<lparr>regs := (regs s)(r := v), clk_log := clk_log s @ [Wrote r v]\<rparr>"

abbreviation or_reg :: "stm_reg \<Rightarrow> u32 \<Rightarrow> stm_clk \<Rightarrow> stm_clk" where
  "or_reg r v s \<equiv> wr r (regs s r OR v) s"

text \<open>The values that the program wrote decide what the hardware shows in its status bits.\<close>

type_synonym clk_status = "(stm_reg \<Rightarrow> u32) \<Rightarrow> stm_reg \<Rightarrow> nat \<Rightarrow> u32"

definition await :: "clk_status \<Rightarrow> stm_reg \<Rightarrow> u32 \<Rightarrow> u32 \<Rightarrow> stm_clk \<Rightarrow> stm_clk option" where
  "await hw r msk v s = do {
     _ \<leftarrow> wait_reg (\<lambda>x. x AND msk = v) (hw (regs s) r) 0;
     Some (s\<lparr>clk_log := clk_log s @ [Saw r msk v]\<rparr>)
   }"

section \<open>Clock lines\<close>

record cline =
  cl_en :: stm_reg
  cl_rst :: "stm_reg option"
  cl_bit :: u32

abbreviation cline_of :: "stm_bus \<Rightarrow> u32 \<Rightarrow> cline" where
  "cline_of b v \<equiv> \<lparr> cl_en = ENR b, cl_rst = Some (RSTR b), cl_bit = v \<rparr>"

text \<open>\<open>1 << ((periph_base - base) / 0x400)\<close>\<close>

definition unit_bit :: "u32 \<Rightarrow> u32 \<Rightarrow> u32" where
  "unit_bit periph base = push_bit (unat ((periph - base) div 0x400)) 1"

definition f0_lookup_clock_line :: "u32 \<Rightarrow> cline" where
  "f0_lookup_clock_line periph_base =
     (if periph_base \<ge> 0x48000000 then
        cline_of AHB (push_bit (unat ((periph_base - 0x48000000) div 0x400 + 17)) 1)
      else if periph_base \<ge> 0x40010000 then cline_of APB2 (unit_bit periph_base 0x40010000)
      else cline_of APB1 (unit_bit periph_base 0x40000000))"

definition f1_lookup_clock_line :: "u32 \<Rightarrow> cline" where
  "f1_lookup_clock_line periph_base =
     (if periph_base \<ge> 0x40020000 then
        \<lparr> cl_en = ENR AHB, cl_rst = None, cl_bit = unit_bit periph_base 0x40020000 \<rparr>
      else if periph_base \<ge> 0x40010000 then cline_of APB2 (unit_bit periph_base 0x40010000)
      else cline_of APB1 (unit_bit periph_base 0x40000000))"

definition f4_lookup_clock_line :: "u32 \<Rightarrow> cline" where
  "f4_lookup_clock_line periph_base =
     (if periph_base \<ge> 0x40020000 then cline_of AHB1 (unit_bit periph_base 0x40020000)
      else if periph_base \<ge> 0x40010000 then
        let b = unit_bit periph_base 0x40010000
        in if b AND 0x700 \<noteq> 0 then \<lparr> cl_en = ENR APB2, cl_rst = None, cl_bit = b \<rparr>
           else cline_of APB2 b
      else cline_of APB1 (unit_bit periph_base 0x40000000))"

text \<open>The blocks under \<open>#ifdef\<close> of a peripheral that the STM32G0B0 has not.\<close>

definition g0_lookup_clock_line :: "bool \<Rightarrow> u32 \<Rightarrow> cline" where
  "g0_lookup_clock_line g0b1 periph_base =
     (if periph_base \<ge> 0x50000000 then cline_of IOP (unit_bit periph_base 0x50000000)
      else if periph_base \<ge> 0x40020000 then cline_of AHB (unit_bit periph_base 0x40020000)
      else if periph_base = 0x40005000 then cline_of APB1 (push_bit 8 1)
      else if periph_base = 0x40013c00 then cline_of APB1 (push_bit 9 1)
      else if g0b1 \<and> (periph_base = 0x40006400 \<or> periph_base = 0x40006800) then cline_of APB1 (push_bit 12 1)
      else if periph_base = 0x40005c00 then cline_of APB1 (push_bit 13 1)
      else if g0b1 \<and> periph_base = 0x40006c00 then cline_of APB1 (push_bit 16 1)
      else if periph_base = 0x40008800 then cline_of APB1 (push_bit 23 1)
      else if periph_base = 0x40012c00 then cline_of APB2 (push_bit 11 1)
      else if periph_base = 0x40013000 then cline_of APB2 (push_bit 12 1)
      else if periph_base = 0x40013800 then cline_of APB2 (push_bit 14 1)
      else if periph_base = 0x40002000 then cline_of APB2 (push_bit 15 1)
      else if periph_base = 0x40014000 then cline_of APB2 (push_bit 16 1)
      else if periph_base = 0x40014400 then cline_of APB2 (push_bit 17 1)
      else if periph_base = 0x40014800 then cline_of APB2 (push_bit 18 1)
      else if periph_base = 0x40012400 then cline_of APB2 (push_bit 20 1)
      else if periph_base \<ge> 0x40000000 \<and> periph_base < 0x40000000 + 32 * 0x400 then
        cline_of APB1 (unit_bit periph_base 0x40000000)
      else \<lparr> cl_en = ENR APB1, cl_rst = None, cl_bit = 0 \<rparr>)"

text \<open>\<open>APB1L\<close> and \<open>APB1H\<close> are the first and the second register of the STM32G4's \<open>APB1\<close>. The STM32G431 has
  no second FDCAN.\<close>

definition g4_lookup_clock_line :: "u32 \<Rightarrow> cline" where
  "g4_lookup_clock_line periph_base =
     (if periph_base < 0x40010000 then
        let pos = (periph_base - 0x40000000) div 0x400
        in if pos < 32 then cline_of APB1L (push_bit (unat pos) 1)
           else cline_of APB1H (push_bit (unat (pos - 32)) 1)
      else if periph_base < 0x40020000 then cline_of APB2 (unit_bit periph_base 0x40010000)
      else if periph_base < 0x48000000 then cline_of AHB1 (unit_bit periph_base 0x40020000)
      else if periph_base = 0x50000300 then cline_of AHB2 0x2000
      else cline_of AHB2 (unit_bit periph_base 0x48000000))"

definition h7_lookup_clock_line :: "u32 \<Rightarrow> cline" where
  "h7_lookup_clock_line periph_base =
     (if periph_base \<ge> 0x58020000 then cline_of AHB4 (unit_bit periph_base 0x58020000)
      else if periph_base \<ge> 0x58000000 then cline_of APB4 (unit_bit periph_base 0x58000000)
      else if periph_base \<ge> 0x52000000 then cline_of AHB3 (unit_bit periph_base 0x52000000)
      else if periph_base \<ge> 0x50000000 then cline_of APB3 (unit_bit periph_base 0x50000000)
      else if periph_base \<ge> 0x48020000 then cline_of AHB2 (unit_bit periph_base 0x48020000)
      else if periph_base \<ge> 0x40020000 then
        (if periph_base = 0x40022300 then cline_of AHB1 0x20
         else cline_of AHB1 (unit_bit periph_base 0x40020000))
      else if periph_base \<ge> 0x40010000 then cline_of APB2 (unit_bit periph_base 0x40010000)
      else if periph_base = 0x4000a400 then cline_of APB1H 0x100
      else let offset = (periph_base - 0x40000000) div 0x400
        in if offset < 32 then cline_of APB1L (push_bit (unat offset) 1)
           else cline_of APB1H (push_bit (unat (offset - 32)) 1))"

fun lookup_clock_line :: "stm_mach \<Rightarrow> u32 \<Rightarrow> cline" where
  "lookup_clock_line F103 p = f1_lookup_clock_line p"
| "lookup_clock_line F207 p = f4_lookup_clock_line p"
| "lookup_clock_line F401 p = f4_lookup_clock_line p"
| "lookup_clock_line F4x5 p = f4_lookup_clock_line p"
| "lookup_clock_line F446 p = f4_lookup_clock_line p"
| "lookup_clock_line G0B0 p = g0_lookup_clock_line False p"
| "lookup_clock_line G0B1 p = g0_lookup_clock_line True p"
| "lookup_clock_line G431 p = g4_lookup_clock_line p"
| "lookup_clock_line H723 p = h7_lookup_clock_line p"
| "lookup_clock_line H743 p = h7_lookup_clock_line p"
| "lookup_clock_line _ p = f0_lookup_clock_line p"

definition enable_pclock :: "stm_mach \<Rightarrow> u32 \<Rightarrow> stm_clk \<Rightarrow> stm_clk" where
  "enable_pclock m periph_base s =
     (let cl = lookup_clock_line m periph_base;
          s = or_reg (cl_en cl) (cl_bit cl) s
      in case cl_rst cl of None \<Rightarrow> s | Some rst \<Rightarrow> wr rst 0 (wr rst (cl_bit cl) s))"

definition is_enabled_pclock :: "stm_mach \<Rightarrow> u32 \<Rightarrow> stm_clk \<Rightarrow> bool" where
  "is_enabled_pclock m periph_base s =
     (let cl = lookup_clock_line m periph_base in regs s (cl_en cl) AND cl_bit cl \<noteq> 0)"

text \<open>The enable bits of the ports.\<close>

definition f0_gpio_clock_enable :: "u32 \<Rightarrow> stm_clk \<Rightarrow> stm_clk" where
  "f0_gpio_clock_enable rg s = or_reg (ENR AHB) (push_bit (unat ((rg - 0x48000000) div 0x400 + 17)) 1) s"

definition f1_gpio_clock_enable :: "u32 \<Rightarrow> stm_clk \<Rightarrow> stm_clk" where
  "f1_gpio_clock_enable rg s = or_reg (ENR APB2) (unit_bit rg 0x40010000) s"

definition f4_gpio_clock_enable :: "u32 \<Rightarrow> stm_clk \<Rightarrow> stm_clk" where
  "f4_gpio_clock_enable rg s = or_reg (ENR AHB1) (unit_bit rg 0x40020000) s"

definition g0_gpio_clock_enable :: "u32 \<Rightarrow> stm_clk \<Rightarrow> stm_clk" where
  "g0_gpio_clock_enable rg s = or_reg (ENR IOP) (unit_bit rg 0x50000000) s"

definition g4_gpio_clock_enable :: "u32 \<Rightarrow> stm_clk \<Rightarrow> stm_clk" where
  "g4_gpio_clock_enable rg s = or_reg (ENR AHB2) (unit_bit rg 0x48000000) s"

definition h7_gpio_clock_enable :: "u32 \<Rightarrow> stm_clk \<Rightarrow> stm_clk" where
  "h7_gpio_clock_enable rg s = or_reg (ENR AHB4) (unit_bit rg 0x58020000) s"

fun gpio_clock_enable :: "stm_mach \<Rightarrow> u32 \<Rightarrow> stm_clk \<Rightarrow> stm_clk" where
  "gpio_clock_enable F103 rg s = f1_gpio_clock_enable rg s"
| "gpio_clock_enable F207 rg s = f4_gpio_clock_enable rg s"
| "gpio_clock_enable F401 rg s = f4_gpio_clock_enable rg s"
| "gpio_clock_enable F4x5 rg s = f4_gpio_clock_enable rg s"
| "gpio_clock_enable F446 rg s = f4_gpio_clock_enable rg s"
| "gpio_clock_enable G0B0 rg s = g0_gpio_clock_enable rg s"
| "gpio_clock_enable G0B1 rg s = g0_gpio_clock_enable rg s"
| "gpio_clock_enable G431 rg s = g4_gpio_clock_enable rg s"
| "gpio_clock_enable H723 rg s = h7_gpio_clock_enable rg s"
| "gpio_clock_enable H743 rg s = h7_gpio_clock_enable rg s"
| "gpio_clock_enable _ rg s = f0_gpio_clock_enable rg s"

text \<open>The frequency of a peripheral's clock does not depend on the peripheral.\<close>

definition f0_get_pclock_frequency :: u32 where [simp]: "f0_get_pclock_frequency = 48000000"

definition f1_get_pclock_frequency :: "clock_ref \<Rightarrow> u32" where [simp]:
  "f1_get_pclock_frequency ref = clock_freq F103 ref div 2"

definition f4_get_pclock_frequency :: "stm_mach \<Rightarrow> clock_ref \<Rightarrow> u32" where [simp]:
  "f4_get_pclock_frequency m ref = clock_freq m ref div (if m = F401 then 2 else 4)"

definition g0_get_pclock_frequency :: u32 where [simp]: "g0_get_pclock_frequency = 64000000"

definition g4_get_pclock_frequency :: "clock_ref \<Rightarrow> u32" where [simp]:
  "g4_get_pclock_frequency ref = clock_freq G431 ref div 2"

definition h7_get_pclock_frequency :: "stm_mach \<Rightarrow> clock_ref \<Rightarrow> u32" where [simp]:
  "h7_get_pclock_frequency m ref = clock_freq m ref div 4"

fun get_pclock_frequency :: "stm_mach \<Rightarrow> clock_ref \<Rightarrow> u32" where
  "get_pclock_frequency F103 ref = f1_get_pclock_frequency ref"
| "get_pclock_frequency F207 ref = f4_get_pclock_frequency F207 ref"
| "get_pclock_frequency F401 ref = f4_get_pclock_frequency F401 ref"
| "get_pclock_frequency F4x5 ref = f4_get_pclock_frequency F4x5 ref"
| "get_pclock_frequency F446 ref = f4_get_pclock_frequency F446 ref"
| "get_pclock_frequency G0B0 _ = g0_get_pclock_frequency"
| "get_pclock_frequency G0B1 _ = g0_get_pclock_frequency"
| "get_pclock_frequency G431 ref = g4_get_pclock_frequency ref"
| "get_pclock_frequency H723 ref = h7_get_pclock_frequency H723 ref"
| "get_pclock_frequency H743 ref = h7_get_pclock_frequency H743 ref"
| "get_pclock_frequency _ _ = f0_get_pclock_frequency"

section \<open>What the start-up code takes from outside\<close>

text \<open>The vendor's \<open>SystemInit\<close>, the status bits, and the symbols of the linker script.\<close>

record clk_env =
  clk_hw :: clk_status
  SystemInit :: "stm_clk \<Rightarrow> stm_clk"
  VectorTable :: u32
  ram_vectortable_start :: u32
  ram_vectortable_end :: u32
  text_vectortable_start :: u32
  deployer_active :: bool

definition dfu_reboot_check :: "stm_clk \<Rightarrow> stm_clk" where
  "dfu_reboot_check s = s"

section \<open>STM32F0\<close>

abbreviation (input) RCC_CR_HSEON :: u32 where "RCC_CR_HSEON \<equiv> 0x10000"
abbreviation (input) RCC_CR_HSERDY :: u32 where "RCC_CR_HSERDY \<equiv> 0x20000"
abbreviation (input) RCC_CR_PLLON :: u32 where "RCC_CR_PLLON \<equiv> 0x1000000"
abbreviation (input) RCC_CR_PLLRDY :: u32 where "RCC_CR_PLLRDY \<equiv> 0x2000000"
abbreviation (input) RCC_CFGR_SWS_Msk :: u32 where "RCC_CFGR_SWS_Msk \<equiv> 0xc"
abbreviation (input) RCC_CFGR_SW_PLL :: u32 where "RCC_CFGR_SW_PLL \<equiv> 2"
abbreviation (input) RCC_CFGR_SWS_PLL :: u32 where "RCC_CFGR_SWS_PLL \<equiv> 8"

definition f0_pll_cfgr :: "clk_config \<Rightarrow> u32" where
  "f0_pll_cfgr c =
     (if \<not> CLOCK_REF_INTERNAL c then
        let d = CLOCK_FREQ c div CLOCK_REF_FREQ c in 0x10000 OR push_bit 18 (d - 2)
      else let div2 = (CLOCK_FREQ c div 8000000) * 2 in 0 OR push_bit 18 (div2 - 2))"

definition f0_pll_setup :: "clk_status \<Rightarrow> clk_config \<Rightarrow> stm_clk \<Rightarrow> stm_clk option" where
  "f0_pll_setup hw c s = do {
     let s = (if \<not> CLOCK_REF_INTERNAL c
       then wr RCC_CR ((regs s RCC_CR AND NOT 0xf8) OR RCC_CR_HSEON OR push_bit 3 (CONFIG_STM32F0_TRIM c)) s else s);
     let cfgr = f0_pll_cfgr c;
     let s = wr RCC_CFGR cfgr s;
     let s = or_reg RCC_CR RCC_CR_PLLON s;
     s \<leftarrow> await hw RCC_CR RCC_CR_PLLRDY RCC_CR_PLLRDY s;
     let s = wr RCC_CFGR (cfgr OR RCC_CFGR_SW_PLL) s;
     s \<leftarrow> await hw RCC_CFGR RCC_CFGR_SWS_Msk RCC_CFGR_SWS_PLL s;
     let cfgr3 = 0x10 OR (if CONFIG_USB c then 0x80 else 0);
     Some (wr RCC_CFGR3 cfgr3 s)
   }"

definition f0_hsi48_setup :: "clk_status \<Rightarrow> clk_config \<Rightarrow> stm_clk \<Rightarrow> stm_clk option" where
  "f0_hsi48_setup hw c s =
     (if CONFIG_MACH c \<noteq> F042 \<and> CONFIG_MACH c \<noteq> F072 then Some s
      else do {
        let s = or_reg RCC_CR2 0x10000 s;
        s \<leftarrow> await hw RCC_CR2 0x20000 0x20000 s;
        let s = wr RCC_CFGR 3 s;
        s \<leftarrow> await hw RCC_CFGR RCC_CFGR_SWS_Msk 0xc s;
        let s = (if CONFIG_USB c then or_reg CRS_CR (0x40 OR 0x20) (enable_pclock (CONFIG_MACH c) 0x40006c00 s) else s);
        Some (wr RCC_CFGR3 0x10 s)
      })"

definition f0_hsi14_setup :: "clk_status \<Rightarrow> stm_clk \<Rightarrow> stm_clk option" where
  "f0_hsi14_setup hw s = await hw RCC_CR2 2 2 (wr RCC_CR2 1 s)"

definition f0_enable_ram_vectortable :: "clk_env \<Rightarrow> stm_clk \<Rightarrow> stm_clk" where
  "f0_enable_ram_vectortable e s =
     (let count = ram_vectortable_end e - ram_vectortable_start e;
          s = s\<lparr>clk_mem := mem_write (clk_mem s) (ram_vectortable_start e)
                  (mem_read (clk_mem s) (text_vectortable_start e) (unat count))\<rparr>
      in or_reg SYSCFG_CFGR1 3 s)"

definition f0_armcm_main :: "clk_env \<Rightarrow> clk_config \<Rightarrow> stm_clk \<Rightarrow> stm_clk option" where
  "f0_armcm_main e c s = do {
     let s = SystemInit e (dfu_reboot_check s);
     let s = enable_pclock (CONFIG_MACH c) 0x40010000 s;
     let s = (if CONFIG_ARMCM_RAM_VECTORTABLE c \<and> deployer_active e then f0_enable_ram_vectortable e s else s);
     let s = wr FLASH_ACR (1 OR 0x10) s;
     s \<leftarrow> (if CONFIG_MACH c \<in> {F042, F072} \<and> CLOCK_REF_INTERNAL c \<and> CONFIG_USB c
           then f0_hsi48_setup (clk_hw e) c s else f0_pll_setup (clk_hw e) c s);
     s \<leftarrow> f0_hsi14_setup (clk_hw e) s;
     Some (if CONFIG_MACH c = F042 \<and> CONFIG_STM32_PA11_PA12_REMAP c then or_reg SYSCFG_CFGR1 0x10 s else s)
   }"

section \<open>STM32F1\<close>

definition f1_cfgr :: "clk_config \<Rightarrow> u32" where
  "f1_cfgr c =
     (let cfgr = (if \<not> CLOCK_REF_INTERNAL c then
            let d = CLOCK_FREQ c div (CLOCK_REF_FREQ c div 2);
                cfgr = push_bit 16 1;
                (cfgr, d) = (if d AND 1 \<noteq> 0 \<and> d \<le> 16 then (cfgr OR 0x20000, d) else (cfgr, d div 2))
            in cfgr OR push_bit 18 (d - 2)
          else let div2 = (CLOCK_FREQ c div 8000000) * 2 in push_bit 16 0 OR push_bit 18 (div2 - 2))
      in cfgr OR (0x400 OR 0x2000 OR 0xc000))"

definition f1_clock_setup :: "clk_status \<Rightarrow> clk_config \<Rightarrow> stm_clk \<Rightarrow> stm_clk option" where
  "f1_clock_setup hw c s = do {
     let s = (if \<not> CLOCK_REF_INTERNAL c then or_reg RCC_CR RCC_CR_HSEON s else s);
     let cfgr = f1_cfgr c;
     let s = wr RCC_CFGR cfgr s;
     let s = or_reg RCC_CR RCC_CR_PLLON s;
     let s = wr FLASH_ACR (2 OR 0x10) s;
     s \<leftarrow> await hw RCC_CR RCC_CR_PLLRDY RCC_CR_PLLRDY s;
     let s = wr RCC_CFGR (cfgr OR RCC_CFGR_SW_PLL) s;
     await hw RCC_CFGR RCC_CFGR_SWS_Msk RCC_CFGR_SWS_PLL s
   }"

text \<open>\<open>mapr\<close> is a static variable that starts at 0, and this is the first call.\<close>

definition f1_alternative_remap :: "u32 \<Rightarrow> u32 \<Rightarrow> u32 \<Rightarrow> stm_clk \<Rightarrow> u32 \<times> stm_clk" where
  "f1_alternative_remap mapr_mask mapr_value mapr s =
     (let mapr = (mapr AND NOT mapr_mask) OR mapr_value in (mapr, wr AFIO_MAPR mapr s))"

definition f1_armcm_main :: "clk_env \<Rightarrow> clk_config \<Rightarrow> stm_clk \<Rightarrow> stm_clk option" where
  "f1_armcm_main e c s = do {
     let s = wr SCB_VTOR (VectorTable e) (SystemInit e s);
     let s = wr (ENR APB2) 0 (wr (ENR APB1) 0 (wr (ENR AHB) 0x14 s));
     s \<leftarrow> f1_clock_setup (clk_hw e) c s;
     let s = enable_pclock F103 0x40010000 s;
     Some (if CONFIG_STM32F103GD_DISABLE_SWD c then snd (f1_alternative_remap 0x7000000 0x4000000 0 s)
           else snd (f1_alternative_remap 0x7000000 0x2000000 0 s))
   }"

section \<open>STM32F2 and STM32F4\<close>

abbreviation (input) FREQ_USB :: u32 where "FREQ_USB \<equiv> 48000000"
abbreviation (input) PLLSRC_HSE :: u32 where "PLLSRC_HSE \<equiv> 0x400000"

definition f20x_pllcfgr :: "clk_config \<Rightarrow> u32" where
  "f20x_pllcfgr c =
     (let pll_base = 1000000; pll_freq = CLOCK_FREQ c * 2;
          pllcfgr = (if \<not> CLOCK_REF_INTERNAL c then PLLSRC_HSE OR (CLOCK_REF_FREQ c div pll_base)
                     else 0 OR (16000000 div pll_base))
      in pllcfgr OR push_bit 6 (pll_freq div pll_base) OR push_bit 16 0 OR push_bit 24 (pll_freq div FREQ_USB))"

definition f40x_pllcfgr :: "clk_config \<Rightarrow> u32" where
  "f40x_pllcfgr c =
     (let pll_base = (if CONFIG_STM32_CLOCK_REF c = REF_25M then 1000000 else 2000000);
          pllp = (if CONFIG_MACH c = F401 then 4 else 2);
          pll_freq = CLOCK_FREQ c * pllp;
          pllcfgr = (if \<not> CLOCK_REF_INTERNAL c then PLLSRC_HSE OR (CLOCK_REF_FREQ c div pll_base)
                     else 0 OR (16000000 div pll_base))
      in pllcfgr OR push_bit 6 (pll_freq div pll_base) OR push_bit 16 (drop_bit 1 pllp - 1)
         OR push_bit 24 (pll_freq div FREQ_USB))"

definition f446_pllcfgr :: "clk_config \<Rightarrow> u32" where
  "f446_pllcfgr c =
     (let pll_base = 2000000; pll_freq = CLOCK_FREQ c * 2;
          pllcfgr = (if \<not> CLOCK_REF_INTERNAL c then PLLSRC_HSE OR (CLOCK_REF_FREQ c div pll_base)
                     else 0 OR (16000000 div pll_base))
      in pllcfgr OR push_bit 6 (pll_freq div pll_base) OR push_bit 16 0 OR push_bit 24 (pll_freq div FREQ_USB)
         OR push_bit 28 6)"

definition f446_pllsaicfgr :: "clk_config \<Rightarrow> u32" where
  "f446_pllsaicfgr c =
     (let ref = (if CLOCK_REF_INTERNAL c then 16000000 else CLOCK_REF_FREQ c);
          plls_base = 2000000; plls_freq = FREQ_USB * 4
      in (ref div plls_base) OR push_bit 6 (plls_freq div plls_base)
         OR push_bit 16 ((plls_freq div FREQ_USB) div 2 - 1) OR push_bit 24 (plls_freq div FREQ_USB))"

text \<open>The three functions share the start of the crystal and of the PLL.\<close>

definition f4_start_pll :: "u32 \<Rightarrow> clk_config \<Rightarrow> stm_clk \<Rightarrow> stm_clk" where
  "f4_start_pll pllcfgr c s =
     (let s = (if \<not> CLOCK_REF_INTERNAL c then or_reg RCC_CR RCC_CR_HSEON s else s);
          s = wr RCC_PLLCFGR pllcfgr s
      in or_reg RCC_CR RCC_CR_PLLON s)"

definition enable_clock_stm32f20x :: "clk_config \<Rightarrow> stm_clk \<Rightarrow> stm_clk" where
  "enable_clock_stm32f20x c s = f4_start_pll (f20x_pllcfgr c) c s"

definition enable_clock_stm32f40x :: "clk_config \<Rightarrow> stm_clk \<Rightarrow> stm_clk" where
  "enable_clock_stm32f40x c s = f4_start_pll (f40x_pllcfgr c) c s"

definition enable_clock_stm32f446 :: "clk_status \<Rightarrow> clk_config \<Rightarrow> stm_clk \<Rightarrow> stm_clk option" where
  "enable_clock_stm32f446 hw c s = do {
     let s = f4_start_pll (f446_pllcfgr c) c s;
     let s = enable_pclock F446 0x40007000 s;
     let s = wr PWR_CR (push_bit 14 3 OR 0x10000) s;
     s \<leftarrow> await hw PWR_CSR 0x10000 0x10000 s;
     let s = wr PWR_CR (push_bit 14 3 OR 0x10000 OR 0x20000) s;
     s \<leftarrow> await hw PWR_CSR 0x20000 0x20000 s;
     (if CONFIG_USB c then do {
        let s = wr RCC_PLLSAICFGR (f446_pllsaicfgr c) s;
        let s = or_reg RCC_CR 0x10000000 s;
        s \<leftarrow> await hw RCC_CR 0x20000000 0x20000000 s;
        Some (wr RCC_DCKCFGR2 0x8000000 s)
      } else Some s)
   }"

definition f4_clock_setup :: "clk_status \<Rightarrow> clk_config \<Rightarrow> stm_clk \<Rightarrow> stm_clk option" where
  "f4_clock_setup hw c s = do {
     s \<leftarrow> (if CONFIG_MACH c = F207 then Some (enable_clock_stm32f20x c s)
           else if CONFIG_MACH c = F401 \<or> CONFIG_MACH c = F4x5 then Some (enable_clock_stm32f40x c s)
           else enable_clock_stm32f446 hw c s);
     let s = wr FLASH_ACR (5 OR 0x200 OR 0x400 OR 0x100) s;
     s \<leftarrow> await hw RCC_CR RCC_CR_PLLRDY RCC_CR_PLLRDY s;
     let s = (if CONFIG_MACH c = F401 then wr RCC_CFGR (0x1000 OR 0x8000 OR RCC_CFGR_SW_PLL) s
              else wr RCC_CFGR (0x1400 OR 0xa000 OR RCC_CFGR_SW_PLL) s);
     await hw RCC_CFGR RCC_CFGR_SWS_Msk RCC_CFGR_SWS_PLL s
   }"

definition f4_armcm_main :: "clk_env \<Rightarrow> clk_config \<Rightarrow> stm_clk \<Rightarrow> stm_clk option" where
  "f4_armcm_main e c s = do {
     let s = wr SCB_VTOR (VectorTable e) (SystemInit e (dfu_reboot_check s));
     let s = wr (ENR APB2) 0 (wr (ENR APB1) 0 (wr (ENR AHB2) 0 (wr (ENR AHB1) 0x38000 s)));
     f4_clock_setup (clk_hw e) c s
   }"

section \<open>STM32G0\<close>

definition g0_pllcfgr :: "clk_config \<Rightarrow> u32" where
  "g0_pllcfgr c =
     (let pll_base = 4000000; pll_freq = 192000000;
          pllcfgr = (if \<not> CLOCK_REF_INTERNAL c then 3 OR push_bit 4 (CLOCK_REF_FREQ c div pll_base - 1)
                     else 2 OR push_bit 4 (16000000 div pll_base - 1));
          pllcfgr = pllcfgr OR push_bit 8 (pll_freq div pll_base);
          pllcfgr = pllcfgr OR push_bit 29 (pll_freq div CLOCK_FREQ c - 1);
          pllcfgr = pllcfgr OR (push_bit 25 (pll_freq div FREQ_USB - 1) OR 0x1000000)
      in pllcfgr OR 0x10000000)"

definition g0_clock_setup :: "clk_status \<Rightarrow> clk_config \<Rightarrow> stm_clk \<Rightarrow> stm_clk option" where
  "g0_clock_setup hw c s = do {
     let s = (if \<not> CLOCK_REF_INTERNAL c then or_reg RCC_CR RCC_CR_HSEON s else s);
     let s = wr RCC_PLLCFGR (g0_pllcfgr c) s;
     let s = or_reg RCC_CR RCC_CR_PLLON s;
     s \<leftarrow> await hw RCC_CR RCC_CR_PLLRDY RCC_CR_PLLRDY s;
     let s = wr RCC_CFGR 2 s;
     s \<leftarrow> await hw RCC_CFGR 0x38 (push_bit 3 2) s;
     Some (wr RCC_CCIPR2 (push_bit 12 2) s)
   }"

definition g0_armcm_main :: "clk_env \<Rightarrow> clk_config \<Rightarrow> stm_clk \<Rightarrow> stm_clk option" where
  "g0_armcm_main e c s = do {
     let hw = clk_hw e;
     let s = or_reg SYSCFG_CFGR1 (0x200 OR 0x400) s;
     let s = wr SCB_VTOR (VectorTable e) s;
     let s = or_reg RCC_CR 0x100 s;
     s \<leftarrow> await hw RCC_CR 0x400 0x400 s;
     let s = wr RCC_CFGR 0 s;
     let s = wr RCC_CR 0x100 s;
     s \<leftarrow> await hw RCC_CR RCC_CR_PLLRDY 0 s;
     let s = wr RCC_PLLCFGR 0x1000 s;
     let s = wr (ENR APB2) 0 (wr (ENR APB1) 0 (wr (ENR AHB) 0x100 (wr (ENR IOP) 0 s)));
     let s = dfu_reboot_check s;
     let acr = (0x40600 AND NOT 7) OR 2;
     let acr = acr OR (0x200 OR 0x100);
     let s = wr FLASH_ACR acr s;
     g0_clock_setup hw c s
   }"

section \<open>STM32G4\<close>

definition g4_pllcfgr :: "clk_config \<Rightarrow> u32" where
  "g4_pllcfgr c =
     (let pll_base = 4000000; pll_freq = CLOCK_FREQ c * 2;
          pllcfgr = (if \<not> CLOCK_REF_INTERNAL c then 3 OR push_bit 4 (CLOCK_REF_FREQ c div pll_base - 1)
                     else 2 OR push_bit 4 (16000000 div pll_base - 1))
      in pllcfgr OR push_bit 8 (pll_freq div pll_base) OR push_bit 25 0)"

definition enable_clock_stm32g4 :: "clk_status \<Rightarrow> clk_config \<Rightarrow> stm_clk \<Rightarrow> stm_clk option" where
  "enable_clock_stm32g4 hw c s = do {
     s \<leftarrow> (if \<not> CLOCK_REF_INTERNAL c
           then await hw RCC_CR RCC_CR_HSERDY RCC_CR_HSERDY (or_reg RCC_CR RCC_CR_HSEON s)
           else await hw RCC_CR 0x400 0x400 (or_reg RCC_CR 0x100 s));
     let s = wr RCC_PLLCFGR (g4_pllcfgr c) s;
     let s = or_reg RCC_CR RCC_CR_PLLON s;
     s \<leftarrow> (if CONFIG_USB c then do {
             s \<leftarrow> await hw RCC_CRRCR 2 2 (or_reg RCC_CRRCR 1 s);
             Some (or_reg CRS_CR (0x40 OR 0x20) (enable_pclock G431 0x40002000 s))
           } else Some s);
     Some (wr RCC_CCIPR (push_bit 24 2) s)
   }"

definition g4_flash_latency :: "clk_config \<Rightarrow> u32" where
  "g4_flash_latency c =
     (if CLOCK_FREQ c > 150000000 then 5 else if CLOCK_FREQ c > 120000000 then 4
      else if CLOCK_FREQ c > 90000000 then 3 else if CLOCK_FREQ c > 60000000 then 2
      else if CLOCK_FREQ c > 30000000 then 1 else 0)"

definition g4_clock_setup :: "clk_status \<Rightarrow> clk_config \<Rightarrow> stm_clk \<Rightarrow> stm_clk option" where
  "g4_clock_setup hw c s = do {
     s \<leftarrow> enable_clock_stm32g4 hw c s;
     let s = wr FLASH_ACR (g4_flash_latency c OR 0x200 OR 0x400 OR 0x100 OR 0x40000) s;
     let s = enable_pclock G431 0x40007000 s;
     let s = or_reg PWR_CR3 0x400 s;
     s \<leftarrow> await hw RCC_CR RCC_CR_PLLRDY RCC_CR_PLLRDY s;
     let s = or_reg RCC_PLLCFGR 0x1000000 s;
     let s = wr RCC_CFGR (0 OR 0x400 OR 0x2000 OR 3) s;
     await hw RCC_CFGR RCC_CFGR_SWS_Msk 0xc s
   }"

definition g4_armcm_main :: "clk_env \<Rightarrow> clk_config \<Rightarrow> stm_clk \<Rightarrow> stm_clk option" where
  "g4_armcm_main e c s =
     g4_clock_setup (clk_hw e) c (wr SCB_VTOR (VectorTable e) (SystemInit e (dfu_reboot_check s)))"

section \<open>STM32H7\<close>

abbreviation (input) RCC_CR_HSION :: u32 where "RCC_CR_HSION \<equiv> 1"

definition h7_pllckselr :: "clk_config \<Rightarrow> u32" where
  "h7_pllckselr c =
     (let pll_base = (if CONFIG_STM32_CLOCK_REF c = REF_25M then 5000000 else 4000000)
      in if \<not> CLOCK_REF_INTERNAL c then 2 OR push_bit 4 (CLOCK_REF_FREQ c div pll_base)
         else 0 OR push_bit 4 (64000000 div 4000000))"

definition h7_pll1divr :: "clk_config \<Rightarrow> u32" where
  "h7_pll1divr c =
     (let pll_base = (if CONFIG_STM32_CLOCK_REF c = REF_25M then 5000000 else 4000000);
          pll_freq = CLOCK_FREQ c * (if CONFIG_MACH c = H723 then 1 else 2);
          pll_base = (if \<not> CLOCK_REF_INTERNAL c then pll_base else 4000000)
      in push_bit 0 (pll_freq div pll_base - 1) OR push_bit 16 (pll_freq div (CLOCK_FREQ c div 4) - 1)
         OR push_bit 9 (pll_freq div CLOCK_FREQ c - 1))"

definition h7_power :: "clk_status \<Rightarrow> clk_config \<Rightarrow> stm_clk \<Rightarrow> stm_clk option" where
  "h7_power hw c s =
     (if CONFIG_MACH c = H723 then
        await hw PWR_D3CR 0x2000 0x2000 (wr PWR_D3CR (push_bit 14 (if CLOCK_FREQ c > 400000000 then 0 else 3)) s)
      else do {
        s \<leftarrow> await hw PWR_D3CR 0x2000 0x2000 (wr PWR_D3CR (push_bit 14 3) s);
        (if CLOCK_FREQ c > 400000000 then
           await hw PWR_D3CR 0x2000 0x2000 (or_reg SYSCFG_PWRCR 1 (enable_pclock H743 0x58000400 s))
         else Some s)
      })"

text \<open>\<open>clock_setup\<close> in three parts: the voltage and the crystal, the PLL's registers, and from the
  flash's latency to the end. \<open>rcc_cr\<close> is its variable.\<close>

definition h7_switch :: "clk_status \<Rightarrow> clk_config \<Rightarrow> u32 \<Rightarrow> stm_clk \<Rightarrow> stm_clk option" where
  "h7_switch hw c rcc_cr s = do {
     let s = wr SCB_DCACHE 1 (wr SCB_ICACHE 1 s);
     let flash_acr_latency = (if CLOCK_FREQ c > 450000000 then 4 else 2);
     s \<leftarrow> await hw FLASH_ACR flash_acr_latency flash_acr_latency (wr FLASH_ACR (flash_acr_latency OR push_bit 4 2) s);
     let s = wr RCC_D1CFGR (8 OR 0x40) s;
     let s = wr RCC_D2CFGR (0x40 OR 0x400) s;
     let s = wr RCC_D3CFGR 0x40 s;
     let rcc_cr = rcc_cr OR RCC_CR_PLLON;
     s \<leftarrow> await hw RCC_CR RCC_CR_PLLRDY RCC_CR_PLLRDY (wr RCC_CR rcc_cr s);
     s \<leftarrow> await hw RCC_CFGR 0x38 0x18 (wr RCC_CFGR 3 s);
     let s = wr RCC_D2CCIP1R (push_bit 28 1) s;
     (if CONFIG_USB c then do {
        let rcc_cr = rcc_cr OR 0x1000;
        s \<leftarrow> await hw RCC_CR 0x2000 0x2000 (wr RCC_CR rcc_cr s);
        let s = enable_pclock (CONFIG_MACH c) 0x40008400 s;
        let s = wr CRS_CFGR (regs s CRS_CFGR AND NOT 0x30000000) s;
        let s = wr CRS_CR ((regs s CRS_CR AND 0x3f00) OR 0x20 OR 0x40) s;
        Some (wr RCC_D2CCIP2R 0x300000 s)
      } else Some s)
   }"

definition h7_pll_setup :: "clk_status \<Rightarrow> clk_config \<Rightarrow> u32 \<Rightarrow> stm_clk \<Rightarrow> stm_clk option" where
  "h7_pll_setup hw c rcc_cr s = do {
     let s = wr RCC_PLLCKSELR (h7_pllckselr c) s;
     let s = wr RCC_PLLCFGR (push_bit 2 2 OR 0x20000 OR 0x10000) s;
     let s = wr RCC_PLL1DIVR (h7_pll1divr c) s;
     s \<leftarrow> h7_power hw c s;
     h7_switch hw c rcc_cr s
   }"

definition h7_clock_setup :: "clk_status \<Rightarrow> clk_config \<Rightarrow> stm_clk \<Rightarrow> stm_clk option" where
  "h7_clock_setup hw c s = do {
     s \<leftarrow> await hw PWR_CSR1 0x2000 0x2000 (wr PWR_CR3 2 s);
     let rcc_cr = RCC_CR_HSION;
     (if \<not> CLOCK_REF_INTERNAL c then do {
        let rcc_cr = rcc_cr OR RCC_CR_HSEON;
        s \<leftarrow> await hw RCC_CR RCC_CR_HSERDY RCC_CR_HSERDY (wr RCC_CR rcc_cr s);
        h7_pll_setup hw c rcc_cr s
      } else h7_pll_setup hw c rcc_cr s)
   }"

definition h7_armcm_main :: "clk_env \<Rightarrow> clk_config \<Rightarrow> stm_clk \<Rightarrow> stm_clk option" where
  "h7_armcm_main e c s = do {
     let s = SystemInit e s;
     let s = fold (\<lambda>r. wr r 0) [RCC_D1CCIPR, RCC_D2CCIP1R, RCC_D2CCIP2R, RCC_D3CCIPR,
       ENR APB1L, ENR APB1H, ENR APB2, ENR APB3, ENR APB4, ENR AHB1] s;
     let s = wr SCB_VTOR (VectorTable e) s;
     h7_clock_setup (clk_hw e) c (dfu_reboot_check s)
   }"

text \<open>\<open>armcm_main\<close> up to the call of \<open>sched_main\<close>: the function of the part's source file.\<close>

definition stm_armcm_main :: "clk_env \<Rightarrow> clk_config \<Rightarrow> stm_clk \<Rightarrow> stm_clk option" where
  "stm_armcm_main e c s =
     (case CONFIG_MACH c of
        F031 \<Rightarrow> f0_armcm_main e c s | F042 \<Rightarrow> f0_armcm_main e c s | F070 \<Rightarrow> f0_armcm_main e c s
      | F072 \<Rightarrow> f0_armcm_main e c s | F103 \<Rightarrow> f1_armcm_main e c s
      | F207 \<Rightarrow> f4_armcm_main e c s | F401 \<Rightarrow> f4_armcm_main e c s | F4x5 \<Rightarrow> f4_armcm_main e c s
      | F446 \<Rightarrow> f4_armcm_main e c s
      | G0B0 \<Rightarrow> g0_armcm_main e c s | G0B1 \<Rightarrow> g0_armcm_main e c s
      | G431 \<Rightarrow> g4_armcm_main e c s
      | H723 \<Rightarrow> h7_armcm_main e c s | H743 \<Rightarrow> h7_armcm_main e c s)"

end
