(* ===== verification/StmClockProps.thy ===== *)
theory StmClockProps
  imports StmClock
begin

text \<open>
  What the start-up code of the STM32 boards leaves in the clock registers, and the frequencies that the
  registers select according to the reference manuals: exact rationals, compared for every
  part and every crystal with the configured ones.
\<close>

section \<open>Waits\<close>

lemma wait_reg_returns:
  assumes "ready (rd (j + n))"
  shows "\<exists>k. wait_reg ready rd j = Some k"
  using assms
proof (induction n arbitrary: j)
  case 0
  then show ?case by (subst wait_reg.simps) simp
next
  case (Suc n)
  then have "\<exists>k. wait_reg ready rd (Suc j) = Some k" by simp
  then show ?case by (subst wait_reg.simps) simp
qed

lemma await_Some_iff:
  "await hw r msk v s = Some s' \<longleftrightarrow>
     (\<exists>k. wait_reg (\<lambda>x. x AND msk = v) (hw (regs s) r) 0 = Some k) \<and> s' = s\<lparr>clk_log := clk_log s @ [Saw r msk v]\<rparr>"
  by (auto simp: await_def bind_eq_Some_conv)

lemma await_SomeD:
  "await hw r msk v s = Some s' \<Longrightarrow> s' = s\<lparr>clk_log := clk_log s @ [Saw r msk v]\<rparr>"
  by (simp add: await_Some_iff)

lemma await_regs: "await hw r k v t = Some t' \<Longrightarrow> regs t' = regs t"
  by (auto dest: await_SomeD)

section \<open>What is written\<close>

lemma wr_regs [simp]: "regs (wr r v s) = (regs s)(r := v)"
  by (simp add: wr_def)

lemma wr_mem [simp]: "clk_mem (wr r v s) = clk_mem s"
  by (simp add: wr_def)

lemma wr_log [simp]: "clk_log (wr r v s) = clk_log s @ [Wrote r v]"
  by (simp add: wr_def)

definition is_line :: "stm_reg \<Rightarrow> bool" where
  "is_line r \<longleftrightarrow> (\<exists>b. r = ENR b \<or> r = RSTR b)"

lemma is_line_simps [simp]: "is_line (ENR b)" "is_line (RSTR b)"
  "\<not> is_line RCC_CR" "\<not> is_line RCC_CFGR" "\<not> is_line RCC_CFGR2" "\<not> is_line RCC_PLLCFGR" "\<not> is_line RCC_CR2"
  "\<not> is_line FLASH_ACR" "\<not> is_line PWR_CR" "\<not> is_line RCC_D1CFGR" "\<not> is_line RCC_D2CFGR"
  "\<not> is_line RCC_PLLCKSELR" "\<not> is_line RCC_PLL1DIVR" "\<not> is_line CRS_CR" "\<not> is_line CRS_CFGR" "\<not> is_line RCC_CRRCR"
  "\<not> is_line PWR_CR3"
  by (simp_all add: is_line_def)

lemmas lookup_defs = f0_lookup_clock_line_def f1_lookup_clock_line_def f4_lookup_clock_line_def
  g0_lookup_clock_line_def g4_lookup_clock_line_def h7_lookup_clock_line_def

lemma lookup_lines:
  "\<exists>b. cl_en (lookup_clock_line m p) = ENR b \<and>
     (cl_rst (lookup_clock_line m p) = None \<or> cl_rst (lookup_clock_line m p) = Some (RSTR b))"
  by (cases m) (auto simp: lookup_defs Let_def)

lemma enable_pclock_regs:
  assumes "\<not> is_line r"
  shows "regs (enable_pclock m p s) r = regs s r"
  using assms lookup_lines [of m p]
  by (auto simp: enable_pclock_def Let_def is_line_def split: option.split)

lemma enable_pclock_log:
  "\<exists>ev. clk_log (enable_pclock m p s) = clk_log s @ ev \<and> (\<forall>e \<in> set ev. \<exists>r v. e = Wrote r v \<and> is_line r)"
  using lookup_lines [of m p]
  by (auto simp: enable_pclock_def Let_def is_line_def split: option.split)

section \<open>The frequencies the registers select\<close>

text \<open>The reference manuals' reading of the clock registers. \<open>fld p w x\<close> is the \<open>w\<close> bits of \<open>x\<close> from
  \<open>p\<close> on; frequencies are exact, in Hz.\<close>

definition fld :: "nat \<Rightarrow> nat \<Rightarrow> u32 \<Rightarrow> nat" where
  "fld p w x = unat (drop_bit p x AND (push_bit w 1 - 1))"

definition crystal :: "clock_ref \<Rightarrow> rat" where
  "crystal ref = of_nat (unat (clock_ref_freq ref))"

definition pll_mul_f01 :: "u32 \<Rightarrow> rat" where
  "pll_mul_f01 cfgr = of_nat (min 16 (fld 18 4 cfgr + 2))"

definition pll_out_f0 :: "clock_ref \<Rightarrow> (stm_reg \<Rightarrow> u32) \<Rightarrow> rat" where
  "pll_out_f0 ref rg =
     (if fld 16 1 (rg RCC_CFGR) = 1 then crystal ref / of_nat (fld 0 4 (rg RCC_CFGR2) + 1) else 8000000 / 2) * pll_mul_f01 (rg RCC_CFGR)"

definition pll_out_f1 :: "clock_ref \<Rightarrow> (stm_reg \<Rightarrow> u32) \<Rightarrow> rat" where
  "pll_out_f1 ref rg =
     (if fld 16 1 (rg RCC_CFGR) = 1 then crystal ref / (if fld 17 1 (rg RCC_CFGR) = 1 then 2 else 1) else 8000000 / 2) * pll_mul_f01 (rg RCC_CFGR)"

definition pll_out_f4 :: "clock_ref \<Rightarrow> (stm_reg \<Rightarrow> u32) \<Rightarrow> rat" where
  "pll_out_f4 ref rg =
     (let x = rg RCC_PLLCFGR in (if fld 22 1 x = 1 then crystal ref else 16000000)
        / of_nat (fld 0 6 x) * of_nat (fld 6 9 x) / of_nat (2 * (fld 16 2 x + 1)))"

definition pll_out_g0 :: "clock_ref \<Rightarrow> (stm_reg \<Rightarrow> u32) \<Rightarrow> rat" where
  "pll_out_g0 ref rg =
     (let x = rg RCC_PLLCFGR in (if fld 0 2 x = 3 then crystal ref else 16000000)
        / of_nat (fld 4 3 x + 1) * of_nat (fld 8 7 x) / of_nat (fld 29 3 x + 1))"

definition pll_out_g4 :: "clock_ref \<Rightarrow> (stm_reg \<Rightarrow> u32) \<Rightarrow> rat" where
  "pll_out_g4 ref rg =
     (let x = rg RCC_PLLCFGR in (if fld 0 2 x = 3 then crystal ref else 16000000)
        / of_nat (fld 4 4 x + 1) * of_nat (fld 8 7 x) / of_nat (2 * (fld 25 2 x + 1)))"

definition pll_out_h7 :: "clock_ref \<Rightarrow> (stm_reg \<Rightarrow> u32) \<Rightarrow> rat" where
  "pll_out_h7 ref rg =
     (let x = rg RCC_PLL1DIVR in (if fld 0 2 (rg RCC_PLLCKSELR) = 2 then crystal ref else 64000000)
        / of_nat (fld 4 6 (rg RCC_PLLCKSELR)) * of_nat (fld 0 9 x + 1) / of_nat (fld 9 7 x + 1))"

text \<open>The system clock, if it is the PLL or the STM32F0's oscillator of 48 MHz.\<close>

definition ppre :: "nat \<Rightarrow> rat" where "ppre f = (if f < 4 then 1 else 2 ^ (f - 3))"

fun sysclk :: "stm_mach \<Rightarrow> clock_ref \<Rightarrow> (stm_reg \<Rightarrow> u32) \<Rightarrow> rat option" where
  "sysclk F103 ref rg = (if fld 0 2 (rg RCC_CFGR) = 2 then Some (pll_out_f1 ref rg) else None)"
| "sysclk F207 ref rg = (if fld 0 2 (rg RCC_CFGR) = 2 then Some (pll_out_f4 ref rg) else None)"
| "sysclk F401 ref rg = (if fld 0 2 (rg RCC_CFGR) = 2 then Some (pll_out_f4 ref rg) else None)"
| "sysclk F4x5 ref rg = (if fld 0 2 (rg RCC_CFGR) = 2 then Some (pll_out_f4 ref rg) else None)"
| "sysclk F446 ref rg = (if fld 0 2 (rg RCC_CFGR) = 2 then Some (pll_out_f4 ref rg) else None)"
| "sysclk G0B0 ref rg = (if fld 0 3 (rg RCC_CFGR) = 2 then Some (pll_out_g0 ref rg) else None)"
| "sysclk G0B1 ref rg = (if fld 0 3 (rg RCC_CFGR) = 2 then Some (pll_out_g0 ref rg) else None)"
| "sysclk G431 ref rg = (if fld 0 2 (rg RCC_CFGR) = 3 then Some (pll_out_g4 ref rg) else None)"
| "sysclk H723 ref rg = (if fld 0 3 (rg RCC_CFGR) = 3 then Some (pll_out_h7 ref rg) else None)"
| "sysclk H743 ref rg = (if fld 0 3 (rg RCC_CFGR) = 3 then Some (pll_out_h7 ref rg) else None)"
| "sysclk _ ref rg = (if fld 0 2 (rg RCC_CFGR) = 2 then Some (pll_out_f0 ref rg)
     else if fld 0 2 (rg RCC_CFGR) = 3 then Some 48000000 else None)"

text \<open>The divider between it and the bus of the UART, CAN and timer peripherals.\<close>

fun apb_div :: "stm_mach \<Rightarrow> (stm_reg \<Rightarrow> u32) \<Rightarrow> rat" where
  "apb_div F207 rg = ppre (fld 10 3 (rg RCC_CFGR))"
| "apb_div F401 rg = ppre (fld 10 3 (rg RCC_CFGR))"
| "apb_div F4x5 rg = ppre (fld 10 3 (rg RCC_CFGR))"
| "apb_div F446 rg = ppre (fld 10 3 (rg RCC_CFGR))"
| "apb_div G0B0 rg = ppre (fld 12 3 (rg RCC_CFGR))"
| "apb_div G0B1 rg = ppre (fld 12 3 (rg RCC_CFGR))"
| "apb_div H723 rg = (if fld 3 1 (rg RCC_D1CFGR) = 1 then 2 ^ (fld 0 3 (rg RCC_D1CFGR) + 1) else 1) * ppre (fld 4 3 (rg RCC_D2CFGR))"
| "apb_div H743 rg = (if fld 3 1 (rg RCC_D1CFGR) = 1 then 2 ^ (fld 0 3 (rg RCC_D1CFGR) + 1) else 1) * ppre (fld 4 3 (rg RCC_D2CFGR))"
| "apb_div _ rg = ppre (fld 8 3 (rg RCC_CFGR))"

lemmas pll_defs = pll_out_f0_def pll_out_f1_def pll_out_f4_def pll_out_g0_def pll_out_g4_def pll_out_h7_def
  crystal_def pll_mul_f01_def fld_def ppre_def

section \<open>The registers after the start-up\<close>

lemma f0_pll_setup_regs:
  assumes "f0_pll_setup hw c s = Some s'"
  shows "regs s' RCC_CFGR = f0_pll_cfgr c OR 2 \<and> regs s' RCC_CFGR2 = regs s RCC_CFGR2"
  using assms by (auto simp: f0_pll_setup_def bind_eq_Some_conv Let_def dest!: await_SomeD)

lemma f0_hsi48_setup_regs:
  assumes "f0_hsi48_setup hw c s = Some s'" "CONFIG_MACH c \<in> {F042, F072}"
  shows "regs s' RCC_CFGR = 3 \<and> regs s' RCC_CFGR2 = regs s RCC_CFGR2"
  using assms by (auto simp: f0_hsi48_setup_def bind_eq_Some_conv Let_def enable_pclock_regs dest!: await_SomeD)

lemma f0_hsi14_setup_regs:
  assumes "f0_hsi14_setup hw s = Some s'" "r \<noteq> RCC_CR2"
  shows "regs s' r = regs s r"
  using assms by (auto simp: f0_hsi14_setup_def dest!: await_SomeD)

lemma f0_ram_vectortable_regs: "r \<noteq> SYSCFG_CFGR1 \<Longrightarrow> regs (f0_enable_ram_vectortable e s) r = regs s r"
  by (simp add: f0_enable_ram_vectortable_def Let_def)

lemma f0_main_regs:
  assumes "f0_armcm_main e c s = Some s'"
  shows "regs s' RCC_CFGR = (if CONFIG_MACH c \<in> {F042, F072} \<and> CLOCK_REF_INTERNAL c \<and> CONFIG_USB c then 3
      else f0_pll_cfgr c OR 2) \<and> regs s' RCC_CFGR2 = regs (SystemInit e s) RCC_CFGR2"
proof -
  let ?hsi48 = "CONFIG_MACH c \<in> {F042, F072} \<and> CLOCK_REF_INTERNAL c \<and> CONFIG_USB c"
  let ?s0 = "enable_pclock (CONFIG_MACH c) 0x40010000 (SystemInit e s)"
  let ?s1 = "if CONFIG_ARMCM_RAM_VECTORTABLE c \<and> deployer_active e then f0_enable_ram_vectortable e ?s0 else ?s0"
  have cfgr2: "regs (wr FLASH_ACR (1 OR 0x10) ?s1) RCC_CFGR2 = regs (SystemInit e s) RCC_CFGR2"
    by (simp add: f0_ram_vectortable_regs enable_pclock_regs)
  from assms obtain s2 s3 where
    s2: "(if ?hsi48 then f0_hsi48_setup (clk_hw e) c (wr FLASH_ACR (1 OR 0x10) ?s1)
          else f0_pll_setup (clk_hw e) c (wr FLASH_ACR (1 OR 0x10) ?s1)) = Some s2"
    and s3: "f0_hsi14_setup (clk_hw e) s2 = Some s3"
    and s': "Some (if CONFIG_MACH c = F042 \<and> CONFIG_STM32_PA11_PA12_REMAP c then or_reg SYSCFG_CFGR1 0x10 s3 else s3) = Some s'"
    unfolding f0_armcm_main_def dfu_reboot_check_def bind_eq_Some_conv Let_def by (elim exE conjE)
  have "regs s2 RCC_CFGR = (if ?hsi48 then 3 else f0_pll_cfgr c OR 2) \<and> regs s2 RCC_CFGR2 = regs (SystemInit e s) RCC_CFGR2"
  proof (cases ?hsi48)
    case True
    note f0_hsi48_setup_regs [OF s2 [unfolded if_P [OF True]] conjunct1 [OF True]]
    then show ?thesis unfolding cfgr2 if_P [OF True] .
  next
    case False
    note f0_pll_setup_regs [OF s2 [unfolded if_not_P [OF False]]]
    then show ?thesis unfolding cfgr2 if_not_P [OF False] .
  qed
  moreover have "regs s' r = regs s3 r" if "r \<noteq> SYSCFG_CFGR1" for r
    using s' [symmetric] that by (cases "CONFIG_MACH c = F042 \<and> CONFIG_STM32_PA11_PA12_REMAP c") (simp_all add: fun_upd_other)
  then have "regs s' RCC_CFGR = regs s2 RCC_CFGR \<and> regs s' RCC_CFGR2 = regs s2 RCC_CFGR2"
    by (simp add: f0_hsi14_setup_regs [OF s3])
  ultimately show ?thesis by (simp only:)
qed

lemma f1_main_regs:
  assumes "f1_armcm_main e c s = Some s'"
  shows "regs s' RCC_CFGR = f1_cfgr c OR 2"
  using assms
  by (auto simp: f1_armcm_main_def f1_clock_setup_def f1_alternative_remap_def
      bind_eq_Some_conv Let_def enable_pclock_regs dest!: await_SomeD split: if_splits)

lemma f4_start_pll_regs: "regs (f4_start_pll v c s) RCC_PLLCFGR = v"
  by (simp add: f4_start_pll_def Let_def)

lemma enable_clock_stm32f446_regs:
  assumes "enable_clock_stm32f446 hw c s = Some s'"
  shows "regs s' RCC_PLLCFGR = f446_pllcfgr c"
proof -
  obtain a t1 where
    a: "await hw PWR_CSR 0x10000 0x10000 (wr PWR_CR (push_bit 14 3 OR 0x10000)
          (enable_pclock F446 0x40007000 (f4_start_pll (f446_pllcfgr c) c s))) = Some a"
    and b: "await hw PWR_CSR 0x20000 0x20000 (wr PWR_CR (push_bit 14 3 OR 0x10000 OR 0x20000) a) = Some t1"
    and s': "(if CONFIG_USB c then do {
        let s = wr RCC_PLLSAICFGR (f446_pllsaicfgr c) t1;
        let s = or_reg RCC_CR 0x10000000 s;
        s \<leftarrow> await hw RCC_CR 0x20000000 0x20000000 s;
        Some (wr RCC_DCKCFGR2 0x8000000 s)
      } else Some t1) = Some s'"
    using assms unfolding enable_clock_stm32f446_def bind_eq_Some_conv Let_def by (elim exE conjE)
  have t1: "regs t1 RCC_PLLCFGR = f446_pllcfgr c"
    by (simp add: await_regs [OF a] await_regs [OF b] enable_pclock_regs f4_start_pll_regs)
  show ?thesis
  proof (cases "CONFIG_USB c")
    case True
    then obtain t2 where "await hw RCC_CR 0x20000000 0x20000000
        (or_reg RCC_CR 0x10000000 (wr RCC_PLLSAICFGR (f446_pllsaicfgr c) t1)) = Some t2"
      and "s' = wr RCC_DCKCFGR2 0x8000000 t2"
      using s' by (auto simp: bind_eq_Some_conv Let_def)
    then show ?thesis using t1 by (simp add: await_regs)
  qed (use s' t1 in simp)
qed

lemma f4_main_regs:
  assumes "f4_armcm_main e c s = Some s'"
  shows "regs s' RCC_CFGR = (if CONFIG_MACH c = F401 then 0x1000 OR 0x8000 OR 2 else 0x1400 OR 0xa000 OR 2) \<and>
    regs s' RCC_PLLCFGR = (if CONFIG_MACH c = F207 then f20x_pllcfgr c
      else if CONFIG_MACH c = F401 \<or> CONFIG_MACH c = F4x5 then f40x_pllcfgr c else f446_pllcfgr c)"
proof -
  obtain t0 where "f4_clock_setup (clk_hw e) c t0 = Some s'" using assms by (auto simp: f4_armcm_main_def Let_def)
  then obtain t1 t2 where
    t1: "(if CONFIG_MACH c = F207 then Some (enable_clock_stm32f20x c t0)
           else if CONFIG_MACH c = F401 \<or> CONFIG_MACH c = F4x5 then Some (enable_clock_stm32f40x c t0)
           else enable_clock_stm32f446 (clk_hw e) c t0) = Some t1"
    and t2: "await (clk_hw e) RCC_CR 0x2000000 0x2000000 (wr FLASH_ACR (5 OR 0x200 OR 0x400 OR 0x100) t1) = Some t2"
    and s': "await (clk_hw e) RCC_CFGR 0xc 8 (if CONFIG_MACH c = F401 then wr RCC_CFGR (0x1000 OR 0x8000 OR 2) t2
              else wr RCC_CFGR (0x1400 OR 0xa000 OR 2) t2) = Some s'"
    unfolding f4_clock_setup_def bind_eq_Some_conv Let_def by (elim exE conjE)
  have "regs t1 RCC_PLLCFGR = (if CONFIG_MACH c = F207 then f20x_pllcfgr c
      else if CONFIG_MACH c = F401 \<or> CONFIG_MACH c = F4x5 then f40x_pllcfgr c else f446_pllcfgr c)"
    using t1 by (auto simp: enable_clock_stm32f20x_def enable_clock_stm32f40x_def f4_start_pll_regs
        enable_clock_stm32f446_regs split: if_splits)
  then show ?thesis using await_regs [OF s'] await_regs [OF t2] by simp
qed

lemma g0_main_regs:
  assumes "g0_armcm_main e c s = Some s'"
  shows "regs s' RCC_CFGR = 2 \<and> regs s' RCC_PLLCFGR = g0_pllcfgr c"
  using assms
  by (auto simp: g0_armcm_main_def g0_clock_setup_def bind_eq_Some_conv Let_def dest!: await_SomeD split: if_splits)

lemma g4_main_regs:
  assumes "g4_armcm_main e c s = Some s'"
  shows "regs s' RCC_CFGR = (0 OR 0x400 OR 0x2000 OR 3) \<and> regs s' RCC_PLLCFGR = g4_pllcfgr c OR 0x1000000"
  using assms
  by (auto simp: g4_armcm_main_def g4_clock_setup_def enable_clock_stm32g4_def bind_eq_Some_conv Let_def enable_pclock_regs
      dest!: await_SomeD split: if_splits)

text \<open>The STM32H7, up to its PLL and from there on.\<close>

lemma h7_power_regs:
  assumes "h7_power hw c s = Some s'" "r \<notin> {PWR_D3CR, SYSCFG_PWRCR}" "\<not> is_line r"
  shows "regs s' r = regs s r"
  using assms(1)
  by (cases "CONFIG_MACH c = H723"; cases "CLOCK_FREQ c > 400000000")
    (use assms(2,3) in \<open>auto simp: h7_power_def bind_eq_Some_conv enable_pclock_regs dest!: await_regs\<close>)

lemma h7_switch_regs:
  assumes "h7_switch hw c rcc_cr s = Some s'"
  shows "regs s' RCC_CFGR = 3 \<and> regs s' RCC_PLLCKSELR = regs s RCC_PLLCKSELR \<and> regs s' RCC_PLL1DIVR = regs s RCC_PLL1DIVR \<and>
    regs s' RCC_D1CFGR = (8 OR 0x40) \<and> regs s' RCC_D2CFGR = (0x40 OR 0x400)"
proof -
  let ?ws = "if CLOCK_FREQ c > 450000000 then 4 else 2"
  obtain t1 t2 t3 where
    u: "await hw FLASH_ACR ?ws ?ws (wr FLASH_ACR (?ws OR push_bit 4 2) (wr SCB_DCACHE 1 (wr SCB_ICACHE 1 s))) = Some t1"
      "await hw RCC_CR 0x2000000 0x2000000 (wr RCC_CR (rcc_cr OR 0x1000000) (wr RCC_D3CFGR 0x40
         (wr RCC_D2CFGR (0x40 OR 0x400) (wr RCC_D1CFGR (8 OR 0x40) t1)))) = Some t2"
      "await hw RCC_CFGR 0x38 0x18 (wr RCC_CFGR 3 t2) = Some t3"
    and rest: "(if CONFIG_USB c then do {
        let rcc_cr = (rcc_cr OR 0x1000000) OR 0x1000;
        s \<leftarrow> await hw RCC_CR 0x2000 0x2000 (wr RCC_CR rcc_cr (wr RCC_D2CCIP1R (push_bit 28 1) t3));
        let s = enable_pclock (CONFIG_MACH c) 0x40008400 s;
        let s = wr CRS_CFGR (regs s CRS_CFGR AND NOT 0x30000000) s;
        let s = wr CRS_CR ((regs s CRS_CR AND 0x3f00) OR 0x20 OR 0x40) s;
        Some (wr RCC_D2CCIP2R 0x300000 s)
      } else Some (wr RCC_D2CCIP1R (push_bit 28 1) t3)) = Some s'"
    using assms unfolding h7_switch_def bind_eq_Some_conv Let_def by (elim exE conjE)
  have "regs s' r = regs t3 r" if "r \<notin> {RCC_CR, CRS_CFGR, CRS_CR, RCC_D2CCIP1R, RCC_D2CCIP2R}" "\<not> is_line r" for r
    using rest that by (cases "CONFIG_USB c") (auto simp: bind_eq_Some_conv Let_def enable_pclock_regs dest!: await_regs)
  then show ?thesis by (simp add: await_regs [OF u(1)] await_regs [OF u(2)] await_regs [OF u(3)])
qed

lemma h7_pll_setup_regs:
  assumes "h7_pll_setup hw c rcc_cr s = Some s'"
  shows "regs s' RCC_CFGR = 3 \<and> regs s' RCC_PLLCKSELR = h7_pllckselr c \<and> regs s' RCC_PLL1DIVR = h7_pll1divr c \<and>
    regs s' RCC_D1CFGR = (8 OR 0x40) \<and> regs s' RCC_D2CFGR = (0x40 OR 0x400)"
proof -
  obtain t where t: "h7_power hw c (wr RCC_PLL1DIVR (h7_pll1divr c) (wr RCC_PLLCFGR (push_bit 2 2 OR 0x20000 OR 0x10000)
      (wr RCC_PLLCKSELR (h7_pllckselr c) s))) = Some t" and "h7_switch hw c rcc_cr t = Some s'"
    using assms unfolding h7_pll_setup_def bind_eq_Some_conv Let_def by (elim exE conjE)
  then show ?thesis using h7_switch_regs [of hw c rcc_cr t s'] by (simp add: h7_power_regs [OF t])
qed

lemma h7_main_regs:
  assumes "h7_armcm_main e c s = Some s'"
  shows "regs s' RCC_CFGR = 3 \<and> regs s' RCC_PLLCKSELR = h7_pllckselr c \<and> regs s' RCC_PLL1DIVR = h7_pll1divr c \<and>
    regs s' RCC_D1CFGR = (8 OR 0x40) \<and> regs s' RCC_D2CFGR = (0x40 OR 0x400)"
proof -
  obtain rcc_cr t where "h7_pll_setup (clk_hw e) c rcc_cr t = Some s'"
    using assms by (auto simp: h7_armcm_main_def h7_clock_setup_def bind_eq_Some_conv Let_def split: if_splits)
  then show ?thesis by (rule h7_pll_setup_regs)
qed

section \<open>The clock is the one that is configured\<close>

text \<open>The crystals with which the dividers do not come out.\<close>

definition wrong_clock :: "(stm_mach \<times> clock_ref) set" where
  "wrong_clock = {F031, F042, F070, F072, F103} \<times> {REF_20M, REF_25M, REF_32M} \<union>
     {F446, G0B0, G0B1, G431} \<times> {REF_25M}"

definition clock_right :: "clk_config \<Rightarrow> (stm_reg \<Rightarrow> u32) \<Rightarrow> bool" where
  "clock_right c rg \<longleftrightarrow>
     (let m = CONFIG_MACH c; ref = CONFIG_STM32_CLOCK_REF c
      in sysclk m ref rg = Some (of_nat (unat (clock_freq m ref))) \<and>
         of_nat (unat (clock_freq m ref)) / apb_div m rg = of_nat (unat (get_pclock_frequency m ref)))"

lemma not_mask_18: "NOT (mask 18) = (0xfffc0000 :: u32)"
  by (simp add: mask_eq_exp_minus_1)

lemma f0_family:
  assumes "m \<in> {F031, F042, F070, F072}"
  shows "sysclk m ref rg = (if fld 0 2 (rg RCC_CFGR) = 2 then Some (pll_out_f0 ref rg)
       else if fld 0 2 (rg RCC_CFGR) = 3 then Some 48000000 else None)"
    "apb_div m rg = ppre (fld 8 3 (rg RCC_CFGR))" "clock_freq m ref = 48000000" "get_pclock_frequency m ref = 48000000"
  using assms by auto

lemma f0_pll_cfgr_value:
  assumes "CONFIG_MACH c \<in> {F031, F042, F070, F072}"
  shows "f0_pll_cfgr c OR 2 = (case CONFIG_STM32_CLOCK_REF c of REF_8M \<Rightarrow> 0x110002 | REF_12M \<Rightarrow> 0x90002
    | REF_16M \<Rightarrow> 0x50002 | REF_20M \<Rightarrow> 0x10002 | REF_24M \<Rightarrow> 0x10002 | REF_25M \<Rightarrow> 0xfffd0002 | REF_32M \<Rightarrow> 0xfffd0002
    | REF_INTERNAL \<Rightarrow> 0x280002)"
  using assms
  by (cases "CONFIG_STM32_CLOCK_REF c") (auto simp: f0_pll_cfgr_def Let_def not_mask_18)

lemma f0_clock_right:
  assumes "f0_armcm_main e c s = Some s'" "regs (SystemInit e s) RCC_CFGR2 AND 0xf = 0" "CONFIG_MACH c \<in> {F031, F042, F070, F072}"
  shows "clock_right c (regs s') \<longleftrightarrow> CONFIG_STM32_CLOCK_REF c \<notin> {REF_20M, REF_25M, REF_32M}"
proof -
  have r2: "regs s' RCC_CFGR2 AND 15 = 0" using f0_main_regs [OF assms(1)] assms(2) by simp
  consider "regs s' RCC_CFGR = 3" "CLOCK_REF_INTERNAL c" | "regs s' RCC_CFGR = f0_pll_cfgr c OR 2"
    using conjunct1 [OF f0_main_regs [OF assms(1)]] by (metis (no_types, lifting))
  then show ?thesis
  proof cases
    case 1
    then show ?thesis by (simp add: clock_right_def f0_family [OF assms(3)] fld_def ppre_def)
  next
    case 2
    then show ?thesis using r2 unfolding f0_pll_cfgr_value [OF assms(3)]
      by (cases "CONFIG_STM32_CLOCK_REF c")
        (simp_all add: clock_right_def f0_family [OF assms(3)] pll_out_f0_def crystal_def pll_mul_f01_def fld_def ppre_def)
  qed
qed

lemma f1_clock_right:
  assumes "f1_armcm_main e c s = Some s'" "CONFIG_MACH c = F103"
  shows "clock_right c (regs s') \<longleftrightarrow> CONFIG_STM32_CLOCK_REF c \<notin> {REF_20M, REF_25M, REF_32M}"
  using f1_main_regs [OF assms(1)] assms(2)
  by (cases "CONFIG_STM32_CLOCK_REF c")
    (simp_all add: clock_right_def f1_cfgr_def pll_defs Let_def not_mask_18)

lemma f20x_value:
  assumes "CONFIG_MACH c = F207"
  shows "f20x_pllcfgr c = (case CONFIG_STM32_CLOCK_REF c of REF_8M \<Rightarrow> 0x5403c08 | REF_12M \<Rightarrow> 0x5403c0c | REF_16M \<Rightarrow> 0x5403c10 | REF_20M \<Rightarrow> 0x5403c14
    | REF_24M \<Rightarrow> 0x5403c18 | REF_25M \<Rightarrow> 0x5403c19 | REF_32M \<Rightarrow> 0x5403c20 | REF_INTERNAL \<Rightarrow> 0x5003c10)"
  using assms by (cases "CONFIG_STM32_CLOCK_REF c") (simp_all add: f20x_pllcfgr_def Let_def)

lemma f401_value:
  assumes "CONFIG_MACH c = F401"
  shows "f40x_pllcfgr c = (case CONFIG_STM32_CLOCK_REF c of REF_8M \<Rightarrow> 0x7412a04 | REF_12M \<Rightarrow> 0x7412a06 | REF_16M \<Rightarrow> 0x7412a08 | REF_20M \<Rightarrow> 0x7412a0a
    | REF_24M \<Rightarrow> 0x7412a0c | REF_25M \<Rightarrow> 0x7415419 | REF_32M \<Rightarrow> 0x7412a10 | REF_INTERNAL \<Rightarrow> 0x7012a08)"
  using assms by (cases "CONFIG_STM32_CLOCK_REF c") (simp_all add: f40x_pllcfgr_def Let_def)

lemma f4x5_value:
  assumes "CONFIG_MACH c = F4x5"
  shows "f40x_pllcfgr c = (case CONFIG_STM32_CLOCK_REF c of REF_8M \<Rightarrow> 0x7402a04 | REF_12M \<Rightarrow> 0x7402a06 | REF_16M \<Rightarrow> 0x7402a08 | REF_20M \<Rightarrow> 0x7402a0a
    | REF_24M \<Rightarrow> 0x7402a0c | REF_25M \<Rightarrow> 0x7405419 | REF_32M \<Rightarrow> 0x7402a10 | REF_INTERNAL \<Rightarrow> 0x7002a08)"
  using assms by (cases "CONFIG_STM32_CLOCK_REF c") (simp_all add: f40x_pllcfgr_def Let_def)

lemma f446_value:
  assumes "CONFIG_MACH c = F446"
  shows "f446_pllcfgr c = (case CONFIG_STM32_CLOCK_REF c of REF_8M \<Rightarrow> 0x67402d04 | REF_12M \<Rightarrow> 0x67402d06 | REF_16M \<Rightarrow> 0x67402d08 | REF_20M \<Rightarrow> 0x67402d0a
    | REF_24M \<Rightarrow> 0x67402d0c | REF_25M \<Rightarrow> 0x67402d0c | REF_32M \<Rightarrow> 0x67402d10 | REF_INTERNAL \<Rightarrow> 0x67002d08)"
  using assms by (cases "CONFIG_STM32_CLOCK_REF c") (simp_all add: f446_pllcfgr_def Let_def)

lemmas f4_values = f20x_value f401_value f4x5_value f446_value

lemma f4_clock_right:
  assumes "f4_armcm_main e c s = Some s'" "CONFIG_MACH c \<in> {F207, F401, F4x5, F446}"
  shows "clock_right c (regs s') \<longleftrightarrow> (CONFIG_MACH c, CONFIG_STM32_CLOCK_REF c) \<noteq> (F446, REF_25M)"
proof -
  note r = f4_main_regs [OF assms(1)]
  consider "CONFIG_MACH c = F207" | "CONFIG_MACH c = F401" | "CONFIG_MACH c = F4x5" | "CONFIG_MACH c = F446"
    using assms(2) by auto
  then show ?thesis
    by cases (cases "CONFIG_STM32_CLOCK_REF c"; use r in \<open>simp add: clock_right_def f4_values pll_out_f4_def crystal_def fld_def ppre_def\<close>)+
qed

lemma g0_value:
  assumes "CONFIG_MACH c = G0B0 \<or> CONFIG_MACH c = G0B1"
  shows "g0_pllcfgr c = (case CONFIG_STM32_CLOCK_REF c of REF_8M \<Rightarrow> 0x57003013 | REF_12M \<Rightarrow> 0x57003023 | REF_16M \<Rightarrow> 0x57003033 | REF_20M \<Rightarrow> 0x57003043
    | REF_24M \<Rightarrow> 0x57003053 | REF_25M \<Rightarrow> 0x57003053 | REF_32M \<Rightarrow> 0x57003073 | REF_INTERNAL \<Rightarrow> 0x57003032)"
  using assms by (cases "CONFIG_STM32_CLOCK_REF c"; elim disjE) (simp_all add: g0_pllcfgr_def Let_def)

lemma g0_clock_right:
  assumes "g0_armcm_main e c s = Some s'" "CONFIG_MACH c \<in> {G0B0, G0B1}"
  shows "clock_right c (regs s') \<longleftrightarrow> CONFIG_STM32_CLOCK_REF c \<noteq> REF_25M"
proof -
  note r = g0_main_regs [OF assms(1)]
  consider "CONFIG_MACH c = G0B0" | "CONFIG_MACH c = G0B1" using assms(2) by auto
  then show ?thesis
    by cases (cases "CONFIG_STM32_CLOCK_REF c"; use r in \<open>simp add: clock_right_def g0_value pll_out_g0_def crystal_def fld_def ppre_def\<close>)+
qed

lemma g4_value:
  assumes "CONFIG_MACH c = G431"
  shows "g4_pllcfgr c = (case CONFIG_STM32_CLOCK_REF c of REF_8M \<Rightarrow> 0x4b13 | REF_12M \<Rightarrow> 0x4b23 | REF_16M \<Rightarrow> 0x4b33 | REF_20M \<Rightarrow> 0x4b43
    | REF_24M \<Rightarrow> 0x4b53 | REF_25M \<Rightarrow> 0x4b53 | REF_32M \<Rightarrow> 0x4b73 | REF_INTERNAL \<Rightarrow> 0x4b32)"
  using assms by (cases "CONFIG_STM32_CLOCK_REF c") (simp_all add: g4_pllcfgr_def Let_def)

lemma g4_clock_right:
  assumes "g4_armcm_main e c s = Some s'" "CONFIG_MACH c = G431"
  shows "clock_right c (regs s') \<longleftrightarrow> CONFIG_STM32_CLOCK_REF c \<noteq> REF_25M"
  using g4_main_regs [OF assms(1)] assms(2)
  by (cases "CONFIG_STM32_CLOCK_REF c")
    (simp_all add: clock_right_def g4_value pll_out_g4_def crystal_def fld_def ppre_def)

lemma h7_pllckselr_value:
  assumes "CONFIG_MACH c \<in> {H723, H743}"
  shows "h7_pllckselr c = (case CONFIG_STM32_CLOCK_REF c of REF_8M \<Rightarrow> 0x22 | REF_12M \<Rightarrow> 0x32 | REF_16M \<Rightarrow> 0x42 | REF_20M \<Rightarrow> 0x52
    | REF_24M \<Rightarrow> 0x62 | REF_25M \<Rightarrow> 0x52 | REF_32M \<Rightarrow> 0x82 | REF_INTERNAL \<Rightarrow> 0x100)"
  using assms by (cases "CONFIG_STM32_CLOCK_REF c") (simp_all add: h7_pllckselr_def Let_def)

lemma h723_value:
  assumes "CONFIG_MACH c = H723"
  shows "h7_pll1divr c = (case CONFIG_STM32_CLOCK_REF c of REF_8M \<Rightarrow> 0x30063 | REF_12M \<Rightarrow> 0x30063 | REF_16M \<Rightarrow> 0x30063 | REF_20M \<Rightarrow> 0x30063
    | REF_24M \<Rightarrow> 0x30063 | REF_25M \<Rightarrow> 0x3004f | REF_32M \<Rightarrow> 0x30063 | REF_INTERNAL \<Rightarrow> 0x30063)"
  using assms by (cases "CONFIG_STM32_CLOCK_REF c") (simp_all add: h7_pll1divr_def Let_def)

lemma h743_value:
  assumes "CONFIG_MACH c = H743"
  shows "h7_pll1divr c = (case CONFIG_STM32_CLOCK_REF c of REF_8M \<Rightarrow> 0x702c7 | REF_12M \<Rightarrow> 0x702c7 | REF_16M \<Rightarrow> 0x702c7 | REF_20M \<Rightarrow> 0x702c7
    | REF_24M \<Rightarrow> 0x702c7 | REF_25M \<Rightarrow> 0x7029f | REF_32M \<Rightarrow> 0x702c7 | REF_INTERNAL \<Rightarrow> 0x702c7)"
  using assms by (cases "CONFIG_STM32_CLOCK_REF c") (simp_all add: h7_pll1divr_def Let_def)

lemma h7_clock_right:
  assumes "h7_armcm_main e c s = Some s'" "CONFIG_MACH c \<in> {H723, H743}"
  shows "clock_right c (regs s')"
proof -
  note r = h7_main_regs [OF assms(1)]
  consider "CONFIG_MACH c = H723" | "CONFIG_MACH c = H743" using assms(2) by auto
  then show ?thesis
    by cases (cases "CONFIG_STM32_CLOCK_REF c"; use r in
      \<open>simp add: clock_right_def h7_pllckselr_value h723_value h743_value pll_out_h7_def crystal_def fld_def ppre_def\<close>)+
qed

end
