(* ===== verification/StmClockRuns.thy ===== *)
theory StmClockRuns
  imports StmClockProps
begin

text \<open>
  The start-up code of the STM32 boards run against status bits that follow what turns them on:
  rules that step through a function's text keep the registers and a monitor of the writes, and
  show for each family that it returns and switches clocks in a safe order. The properties of the
  clocks and of the clock lines are at the end.
\<close>

section \<open>The start-up returns, and switches to a clock that is ready\<close>

text \<open>What the reference manuals say of the status bits: each follows the bit that turns on what it
  reports. \<open>pll_from_crystal\<close> says that the PLL takes its input from the crystal. The internal
  oscillator runs after a reset.\<close>

fun pll_from_crystal :: "stm_mach \<Rightarrow> (stm_reg \<Rightarrow> u32) \<Rightarrow> bool" where
  "pll_from_crystal F207 rg = bit (rg RCC_PLLCFGR) 22"
| "pll_from_crystal F401 rg = bit (rg RCC_PLLCFGR) 22"
| "pll_from_crystal F4x5 rg = bit (rg RCC_PLLCFGR) 22"
| "pll_from_crystal F446 rg = bit (rg RCC_PLLCFGR) 22"
| "pll_from_crystal G0B0 rg = bit (rg RCC_PLLCFGR) 0"
| "pll_from_crystal G0B1 rg = bit (rg RCC_PLLCFGR) 0"
| "pll_from_crystal G431 rg = bit (rg RCC_PLLCFGR) 0"
| "pll_from_crystal H723 rg = bit (rg RCC_PLLCKSELR) 1"
| "pll_from_crystal H743 rg = bit (rg RCC_PLLCKSELR) 1"
| "pll_from_crystal _ rg = bit (rg RCC_CFGR) 16"

abbreviation (input) pll_runs :: "stm_mach \<Rightarrow> (stm_reg \<Rightarrow> u32) \<Rightarrow> bool" where
  "pll_runs m rg \<equiv> bit (rg RCC_CR) 24 \<and> (pll_from_crystal m rg \<longrightarrow> bit (rg RCC_CR) 16)"

definition selects_pll :: "stm_mach \<Rightarrow> u32 \<Rightarrow> bool" where
  "selects_pll m v \<longleftrightarrow> (if m \<in> {G431, H723, H743} then bit v 0 \<and> bit v 1 else bit v 1 \<and> \<not> bit v 0)"

definition answers :: "stm_mach \<Rightarrow> (stm_reg \<Rightarrow> u32) \<Rightarrow> stm_reg \<Rightarrow> u32 \<Rightarrow> u32 \<Rightarrow> bool" where
  "answers m rg r msk v \<longleftrightarrow>
     (r = RCC_CR \<and> msk = 0x20000 \<and> v = 0x20000 \<and> bit (rg RCC_CR) 16) \<or>
     (r = RCC_CR \<and> msk = 0x400 \<and> v = 0x400 \<and> m \<in> {G0B0, G0B1, G431} \<and> bit (rg RCC_CR) 8) \<or>
     (r = RCC_CR \<and> msk = 0x2000000 \<and> v = 0x2000000 \<and> pll_runs m rg) \<or>
     (r = RCC_CR \<and> msk = 0x2000000 \<and> v = 0 \<and> \<not> bit (rg RCC_CR) 24) \<or>
     (r = RCC_CR \<and> msk = 0x20000000 \<and> v = 0x20000000 \<and> m = F446 \<and> bit (rg RCC_CR) 28) \<or>
     (r = RCC_CR \<and> msk = 0x2000 \<and> v = 0x2000 \<and> m \<in> {H723, H743} \<and> bit (rg RCC_CR) 12) \<or>
     (r = RCC_CR2 \<and> msk = 0x20000 \<and> v = 0x20000 \<and> m \<in> {F042, F072} \<and> bit (rg RCC_CR2) 16) \<or>
     (r = RCC_CR2 \<and> msk = 2 \<and> v = 2 \<and> m \<in> {F031, F042, F070, F072} \<and> bit (rg RCC_CR2) 0) \<or>
     (r = RCC_CRRCR \<and> msk = 2 \<and> v = 2 \<and> m = G431 \<and> bit (rg RCC_CRRCR) 0) \<or>
     (r = RCC_CFGR \<and> msk = 0xc \<and> v = 8 \<and> m \<in> {F031, F042, F070, F072, F103, F207, F401, F4x5, F446} \<and>
        selects_pll m (rg RCC_CFGR) \<and> pll_runs m rg) \<or>
     (r = RCC_CFGR \<and> msk = 0xc \<and> v = 0xc \<and> m \<in> {F042, F072} \<and> bit (rg RCC_CFGR) 0 \<and> bit (rg RCC_CFGR) 1 \<and> bit (rg RCC_CR2) 16) \<or>
     (r = RCC_CFGR \<and> msk = 0xc \<and> v = 0xc \<and> m = G431 \<and> selects_pll m (rg RCC_CFGR) \<and> pll_runs m rg \<and> bit (rg RCC_PLLCFGR) 24) \<or>
     (r = RCC_CFGR \<and> msk = 0x38 \<and> v = 0x10 \<and> m \<in> {G0B0, G0B1} \<and> selects_pll m (rg RCC_CFGR) \<and> pll_runs m rg \<and>
        bit (rg RCC_PLLCFGR) 28) \<or>
     (r = RCC_CFGR \<and> msk = 0x38 \<and> v = 0x18 \<and> m \<in> {H723, H743} \<and> selects_pll m (rg RCC_CFGR) \<and> pll_runs m rg \<and>
        bit (rg RCC_PLLCFGR) 16) \<or>
     (r = PWR_CSR \<and> msk = 0x10000 \<and> v = 0x10000 \<and> m = F446 \<and> bit (rg (ENR APB1)) 28 \<and> bit (rg PWR_CR) 16) \<or>
     (r = PWR_CSR \<and> msk = 0x20000 \<and> v = 0x20000 \<and> m = F446 \<and> bit (rg (ENR APB1)) 28 \<and> bit (rg PWR_CR) 16 \<and> bit (rg PWR_CR) 17) \<or>
     (r = PWR_CSR1 \<and> msk = 0x2000 \<and> v = 0x2000 \<and> m \<in> {H723, H743} \<and> bit (rg PWR_CR3) 1) \<or>
     (r = PWR_D3CR \<and> msk = 0x2000 \<and> v = 0x2000 \<and> m \<in> {H723, H743}) \<or>
     (r = FLASH_ACR \<and> v = msk \<and> m \<in> {H723, H743} \<and> rg FLASH_ACR AND msk = msk)"

definition clock_hw_ok :: "stm_mach \<Rightarrow> clk_status \<Rightarrow> bool" where
  "clock_hw_ok m hw \<longleftrightarrow> (\<forall>rg r msk v. answers m rg r msk v \<longrightarrow> (\<exists>k. hw rg r k AND msk = v))"

lemma await_returns:
  assumes "clock_hw_ok m hw" "answers m (regs s) r msk v"
  shows "await hw r msk v s = Some (s\<lparr>clk_log := clk_log s @ [Saw r msk v]\<rparr>)"
proof -
  obtain k where "hw (regs s) r k AND msk = v" using assms unfolding clock_hw_ok_def by blast
  then obtain j where "wait_reg (\<lambda>x. x AND msk = v) (hw (regs s) r) 0 = Some j"
    using wait_reg_returns [of "\<lambda>x. x AND msk = v" "hw (regs s) r" 0 k] by auto
  then show ?thesis by (simp add: await_def)
qed

text \<open>The wait states of the flash that the clock needs, from the data sheets, and a monitor of the
  events: so far every switch to the PLL found it locked and the flash slow enough; is the PLL known to
  be locked; and the wait states that are set.\<close>

fun needed_wait_states :: "stm_mach \<Rightarrow> nat" where
  "needed_wait_states F103 = 2"
| "needed_wait_states F207 = 3"
| "needed_wait_states F401 = 2"
| "needed_wait_states F4x5 = 5"
| "needed_wait_states F446 = 5"
| "needed_wait_states G0B0 = 2"
| "needed_wait_states G0B1 = 2"
| "needed_wait_states G431 = 4"
| "needed_wait_states H723 = 2"
| "needed_wait_states H743 = 2"
| "needed_wait_states _ = 1"

fun clk_monitor :: "stm_mach \<Rightarrow> clk_event \<Rightarrow> bool \<times> bool \<times> nat \<Rightarrow> bool \<times> bool \<times> nat" where
  "clk_monitor m (Wrote r v) (ok, locked, ws) =
     (if r = RCC_CFGR then (ok \<and> (selects_pll m v \<longrightarrow> locked \<and> needed_wait_states m \<le> ws), locked, ws)
      else if r = RCC_CR then (ok, locked \<and> bit v 24, ws)
      else if r = FLASH_ACR then (ok, locked, unat (v AND 7))
      else (ok, locked, ws))"
| "clk_monitor m (Saw r msk v) (ok, locked, ws) =
     (ok, locked \<or> (r = RCC_CR \<and> msk = 0x2000000 \<and> v = 0x2000000), ws)"

definition mon :: "stm_mach \<Rightarrow> clk_event list \<Rightarrow> bool \<times> bool \<times> nat" where
  "mon m evs = fold (clk_monitor m) evs (True, False, 0)"

lemma mon_Nil [simp]: "mon m [] = (True, False, 0)"
  by (simp add: mon_def)

lemma mon_Cons [simp]: "mon m (e # es) = fold (clk_monitor m) es (clk_monitor m e (True, False, 0))"
  by (simp add: mon_def)

lemma mon_append [simp]: "mon m (evs @ es) = fold (clk_monitor m) es (mon m evs)"
  by (simp add: mon_def)

lemma mon_lines:
  "\<forall>e \<in> set ev. \<exists>r v. e = Wrote r v \<and> is_line r \<Longrightarrow> fold (clk_monitor m) ev x = x"
  by (induction ev) (cases x, auto simp: is_line_def)+

lemma enable_pclock_mon [simp]: "mon m (clk_log (enable_pclock m' p s)) = mon m (clk_log s)"
  using enable_pclock_log [of m' p s] by (auto simp: mon_lines)

abbreviation mon_of :: "clk_config \<Rightarrow> stm_clk \<Rightarrow> bool \<times> bool \<times> nat" where
  "mon_of c s \<equiv> mon (CONFIG_MACH c) (clk_log s)"

lemmas bit_simps = bit_or_iff bit_and_iff bit_push_bit_iff bit_not_iff

text \<open>\<open>ends P x\<close>: the computation returns, in a state with \<open>P\<close>. The rules follow the text of a function
  and keep, of each state, its registers and the monitor.\<close>

definition ends :: "(stm_clk \<Rightarrow> bool) \<Rightarrow> stm_clk option \<Rightarrow> bool" where
  "ends P x \<longleftrightarrow> (\<exists>s. x = Some s \<and> P s)"

named_theorems run_intros

lemma ends_wr [run_intros]:
  assumes "\<And>t'. regs t' = (regs t)(r := v) \<Longrightarrow> mon m (clk_log t') = clk_monitor m (Wrote r v) (mon m (clk_log t)) \<Longrightarrow> ends P (F t')"
  shows "ends P (Let (wr r v t) F)"
  unfolding Let_def by (rule assms) simp_all

lemma ends_wr_if [run_intros]:
  assumes "\<And>t'. regs t' = (if b then (regs t)(r := v) else regs t) \<Longrightarrow>
     mon m (clk_log t') = (if b then clk_monitor m (Wrote r v) (mon m (clk_log t)) else mon m (clk_log t)) \<Longrightarrow> ends P (F t')"
  shows "ends P (Let (if b then wr r v t else t) F)"
  unfolding Let_def by (rule assms) simp_all

lemma ends_wr_either [run_intros]:
  assumes "\<And>t'. regs t' = (regs t)(r := (if b then v else w)) \<Longrightarrow>
     mon m (clk_log t') = clk_monitor m (Wrote r (if b then v else w)) (mon m (clk_log t)) \<Longrightarrow> ends P (F t')"
  shows "ends P (Let (if b then wr r v t else wr r w t) F)"
  unfolding Let_def by (rule assms) simp_all

lemma ends_pclock [run_intros]:
  assumes "\<And>t'. t' = enable_pclock m p t \<Longrightarrow> ends P (F t')"
  shows "ends P (Let (enable_pclock m p t) F)"
  unfolding Let_def by (rule assms) simp_all

lemma ends_let: "ends P (F x) \<Longrightarrow> ends P (Let x F)"
  by (simp add: Let_def)

lemma ends_await [run_intros]:
  assumes "\<And>t'. regs t' = regs t \<Longrightarrow> mon m (clk_log t') = clk_monitor m (Saw r msk v) (mon m (clk_log t)) \<Longrightarrow> ends P (F t')"
    and "clock_hw_ok m hw" "answers m (regs t) r msk v"
  shows "ends P (await hw r msk v t \<bind> F)"
  unfolding await_returns [OF assms(2,3)] bind.bind_lunit by (rule assms(1)) simp_all

lemma ends_await_last:
  assumes "\<And>t'. regs t' = regs t \<Longrightarrow> mon m (clk_log t') = clk_monitor m (Saw r msk v) (mon m (clk_log t)) \<Longrightarrow> P t'"
    and "clock_hw_ok m hw" "answers m (regs t) r msk v"
  shows "ends P (await hw r msk v t)"
  unfolding await_returns [OF assms(2,3)] ends_def by (rule exI, rule conjI, rule refl, rule assms(1)) simp_all

lemma ends_Some: "P s \<Longrightarrow> ends P (Some s)"
  by (simp add: ends_def)

lemma ends_bind: "ends Q x \<Longrightarrow> (\<And>t. Q t \<Longrightarrow> ends P (F t)) \<Longrightarrow> ends P (x \<bind> F)"
  by (auto simp: ends_def)

lemma f0_pll_cfgr_bits [simp]: "\<not> bit (f0_pll_cfgr c) 0" "\<not> bit (f0_pll_cfgr c) (Suc 0)"
  "CLOCK_REF_INTERNAL c \<Longrightarrow> CONFIG_MACH c \<in> {F031, F042, F070, F072} \<Longrightarrow> \<not> bit (f0_pll_cfgr c) 16"
  by (auto simp: f0_pll_cfgr_def Let_def bit_simps)

abbreviation (input) clk_safe :: "stm_mach \<Rightarrow> stm_clk \<Rightarrow> bool" where
  "clk_safe m s \<equiv> fst (mon m (clk_log s))"

lemma f0_pll_setup_runs:
  assumes "clock_hw_ok m hw" and m: "m = CONFIG_MACH c" "m \<in> {F031, F042, F070, F072}"
    and "mon m (clk_log s) = (True, lk, Suc 0)"
  shows "ends (clk_safe m) (f0_pll_setup hw c s)"
  unfolding f0_pll_setup_def
  by (rule run_intros [where m = m] ends_let)+
    (rule ends_Some, insert assms, auto simp: answers_def selects_pll_def bit_simps split: if_splits)

lemma f0_hsi48_setup_runs:
  assumes "clock_hw_ok m hw" and m: "m = CONFIG_MACH c" "m \<in> {F042, F072}" and "clk_safe m s"
  shows "ends (clk_safe m) (f0_hsi48_setup hw c s)"
proof -
  obtain lk ws where mon: "mon m (clk_log s) = (True, lk, ws)" using assms(4) by (cases "mon m (clk_log s)") auto
  have is_2: "\<not> (CONFIG_MACH c \<noteq> F042 \<and> CONFIG_MACH c \<noteq> F072)" using m by auto
  show ?thesis
    unfolding f0_hsi48_setup_def if_not_P [OF is_2]
    apply (rule run_intros [where m = m] ends_let)+
         apply (rule ends_Some)
    using assms(1) m mon
    apply (auto simp: answers_def selects_pll_def bit_simps split: if_splits)
    done
qed

lemma f0_hsi14_setup_runs:
  assumes "clock_hw_ok m hw" and m: "m \<in> {F031, F042, F070, F072}" and "clk_safe m s"
  shows "ends (clk_safe m) (f0_hsi14_setup hw s)"
proof -
  obtain lk ws where mon: "mon m (clk_log s) = (True, lk, ws)" using assms(3) by (cases "mon m (clk_log s)") auto
  show ?thesis
    unfolding f0_hsi14_setup_def
    by (rule ends_await_last [where m = m]) (use assms(1,2) mon in \<open>auto simp: answers_def\<close>)
qed

lemma f0_ram_vectortable_mon [simp]: "mon m (clk_log (f0_enable_ram_vectortable e s)) = mon m (clk_log s)"
  by (cases "mon m (clk_log s)") (simp add: f0_enable_ram_vectortable_def Let_def)

lemma f0_main_runs:
  assumes hw: "clock_hw_ok m (clk_hw e)" and m: "m = CONFIG_MACH c" "m \<in> {F031, F042, F070, F072}"
    and log: "clk_log (SystemInit e s) = []"
  shows "ends (clk_safe m) (f0_armcm_main e c s)"
proof -
  let ?hsi48 = "CONFIG_MACH c \<in> {F042, F072} \<and> CLOCK_REF_INTERNAL c \<and> CONFIG_USB c"
  let ?s0 = "enable_pclock (CONFIG_MACH c) 0x40010000 (SystemInit e s)"
  let ?s1 = "if CONFIG_ARMCM_RAM_VECTORTABLE c \<and> deployer_active e then f0_enable_ram_vectortable e ?s0 else ?s0"
  have "mon m (clk_log ?s1) = (True, False, 0)" using log by simp
  then have mon: "mon m (clk_log (wr FLASH_ACR (1 OR 0x10) ?s1)) = (True, False, Suc 0)" by simp
  have pll: "ends (clk_safe m) (if ?hsi48 then f0_hsi48_setup (clk_hw e) c (wr FLASH_ACR (1 OR 0x10) ?s1)
      else f0_pll_setup (clk_hw e) c (wr FLASH_ACR (1 OR 0x10) ?s1))"
  proof (cases ?hsi48)
    case True
    have "ends (clk_safe m) (f0_hsi48_setup (clk_hw e) c (wr FLASH_ACR (1 OR 0x10) ?s1))"
      by (rule f0_hsi48_setup_runs [OF hw m(1)]) (use True m mon in \<open>simp_all only: fst_conv\<close>)
    then show ?thesis unfolding if_P [OF True] .
  next
    case False
    show ?thesis unfolding if_not_P [OF False] by (rule f0_pll_setup_runs [OF hw m mon])
  qed
  show ?thesis
    unfolding f0_armcm_main_def dfu_reboot_check_def Let_def
  proof (rule ends_bind [OF pll])
    fix t
    assume t: "clk_safe m t"
    show "ends (clk_safe m) (f0_hsi14_setup (clk_hw e) t \<bind> (\<lambda>s.
        Some (if CONFIG_MACH c = F042 \<and> CONFIG_STM32_PA11_PA12_REMAP c then or_reg SYSCFG_CFGR1 0x10 s else s)))"
    proof (rule ends_bind [OF f0_hsi14_setup_runs [OF hw m(2) t]])
      fix u
      assume "clk_safe m u"
      then show "ends (clk_safe m) (Some (if CONFIG_MACH c = F042 \<and> CONFIG_STM32_PA11_PA12_REMAP c
          then or_reg SYSCFG_CFGR1 0x10 u else u))"
        by (intro ends_Some) (cases "mon m (clk_log u)", simp)
    qed
  qed
qed

lemma f1_cfgr_bits [simp]: "\<not> bit (f1_cfgr c) 0" "\<not> bit (f1_cfgr c) (Suc 0)"
  "CLOCK_REF_INTERNAL c \<Longrightarrow> CONFIG_MACH c = F103 \<Longrightarrow> \<not> bit (f1_cfgr c) 16"
  by (auto simp: f1_cfgr_def Let_def bit_simps split: prod.split)

lemma f1_clock_setup_runs:
  assumes "clock_hw_ok F103 hw" and m: "CONFIG_MACH c = F103"
    and "mon F103 (clk_log s) = (True, lk, ws)"
  shows "ends (clk_safe F103) (f1_clock_setup hw c s)"
  unfolding f1_clock_setup_def
  by (rule run_intros [where m = F103] ends_let ends_await_last [where m = F103])+
    (insert assms, auto simp: answers_def selects_pll_def bit_simps split: if_splits)

lemma f1_main_runs:
  assumes hw: "clock_hw_ok F103 (clk_hw e)" and m: "CONFIG_MACH c = F103" and log: "clk_log (SystemInit e s) = []"
  shows "ends (clk_safe F103) (f1_armcm_main e c s)"
  unfolding f1_armcm_main_def Let_def
proof (rule ends_bind [OF f1_clock_setup_runs [OF hw m]])
  show "mon F103 (clk_log (wr (ENR APB2) 0 (wr (ENR APB1) 0 (wr (ENR AHB) 0x14
      (wr SCB_VTOR (VectorTable e) (SystemInit e s)))))) = (True, False, 0)"
    using log by simp
  fix t
  assume "clk_safe F103 t"
  then show "ends (clk_safe F103) (Some (if CONFIG_STM32F103GD_DISABLE_SWD c
      then snd (f1_alternative_remap 0x7000000 0x4000000 0 (enable_pclock F103 0x40010000 t))
      else snd (f1_alternative_remap 0x7000000 0x2000000 0 (enable_pclock F103 0x40010000 t))))"
    by (intro ends_Some) (cases "mon F103 (clk_log t)", simp add: f1_alternative_remap_def Let_def)
qed

lemma f4_pllcfgr_bits:
  assumes "CLOCK_REF_INTERNAL c" "CONFIG_MACH c \<in> {F207, F401, F4x5, F446}"
  shows "CONFIG_MACH c = F207 \<Longrightarrow> \<not> bit (f20x_pllcfgr c) 22"
    "CONFIG_MACH c \<in> {F401, F4x5} \<Longrightarrow> \<not> bit (f40x_pllcfgr c) 22"
    "CONFIG_MACH c = F446 \<Longrightarrow> \<not> bit (f446_pllcfgr c) 22"
  using assms by (auto simp: f20x_pllcfgr_def f40x_pllcfgr_def f446_pllcfgr_def Let_def bit_simps)

text \<open>What the rest of \<open>clock_setup\<close> needs from the part's own function.\<close>

definition f4_started :: "stm_mach \<Rightarrow> stm_clk \<Rightarrow> bool" where
  "f4_started m s \<longleftrightarrow> fst (mon m (clk_log s)) \<and> pll_runs m (regs s)"

lemma f4_start_pll_started:
  assumes "m \<in> {F207, F401, F4x5, F446}" "CLOCK_REF_INTERNAL c \<Longrightarrow> \<not> bit pllcfgr 22" "clk_safe m s"
  shows "f4_started m (f4_start_pll pllcfgr c s)"
proof -
  obtain lk ws where "mon m (clk_log s) = (True, lk, ws)" using assms(3) by (cases "mon m (clk_log s)") auto
  then show ?thesis
    using assms(1,2) by (auto simp: f4_started_def f4_start_pll_def Let_def bit_simps)
qed

lemma f446_pwr_clock: "bit (regs (enable_pclock F446 0x40007000 s) (ENR APB1)) 28"
  by (simp add: enable_pclock_def f4_lookup_clock_line_def unit_bit_def Let_def bit_simps)

lemma enable_clock_stm32f446_runs:
  assumes hw: "clock_hw_ok F446 hw" and m: "CONFIG_MACH c = F446" and "clk_safe F446 s"
  shows "ends (f4_started F446) (enable_clock_stm32f446 hw c s)"
proof -
  define t where "t = f4_start_pll (f446_pllcfgr c) c s"
  have "f4_started F446 t"
    unfolding t_def by (rule f4_start_pll_started) (use f4_pllcfgr_bits(3) [of c] m assms(3) in auto)
  then obtain lk ws where t: "mon F446 (clk_log t) = (True, lk, ws)" "bit (regs t RCC_CR) 24"
      "bit (regs t RCC_PLLCFGR) 22 \<Longrightarrow> bit (regs t RCC_CR) 16"
    by (cases "mon F446 (clk_log t)") (auto simp: f4_started_def)
  show ?thesis
    unfolding enable_clock_stm32f446_def t_def [symmetric] Let_def [of t]
    apply (rule run_intros [where m = F446] ends_let)+
         apply (cases "CONFIG_USB c")
          apply (simp only: if_True)
          apply (rule run_intros [where m = F446] ends_let)+
            apply (rule ends_Some)
    using hw t f446_pwr_clock [of t]
    apply (auto simp: answers_def bit_simps enable_pclock_regs f4_started_def intro!: ends_Some)
    done
qed

lemma f4_clock_setup_runs:
  assumes hw: "clock_hw_ok m hw" and m: "m = CONFIG_MACH c" "m \<in> {F207, F401, F4x5, F446}" and "clk_safe m s"
  shows "ends (clk_safe m) (f4_clock_setup hw c s)"
proof -
  have start: "ends (f4_started m) (if CONFIG_MACH c = F207 then Some (enable_clock_stm32f20x c s)
      else if CONFIG_MACH c = F401 \<or> CONFIG_MACH c = F4x5 then Some (enable_clock_stm32f40x c s)
      else enable_clock_stm32f446 hw c s)"
    using assms enable_clock_stm32f446_runs [of hw c s] f4_pllcfgr_bits [of c]
    by (auto simp: enable_clock_stm32f20x_def enable_clock_stm32f40x_def intro!: ends_Some f4_start_pll_started)
  show ?thesis
    unfolding f4_clock_setup_def
  proof (rule ends_bind [OF start])
    fix t
    assume "f4_started m t"
    then obtain lk ws where t: "mon m (clk_log t) = (True, lk, ws)" "bit (regs t RCC_CR) 24"
        "bit (regs t RCC_PLLCFGR) 22 \<Longrightarrow> bit (regs t RCC_CR) 16"
      using m(2) by (cases "mon m (clk_log t)") (auto simp: f4_started_def)
    show "ends (clk_safe m) (do {
       let s = wr FLASH_ACR (5 OR 0x200 OR 0x400 OR 0x100) t;
       s \<leftarrow> await hw RCC_CR RCC_CR_PLLRDY RCC_CR_PLLRDY s;
       let s = (if CONFIG_MACH c = F401 then wr RCC_CFGR (0x1000 OR 0x8000 OR RCC_CFGR_SW_PLL) s
                else wr RCC_CFGR (0x1400 OR 0xa000 OR RCC_CFGR_SW_PLL) s);
       await hw RCC_CFGR RCC_CFGR_SWS_Msk RCC_CFGR_SWS_PLL s
     })"
      by (rule run_intros [where m = m] ends_await_last [where m = m])+
        (use hw m t in \<open>auto simp: answers_def selects_pll_def bit_simps\<close>)
  qed
qed

lemma f4_main_runs:
  assumes hw: "clock_hw_ok m (clk_hw e)" and m: "m = CONFIG_MACH c" "m \<in> {F207, F401, F4x5, F446}"
    and log: "clk_log (SystemInit e s) = []"
  shows "ends (clk_safe m) (f4_armcm_main e c s)"
  unfolding f4_armcm_main_def dfu_reboot_check_def Let_def
  by (rule f4_clock_setup_runs [OF hw m]) (simp add: log)

lemma g0_pllcfgr_bits [simp]: "bit (g0_pllcfgr c) 28"
  "CLOCK_REF_INTERNAL c \<Longrightarrow> \<not> bit (g0_pllcfgr c) 0"
  by (auto simp: g0_pllcfgr_def Let_def bit_simps)

lemma g0_main_runs:
  assumes hw: "clock_hw_ok m (clk_hw e)" and m: "m = CONFIG_MACH c" "m \<in> {G0B0, G0B1}" and log: "clk_log s = []"
  shows "ends (clk_safe m) (g0_armcm_main e c s)"
  unfolding g0_armcm_main_def g0_clock_setup_def dfu_reboot_check_def
  by (rule run_intros [where m = m] ends_let)+
    (rule ends_Some, insert hw m log, auto simp: answers_def selects_pll_def bit_simps split: if_splits)

lemma g4_pllcfgr_bits [simp]: "CLOCK_REF_INTERNAL c \<Longrightarrow> \<not> bit (g4_pllcfgr c) 0"
  by (auto simp: g4_pllcfgr_def Let_def bit_simps)

lemma enable_clock_stm32g4_runs:
  assumes hw: "clock_hw_ok G431 hw" and safe: "clk_safe G431 s"
  shows "ends (f4_started G431) (enable_clock_stm32g4 hw c s)"
proof -
  let ?src = "\<lambda>t. clk_safe G431 t \<and> (CLOCK_REF_INTERNAL c \<or> bit (regs t RCC_CR) 16)"
  obtain lk ws where mon: "mon G431 (clk_log s) = (True, lk, ws)" using safe by (cases "mon G431 (clk_log s)") auto
  have source: "ends ?src (if \<not> CLOCK_REF_INTERNAL c
       then await hw RCC_CR RCC_CR_HSERDY RCC_CR_HSERDY (or_reg RCC_CR RCC_CR_HSEON s)
       else await hw RCC_CR 0x400 0x400 (or_reg RCC_CR 0x100 s))"
    by (cases "CLOCK_REF_INTERNAL c")
      (use hw mon in \<open>auto simp: answers_def bit_simps intro!: ends_await_last [where m = G431]\<close>)
  have usb: "ends (f4_started G431) (if CONFIG_USB c then do {
         s \<leftarrow> await hw RCC_CRRCR 2 2 (or_reg RCC_CRRCR 1 t);
         Some (or_reg CRS_CR (0x40 OR 0x20) (enable_pclock G431 0x40002000 s))
       } else Some t)" if t: "f4_started G431 t" for t
  proof -
    obtain lk ws where mt: "mon G431 (clk_log t) = (True, lk, ws)"
      using t by (cases "mon G431 (clk_log t)") (auto simp: f4_started_def)
    show ?thesis
      using t mt hw
      by (auto simp: f4_started_def answers_def bit_simps enable_pclock_regs intro!: ends_Some ends_await [where m = G431])
  qed
  show ?thesis
    unfolding enable_clock_stm32g4_def
  proof (rule ends_bind [OF source])
    fix t
    assume t: "?src t"
    define u where "u = or_reg RCC_CR RCC_CR_PLLON (wr RCC_PLLCFGR (g4_pllcfgr c) t)"
    obtain lk ws where "mon G431 (clk_log t) = (True, lk, ws)" using t by (cases "mon G431 (clk_log t)") auto
    then have u: "f4_started G431 u" using t by (auto simp: u_def f4_started_def bit_simps)
    have last: "ends (f4_started G431) (Some (wr RCC_CCIPR (push_bit 24 2) v))" if "f4_started G431 v" for v
      using that by (cases "mon G431 (clk_log v)") (auto simp: f4_started_def intro!: ends_Some)
    show "ends (f4_started G431) (do {
        let s = wr RCC_PLLCFGR (g4_pllcfgr c) t;
        let s = or_reg RCC_CR RCC_CR_PLLON s;
        s \<leftarrow> (if CONFIG_USB c then do {
             s \<leftarrow> await hw RCC_CRRCR 2 2 (or_reg RCC_CRRCR 1 s);
             Some (or_reg CRS_CR (0x40 OR 0x20) (enable_pclock G431 0x40002000 s))
           } else Some s);
        Some (wr RCC_CCIPR (push_bit 24 2) s)
      })"
      unfolding Let_def u_def [symmetric] by (rule ends_bind [OF usb [OF u] last])
  qed
qed

lemma g4_main_runs:
  assumes hw: "clock_hw_ok G431 (clk_hw e)" and m: "CONFIG_MACH c = G431" and log: "clk_log (SystemInit e s) = []"
  shows "ends (clk_safe G431) (g4_armcm_main e c s)"
proof -
  have "clk_safe G431 (wr SCB_VTOR (VectorTable e) (SystemInit e s))" using log by simp
  note start = enable_clock_stm32g4_runs [OF hw this]
  have "g4_flash_latency c = 4" using m by (cases "CONFIG_STM32_CLOCK_REF c") (simp_all add: g4_flash_latency_def)
  note lat = this
  show ?thesis
    unfolding g4_armcm_main_def g4_clock_setup_def dfu_reboot_check_def lat
  proof (rule ends_bind [OF start])
    fix t
    assume "f4_started G431 t"
    then obtain lk ws where t: "mon G431 (clk_log t) = (True, lk, ws)" "pll_runs G431 (regs t)"
      by (cases "mon G431 (clk_log t)") (auto simp: f4_started_def)
    show "ends (clk_safe G431) (do {
        let s = wr FLASH_ACR (4 OR 0x200 OR 0x400 OR 0x100 OR 0x40000) t;
        let s = enable_pclock G431 0x40007000 s;
        let s = or_reg PWR_CR3 0x400 s;
        s \<leftarrow> await (clk_hw e) RCC_CR RCC_CR_PLLRDY RCC_CR_PLLRDY s;
        let s = or_reg RCC_PLLCFGR 0x1000000 s;
        let s = wr RCC_CFGR (0 OR 0x400 OR 0x2000 OR 3) s;
        await (clk_hw e) RCC_CFGR RCC_CFGR_SWS_Msk 0xc s
      })"
      by (rule run_intros [where m = G431] ends_await_last [where m = G431])+
        (use hw t in \<open>auto simp: answers_def selects_pll_def bit_simps enable_pclock_regs\<close>)
  qed
qed

lemma h7_power_runs:
  assumes hw: "clock_hw_ok m hw" and m: "m \<in> {H723, H743}" and safe: "clk_safe m s"
  shows "ends (\<lambda>t. clk_safe m t \<and> regs t RCC_CR = regs s RCC_CR \<and> regs t RCC_PLLCKSELR = regs s RCC_PLLCKSELR \<and>
    regs t RCC_PLLCFGR = regs s RCC_PLLCFGR) (h7_power hw c s)"
proof -
  obtain lk ws where mon: "mon m (clk_log s) = (True, lk, ws)" using safe by (cases "mon m (clk_log s)") auto
  have "CLOCK_FREQ c \<le> 400000000" by (cases "CONFIG_MACH c") auto
  then have f: "\<not> CLOCK_FREQ c > 400000000" by simp
  show ?thesis
    unfolding h7_power_def if_not_P [OF f]
    using hw m mon
    by (auto simp: answers_def intro!: ends_Some ends_await [where m = m] ends_await_last [where m = m])
qed

lemma h7_pllckselr_bits [simp]: "CLOCK_REF_INTERNAL c \<Longrightarrow> \<not> bit (h7_pllckselr c) (Suc 0)"
  by (auto simp: h7_pllckselr_def Let_def bit_simps)

lemma h7_switch_runs:
  assumes hw: "clock_hw_ok m hw" and m: "m = CONFIG_MACH c" "m \<in> {H723, H743}" and safe: "clk_safe m s"
    and src: "bit (regs s RCC_PLLCKSELR) (Suc 0) \<longrightarrow> bit rcc_cr 16" "bit (regs s RCC_PLLCFGR) 16"
  shows "ends (clk_safe m) (h7_switch hw c rcc_cr s)"
proof -
  obtain lk ws where mon: "mon m (clk_log s) = (True, lk, ws)" using safe by (cases "mon m (clk_log s)") auto
  have "CLOCK_FREQ c \<le> 400000000" by (cases "CONFIG_MACH c") auto
  then have "\<not> CLOCK_FREQ c > 450000000" by (auto simp: word_less_nat_alt word_le_nat_alt)
  note lat = if_not_P [OF this]
  show ?thesis
    unfolding h7_switch_def lat
    apply (rule run_intros [where m = m] ends_let)+
       apply (cases "CONFIG_USB c")
        apply (simp only: if_True)
        apply (rule run_intros [where m = m] ends_let)+
          apply (rule ends_Some)
    using hw m(2) mon src
          apply (auto simp: answers_def selects_pll_def bit_simps enable_pclock_regs intro!: ends_Some)
    done
qed

lemma h7_pll_setup_runs:
  assumes hw: "clock_hw_ok m hw" and m: "m = CONFIG_MACH c" "m \<in> {H723, H743}" and safe: "clk_safe m s"
    and src: "CLOCK_REF_INTERNAL c \<or> bit rcc_cr 16"
  shows "ends (clk_safe m) (h7_pll_setup hw c rcc_cr s)"
proof -
  define t where "t = wr RCC_PLL1DIVR (h7_pll1divr c) (wr RCC_PLLCFGR (push_bit 2 2 OR 0x20000 OR 0x10000)
    (wr RCC_PLLCKSELR (h7_pllckselr c) s))"
  have "clk_safe m t" using safe by (cases "mon m (clk_log s)") (simp add: t_def)
  note power = h7_power_runs [OF hw m(2) this, of c]
  have t: "regs t RCC_PLLCKSELR = h7_pllckselr c" "bit (regs t RCC_PLLCFGR) 16" by (simp_all add: t_def bit_simps)
  show ?thesis
    unfolding h7_pll_setup_def Let_def t_def [symmetric]
    by (rule ends_bind [OF power], rule h7_switch_runs [OF hw m]) (use t src in auto)
qed

lemma fold_wr_zero_mon:
  assumes "RCC_CR \<notin> set rs" "RCC_CFGR \<notin> set rs" "FLASH_ACR \<notin> set rs"
  shows "mon m (clk_log (fold (\<lambda>r. wr r 0) rs s)) = mon m (clk_log s)"
  using assms
proof (induction rs arbitrary: s)
  case (Cons r rs)
  then show ?case by (cases "mon m (clk_log s)") auto
qed simp

lemma h7_main_runs:
  assumes hw: "clock_hw_ok m (clk_hw e)" and m: "m = CONFIG_MACH c" "m \<in> {H723, H743}"
    and log: "clk_log (SystemInit e s) = []"
  shows "ends (clk_safe m) (h7_armcm_main e c s)"
proof -
  define t where "t = wr SCB_VTOR (VectorTable e) (fold (\<lambda>r. wr r 0) [RCC_D1CCIPR, RCC_D2CCIP1R, RCC_D2CCIP2R, RCC_D3CCIPR,
       ENR APB1L, ENR APB1H, ENR APB2, ENR APB3, ENR APB4, ENR AHB1] (SystemInit e s))"
  have t: "mon m (clk_log t) = (True, False, 0)" using log by (simp add: t_def)
  have "ends (clk_safe m) (h7_clock_setup (clk_hw e) c t)"
    unfolding h7_clock_setup_def
  proof (rule ends_await [where m = m])
    fix u :: stm_clk
    assume "mon m (clk_log u) = clk_monitor m (Saw PWR_CSR1 0x2000 0x2000) (mon m (clk_log (wr PWR_CR3 2 t)))"
    then have u: "mon m (clk_log u) = (True, False, 0)" using t by simp
    show "ends (clk_safe m) (let rcc_cr = RCC_CR_HSION in
      if \<not> CLOCK_REF_INTERNAL c then do {
        let rcc_cr = rcc_cr OR RCC_CR_HSEON;
        s \<leftarrow> await (clk_hw e) RCC_CR RCC_CR_HSERDY RCC_CR_HSERDY (wr RCC_CR rcc_cr u);
        h7_pll_setup (clk_hw e) c rcc_cr s
      } else h7_pll_setup (clk_hw e) c rcc_cr u)"
    proof (cases "CLOCK_REF_INTERNAL c")
      case True
      then show ?thesis using h7_pll_setup_runs [OF hw m, of u 1] u by (simp add: Let_def)
    next
      case False
      show ?thesis
        unfolding Let_def if_P [OF False]
        by (rule ends_await [where m = m], rule h7_pll_setup_runs [OF hw m])
          (use hw u in \<open>auto simp: answers_def bit_simps\<close>)
    qed
  qed (use hw m in \<open>auto simp: answers_def bit_simps\<close>)
  then show ?thesis by (simp only: h7_armcm_main_def dfu_reboot_check_def Let_def t_def)
qed

section \<open>Properties\<close>


text \<open>C39: The start-up code of every part returns from all of its waits, since it turns on what it waits for
  first, and it switches to the PLL only once the PLL is locked and the flash has the wait states
  that the new clock needs.\<close>

theorem start_up_switches_safely:
  assumes "clock_hw_ok (CONFIG_MACH c) (clk_hw e)" and "clk_log s = []" and "clk_log (SystemInit e s) = []"
  shows "\<exists>s'. stm_armcm_main e c s = Some s' \<and> fst (mon (CONFIG_MACH c) (clk_log s'))"
proof -
  have "ends (clk_safe (CONFIG_MACH c)) (stm_armcm_main e c s)"
    using f0_main_runs [OF assms(1) refl _ assms(3)] f1_main_runs [of e c s] f4_main_runs [OF assms(1) refl _ assms(3)]
      g0_main_runs [OF assms(1) refl _ assms(2)] g4_main_runs [of e c s] h7_main_runs [OF assms(1) refl _ assms(3)] assms
    by (cases "CONFIG_MACH c") (simp_all add: stm_armcm_main_def)
  then show ?thesis by (simp add: ends_def)
qed

text \<open>The enable bits of the peripherals that the drivers turn on, from the vendor's headers:
  UARTs, CAN, USB, \<open>PWR\<close>, \<open>CRS\<close>, \<open>SYSCFG\<close> or \<open>AFIO\<close>, and the timers.\<close>

fun periph_lines :: "stm_mach \<Rightarrow> (u32 \<times> stm_bus \<times> nat) list" where
  "periph_lines F031 = [(0x40013800, APB2, 14), (0x40007000, APB1, 28), (0x40010000, APB2, 0),
     (0x40000000, APB1, 0), (0x40000400, APB1, 1)]"
| "periph_lines F042 = [(0x40013800, APB2, 14), (0x40004400, APB1, 17), (0x40006400, APB1, 25),
     (0x40005c00, APB1, 23), (0x40007000, APB1, 28), (0x40006c00, APB1, 27),
     (0x40010000, APB2, 0), (0x40000000, APB1, 0), (0x40000400, APB1, 1)]"
| "periph_lines F070 = [(0x40013800, APB2, 14), (0x40004400, APB1, 17), (0x40004800, APB1, 18),
     (0x40005c00, APB1, 23), (0x40007000, APB1, 28), (0x40010000, APB2, 0),
     (0x40000400, APB1, 1)]"
| "periph_lines F072 = [(0x40013800, APB2, 14), (0x40004400, APB1, 17), (0x40004800, APB1, 18),
     (0x40006400, APB1, 25), (0x40005c00, APB1, 23), (0x40007000, APB1, 28),
     (0x40006c00, APB1, 27), (0x40010000, APB2, 0), (0x40000000, APB1, 0),
     (0x40000400, APB1, 1)]"
| "periph_lines F103 = [(0x40013800, APB2, 14), (0x40004400, APB1, 17), (0x40004800, APB1, 18),
     (0x40004c00, APB1, 19), (0x40006400, APB1, 25), (0x40005c00, APB1, 23),
     (0x40007000, APB1, 28), (0x40010000, APB2, 0), (0x40000000, APB1, 0),
     (0x40000400, APB1, 1)]"
| "periph_lines F207 = [(0x40011000, APB2, 4), (0x40004400, APB1, 17), (0x40004800, APB1, 18),
     (0x40004c00, APB1, 19), (0x40006400, APB1, 25), (0x40006800, APB1, 26),
     (0x40007000, APB1, 28), (0x40013800, APB2, 14), (0x40000000, APB1, 0),
     (0x40000400, APB1, 1)]"
| "periph_lines F401 = [(0x40011000, APB2, 4), (0x40004400, APB1, 17), (0x40007000, APB1, 28),
     (0x40013800, APB2, 14), (0x40000000, APB1, 0), (0x40000400, APB1, 1)]"
| "periph_lines F4x5 = [(0x40011000, APB2, 4), (0x40004400, APB1, 17), (0x40004800, APB1, 18),
     (0x40004c00, APB1, 19), (0x40006400, APB1, 25), (0x40006800, APB1, 26),
     (0x40007000, APB1, 28), (0x40013800, APB2, 14), (0x40000000, APB1, 0),
     (0x40000400, APB1, 1)]"
| "periph_lines F446 = [(0x40011000, APB2, 4), (0x40004400, APB1, 17), (0x40004800, APB1, 18),
     (0x40004c00, APB1, 19), (0x40006400, APB1, 25), (0x40006800, APB1, 26),
     (0x40007000, APB1, 28), (0x40013800, APB2, 14), (0x40000000, APB1, 0),
     (0x40000400, APB1, 1)]"
| "periph_lines G0B0 = [(0x40013800, APB2, 14), (0x40004400, APB1, 17), (0x40004800, APB1, 18),
     (0x40005000, APB1, 8), (0x40005c00, APB1, 13), (0x40007000, APB1, 28),
     (0x40000400, APB1, 1)]"
| "periph_lines G0B1 = [(0x40013800, APB2, 14), (0x40004400, APB1, 17), (0x40004800, APB1, 18),
     (0x40005000, APB1, 8), (0x40006400, APB1, 12), (0x40006800, APB1, 12),
     (0x40005c00, APB1, 13), (0x40007000, APB1, 28), (0x40006c00, APB1, 16),
     (0x40000000, APB1, 0), (0x40000400, APB1, 1)]"
| "periph_lines G431 = [(0x40013800, APB2, 14), (0x40004400, APB1L, 17), (0x40004800, APB1L, 18),
     (0x40004c00, APB1L, 19), (0x40006400, APB1L, 25), (0x40005c00, APB1L, 23),
     (0x40007000, APB1L, 28), (0x40002000, APB1L, 8), (0x40010000, APB2, 0),
     (0x40000000, APB1L, 0), (0x40000400, APB1L, 1)]"
| "periph_lines H723 = [(0x40011000, APB2, 4), (0x40004400, APB1L, 17), (0x40004800, APB1L, 18),
     (0x40004c00, APB1L, 19), (0x4000a000, APB1H, 8), (0x4000a400, APB1H, 8),
     (0x40008400, APB1H, 1), (0x58000400, APB4, 1), (0x40000000, APB1L, 0),
     (0x40000400, APB1L, 1)]"
| "periph_lines H743 = [(0x40011000, APB2, 4), (0x40004400, APB1L, 17), (0x40004800, APB1L, 18),
     (0x40004c00, APB1L, 19), (0x4000a000, APB1H, 8), (0x4000a400, APB1H, 8),
     (0x40008400, APB1H, 1), (0x58000400, APB4, 1), (0x40000000, APB1L, 0),
     (0x40000400, APB1L, 1)]"

definition line_found :: "stm_mach \<Rightarrow> u32 \<times> stm_bus \<times> nat \<Rightarrow> bool" where
  "line_found m e \<longleftrightarrow>
     lookup_clock_line m (fst e) = cline_of (fst (snd e)) (push_bit (snd (snd e)) 1) \<and> snd (snd e) < 32"

lemma periph_lines_found: "list_all (line_found m) (periph_lines m)"
  by (cases m) (simp_all add: line_found_def lookup_defs unit_bit_def Let_def)

text \<open>C40: For every peripheral that the drivers turn on, on every part, \<open>enable_pclock\<close> sets the
  bit that the vendor's header names, changes no other enable bit, and pulses the same bit of the
  reset register; \<open>is_enabled_pclock\<close> sees it.\<close>

theorem enable_pclock_right_line:
  assumes "(p, b, n) \<in> set (periph_lines m)"
  shows "regs (enable_pclock m p s) = (regs s)(ENR b := regs s (ENR b) OR push_bit n 1, RSTR b := 0) \<and>
    clk_log (enable_pclock m p s) = clk_log s @
      [Wrote (ENR b) (regs s (ENR b) OR push_bit n 1), Wrote (RSTR b) (push_bit n 1), Wrote (RSTR b) 0] \<and>
    is_enabled_pclock m p (enable_pclock m p s)"
proof -
  have l: "lookup_clock_line m p = cline_of b (push_bit n 1) \<and> n < 32"
    using assms periph_lines_found [of m] by (auto simp: list_all_iff line_found_def)
  have "(x OR push_bit n 1) AND push_bit n 1 \<noteq> (0 :: u32)" for x
    using l by (auto simp: bit_eq_iff bit_simps bit_exp_iff intro!: exI [of _ n])
  then show ?thesis by (simp add: enable_pclock_def is_enabled_pclock_def l Let_def)
qed

section \<open>Witnesses\<close>

definition demo_clk :: "clock_ref \<Rightarrow> clk_config" where
  "demo_clk ref = \<lparr> CONFIG_MACH = F103, CONFIG_STM32_CLOCK_REF = ref, CONFIG_USB = True, CONFIG_STM32F0_TRIM = 16,
     CONFIG_STM32_PA11_PA12_REMAP = False, CONFIG_ARMCM_RAM_VECTORTABLE = False, CONFIG_STM32F103GD_DISABLE_SWD = False \<rparr>"

text \<open>A part whose status bits are there from the third reading on.\<close>

definition demo_clk_status :: clk_status where
  "demo_clk_status rg r k =
     (if k < 2 then 0
      else case r of RCC_CR \<Rightarrow> (if bit (rg RCC_CR) 16 then 0x20000 else 0) OR (if pll_runs F103 rg then 0x2000000 else 0)
      | RCC_CFGR \<Rightarrow> 8 | _ \<Rightarrow> 0)"

definition demo_clk_env :: clk_env where
  "demo_clk_env = \<lparr> clk_hw = demo_clk_status, SystemInit = (\<lambda>s. s), VectorTable = 0x8000000, ram_vectortable_start = 0,
     ram_vectortable_end = 0, text_vectortable_start = 0, deployer_active = False \<rparr>"

definition demo_stm_clk :: stm_clk where
  "demo_stm_clk = \<lparr> regs = (\<lambda>_. 0), clk_mem = (\<lambda>_. 0), clk_log = [] \<rparr>"

lemma demo_clk_hw_ok: "clock_hw_ok F103 demo_clk_status"
  unfolding clock_hw_ok_def
proof (intro allI impI)
  fix rg r msk v
  assume "answers F103 rg r msk v"
  then have "demo_clk_status rg r 2 AND msk = v"
    by (auto simp: answers_def demo_clk_status_def)
  then show "\<exists>k. demo_clk_status rg r k AND msk = v" by blast
qed


theorem start_up_switches_safely_witness:
  "\<exists>s'. stm_armcm_main demo_clk_env (demo_clk REF_8M) demo_stm_clk = Some s' \<and> fst (mon F103 (clk_log s'))"
  using start_up_switches_safely [of "demo_clk REF_8M" demo_clk_env demo_stm_clk] demo_clk_hw_ok
  by (simp add: demo_clk_def demo_clk_env_def demo_stm_clk_def)

theorem enable_pclock_right_line_witness:
  "is_enabled_pclock H743 0x4000a400 (enable_pclock H743 0x4000a400 demo_stm_clk) \<and>
     regs (enable_pclock H743 0x4000a400 demo_stm_clk) (ENR APB1H) = 0x100"
  using enable_pclock_right_line [of "0x4000a400" APB1H 8 H743 demo_stm_clk] by (simp add: demo_stm_clk_def)

end
