(* ===== verification/Spec2Isabelle.thy ===== *)
theory Spec2Isabelle
  imports Dispatch FlashStm32Part FlashRp FlashLpc CanProps SerialIrq UsbProps BootProps StmCanProps Can2040Rx Can2040Recv Deployer StmTimer UsbFsProps StmClockRuns
begin

text \<open>
  A verification development of the Terraboot bootloader, a fork of Katapult for boards with an STM32,
  an RP2040 or an LPC176x. The bootloader starts after a reset, decides whether it should stay, and if so
  takes commands over UART, USB or CAN with which a host writes an application to the flash; otherwise it
  starts the application. Paths below are relative to \<open>src/\<close> of the repository's sources, or to \<open>lib/\<close>.

  \<^bold>\<open>The program and its model.\<close> Control passes from the reset handler (\<open>generic/armcm_canboot.c\<close>) through
  the entry conditions (\<open>bootentry.c\<close>) to \<open>sched_main\<close> (\<open>sched.c\<close>), whose loop runs the tasks of the
  linked components. A transport (\<open>generic/canserial.c\<close>, \<open>generic/serial_irq.c\<close> or
  \<open>generic/usb_cdc.c\<close>) collects bytes in a buffer that its interrupts fill and hands it to
  \<open>command_find_and_dispatch\<close> (\<open>command.c\<close>), which finds a frame, checks it and calls a handler of
  \<open>flashcmd.c\<close>; the handler calls \<open>flash_write_block\<close> and \<open>flash_complete\<close> of the board and answers
  through \<open>console_sendf\<close> of the transport. \<open>appvalidate.c\<close> checks the hash of an application.

  The state of each component is a record of its static variables, with the fields at their width; an
  operation takes the state and returns it changed. Where a wait for the hardware may never end, the result
  is an option and \<open>None\<close> means that the operation does not return: the waits are \<open>partial_function\<close>s,
  there is no fuel anywhere. Error codes are the integers of the code. Flash and RAM are functions from
  32-bit addresses to bytes. Interrupts are lists of events in groups, and a task takes the next group at
  each point where it touches data that they share. The hardware, the boot ROMs and the Pico SDK
  are parameters, records of functions, with what their manuals say of them as named hypotheses;
  \<open>config\<close> is what Kconfig generates.

  \<^bold>\<open>Theories.\<close>
  \<^item> \<open>Prelude\<close>: words, little-endian views, memory. \<open>Config\<close>: the configuration.
  \<^item> \<open>Timer\<close>, \<open>StmTimer\<close>: \<open>generic/armcm_timer.c\<close>, \<open>rp2040/timer.c\<close>, \<open>stm32/stm32f0_timer.c\<close> and
    \<open>udelay\<close>. The signed comparison of times is right within half a round; the 16-bit timer extended by
    interrupts counts every tick.
  \<^item> \<open>Crc16\<close>, \<open>FastHash\<close>: \<open>generic/crc16_ccitt.c\<close> and \<open>fast-hash/fasthash.c\<close>, against the bit-serial
    reference and as a sequence of bijections.
  \<^item> \<open>AppValidate\<close>: \<open>appvalidate.c\<close>. A correctly built image is accepted, one changed within a block is not.
  \<^item> \<open>Command\<close>, \<open>FlashCmd\<close>, \<open>Led\<close>, \<open>Dispatch\<close>: \<open>command.c\<close>, \<open>flashcmd.c\<close>, \<open>led.c\<close>. The receiver
    accepts the frames of \<open>protocol.md\<close> and nothing else, makes progress on every input and resynchronises;
    every branch of every handler is a branch of the model.
  \<^item> \<open>FlashApi\<close>: the interface \<open>board/flash.h\<close>, with the contracts \<open>flash_device\<close> (nothing below the
    application changes) and \<open>flash_progress\<close> (what is acknowledged in order is stored) as locales;
    interpreted in \<open>FlashStm32\<close> (\<open>stm32/flash.c\<close>, nine register layouts), \<open>FlashRp\<close> (\<open>rp2040/flash.c\<close>) and, the
    first only, \<open>FlashLpc\<close> (\<open>lpc176x/flash.c\<close>, which acknowledges a page it may not have stored).
    \<open>FlashStm32Part\<close> is a concrete part for the witnesses.
  \<^item> \<open>Console\<close>: what the transports share, the locales \<open>rx_buffer\<close> (a receive buffer between task and
    interrupt) and \<open>console_tx\<close> (whole messages or nothing); interpreted in \<open>CanSerialInv\<close>, \<open>SerialIrq\<close> and \<open>UsbProps\<close>.
  \<^item> \<open>CanSerial\<close>, \<open>CanSerialInv\<close>, \<open>CanNode\<close>, \<open>CanProps\<close>: \<open>generic/canserial.c\<close> and \<open>generic/canbus.c\<close>: buffers
    and queues stay in bounds, no wake-up is lost, node ids stay unique, and where the code falls short.
  \<^item> \<open>SerialIrq\<close>: \<open>generic/serial_irq.c\<close>. \<open>UsbStd\<close>, \<open>UsbCdc\<close>, \<open>UsbProps\<close>: \<open>generic/usbstd.h\<close>,
    \<open>generic/usb_cdc.c\<close>, the control transfers of endpoint 0 and the bulk endpoints.
  \<^item> \<open>StmCan\<close>, \<open>StmCanProps\<close>: \<open>stm32/can.c\<close> and \<open>stm32/fdcan.c\<close>: exact bit timing, agreeing filters, and
    frames that either driver reads from the other.
  \<^item> \<open>Can2040Pio\<close>, \<open>Can2040\<close>, \<open>Can2040Bits\<close>, \<open>Can2040Stuff\<close>, \<open>Can2040Unstuff\<close>, \<open>Can2040Tx\<close>, \<open>Can2040Rx\<close>,
    \<open>Can2040Recv\<close>: \<open>can2040/can2040.c\<close>, a CAN controller in software, and \<open>rp2040/can.c\<close>: CRC and stuffing against the
    rules of the CAN standard, what is queued for a message, what is received from any frame, and that its
    interrupt handler returns.
  \<^item> \<open>Boot\<close>, \<open>BootProps\<close>: \<open>generic/armcm_canboot.c\<close>, \<open>bootentry.c\<close>, \<open>rp2040/rp2350_dblreset.c\<close>, \<open>sched.c\<close>:
    only a valid application is ever started. \<open>Deployer\<close>: \<open>deployer.c\<close>.
  \<^item> \<open>UsbFs\<close>, \<open>UsbFsProps\<close>: \<open>stm32/usbfs.c\<close>, the packet memory, the endpoint registers whose bits toggle and the
    double-buffered bulk endpoints: both are queues of packets, and the first packet after a configuration is withheld.
  \<^item> \<open>StmClock\<close>, \<open>StmClockProps\<close>, \<open>StmClockRuns\<close>: \<open>stm32/stm32f0.c\<close>, \<open>stm32f1.c\<close>, \<open>stm32f4.c\<close>, \<open>stm32g0.c\<close>, \<open>stm32g4.c\<close>,
    \<open>stm32h7.c\<close>, \<open>stm32/clockline.c\<close>: the start-up code returns, switches clocks in a safe order, and gives every part
    its configured clock with the crystals for which the dividers come out.
  This theory puts the parts together: an upload over the protocol boots, and no
  input overwrites the bootloader.

  \<^bold>\<open>Bounds.\<close> Lists stand for arrays and keep their length, which the invariants state. The spans of
  time are bounded where the code's comparisons need it. Positions that the code keeps in \<open>uint_fast8_t\<close> are
  32 bits wide on the ARM ABI and stay below \<open>2^31\<close>.

  \<^bold>\<open>Not modelled.\<close> The parts of the drivers that only move bytes between registers and the functions
  modelled here and have no logic of their own: pin setup (\<open>gpio.c\<close>, \<open>gpioperiph.c\<close>, \<open>initial_pins.c\<close>), the USB
  controllers other than \<open>stm32/usbfs.c\<close>, the vendored headers and SDKs under \<open>lib/\<close>, the linker scripts and the host
  tools in Python. Preemption inside a single read-modify-write of a byte is not modelled: such an access is atomic.
\<close>

section \<open>Uploads over the protocol\<close>

lemma f103_serve:
  fixes st :: "f103 stm32_flash app"
  defines "api \<equiv> stm32_flash_api STM32F103 steinzeit f103_hw"
  shows "64 * n \<le> 0xe000 \<Longrightarrow> k \<le> n \<Longrightarrow>
    erased_from (part_memory (fl_dev (flash (app_flashcmd st)))) (0x8002000 + of_nat (64 * k)) (0xe000 - 64 * k) \<Longrightarrow>
    \<exists>st' ms. serve steinzeit api uuid (zip (replicate (n - k) 0) (map (write_request steinzeit img) [k..<n])) st = Some (st', ms) \<and>
      map command_encode_and_frame ms = map (write_ack steinzeit) [k..<n] \<and>
      unat (fl_page_write_count (flash (app_flashcmd st'))) \<le>
        unat (fl_page_write_count (flash (app_flashcmd st))) + (n - k)"
proof (induction "n - k" arbitrary: k st)
  case 0
  then show ?case by simp
next
  case (Suc d)
  then have kn: "k < n" by simp
  let ?a = "upload_address steinzeit k" and ?d = "words_of_bytes (image_block img k)"
  have ua: "unat ?a = 0x8002000 + 64 * k"
    using Suc.prems(1) kn unat_add_nat [of "0x8002000" "64 * k"] by (simp add: upload_address_def)
  have ua': "unat (0x8002000 + of_nat (64 * Suc k) :: u32) = 0x8002000 + 64 * Suc k"
    using Suc.prems(1) kn unat_add_nat [of "0x8002000" "64 * Suc k"] by simp
  have area: "in_app_area steinzeit ?a" using Suc.prems(1) kn ua by (simp add: in_app_area_def)
  have "unat ?a mod 64 = 0" unfolding ua by presburger
  then obtain f where f: "stm32_flash_write_block STM32F103 steinzeit f103_hw ?a ?d (flash (app_flashcmd st)) = Some (0, f)"
      "part_memory (fl_dev f) = mem_write (part_memory (fl_dev (flash (app_flashcmd st)))) ?a (image_block img k)"
      "unat (fl_page_write_count f) \<le> unat (fl_page_write_count (flash (app_flashcmd st))) + 1"
    using f103_write_erased [OF area _ _ refl, of ?d "flash (app_flashcmd st)"] Suc.prems(3) ua
    by (auto simp: upload_address_def)
  obtain st1 ms1 where s1: "command_dispatch steinzeit api uuid 0 (write_request steinzeit img k)
        (length (write_request steinzeit img k)) st = Some (st1, ms1)"
      "map command_encode_and_frame ms1 = [write_ack steinzeit k]" "flash (app_flashcmd st1) = f"
  proof (rule write_request_acked [OF config_ok_steinzeit area _ order.refl])
    show "flash_write_block api ?a ?d (flash (app_flashcmd st)) = Some (0, f)"
      using f(1) by (simp add: api_def)
  qed
  have er: "erased_from (part_memory (fl_dev f)) (0x8002000 + of_nat (64 * Suc k)) (0xe000 - 64 * Suc k)"
    using Suc.prems ua unfolding f(2) erased_from_def FlashApi.span_def ua'
    by (auto simp: mem_write_def unat_sub_if' upload_address_def)
  obtain st' ms where "serve steinzeit api uuid (zip (replicate (n - Suc k) 0)
        (map (write_request steinzeit img) [Suc k..<n])) st1 = Some (st', ms)"
      "map command_encode_and_frame ms = map (write_ack steinzeit) [Suc k..<n]"
      "unat (fl_page_write_count (flash (app_flashcmd st'))) \<le> unat (fl_page_write_count f) + (n - Suc k)"
  proof -
    have "d = n - Suc k" using Suc.hyps(2) by simp
    from Suc.hyps(1) [OF this Suc.prems(1) _ er [folded s1(3)]] kn that s1(3) show ?thesis by auto
  qed
  with s1 kn have "serve steinzeit api uuid (zip (replicate (Suc (n - Suc k)) 0)
        (map (write_request steinzeit img) (k # [Suc k..<n]))) st = Some (st', ms1 @ ms)"
    "map command_encode_and_frame (ms1 @ ms) = map (write_ack steinzeit) (k # [Suc k..<n])"
    by simp_all
  moreover have "Suc (n - Suc k) = n - k" "k # [Suc k..<n] = [k..<n]" using kn by (simp_all add: upt_conv_Cons)
  moreover have "unat (fl_page_write_count (flash (app_flashcmd st'))) \<le>
      unat (fl_page_write_count (flash (app_flashcmd st))) + (n - k)"
    using f(3) \<open>unat (fl_page_write_count (flash (app_flashcmd st'))) \<le> _\<close> kn by linarith
  ultimately show ?case by auto
qed

text \<open>C7: An upload over the protocol boots. Take a bootloader for an STM32 of any of the register
  layouts, on hardware that follows its manual, in any state of its session. If the host sends
  the blocks of a correctly built image in order, possibly repeating a block, and then EOF, and
  every request is answered with its acknowledgement, then the boot-time check accepts the
  application afterwards.\<close>

theorem protocol_upload_boots:
  assumes "stm32_inv m c hw ar pend (flash (app_flashcmd st))" and "image_ok c code variant"
    and "serve c (stm32_flash_api m c hw) uuid
      (zip nows (map (write_request c (flash_image c code version variant)) ks)) st = Some (st1, ms)"
    and "length nows = length ks" and "map command_encode_and_frame ms = map (write_ack c) ks"
    and "in_order 0 ks = Some n" and "length (flash_image c code version variant) \<le> 64 * n"
    and "command_dispatch c (stm32_flash_api m c hw) uuid now (frame 0x13 []) (length (frame 0x13 [])) st1 = Some (st2, ms2)"
    and "map command_encode_and_frame ms2 = [frame 0xa0 [0x13, pages]]"
  shows "appvalidate_verify c (app_memory (stm32_flash_api m c hw) st2) = APP_VALID"
proof (rule verify_flash_image [OF assms(2)])
  have "config_ok c" using assms(1) by (simp add: stm32_inv_def)
  then show "holds_at (app_memory (stm32_flash_api m c hw) st2) (CONFIG_LAUNCH_APP_ADDRESS c)
      (flash_image c code version variant)"
    by (rule flash_progress.served_upload [OF stm32.flash_progress_axioms _ assms(1) assms(3-9)])
qed

definition blank_app :: "f103 stm32_flash app" where
  "blank_app = \<lparr> app_flashcmd = \<lparr> is_in_transfer = False, total_bytes_written = 0, complete_flag = False,
       complete_endtime = 0, flash = blank_f103 \<rparr>,
     app_led = \<lparr> last_time = 0, mode_end = 0, pwm_cnt = 0, bright = 0 \<rparr> \<rparr>"

lemma in_order_upt: "k \<le> n \<Longrightarrow> in_order k [k..<n] = Some n"
  by (induction "n - k" arbitrary: k) (auto simp: upt_rec Suc_diff_Suc)

theorem protocol_upload_boots_witness:
  "\<exists>st1 ms st2 ms2. serve steinzeit (stm32_flash_api STM32F103 steinzeit f103_hw) [1, 2, 3, 4, 5, 6]
      (zip (replicate 17 0) (map (write_request steinzeit (flash_image steinzeit demo_code 7 demo_variant)) [0..<17]))
      blank_app = Some (st1, ms) \<and>
    command_dispatch steinzeit (stm32_flash_api STM32F103 steinzeit f103_hw) [1, 2, 3, 4, 5, 6] 0
      (frame 0x13 []) (length (frame 0x13 [])) st1 = Some (st2, ms2) \<and>
    appvalidate_verify steinzeit (app_memory (stm32_flash_api STM32F103 steinzeit f103_hw) st2) = APP_VALID"
proof -
  let ?api = "stm32_flash_api STM32F103 steinzeit f103_hw" and ?uuid = "[1, 2, 3, 4, 5, 6] :: u8 list"
  let ?img = "flash_image steinzeit demo_code 7 demo_variant"
  obtain st1 ms where s1: "serve steinzeit ?api ?uuid (zip (replicate (17 - 0) 0)
        (map (write_request steinzeit ?img) [0..<17])) blank_app = Some (st1, ms)"
      "map command_encode_and_frame ms = map (write_ack steinzeit) [0..<17]"
      "unat (fl_page_write_count (flash (app_flashcmd st1))) \<le> 17"
    using f103_serve [of 17 0 blank_app ?uuid ?img] blank_erased by (auto simp: blank_app_def blank_f103_def)
  have l: "length ([] :: u32 list) \<le> 30" by simp
  have "\<not> sint (fl_page_write_count (flash (app_flashcmd st1))) < 0"
    using s1(3) by (simp add: sint_less_0_iff)
  then obtain st2 ms2 pages where s2: "command_dispatch steinzeit ?api ?uuid 0 (frame 0x13 []) (length (frame 0x13 [])) st1 =
      Some (st2, ms2)" "map command_encode_and_frame ms2 = [frame 0xa0 [0x13, pages]]"
    unfolding dispatch_frame [OF l] by (simp add: Let_def command_eof_def respond_ack_4)
  have "length ?img \<le> 64 * 17"
    using length_flash_image [OF image_ok_demo] by (simp add: steinzeit_def demo_code_def)
  from protocol_upload_boots [OF f103_inv image_ok_demo s1(1) _ s1(2) in_order_upt [of 0 17] this s2]
  have "appvalidate_verify steinzeit (app_memory ?api st2) = APP_VALID" by simp
  with s1(1) s2(1) show ?thesis by auto
qed

text \<open>C8: Whatever arrives on the wire, the bootloader is safe. Any bytes at all, cut into frames by
  the receiver and dispatched in order, leave every byte below \<open>CONFIG_LAUNCH_APP_ADDRESS\<close> as
  it was: no sequence of commands, valid or not, overwrites the bootloader of an STM32.\<close>

theorem bootloader_never_overwritten:
  assumes "stm32_inv m c hw ar pend (flash (app_flashcmd st))"
    and "map snd reqs = fst (deframe sync wire)"
    and "serve c (stm32_flash_api m c hw) uuid reqs st = Some (st', ms)"
    and "x < CONFIG_LAUNCH_APP_ADDRESS c"
  shows "app_memory (stm32_flash_api m c hw) st' x = app_memory (stm32_flash_api m c hw) st x"
proof -
  have "list_all (\<lambda>x. is_frame (snd x)) reqs"
    using deframe_frames [of sync wire] unfolding assms(2) [symmetric] by (simp add: list_all_iff)
  moreover have "config_ok c" using assms(1) by (simp add: stm32_inv_def)
  ultimately show ?thesis
    using flash_device.serve_protects [OF stm32.flash_device_axioms _ assms(1) _ assms(3)] assms(4) by (auto simp: same_below_def)
qed

theorem bootloader_never_overwritten_witness:
  "\<exists>st' ms. serve steinzeit (stm32_flash_api STM32F103 steinzeit f103_hw) [1, 2, 3, 4, 5, 6]
      [(0, write_request steinzeit demo_code 0)] blank_app = Some (st', ms) \<and>
     map command_encode_and_frame ms = [write_ack steinzeit 0] \<and>
     app_memory (stm32_flash_api STM32F103 steinzeit f103_hw) st' 0x8001fff =
     app_memory (stm32_flash_api STM32F103 steinzeit f103_hw) blank_app 0x8001fff"
proof -
  let ?fs = "[(0x12, upload_address steinzeit 0 # words_of_bytes (image_block demo_code 0))]"
  obtain st' ms where s: "serve steinzeit (stm32_flash_api STM32F103 steinzeit f103_hw) [1, 2, 3, 4, 5, 6]
      [(0, write_request steinzeit demo_code 0)] blank_app = Some (st', ms)"
      "map command_encode_and_frame ms = [write_ack steinzeit 0]"
    using f103_serve [of 1 0 blank_app "[1, 2, 3, 4, 5, 6]" demo_code]
      erased_from_sub [OF blank_erased, of "0x8002000"] blank_erased
    by (auto simp: blank_app_def blank_f103_def)
  have "map snd [(0 :: u32, write_request steinzeit demo_code 0)] = fst (deframe 0 (stream_of ?fs))"
    by (subst deframe_stream) (simp_all add: fits_def write_request_def)
  from bootloader_never_overwritten [OF f103_inv this s(1), of "0x8001fff"] s show ?thesis
    by (simp add: steinzeit_def)
qed

end
